(* ===== verification/GoPrelude.thy ===== *)
theory GoPrelude
  imports Main "HOL-Library.Word"
begin

unbundle bit_operations_syntax

section \<open>Prelude: Go values, byte buffers, readers and writers\<close>

text \<open>
  What every component of the development shares: the machine types of the Go code,
  the big-endian accessors of encoding/binary, byte slices as lists, the in-memory
  reader and writer the codecs are run against, time as nanoseconds, decimal printing,
  and the generic run of a list of operations with its invariant rule.
\<close>

subsection \<open>Machine types\<close>

type_synonym byte = "8 word"
type_synonym u16 = "16 word"
type_synonym u32 = "32 word"
type_synonym u64 = "64 word"
type_synonym bytes = "byte list"

text \<open>
  A Go string is a sequence of bytes; it is a \<^typ>\<open>string\<close> here (a char is 8 bits).
  time.Time and time.Duration are nanosecond counts; time.Now() is an argument of the
  operation that reads the clock.
\<close>

type_synonym time = int
type_synonym duration = int

definition Second :: duration where
  "Second = 1000000000"

definition Millisecond :: duration where
  "Millisecond = 1000000"

definition bytes_of_string :: "string \<Rightarrow> bytes" where
  "bytes_of_string s = map (\<lambda>c. of_nat (of_char c)) s"

lemma length_bytes_of_string [simp]: "length (bytes_of_string s) = length s"
  by (simp add: bytes_of_string_def)

named_theorems codec_simps "evaluation of readers, writers and big-endian accessors"
named_theorems inv_intros "preservation of component invariants by single operations"

subsection \<open>Big-endian integers (encoding/binary)\<close>

text \<open>PutUint16 and PutUint32 give the bytes from the most significant down.\<close>

definition be16 :: "u16 \<Rightarrow> bytes" where
  "be16 w = [ucast (drop_bit 8 w), ucast w]"

definition be32 :: "u32 \<Rightarrow> bytes" where
  "be32 w = [ucast (drop_bit 24 w), ucast (drop_bit 16 w), ucast (drop_bit 8 w), ucast w]"

text \<open>Uint16 and Uint32 of the bytes at an offset.\<close>

definition u16_at :: "bytes \<Rightarrow> nat \<Rightarrow> u16" where
  "u16_at bs i = push_bit 8 (ucast (bs ! i)) OR ucast (bs ! Suc i)"

definition u32_at :: "bytes \<Rightarrow> nat \<Rightarrow> u32" where
  "u32_at bs i = push_bit 24 (ucast (bs ! i)) OR push_bit 16 (ucast (bs ! (i + 1)))
     OR push_bit 8 (ucast (bs ! (i + 2))) OR ucast (bs ! (i + 3))"

lemma length_be16 [simp]: "length (be16 w) = 2"
  by (simp add: be16_def)

lemma length_be32 [simp]: "length (be32 w) = 4"
  by (simp add: be32_def)

lemma u16_join: "push_bit 8 (ucast (ucast (drop_bit 8 w) :: byte)) OR ucast (ucast w :: byte) = (w :: u16)"
  by (rule bit_word_eqI) (auto simp: bit_simps)

lemma u32_join:
  "push_bit 24 (ucast (ucast (drop_bit 24 w) :: byte)) OR push_bit 16 (ucast (ucast (drop_bit 16 w) :: byte))
     OR push_bit 8 (ucast (ucast (drop_bit 8 w) :: byte)) OR ucast (ucast w :: byte) = (w :: u32)"
proof (rule bit_word_eqI)
  fix n :: nat
  assume "n < LENGTH(32)"
  then consider "n < 8" | "8 \<le> n" "n < 16" | "16 \<le> n" "n < 24" | "24 \<le> n" "n < 32"
    by fastforce
  then show "bit (push_bit 24 (ucast (ucast (drop_bit 24 w) :: byte))
      OR push_bit 16 (ucast (ucast (drop_bit 16 w) :: byte))
      OR push_bit 8 (ucast (ucast (drop_bit 8 w) :: byte)) OR ucast (ucast w :: byte) :: u32) n = bit w n"
    by cases (auto simp: bit_simps)
qed

lemma u16_at_be16 [codec_simps]: "u16_at (be16 w @ xs) 0 = w"
  by (simp add: u16_at_def be16_def u16_join)

lemma u32_at_be32 [codec_simps]: "u32_at (be32 w @ xs) 0 = w"
  by (simp add: u32_at_def be32_def numeral_2_eq_2 numeral_3_eq_3 u32_join del: push_bit_of_nat)

lemma u16_at_be16_nil [codec_simps]: "u16_at (be16 w) 0 = w"
  using u16_at_be16 [of w "[]"] by simp

lemma u32_at_be32_nil [codec_simps]: "u32_at (be32 w) 0 = w"
  using u32_at_be32 [of w "[]"] by simp

lemma u16_split_hi: "ucast (drop_bit 8 (push_bit 8 (ucast (a :: byte)) OR ucast (b :: byte) :: u16)) = a"
  by (rule bit_word_eqI) (auto simp: bit_simps dest: bit_imp_le_length)

lemma u16_split_lo: "ucast (push_bit 8 (ucast (a :: byte)) OR ucast (b :: byte) :: u16) = b"
  by (rule bit_word_eqI) (auto simp: bit_simps dest: bit_imp_le_length)

lemma be16_u16_at: "be16 (u16_at [a, b] 0) = [a, b]"
  by (simp add: be16_def u16_at_def u16_split_hi u16_split_lo del: drop_bit_or)

lemma u16_at_append [codec_simps]:
  "length xs \<le> i \<Longrightarrow> u16_at (xs @ ys) i = u16_at ys (i - length xs)"
  by (simp add: u16_at_def nth_append Suc_diff_le)

lemma unat_u16_less: "unat (w :: u16) < 65536"
proof -
  have "unat w < 2 ^ LENGTH(16)" by (rule unsigned_less)
  then show ?thesis by simp
qed

lemma unat_u32_less: "unat (w :: u32) < 4294967296"
proof -
  have "unat w < 2 ^ LENGTH(32)" by (rule unsigned_less)
  then show ?thesis by simp
qed

lemma unat_byte_less: "unat (w :: byte) < 256"
proof -
  have "unat w < 2 ^ LENGTH(8)" by (rule unsigned_less)
  then show ?thesis by simp
qed

subsection \<open>Slices\<close>

text \<open>A slice expression s[lo:hi] with both bounds; None is the run-time panic.\<close>

definition go_slice :: "'a list \<Rightarrow> nat \<Rightarrow> nat \<Rightarrow> 'a list option" where
  "go_slice xs lo hi = (if lo \<le> hi \<and> hi \<le> length xs then Some (take (hi - lo) (drop lo xs)) else None)"

lemma length_go_slice: "go_slice xs lo hi = Some ys \<Longrightarrow> length ys = hi - lo"
  by (auto simp: go_slice_def split: if_splits)

text \<open>copy(dst, src) overwrites a prefix and keeps the length of dst.\<close>

definition go_copy :: "'a list \<Rightarrow> 'a list \<Rightarrow> 'a list" where
  "go_copy dst src = take (length dst) src @ drop (length src) dst"

lemma length_go_copy [simp]: "length (go_copy dst src) = length dst"
  by (simp add: go_copy_def)

lemma go_copy_same: "length src = length dst \<Longrightarrow> go_copy dst src = src"
  by (simp add: go_copy_def)

text \<open>make([]byte, n) is n zero bytes.\<close>

abbreviation zeros :: "nat \<Rightarrow> bytes" where
  "zeros n \<equiv> replicate n 0"

subsection \<open>Readers and writers\<close>

text \<open>
  io.ReadFull on a reader that holds the given bytes and then ends: it returns the bytes
  asked for and what is left, io.EOF when nothing was there, io.ErrUnexpectedEOF when the
  data ended early.
\<close>

datatype io_error = EOF | ErrUnexpectedEOF

definition read_full :: "nat \<Rightarrow> bytes \<Rightarrow> io_error + bytes \<times> bytes" where
  "read_full n r =
     (if n \<le> length r then Inr (take n r, drop n r)
      else if r = [] then Inl EOF else Inl ErrUnexpectedEOF)"

lemma read_full_append [codec_simps]: "length xs = n \<Longrightarrow> read_full n (xs @ r) = Inr (xs, r)"
  by (auto simp: read_full_def)

lemma read_full_exact [codec_simps]: "length xs = n \<Longrightarrow> read_full n xs = Inr (xs, [])"
  using read_full_append [of xs n "[]"] by simp

lemma read_full_1 [codec_simps]: "read_full (Suc 0) (x # r) = Inr ([x], r)"
  by (simp add: read_full_def)

lemma read_full_Inr:
  "read_full n r = Inr (xs, r') \<longleftrightarrow> r = xs @ r' \<and> length xs = n"
  by (auto simp: read_full_def split: if_splits intro: append_take_drop_id [symmetric])

lemma read_full_short: "length r < n \<Longrightarrow> \<exists>e. read_full n r = Inl e"
  by (auto simp: read_full_def)

text \<open>
  An io.Writer: what has been written, and how much more it accepts before it fails
  (None: it never fails). A failing Write has written the part that fitted.
\<close>

record writer =
  wr_out :: bytes
  wr_room :: "nat option"

definition wr_write :: "bytes \<Rightarrow> writer \<Rightarrow> bool \<times> writer" where
  "wr_write bs w =
     (case wr_room w of
        None \<Rightarrow> (True, w\<lparr>wr_out := wr_out w @ bs\<rparr>)
      | Some n \<Rightarrow>
          (if length bs \<le> n
           then (True, w\<lparr>wr_out := wr_out w @ bs, wr_room := Some (n - length bs)\<rparr>)
           else (False, w\<lparr>wr_out := wr_out w @ take n bs, wr_room := Some 0\<rparr>)))"

definition new_buffer :: writer where
  "new_buffer = \<lparr>wr_out = [], wr_room = None\<rparr>"

lemma wr_write_unbounded [codec_simps]:
  "wr_room w = None \<Longrightarrow> wr_write bs w = (True, w\<lparr>wr_out := wr_out w @ bs\<rparr>)"
  by (simp add: wr_write_def)

lemma wr_write_prefix: "wr_write bs w = (ok, w') \<Longrightarrow> \<exists>zs. wr_out w' = wr_out w @ zs"
  by (auto simp: wr_write_def split: option.splits if_splits)

lemma wr_write_True: "wr_write bs w = (True, w') \<Longrightarrow> wr_out w' = wr_out w @ bs"
  by (auto simp: wr_write_def split: option.splits if_splits)

lemma wr_write_False: "wr_write bs w = (False, w') \<Longrightarrow> \<exists>n<length bs. wr_out w' = wr_out w @ take n bs"
  by (auto simp: wr_write_def not_le split: option.splits if_splits)

subsection \<open>Framing\<close>

text \<open>
  A framing of values on a byte stream: what a receiver relies on when it reads one value
  after the other. \<open>dec_stream\<close> is the receive loop, \<open>norm\<close> what padding does to a value.
\<close>

fun dec_stream :: "(bytes \<Rightarrow> 'e + 'a \<times> bytes) \<Rightarrow> nat \<Rightarrow> bytes \<Rightarrow> 'e + 'a list \<times> bytes" where
  "dec_stream dec 0 r = Inr ([], r)"
| "dec_stream dec (Suc n) r =
     (case dec r of
        Inl e \<Rightarrow> Inl e
      | Inr (x, r') \<Rightarrow> (case dec_stream dec n r' of Inl e \<Rightarrow> Inl e | Inr (xs, r'') \<Rightarrow> Inr (x # xs, r'')))"

locale frame_codec =
  fixes frame :: "'a \<Rightarrow> bytes"
    and dec :: "bytes \<Rightarrow> 'e + 'a \<times> bytes"
    and wf :: "'a \<Rightarrow> bool"
    and norm :: "'a \<Rightarrow> 'a"
  assumes dec_frame: "wf x \<Longrightarrow> dec (frame x @ rest) = Inr (norm x, rest)"
    and dec_sound: "dec bs = Inr (x, rest) \<Longrightarrow> wf x \<and> bs = frame x @ rest"
begin

lemma frame_prefix_free:
  assumes "wf x" and "wf y" and "frame x @ r = frame y @ s"
  shows "norm x = norm y \<and> r = s"
  using dec_frame [OF assms(1), of r] dec_frame [OF assms(2), of s] assms(3) by simp

lemma dec_stream_frames:
  "list_all wf xs \<Longrightarrow> dec_stream dec (length xs) (concat (map frame xs) @ rest) = Inr (map norm xs, rest)"
  by (induction xs) (simp_all add: dec_frame)

lemma dec_stream_sound:
  "dec_stream dec n bs = Inr (xs, rest) \<Longrightarrow> list_all wf xs \<and> length xs = n \<and> bs = concat (map frame xs) @ rest"
proof (induction n arbitrary: bs xs)
  case 0
  then show ?case by simp
next
  case (Suc n)
  from Suc.prems obtain x xs' r where "dec bs = Inr (x, r)" "dec_stream dec n r = Inr (xs', rest)" "xs = x # xs'"
    by (auto split: sum.splits)
  with Suc.IH dec_sound show ?case by fastforce
qed

end

subsection \<open>Decimal printing (the verb d of fmt)\<close>

fun dec_of_nat :: "nat \<Rightarrow> string" where
  "dec_of_nat n = (if n < 10 then [char_of (48 + n)] else dec_of_nat (n div 10) @ [char_of (48 + n mod 10)])"

declare dec_of_nat.simps [simp del]

definition dec_value :: "string \<Rightarrow> nat" where
  "dec_value s = foldl (\<lambda>acc c. 10 * acc + (of_char c - 48)) 0 s"

lemma dec_value_dec_of_nat: "dec_value (dec_of_nat n) = n"
proof (induction n rule: dec_of_nat.induct)
  case (1 n)
  show ?case
  proof (cases "n < 10")
    case True
    then show ?thesis by (simp add: dec_of_nat.simps [of n] dec_value_def)
  next
    case False
    have digit: "of_char (char_of (48 + n mod 10) :: char) = 48 + n mod 10" for n :: nat
      by simp
    from False "1.IH" show ?thesis
      by (simp add: dec_of_nat.simps [of n] dec_value_def digit)
  qed
qed

lemma dec_of_nat_inj: "dec_of_nat m = dec_of_nat n \<longleftrightarrow> m = n"
  by (metis dec_value_dec_of_nat)

lemma dec_of_nat_digits: "c \<in> set (dec_of_nat n) \<Longrightarrow> 48 \<le> (of_char c :: nat) \<and> (of_char c :: nat) \<le> 57"
proof (induction n rule: dec_of_nat.induct)
  case (1 n)
  then show ?case
    by (auto simp: dec_of_nat.simps [of n] split: if_splits)
qed

subsection \<open>Runs of operations\<close>

text \<open>
  A component whose operations all keep an invariant keeps it over every sequence of
  operations. Each component interprets this interface on its own step function.
\<close>

locale op_system =
  fixes step :: "'op \<Rightarrow> 's \<Rightarrow> 's"
    and inv :: "'s \<Rightarrow> bool"
  assumes inv_step: "inv s \<Longrightarrow> inv (step x s)"
begin

lemma run_inv: "inv s \<Longrightarrow> inv (fold step xs s)"
  by (induction xs arbitrary: s) (auto intro: inv_step)

end

end
