(* ===== verification/Conversion.thy ===== *)
theory Conversion
  imports GoPrelude
begin

section \<open>pkg/security: checked conversions, comparison, limits\<close>

text \<open>
  The conversions of pkg/security/conversion.go and their unexported twins in helpers.go:
  a Go int or int64 argument is an \<^typ>\<open>int\<close>, an unsigned result a word, a refused
  conversion an error value. Then the constant-time comparison and zeroing, the token
  bucket and the allocation counter of helpers.go.
\<close>

datatype conv_error = ConvNegative int | ConvTooLarge int

abbreviation MaxUint16 :: int where "MaxUint16 \<equiv> 65535"
abbreviation MaxUint32 :: int where "MaxUint32 \<equiv> 4294967295"
abbreviation MaxInt64 :: u64 where "MaxInt64 \<equiv> 9223372036854775807"

subsection \<open>Exported conversions\<close>

text \<open>t.Unix(): whole seconds since the epoch, rounded down.\<close>

definition unix_seconds :: "time \<Rightarrow> int" where
  "unix_seconds t = t div Second"

definition SafeUnixToUint64 :: "time \<Rightarrow> conv_error + u64" where
  "SafeUnixToUint64 t = (let unix = unix_seconds t in
     if unix < 0 then Inl (ConvNegative unix)
     else if unix < 0 then Inl (ConvTooLarge unix)
     else Inr (word_of_int unix))"

definition SafeUnixToUint32 :: "time \<Rightarrow> conv_error + u32" where
  "SafeUnixToUint32 t = (let unix = unix_seconds t in
     if unix < 0 then Inl (ConvNegative unix)
     else if unix > MaxUint32 then Inl (ConvTooLarge unix)
     else Inr (word_of_int unix))"

definition SafeIntToUint64 :: "int \<Rightarrow> conv_error + u64" where
  "SafeIntToUint64 val = (if val < 0 then Inl (ConvNegative val) else Inr (word_of_int val))"

definition SafeIntToUint16 :: "int \<Rightarrow> conv_error + u16" where
  "SafeIntToUint16 val =
     (if val < 0 then Inl (ConvNegative val)
      else if val > MaxUint16 then Inl (ConvTooLarge val)
      else Inr (word_of_int val))"

definition SafeInt64ToUint64 :: "int \<Rightarrow> conv_error + u64" where
  "SafeInt64ToUint64 val = (if val < 0 then Inl (ConvNegative val) else Inr (word_of_int val))"

definition SafeUint64ToInt64 :: "u64 \<Rightarrow> conv_error + int" where
  "SafeUint64ToInt64 val =
     (if val > MaxInt64 then Inl (ConvTooLarge (uint val)) else Inr (sint val))"

definition SafeIntToUint32 :: "int \<Rightarrow> conv_error + u32" where
  "SafeIntToUint32 val =
     (if val < 0 then Inl (ConvNegative val)
      else if val > MaxUint32 then Inl (ConvTooLarge val)
      else Inr (word_of_int val))"

definition SafeLenToUint16 :: "bytes \<Rightarrow> conv_error + u16" where
  "SafeLenToUint16 data = SafeIntToUint16 (int (length data))"

subsection \<open>Unexported conversions of helpers.go\<close>

definition safeInt64ToUint64 :: "int \<Rightarrow> conv_error + u64" where
  "safeInt64ToUint64 val = (if val < 0 then Inl (ConvNegative val) else Inr (word_of_int val))"

definition safeInt64ToUint32 :: "int \<Rightarrow> conv_error + u32" where
  "safeInt64ToUint32 val =
     (if val < 0 then Inl (ConvNegative val)
      else if val > MaxUint32 then Inl (ConvTooLarge val)
      else Inr (word_of_int val))"

definition safeIntToUint16 :: "int \<Rightarrow> conv_error + u16" where
  "safeIntToUint16 val =
     (if val < 0 then Inl (ConvNegative val)
      else if val > MaxUint16 then Inl (ConvTooLarge val)
      else Inr (word_of_int val))"

lemma uint_word_of_int_eq:
  assumes "0 \<le> v" and "v < 2 ^ LENGTH('a::len)"
  shows "uint (word_of_int v :: 'a word) = v"
  using assms by (simp add: uint_word_of_int take_bit_int_eq_self)

lemma uint16_exact: "SafeIntToUint16 v = Inr w \<longleftrightarrow> uint w = v"
proof
  assume "SafeIntToUint16 v = Inr w"
  then have "0 \<le> v" "v < 2 ^ LENGTH(16)" "w = word_of_int v"
    by (auto simp: SafeIntToUint16_def split: if_splits)
  then show "uint w = v" using uint_word_of_int_eq [of v, where 'a = 16] by simp
next
  assume "uint w = v"
  moreover have "0 \<le> uint w" "uint w < 65536" using uint_lt2p [of w] by auto
  ultimately show "SafeIntToUint16 v = Inr w"
    by (auto simp: SafeIntToUint16_def)
qed

lemma uint32_exact: "SafeIntToUint32 v = Inr w \<longleftrightarrow> uint w = v"
proof
  assume "SafeIntToUint32 v = Inr w"
  then have "0 \<le> v" "v < 2 ^ LENGTH(32)" "w = word_of_int v"
    by (auto simp: SafeIntToUint32_def split: if_splits)
  then show "uint w = v" using uint_word_of_int_eq [of v, where 'a = 32] by simp
next
  assume "uint w = v"
  moreover have "0 \<le> uint w" "uint w < 4294967296" using uint_lt2p [of w] by auto
  ultimately show "SafeIntToUint32 v = Inr w"
    by (auto simp: SafeIntToUint32_def)
qed

lemma uint64_exact: "v < 2 ^ 64 \<Longrightarrow> SafeIntToUint64 v = Inr w \<longleftrightarrow> uint w = v"
  using uint_lt2p [of w] uint_word_of_int_eq [of v, where 'a = 64]
  by (auto simp: SafeIntToUint64_def)

lemma int64_exact: "SafeUint64ToInt64 w = Inr v \<longleftrightarrow> uint w = v \<and> v < 2 ^ 63"
proof -
  have "\<not> w > MaxInt64 \<longleftrightarrow> uint w < 2 ^ 63" by (auto simp: word_less_def)
  moreover have "uint w < 2 ^ 63 \<Longrightarrow> sint w = uint w"
    using order.trans [OF _ uint_ge_0, of "- (2 ^ 63)" w]
    by (simp add: sint_uint signed_take_bit_int_eq_self_iff)
  ultimately show ?thesis by (auto simp: SafeUint64ToInt64_def)
qed

lemma len16_Inr [codec_simps]:
  "length xs \<le> 65535 \<Longrightarrow> SafeLenToUint16 xs = Inr (of_nat (length xs))"
  by (simp add: SafeLenToUint16_def SafeIntToUint16_def)

lemma len16_Inl: "length xs > 65535 \<Longrightarrow> SafeLenToUint16 xs = Inl (ConvTooLarge (int (length xs)))"
  by (simp add: SafeLenToUint16_def SafeIntToUint16_def)

lemma unat_len16 [codec_simps]: "n \<le> 65535 \<Longrightarrow> unat (of_nat n :: u16) = n"
  by (simp add: unat_of_nat take_bit_nat_eq_self)

lemma helpers_agree:
  "safeInt64ToUint64 = SafeInt64ToUint64" "safeInt64ToUint32 = SafeIntToUint32"
  "safeIntToUint16 = SafeIntToUint16" "SafeInt64ToUint64 = SafeIntToUint64"
  by (auto simp: fun_eq_iff safeInt64ToUint64_def SafeInt64ToUint64_def safeInt64ToUint32_def
      SafeIntToUint32_def safeIntToUint16_def SafeIntToUint16_def SafeIntToUint64_def)

subsection \<open>Comparison and zeroing\<close>

text \<open>crypto/subtle.ConstantTimeCompare: 1 when lengths and contents agree, else 0.\<close>

definition subtle_ConstantTimeCompare :: "bytes \<Rightarrow> bytes \<Rightarrow> int" where
  "subtle_ConstantTimeCompare a b = (if a = b then 1 else 0)"

definition ConstantTimeCompare :: "bytes \<Rightarrow> bytes \<Rightarrow> bool" where
  "ConstantTimeCompare a b \<longleftrightarrow> subtle_ConstantTimeCompare a b = 1"

definition helpers_constantTimeCompare :: "bytes \<Rightarrow> bytes \<Rightarrow> bool" where
  "helpers_constantTimeCompare a b \<longleftrightarrow>
     (if length a \<noteq> length b then False else subtle_ConstantTimeCompare a b = 1)"

lemma ConstantTimeCompare_eq [simp]: "ConstantTimeCompare a b \<longleftrightarrow> a = b"
  by (simp add: ConstantTimeCompare_def subtle_ConstantTimeCompare_def)

lemma helpers_compare_agrees: "helpers_constantTimeCompare = ConstantTimeCompare"
  by (auto simp: fun_eq_iff helpers_constantTimeCompare_def subtle_ConstantTimeCompare_def)

text \<open>A slice that may be nil is an option; the buffer after the call is returned.\<close>

definition SecureZeroMemory :: "bytes option \<Rightarrow> bytes option" where
  "SecureZeroMemory data = (case data of None \<Rightarrow> None | Some bs \<Rightarrow> Some (map (\<lambda>_. 0) bs))"

lemma SecureZeroMemory_zeros: "SecureZeroMemory (Some bs) = Some (zeros (length bs))"
  by (simp add: SecureZeroMemory_def map_replicate_const)

subsection \<open>Cell input validation\<close>

datatype cell_input_error = NilInput | CellTooShort nat | CellTooLong nat

definition validateCellInput :: "bytes option \<Rightarrow> cell_input_error option" where
  "validateCellInput data =
     (case data of None \<Rightarrow> Some NilInput
      | Some bs \<Rightarrow>
          if length bs < 5 then Some (CellTooShort (length bs))
          else if length bs > 65535 then Some (CellTooLong (length bs))
          else None)"

subsection \<open>Token bucket\<close>

record RateLimiter =
  rl_tokens :: int
  rl_maxTokens :: int
  rl_refillAt :: time
  rl_interval :: duration

definition newRateLimiter :: "time \<Rightarrow> int \<Rightarrow> duration \<Rightarrow> RateLimiter" where
  "newRateLimiter now maxTokens interval =
     \<lparr>rl_tokens = maxTokens, rl_maxTokens = maxTokens,
      rl_refillAt = now + interval, rl_interval = interval\<rparr>"

definition RateLimiter_Allow :: "time \<Rightarrow> RateLimiter \<Rightarrow> bool \<times> RateLimiter" where
  "RateLimiter_Allow now rl =
     (let rl1 = (if now > rl_refillAt rl
                 then rl\<lparr>rl_tokens := rl_maxTokens rl, rl_refillAt := now + rl_interval rl\<rparr>
                 else rl)
      in if rl_tokens rl1 > 0 then (True, rl1\<lparr>rl_tokens := rl_tokens rl1 - 1\<rparr>)
         else (False, rl1))"

definition rl_ok :: "RateLimiter \<Rightarrow> bool" where
  "rl_ok rl \<longleftrightarrow> 0 \<le> rl_tokens rl \<and> rl_tokens rl \<le> rl_maxTokens rl"

lemma rl_ok_new: "0 \<le> n \<Longrightarrow> rl_ok (newRateLimiter now n d)"
  by (simp add: rl_ok_def newRateLimiter_def)

lemma rl_ok_Allow [inv_intros]: "rl_ok rl \<Longrightarrow> rl_ok (snd (RateLimiter_Allow now rl))"
  by (auto simp: rl_ok_def RateLimiter_Allow_def Let_def)

interpretation rl_sys: op_system "\<lambda>now rl. snd (RateLimiter_Allow now rl)" rl_ok
  by unfold_locales (rule rl_ok_Allow)

text \<open>The requests granted over a run of calls.\<close>

fun rl_granted :: "time list \<Rightarrow> RateLimiter \<Rightarrow> nat" where
  "rl_granted [] rl = 0"
| "rl_granted (now # ts) rl =
     (case RateLimiter_Allow now rl of (b, rl') \<Rightarrow> (if b then 1 else 0) + rl_granted ts rl')"

lemma rl_granted_window:
  "rl_ok rl \<Longrightarrow> (\<And>t. t \<in> set ts \<Longrightarrow> t \<le> rl_refillAt rl) \<Longrightarrow> int (rl_granted ts rl) \<le> rl_tokens rl"
proof (induction ts arbitrary: rl)
  case Nil
  then show ?case by (simp add: rl_ok_def)
next
  case (Cons now ts)
  show ?case
  proof (cases "rl_tokens rl > 0")
    case True
    let ?rl = "rl\<lparr>rl_tokens := rl_tokens rl - 1\<rparr>"
    have "rl_ok ?rl" using Cons.prems(1) True by (simp add: rl_ok_def)
    then have "int (rl_granted ts ?rl) \<le> rl_tokens ?rl"
      by (rule Cons.IH) (use Cons.prems(2) in auto)
    with True Cons.prems(2) [of now] show ?thesis by (auto simp: RateLimiter_Allow_def Let_def)
  next
    case False
    have "int (rl_granted ts rl) \<le> rl_tokens rl"
      by (rule Cons.IH) (use Cons.prems in auto)
    with False Cons.prems(2) [of now] show ?thesis by (auto simp: RateLimiter_Allow_def Let_def)
  qed
qed

subsection \<open>Allocation counter\<close>

record ResourceManager =
  rm_limit :: int
  rm_current :: int

definition newResourceManager :: "int \<Rightarrow> ResourceManager" where
  "newResourceManager limit = \<lparr>rm_limit = limit, rm_current = 0\<rparr>"

definition ResourceManager_Allocate :: "ResourceManager \<Rightarrow> bool \<times> ResourceManager" where
  \<comment> \<open>False is the error "resource limit exceeded".\<close>
  "ResourceManager_Allocate rm =
     (if rm_current rm \<ge> rm_limit rm then (False, rm)
      else (True, rm\<lparr>rm_current := rm_current rm + 1\<rparr>))"

definition ResourceManager_Release :: "ResourceManager \<Rightarrow> ResourceManager" where
  "ResourceManager_Release rm =
     (if rm_current rm > 0 then rm\<lparr>rm_current := rm_current rm - 1\<rparr> else rm)"

datatype rm_op = RmAllocate | RmRelease

fun rm_step :: "rm_op \<Rightarrow> ResourceManager \<Rightarrow> ResourceManager" where
  "rm_step RmAllocate rm = snd (ResourceManager_Allocate rm)"
| "rm_step RmRelease rm = ResourceManager_Release rm"

definition rm_ok :: "ResourceManager \<Rightarrow> bool" where
  "rm_ok rm \<longleftrightarrow> 0 \<le> rm_current rm \<and> rm_current rm \<le> rm_limit rm"

interpretation rm_sys: op_system rm_step rm_ok
proof
  fix s x
  assume "rm_ok s"
  then show "rm_ok (rm_step x s)"
    by (cases x) (auto simp: rm_ok_def ResourceManager_Allocate_def ResourceManager_Release_def)
qed

end
