(* ===== verification/Cell.thy ===== *)
theory Cell
  imports Conversion
begin

section \<open>pkg/cell/cell.go: link cells\<close>

text \<open>
  The cell, its commands, Encode against a writer that may fail at any byte, and
  DecodeCell from a reader. A fixed-size cell is 4 + 1 + 509 bytes; a command of 128 or
  more carries a two-byte length instead of padding. The framing interface
  \<open>frame_codec\<close> states what a connection relies on; it is interpreted on the two
  functions of the code.
\<close>

subsection \<open>Constants and the cell\<close>

definition CircIDLen :: nat where "CircIDLen = 4"
definition CmdLen :: nat where "CmdLen = 1"
definition PayloadLen :: nat where "PayloadLen = 509"
definition CellLen :: nat where "CellLen = CircIDLen + CmdLen + PayloadLen"

lemmas cell_consts [simp] = CircIDLen_def CmdLen_def PayloadLen_def CellLen_def

abbreviation CmdPadding :: byte where "CmdPadding \<equiv> 0"
abbreviation CmdCreate :: byte where "CmdCreate \<equiv> 1"
abbreviation CmdCreated :: byte where "CmdCreated \<equiv> 2"
abbreviation CmdRelay :: byte where "CmdRelay \<equiv> 3"
abbreviation CmdDestroy :: byte where "CmdDestroy \<equiv> 4"
abbreviation CmdCreateFast :: byte where "CmdCreateFast \<equiv> 5"
abbreviation CmdCreatedFast :: byte where "CmdCreatedFast \<equiv> 6"
abbreviation CmdVersions :: byte where "CmdVersions \<equiv> 7"
abbreviation CmdNetinfo :: byte where "CmdNetinfo \<equiv> 8"
abbreviation CmdRelayEarly :: byte where "CmdRelayEarly \<equiv> 9"
abbreviation CmdCreate2 :: byte where "CmdCreate2 \<equiv> 10"
abbreviation CmdCreated2 :: byte where "CmdCreated2 \<equiv> 11"
abbreviation CmdVPadding :: byte where "CmdVPadding \<equiv> 128"
abbreviation CmdCerts :: byte where "CmdCerts \<equiv> 129"
abbreviation CmdAuthChallenge :: byte where "CmdAuthChallenge \<equiv> 130"
abbreviation CmdAuthenticate :: byte where "CmdAuthenticate \<equiv> 131"
abbreviation CmdAuthorize :: byte where "CmdAuthorize \<equiv> 132"

record cell =
  CircID :: u32
  Command :: byte
  Payload :: bytes

definition IsVariableLength :: "byte \<Rightarrow> bool" where
  "IsVariableLength c \<longleftrightarrow> c \<ge> 128"

definition Command_String :: "byte \<Rightarrow> string" where
  "Command_String c =
     (if c = CmdPadding then ''PADDING''
      else if c = CmdCreate then ''CREATE''
      else if c = CmdCreated then ''CREATED''
      else if c = CmdRelay then ''RELAY''
      else if c = CmdDestroy then ''DESTROY''
      else if c = CmdCreateFast then ''CREATE_FAST''
      else if c = CmdCreatedFast then ''CREATED_FAST''
      else if c = CmdVersions then ''VERSIONS''
      else if c = CmdNetinfo then ''NETINFO''
      else if c = CmdRelayEarly then ''RELAY_EARLY''
      else if c = CmdCreate2 then ''CREATE2''
      else if c = CmdCreated2 then ''CREATED2''
      else if c = CmdVPadding then ''VPADDING''
      else if c = CmdCerts then ''CERTS''
      else if c = CmdAuthChallenge then ''AUTH_CHALLENGE''
      else if c = CmdAuthenticate then ''AUTHENTICATE''
      else if c = CmdAuthorize then ''AUTHORIZE''
      else ''UNKNOWN('' @ dec_of_nat (unat c) @ '')'')"

definition NewCell :: "u32 \<Rightarrow> byte \<Rightarrow> cell" where
  "NewCell circID cmd = \<lparr>CircID = circID, Command = cmd, Payload = []\<rparr>"

subsection \<open>Encode\<close>

datatype cell_enc_error =
    EncCircID | EncCommand | EncTooLarge conv_error | EncLength | EncPayload | EncPadding

definition cell_write_length :: "cell \<Rightarrow> writer \<Rightarrow> cell_enc_error option \<times> writer" where
  "cell_write_length c w =
     (if IsVariableLength (Command c)
      then (case SafeLenToUint16 (Payload c) of
              Inl e \<Rightarrow> (Some (EncTooLarge e), w)
            | Inr n \<Rightarrow> (let (ok, w') = wr_write (be16 n) w in (if ok then None else Some EncLength, w')))
      else (None, w))"

definition cell_write_padding :: "cell \<Rightarrow> writer \<Rightarrow> cell_enc_error option \<times> writer" where
  "cell_write_padding c w =
     (if \<not> IsVariableLength (Command c)
      then (let padding = int PayloadLen - int (length (Payload c)) in
            if padding > 0
            then (let (ok, w') = wr_write (zeros (nat padding)) w in (if ok then None else Some EncPadding, w'))
            else (None, w))
      else (None, w))"

definition cell_Encode :: "cell \<Rightarrow> writer \<Rightarrow> cell_enc_error option \<times> writer" where
  "cell_Encode c w =
     (let (ok1, w1) = wr_write (be32 (CircID c)) w in
      if \<not> ok1 then (Some EncCircID, w1) else
      let (ok2, w2) = wr_write [Command c] w1 in
      if \<not> ok2 then (Some EncCommand, w2) else
      let (e3, w3) = cell_write_length c w2 in
      if e3 \<noteq> None then (e3, w3) else
      let (ok4, w4) = wr_write (Payload c) w3 in
      if \<not> ok4 then (Some EncPayload, w4) else
      cell_write_padding c w4)"

subsection \<open>DecodeCell\<close>

datatype cell_dec_error =
    DecCircID io_error | DecCommand io_error | DecLength io_error
  | DecVarPayload io_error | DecFixedPayload io_error

definition DecodeCell :: "bytes \<Rightarrow> cell_dec_error + cell \<times> bytes" where
  "DecodeCell r =
     (case read_full 4 r of
        Inl e \<Rightarrow> Inl (DecCircID e)
      | Inr (idb, r1) \<Rightarrow>
     (case read_full 1 r1 of
        Inl e \<Rightarrow> Inl (DecCommand e)
      | Inr (cmdb, r2) \<Rightarrow>
     (let circID = u32_at idb 0; cmd = cmdb ! 0 in
      if IsVariableLength cmd
      then (case read_full 2 r2 of
              Inl e \<Rightarrow> Inl (DecLength e)
            | Inr (lenb, r3) \<Rightarrow>
           (case read_full (unat (u16_at lenb 0)) r3 of
              Inl e \<Rightarrow> Inl (DecVarPayload e)
            | Inr (p, r4) \<Rightarrow> Inr (\<lparr>CircID = circID, Command = cmd, Payload = p\<rparr>, r4)))
      else (case read_full PayloadLen r2 of
              Inl e \<Rightarrow> Inl (DecFixedPayload e)
            | Inr (p, r3) \<Rightarrow> Inr (\<lparr>CircID = circID, Command = cmd, Payload = p\<rparr>, r3)))))"

subsection \<open>The frame a cell stands for\<close>

text \<open>What a well-formed cell looks like on the wire, and what it decodes to.\<close>

definition cell_wf :: "cell \<Rightarrow> bool" where
  "cell_wf c \<longleftrightarrow>
     length (Payload c) \<le> (if IsVariableLength (Command c) then 65535 else PayloadLen)"

definition cell_frame :: "cell \<Rightarrow> bytes" where
  "cell_frame c = be32 (CircID c) @ [Command c] @
     (if IsVariableLength (Command c)
      then be16 (of_nat (length (Payload c))) @ Payload c
      else Payload c @ zeros (PayloadLen - length (Payload c)))"

definition cell_padded :: "cell \<Rightarrow> cell" where
  "cell_padded c =
     (if IsVariableLength (Command c) then c
      else c\<lparr>Payload := Payload c @ zeros (PayloadLen - length (Payload c))\<rparr>)"

lemma cell_Encode_unbounded:
  assumes "wr_room w = None" and "cell_wf c"
  shows "cell_Encode c w = (None, w\<lparr>wr_out := wr_out w @ cell_frame c\<rparr>)"
  using assms
  by (simp add: cell_Encode_def cell_write_length_def cell_write_padding_def cell_frame_def
      cell_wf_def codec_simps nat_diff_distrib' split: if_splits)

lemma DecodeCell_frame:
  assumes "cell_wf c"
  shows "DecodeCell (cell_frame c @ rest) = Inr (cell_padded c, rest)"
proof (cases "IsVariableLength (Command c)")
  case True
  with assms show ?thesis
    by (simp add: DecodeCell_def cell_frame_def cell_padded_def cell_wf_def codec_simps Let_def)
next
  case False
  have pad: "read_full 509 (Payload c @ zeros (509 - length (Payload c)) @ rest)
      = Inr (Payload c @ zeros (509 - length (Payload c)), rest)"
    using read_full_append [of "Payload c @ zeros (509 - length (Payload c))" 509 rest] False assms
    by (simp add: cell_wf_def)
  from False assms show ?thesis
    by (simp add: DecodeCell_def cell_frame_def cell_padded_def cell_wf_def codec_simps pad Let_def)
qed

text \<open>A decoded cell is well-formed and its frame is exactly what was consumed.\<close>

lemma u32_bytes:
  assumes "length bs = 4"
  shows "be32 (u32_at bs 0) = bs"
proof -
  from assms obtain a b c d where bs: "bs = [a, b, c, d]"
    by (auto simp: length_Suc_conv eval_nat_numeral)
  let ?w = "push_bit 24 (ucast a) OR push_bit 16 (ucast b) OR push_bit 8 (ucast c) OR ucast d :: u32"
  have "ucast (drop_bit 24 ?w) = a" "ucast (drop_bit 16 ?w) = b" "ucast (drop_bit 8 ?w) = c" "ucast ?w = d"
    by (rule bit_word_eqI; auto simp: bit_simps dest: bit_imp_le_length)+
  then show ?thesis
    by (simp add: bs be32_def u32_at_def numeral_2_eq_2 numeral_3_eq_3 del: drop_bit_or)
qed

lemma u16_bytes:
  assumes "length bs = 2"
  shows "be16 (u16_at bs 0) = bs"
proof -
  from assms obtain a b where "bs = [a, b]"
    by (auto simp: length_Suc_conv eval_nat_numeral)
  then show ?thesis by (simp add: be16_u16_at)
qed

lemma DecodeCell_exact:
  assumes "DecodeCell bs = Inr (c, rest)"
  shows "cell_wf c \<and> bs = cell_frame c @ rest"
proof -
  from assms obtain idb r1 cmdb r2 where
    1: "bs = idb @ r1" "length idb = 4" and 2: "r1 = cmdb @ r2" "length cmdb = 1"
    by (auto simp: DecodeCell_def read_full_Inr split: sum.splits)
  have cmd: "cmdb = [cmdb ! 0]" using 2 by (cases cmdb) auto
  show ?thesis
  proof (cases "IsVariableLength (cmdb ! 0)")
    case True
    from assms 1 2 True obtain lenb r3 p where
      3: "r2 = lenb @ r3" "length lenb = 2" and
      4: "r3 = p @ rest" "length p = unat (u16_at lenb 0)" and
      c: "c = \<lparr>CircID = u32_at idb 0, Command = cmdb ! 0, Payload = p\<rparr>"
      by (auto simp: DecodeCell_def Let_def codec_simps read_full_Inr split: sum.splits)
    have "be16 (of_nat (length p)) = lenb" using 3 4 by (simp add: u16_bytes)
    moreover have "length p \<le> 65535" using 4(2) unat_u16_less [of "u16_at lenb 0"] by simp
    ultimately show ?thesis
      using True 1 2 3 4 cmd by (simp add: c cell_wf_def cell_frame_def u32_bytes)
  next
    case False
    from assms 1 2 False obtain p where
      3: "r2 = p @ rest" "length p = 509" and
      c: "c = \<lparr>CircID = u32_at idb 0, Command = cmdb ! 0, Payload = p\<rparr>"
      by (auto simp: DecodeCell_def Let_def codec_simps read_full_Inr split: sum.splits)
    then show ?thesis
      using False 1 2 cmd by (simp add: c cell_wf_def cell_frame_def u32_bytes)
  qed
qed

interpretation cell_codec: frame_codec cell_frame DecodeCell cell_wf cell_padded
  by unfold_locales (auto simp: DecodeCell_frame dest: DecodeCell_exact)

subsection \<open>Writers that fail\<close>

text \<open>
  A chain of writes leaves a prefix of what it would have written; it is the whole when
  no write failed. \<open>wrote w w' frame e\<close> says so for the error value e.
\<close>

definition wrote :: "writer \<Rightarrow> writer \<Rightarrow> bytes \<Rightarrow> bool \<Rightarrow> bool" where
  "wrote w w' bs ok \<longleftrightarrow> (\<exists>n \<le> length bs. wr_out w' = wr_out w @ take n bs \<and> (ok \<longleftrightarrow> n = length bs))"

lemma wrote_write: "wr_write bs w = (ok, w') \<Longrightarrow> wrote w w' bs ok"
proof (cases ok)
  case True
  moreover assume "wr_write bs w = (ok, w')"
  ultimately show ?thesis using wr_write_True [of bs w w'] by (auto simp: wrote_def)
next
  case False
  moreover assume "wr_write bs w = (ok, w')"
  ultimately obtain n where "n < length bs" "wr_out w' = wr_out w @ take n bs"
    using wr_write_False [of bs w w'] by auto
  with False show ?thesis by (auto simp: wrote_def intro!: exI [of _ n])
qed

lemma wrote_nil: "wrote w w [] True"
  by (simp add: wrote_def)

lemma wrote_then:
  assumes "wrote w w1 xs True" and "wrote w1 w2 ys ok"
  shows "wrote w w2 (xs @ ys) ok"
proof -
  from assms(2) obtain n where "n \<le> length ys" "wr_out w2 = wr_out w1 @ take n ys" "ok \<longleftrightarrow> n = length ys"
    by (auto simp: wrote_def)
  moreover from assms(1) have "wr_out w1 = wr_out w @ xs" by (auto simp: wrote_def)
  ultimately show ?thesis by (auto simp: wrote_def intro!: exI [of _ "length xs + n"])
qed

lemma wrote_stop:
  assumes "wrote w w1 xs False"
  shows "wrote w w1 (xs @ ys) False"
proof -
  from assms obtain n where "n < length xs" "wr_out w1 = wr_out w @ take n xs"
    by (auto simp: wrote_def le_less)
  then show ?thesis by (auto simp: wrote_def intro!: exI [of _ n])
qed

lemma wrote_length:
  assumes "cell_write_length c w = (e, w')" and "cell_wf c"
  shows "wrote w w' (if IsVariableLength (Command c) then be16 (of_nat (length (Payload c))) else []) (e = None)"
  using assms
  by (auto simp: cell_write_length_def cell_wf_def codec_simps wrote_nil
      split: if_splits prod.splits dest!: wrote_write)

lemma wrote_padding:
  assumes "cell_write_padding c w = (e, w')"
  shows "wrote w w' (if IsVariableLength (Command c) then [] else zeros (PayloadLen - length (Payload c))) (e = None)"
proof (cases "IsVariableLength (Command c) \<or> length (Payload c) \<ge> 509")
  case True
  with assms show ?thesis by (auto simp: cell_write_padding_def wrote_nil)
next
  case False
  then have "nat (509 - int (length (Payload c))) = 509 - length (Payload c)" by simp
  with False assms show ?thesis
    by (auto simp: cell_write_padding_def Let_def split: if_splits prod.splits dest!: wrote_write)
qed

lemma cell_frame_parts:
  "cell_frame c = be32 (CircID c) @ [Command c] @
     (if IsVariableLength (Command c) then be16 (of_nat (length (Payload c))) else []) @ Payload c @
     (if IsVariableLength (Command c) then [] else zeros (PayloadLen - length (Payload c)))"
  by (simp add: cell_frame_def)

lemma wrote_cell:
  assumes enc: "cell_Encode c w = (e, w')" and wf: "cell_wf c"
  shows "wrote w w' (cell_frame c) (e = None)"
proof -
  obtain ok1 w1 where 1: "wr_write (be32 (CircID c)) w = (ok1, w1)" by fastforce
  obtain ok2 w2 where 2: "wr_write [Command c] w1 = (ok2, w2)" by fastforce
  obtain e3 w3 where 3: "cell_write_length c w2 = (e3, w3)" by fastforce
  obtain ok4 w4 where 4: "wr_write (Payload c) w3 = (ok4, w4)" by fastforce
  obtain e5 w5 where 5: "cell_write_padding c w4 = (e5, w5)" by fastforce
  note steps = wrote_write [OF 1] wrote_write [OF 2] wrote_length [OF 3 wf]
    wrote_write [OF 4] wrote_padding [OF 5]
  let ?len = "if IsVariableLength (Command c) then be16 (of_nat (length (Payload c))) else []"
  consider "ok1 \<and> ok2 \<and> e3 = None \<and> ok4" "e = e5" "w' = w5"
    | "\<not> ok1" "e \<noteq> None" "w' = w1"
    | "ok1" "\<not> ok2" "e \<noteq> None" "w' = w2"
    | "ok1" "ok2" "e3 \<noteq> None" "e \<noteq> None" "w' = w3"
    | "ok1" "ok2" "e3 = None" "\<not> ok4" "e \<noteq> None" "w' = w4"
    using enc 1 2 3 4 5 by (auto simp: cell_Encode_def split: if_splits)
  then show ?thesis
  proof cases
    case 1
    with steps have "wrote w w1 (be32 (CircID c)) True" "wrote w1 w2 [Command c] True"
      "wrote w2 w3 ?len True" "wrote w3 w4 (Payload c) True" by simp_all
    then show ?thesis unfolding 1 cell_frame_parts using steps(5) by (blast intro: wrote_then)
  next
    case 2
    with steps(1) show ?thesis unfolding cell_frame_parts by (auto intro: wrote_stop simp del: append_Cons)
  next
    case 3
    with steps have "wrote w w1 (be32 (CircID c)) True" "wrote w1 w2 [Command c] False" by simp_all
    then show ?thesis unfolding cell_frame_parts using 3 by (simp only: simp_thms) (blast intro: wrote_then wrote_stop)
  next
    case 4
    with steps have "wrote w w1 (be32 (CircID c)) True" "wrote w1 w2 [Command c] True"
      "wrote w2 w3 ?len False" by simp_all
    then show ?thesis unfolding cell_frame_parts using 4 by (simp only: simp_thms) (blast intro: wrote_then wrote_stop)
  next
    case 5
    with steps have "wrote w w1 (be32 (CircID c)) True" "wrote w1 w2 [Command c] True"
      "wrote w2 w3 ?len True" "wrote w3 w4 (Payload c) False" by simp_all
    then show ?thesis unfolding cell_frame_parts using 5 by (simp only: simp_thms) (blast intro: wrote_then wrote_stop)
  qed
qed

subsection \<open>Properties\<close>

text \<open>Sending cells one after the other on one writer.\<close>

fun cell_Encode_all :: "cell list \<Rightarrow> writer \<Rightarrow> cell_enc_error option \<times> writer" where
  "cell_Encode_all [] w = (None, w)"
| "cell_Encode_all (c # cs) w =
     (let (e, w') = cell_Encode c w in if e = None then cell_Encode_all cs w' else (e, w'))"

lemma cell_Encode_all_unbounded:
  "wr_room w = None \<Longrightarrow> list_all cell_wf cs \<Longrightarrow>
     cell_Encode_all cs w = (None, w\<lparr>wr_out := wr_out w @ concat (map cell_frame cs)\<rparr>)"
  by (induction cs arbitrary: w) (simp_all add: cell_Encode_unbounded)

text \<open>
  C6: Link-cell streams round-trip: encoding any list of well-formed cells onto one writer
  succeeds, and decoding that many cells from the bytes written gives back the same cells
  in order (fixed-size payloads zero-padded to 509 bytes) and consumes every byte.
\<close>

theorem cell_stream_roundtrip:
  assumes "list_all cell_wf cs"
  shows "\<exists>w. cell_Encode_all cs new_buffer = (None, w) \<and>
           dec_stream DecodeCell (length cs) (wr_out w) = Inr (map cell_padded cs, [])"
  using assms cell_codec.dec_stream_frames [OF assms, of "[]"]
  by (simp add: cell_Encode_all_unbounded new_buffer_def)

theorem cell_stream_roundtrip_witness:
  "\<exists>w. cell_Encode_all [NewCell 7 CmdDestroy, \<lparr>CircID = 9, Command = CmdCerts, Payload = [1, 2]\<rparr>] new_buffer = (None, w) \<and>
     dec_stream DecodeCell (length [NewCell 7 CmdDestroy, \<lparr>CircID = 9, Command = CmdCerts, Payload = [1, 2]\<rparr>]) (wr_out w)
       = Inr (map cell_padded [NewCell 7 CmdDestroy, \<lparr>CircID = 9, Command = CmdCerts, Payload = [1, 2]\<rparr>], [])"
  by (rule cell_stream_roundtrip) (simp add: cell_wf_def NewCell_def IsVariableLength_def)

text \<open>
  Decoding is exact: whatever DecodeCell accepts, encoding the decoded cell writes
  back precisely the bytes that were consumed, so no two byte streams decode to the same
  cell and nothing is read past the frame.
\<close>

lemma decode_cell_exact:
  assumes "DecodeCell bs = Inr (c, rest)"
  shows "\<exists>w. cell_Encode c new_buffer = (None, w) \<and> bs = wr_out w @ rest"
  using DecodeCell_exact [OF assms]
  by (simp add: cell_Encode_unbounded new_buffer_def)

lemma decode_cell_exact_example:
  "\<exists>w. cell_Encode \<lparr>CircID = 0, Command = 128, Payload = [5]\<rparr> new_buffer = (None, w) \<and>
     [0, 0, 0, 0, 128, 0, 1, 5, 77] = wr_out w @ [77]"
  by (rule decode_cell_exact) code_simp

text \<open>
  Failing writers: on any writer, Encode of a well-formed cell leaves a prefix of the
  cell's frame, and reports no error exactly when the whole frame was written; the frame
  of a fixed-size cell is CellLen (514) bytes.
\<close>

lemma cell_encode_prefix:
  assumes "cell_Encode c w = (e, w')" and "cell_wf c"
  shows "(\<exists>n \<le> length (cell_frame c). wr_out w' = wr_out w @ take n (cell_frame c) \<and>
            (e = None \<longleftrightarrow> n = length (cell_frame c))) \<and>
         (\<not> IsVariableLength (Command c) \<longrightarrow> length (cell_frame c) = CellLen)"
  using wrote_cell [OF assms] assms(2) by (auto simp: wrote_def cell_frame_def cell_wf_def)

lemma cell_encode_prefix_example:
  "\<exists>w'. cell_Encode (NewCell 1 CmdPadding) \<lparr>wr_out = [], wr_room = Some 4\<rparr> = (Some EncCommand, w') \<and>
     (\<exists>n \<le> length (cell_frame (NewCell 1 CmdPadding)).
        wr_out w' = [] @ take n (cell_frame (NewCell 1 CmdPadding)) \<and>
        (Some EncCommand = (None :: cell_enc_error option) \<longleftrightarrow> n = length (cell_frame (NewCell 1 CmdPadding))))"
proof -
  have e: "cell_Encode (NewCell 1 CmdPadding) \<lparr>wr_out = [], wr_room = Some 4\<rparr>
      = (Some EncCommand, \<lparr>wr_out = be32 1, wr_room = Some 0\<rparr>)"
    by (simp add: cell_Encode_def NewCell_def wr_write_def)
  show ?thesis
    using cell_encode_prefix [OF e] e by (simp add: cell_wf_def NewCell_def)
qed

text \<open>
  Oversize payloads (a defect of Encode): a fixed-size cell whose payload exceeds 509
  bytes is written without error as a frame longer than 514 bytes, so a receiver decodes
  a truncated cell and takes the surplus for the start of the next one; a variable-length
  cell whose payload exceeds 65535 bytes is refused only after its five header bytes have
  gone out.
\<close>

lemma oversize_cell_desync:
  assumes "length (Payload c) > (if IsVariableLength (Command c) then 65535 else PayloadLen)"
  shows "if IsVariableLength (Command c)
         then cell_Encode c new_buffer =
                (Some (EncTooLarge (ConvTooLarge (int (length (Payload c))))),
                 new_buffer\<lparr>wr_out := be32 (CircID c) @ [Command c]\<rparr>)
         else (\<exists>w. cell_Encode c new_buffer = (None, w) \<and> length (wr_out w) > CellLen \<and>
                DecodeCell (wr_out w @ rest) =
                  Inr (c\<lparr>Payload := take PayloadLen (Payload c)\<rparr>, drop PayloadLen (Payload c) @ rest))"
proof (cases "IsVariableLength (Command c)")
  case True
  with assms show ?thesis
    by (simp add: cell_Encode_def cell_write_length_def new_buffer_def codec_simps len16_Inl)
next
  case False
  have rd: "read_full 509 (Payload c @ rest) = Inr (take 509 (Payload c), drop 509 (Payload c) @ rest)"
    using False assms by (simp add: read_full_def)
  from False assms show ?thesis
    by (simp add: cell_Encode_def cell_write_length_def cell_write_padding_def new_buffer_def
        codec_simps DecodeCell_def Let_def rd)
qed

lemma oversize_cell_desync_example:
  "\<exists>w. cell_Encode \<lparr>CircID = 3, Command = CmdRelay, Payload = zeros 510\<rparr> new_buffer = (None, w) \<and>
     length (wr_out w) > CellLen \<and>
     DecodeCell (wr_out w @ []) =
       Inr (\<lparr>CircID = 3, Command = CmdRelay, Payload = zeros 510\<rparr>\<lparr>Payload := take PayloadLen (zeros 510)\<rparr>,
            drop PayloadLen (zeros 510) @ [])"
  using oversize_cell_desync [of "\<lparr>CircID = 3, Command = CmdRelay, Payload = zeros 510\<rparr>" "[]"]
  by (simp add: IsVariableLength_def)

end
