(* ===== verification/RelayCell.thy ===== *)
theory RelayCell
  imports Cell
begin

section \<open>pkg/cell/relay.go: relay cells\<close>

text \<open>
  The payload of a RELAY cell: an 11-byte header, at most 498 bytes of data, zero padding.
  A nil Data slice and an empty one are both the empty list. A slice expression that
  would panic is the error value RelayPanic, which is shown never to occur.
\<close>

abbreviation RelayBegin :: byte where "RelayBegin \<equiv> 1"
abbreviation RelayData :: byte where "RelayData \<equiv> 2"
abbreviation RelayEnd :: byte where "RelayEnd \<equiv> 3"
abbreviation RelayConnected :: byte where "RelayConnected \<equiv> 4"
abbreviation RelaySendme :: byte where "RelaySendme \<equiv> 5"
abbreviation RelayExtend :: byte where "RelayExtend \<equiv> 6"
abbreviation RelayExtended :: byte where "RelayExtended \<equiv> 7"
abbreviation RelayTruncate :: byte where "RelayTruncate \<equiv> 8"
abbreviation RelayTruncated :: byte where "RelayTruncated \<equiv> 9"
abbreviation RelayDrop :: byte where "RelayDrop \<equiv> 10"
abbreviation RelayResolve :: byte where "RelayResolve \<equiv> 11"
abbreviation RelayResolved :: byte where "RelayResolved \<equiv> 12"
abbreviation RelayBeginDir :: byte where "RelayBeginDir \<equiv> 13"
abbreviation RelayExtend2 :: byte where "RelayExtend2 \<equiv> 14"
abbreviation RelayExtended2 :: byte where "RelayExtended2 \<equiv> 15"

record relay_cell =
  rc_Command :: byte
  rc_Recognized :: u16
  rc_StreamID :: u16
  rc_Digest :: bytes
  rc_Length :: u16
  rc_Data :: bytes

definition RelayCellHeaderLen :: nat where
  "RelayCellHeaderLen = 11"

definition maxRelayDataLen :: nat where
  "maxRelayDataLen = PayloadLen - RelayCellHeaderLen"

lemmas relay_consts [simp] = RelayCellHeaderLen_def maxRelayDataLen_def

definition NewRelayCell :: "u16 \<Rightarrow> byte \<Rightarrow> bytes \<Rightarrow> relay_cell" where
  "NewRelayCell streamID cmd data =
     (let len = (case SafeLenToUint16 data of Inl _ \<Rightarrow> 65535 | Inr n \<Rightarrow> n)
      in \<lparr>rc_Command = cmd, rc_Recognized = 0, rc_StreamID = streamID,
          rc_Digest = [0, 0, 0, 0], rc_Length = len, rc_Data = data\<rparr>)"

datatype relay_error =
    RelayDataTooLarge nat | RelayPayloadTooShort nat | RelayLengthTooLarge u16
  | RelayLengthExceedsPayload u16 | RelayPanic

definition relay_Encode :: "relay_cell \<Rightarrow> relay_error + bytes" where
  "relay_Encode rc =
     (if length (rc_Data rc) > maxRelayDataLen then Inl (RelayDataTooLarge (length (rc_Data rc)))
      else Inr ([rc_Command rc] @ be16 (rc_Recognized rc) @ be16 (rc_StreamID rc)
                @ go_copy (zeros 4) (rc_Digest rc) @ be16 (rc_Length rc)
                @ go_copy (zeros maxRelayDataLen) (rc_Data rc)))"

definition DecodeRelayCell :: "bytes \<Rightarrow> relay_error + relay_cell" where
  "DecodeRelayCell payload =
     (if length payload < RelayCellHeaderLen then Inl (RelayPayloadTooShort (length payload))
      else
      let rc = \<lparr>rc_Command = payload ! 0, rc_Recognized = u16_at payload 1,
                rc_StreamID = u16_at payload 3, rc_Digest = take 4 (drop 5 payload),
                rc_Length = u16_at payload 9, rc_Data = []\<rparr>
      in if rc_Length rc > of_nat maxRelayDataLen then Inl (RelayLengthTooLarge (rc_Length rc))
         else if unat (rc_Length rc) > length payload - RelayCellHeaderLen
              then Inl (RelayLengthExceedsPayload (rc_Length rc))
         else if rc_Length rc > 0
              then (case go_slice payload 11 (unat (11 + rc_Length rc)) of
                      None \<Rightarrow> Inl RelayPanic
                    | Some d \<Rightarrow> Inr (rc\<lparr>rc_Data := go_copy (zeros (unat (rc_Length rc))) d\<rparr>))
         else Inr rc)"

definition RelayCmdString :: "byte \<Rightarrow> string" where
  "RelayCmdString cmd =
     (if cmd = RelayBegin then ''RELAY_BEGIN''
      else if cmd = RelayData then ''RELAY_DATA''
      else if cmd = RelayEnd then ''RELAY_END''
      else if cmd = RelayConnected then ''RELAY_CONNECTED''
      else if cmd = RelaySendme then ''RELAY_SENDME''
      else if cmd = RelayExtend then ''RELAY_EXTEND''
      else if cmd = RelayExtended then ''RELAY_EXTENDED''
      else if cmd = RelayTruncate then ''RELAY_TRUNCATE''
      else if cmd = RelayTruncated then ''RELAY_TRUNCATED''
      else if cmd = RelayDrop then ''RELAY_DROP''
      else if cmd = RelayResolve then ''RELAY_RESOLVE''
      else if cmd = RelayResolved then ''RELAY_RESOLVED''
      else if cmd = RelayBeginDir then ''RELAY_BEGIN_DIR''
      else if cmd = RelayExtend2 then ''RELAY_EXTEND2''
      else if cmd = RelayExtended2 then ''RELAY_EXTENDED2''
      else ''RELAY_UNKNOWN('' @ dec_of_nat (unat cmd) @ '')'')"

subsection \<open>Layout lemmas\<close>

text \<open>
  Reading the header fields off a payload given in parts. \<open>relay_payload\<close> is the layout
  both functions agree on.
\<close>

definition relay_payload :: "byte \<Rightarrow> u16 \<Rightarrow> u16 \<Rightarrow> bytes \<Rightarrow> u16 \<Rightarrow> bytes \<Rightarrow> bytes" where
  "relay_payload cmd recog sid dig len body =
     [cmd] @ be16 recog @ be16 sid @ dig @ be16 len @ body"

lemma relay_payload_fields:
  assumes "length dig = 4"
  shows "relay_payload cmd recog sid dig len body ! 0 = cmd"
    and "u16_at (relay_payload cmd recog sid dig len body) 1 = recog"
    and "u16_at (relay_payload cmd recog sid dig len body) 3 = sid"
    and "take 4 (drop 5 (relay_payload cmd recog sid dig len body)) = dig"
    and "u16_at (relay_payload cmd recog sid dig len body) 9 = len"
    and "drop 11 (relay_payload cmd recog sid dig len body) = body"
    and "length (relay_payload cmd recog sid dig len body) = 11 + length body"
proof -
  let ?p = "relay_payload cmd recog sid dig len body"
  have p1: "?p = [cmd] @ (be16 recog @ be16 sid @ dig @ be16 len @ body)"
    and p3: "?p = ([cmd] @ be16 recog) @ (be16 sid @ dig @ be16 len @ body)"
    and p5: "?p = ([cmd] @ be16 recog @ be16 sid) @ (dig @ be16 len @ body)"
    and p9: "?p = ([cmd] @ be16 recog @ be16 sid @ dig) @ (be16 len @ body)"
    and p11: "?p = ([cmd] @ be16 recog @ be16 sid @ dig @ be16 len) @ body"
    by (simp_all add: relay_payload_def)
  show "?p ! 0 = cmd" by (simp add: relay_payload_def)
  show "u16_at ?p 1 = recog" unfolding p1 by (subst u16_at_append) (simp_all add: codec_simps)
  show "u16_at ?p 3 = sid" unfolding p3 by (subst u16_at_append) (simp_all add: codec_simps)
  show "take 4 (drop 5 ?p) = dig" unfolding p5 by (subst drop_append) (simp add: assms)
  show "u16_at ?p 9 = len" unfolding p9 by (subst u16_at_append) (simp_all add: codec_simps assms)
  show "drop 11 ?p = body" unfolding p11 by (subst drop_append) (simp add: assms)
  show "length ?p = 11 + length body" by (simp add: relay_payload_def assms)
qed

lemma payload_split:
  assumes "11 \<le> length p"
  shows "p = relay_payload (p ! 0) (u16_at p 1) (u16_at p 3) (take 4 (drop 5 p)) (u16_at p 9) (drop 11 p)"
proof -
  have "length (take 11 p) = Suc (Suc (Suc (Suc (Suc (Suc (Suc (Suc (Suc (Suc (Suc 0))))))))))"
    using assms by simp
  then obtain a b0 b1 s0 s1 d0 d1 d2 d3 l0 l1 where
    hd: "take 11 p = [a, b0, b1, s0, s1, d0, d1, d2, d3, l0, l1]"
    by (auto simp only: length_Suc_conv length_0_conv)
  have "p = take 11 p @ drop 11 p" by simp
  then have "p = [a, b0, b1, s0, s1, d0, d1, d2, d3, l0, l1] @ drop 11 p"
    unfolding hd .
  then obtain body where "p = [a, b0, b1, s0, s1, d0, d1, d2, d3, l0, l1] @ body" ..
  moreover have "be16 (u16_at [x, y] 0) = [x, y]" for x y by (rule be16_u16_at)
  ultimately show ?thesis
    by (simp add: relay_payload_def u16_at_def eval_nat_numeral)
qed

lemma relay_len_bound:
  assumes "\<not> (l :: u16) > of_nat maxRelayDataLen"
  shows "unat l \<le> 498" and "unat (11 + l) = 11 + unat l"
proof -
  show le: "unat l \<le> 498" using assms by (simp add: word_less_nat_alt not_less)
  then show "unat (11 + l) = 11 + unat l"
    by (subst unat_plus_simple [THEN iffD1]) (simp_all add: no_olen_add_nat)
qed

lemma DecodeRelayCell_payload:
  assumes "length dig = 4" and "unat len = length d" and "length d \<le> 498"
  shows "DecodeRelayCell (relay_payload cmd recog sid dig len (d @ pad)) =
    Inr \<lparr>rc_Command = cmd, rc_Recognized = recog, rc_StreamID = sid, rc_Digest = dig,
         rc_Length = len, rc_Data = d\<rparr>"
proof -
  note f = relay_payload_fields [OF assms(1), of cmd recog sid len "d @ pad"]
  have nle: "\<not> len > of_nat maxRelayDataLen"
    using assms by (simp add: word_less_nat_alt)
  have sl: "go_slice (relay_payload cmd recog sid dig len (d @ pad)) 11 (unat (11 + len)) = Some d"
    using f(6,7) relay_len_bound(2) [OF nle] assms(2) by (simp add: go_slice_def)
  show ?thesis
  proof (cases "len = 0")
    case True
    with assms f show ?thesis by (simp add: DecodeRelayCell_def Let_def)
  next
    case False
    then have "len > 0" by (simp add: word_neq_0_conv)
    with assms f nle sl show ?thesis
      by (simp add: DecodeRelayCell_def Let_def go_copy_same)
  qed
qed

lemma relay_Encode_Inr:
  assumes "length (rc_Digest rc) = 4" and "length (rc_Data rc) \<le> 498"
  shows "relay_Encode rc = Inr (relay_payload (rc_Command rc) (rc_Recognized rc) (rc_StreamID rc)
           (rc_Digest rc) (rc_Length rc) (rc_Data rc @ zeros (498 - length (rc_Data rc))))"
  using assms by (simp add: relay_Encode_def relay_payload_def go_copy_same)
     (simp add: go_copy_def)

lemma relay_Encode_length: "relay_Encode rc = Inr p \<Longrightarrow> length p = PayloadLen"
  by (auto simp: relay_Encode_def split: if_splits)

text \<open>Where decoding succeeds, and what it then returns.\<close>

lemma DecodeRelayCell_Inr:
  assumes "DecodeRelayCell p = Inr rc"
  shows "p = relay_payload (rc_Command rc) (rc_Recognized rc) (rc_StreamID rc) (rc_Digest rc)
              (rc_Length rc) (rc_Data rc @ drop (11 + length (rc_Data rc)) p)
       \<and> length (rc_Digest rc) = 4 \<and> unat (rc_Length rc) = length (rc_Data rc)
       \<and> length (rc_Data rc) \<le> 498"
proof -
  let ?l = "u16_at p 9"
  from assms have len: "11 \<le> length p" and l1: "\<not> ?l > of_nat maxRelayDataLen"
    and l2: "unat ?l \<le> length p - 11"
    by (auto simp: DecodeRelayCell_def Let_def split: if_splits)
  note b = relay_len_bound [OF l1]
  have sl: "go_slice p 11 (unat (11 + ?l)) = Some (take (unat ?l) (drop 11 p))"
    using len l2 b by (simp add: go_slice_def)
  have cp: "go_copy (zeros (unat ?l)) (take (unat ?l) (drop 11 p)) = take (unat ?l) (drop 11 p)"
    using l2 len by (intro go_copy_same) simp
  have rc: "rc = \<lparr>rc_Command = p ! 0, rc_Recognized = u16_at p 1, rc_StreamID = u16_at p 3,
      rc_Digest = take 4 (drop 5 p), rc_Length = ?l, rc_Data = take (unat ?l) (drop 11 p)\<rparr>"
  proof (cases "?l = 0")
    case True
    with assms len l1 l2 show ?thesis by (simp add: DecodeRelayCell_def Let_def)
  next
    case False
    then have "?l > 0" by (simp add: word_neq_0_conv)
    with assms len l1 l2 sl cp show ?thesis by (simp add: DecodeRelayCell_def Let_def)
  qed
  have "drop 11 p = take (unat ?l) (drop 11 p) @ drop (11 + unat ?l) p"
    by (metis add.commute append_take_drop_id drop_drop)
  then show ?thesis
    using payload_split [OF len] len l2 b by (simp add: rc)
qed

subsection \<open>Properties\<close>

text \<open>
  C11: Relay cells round-trip: a relay cell made by NewRelayCell for at most 498 bytes of
  data encodes to a payload of exactly 509 bytes which decodes to the same cell; with
  more data Encode refuses it.
\<close>

theorem relay_cell_roundtrip:
  "if length data \<le> 498
   then (\<exists>p. relay_Encode (NewRelayCell sid cmd data) = Inr p \<and> length p = PayloadLen \<and>
             DecodeRelayCell p = Inr (NewRelayCell sid cmd data))
   else relay_Encode (NewRelayCell sid cmd data) = Inl (RelayDataTooLarge (length data))"
proof (cases "length data \<le> 498")
  case True
  then have new: "NewRelayCell sid cmd data = \<lparr>rc_Command = cmd, rc_Recognized = 0, rc_StreamID = sid,
      rc_Digest = [0, 0, 0, 0], rc_Length = of_nat (length data), rc_Data = data\<rparr>"
    by (simp add: NewRelayCell_def codec_simps)
  then obtain p where p: "relay_Encode (NewRelayCell sid cmd data) = Inr p"
    "p = relay_payload cmd 0 sid [0, 0, 0, 0] (of_nat (length data)) (data @ zeros (498 - length data))"
    using relay_Encode_Inr [of "NewRelayCell sid cmd data"] True by simp
  moreover have "DecodeRelayCell p = Inr (NewRelayCell sid cmd data)"
    unfolding p(2) new by (rule DecodeRelayCell_payload) (use True in \<open>simp_all add: codec_simps\<close>)
  ultimately show ?thesis using True relay_Encode_length by auto
next
  case False
  then show ?thesis by (simp add: relay_Encode_def NewRelayCell_def Let_def)
qed

text \<open>
  Decoding a relay payload is faithful and never panics: no payload makes a slice
  expression go out of range; an accepted payload is byte for byte the header and data of
  the returned cell followed by ignored padding, its data length is the length field and
  at most 498; and a full-size payload re-encodes to itself up to that padding.
\<close>

lemma relay_decode_sound:
  "DecodeRelayCell p \<noteq> Inl RelayPanic \<and>
   (\<forall>rc. DecodeRelayCell p = Inr rc \<longrightarrow>
      unat (rc_Length rc) = length (rc_Data rc) \<and> length (rc_Data rc) \<le> 498 \<and>
      (\<exists>q. relay_Encode rc = Inr q \<and>
        take (11 + length (rc_Data rc)) q = take (11 + length (rc_Data rc)) p))"
proof (intro conjI allI impI)
  show "DecodeRelayCell p \<noteq> Inl RelayPanic"
  proof
    assume P: "DecodeRelayCell p = Inl RelayPanic"
    let ?l = "u16_at p 9"
    from P have "11 \<le> length p" "\<not> ?l > of_nat maxRelayDataLen" "unat ?l \<le> length p - 11"
      and "go_slice p 11 (unat (11 + ?l)) = None"
      by (auto simp: DecodeRelayCell_def Let_def split: if_splits option.splits)
    then show False using relay_len_bound(2) [of ?l] by (auto simp: go_slice_def split: if_splits)
  qed
next
  fix rc
  assume "DecodeRelayCell p = Inr rc"
  note d = DecodeRelayCell_Inr [OF this]
  then show "unat (rc_Length rc) = length (rc_Data rc)" "length (rc_Data rc) \<le> 498" by simp_all
  have hdr: "relay_payload a b c (rc_Digest rc) l (rc_Data rc @ x)
      = relay_payload a b c (rc_Digest rc) l (rc_Data rc) @ x" for a b c l x
    by (simp add: relay_payload_def)
  have len: "length (relay_payload a b c (rc_Digest rc) l (rc_Data rc)) = 11 + length (rc_Data rc)" for a b c l
    using d by (simp add: relay_payload_fields(7))
  have "take (11 + length (rc_Data rc)) p =
      relay_payload (rc_Command rc) (rc_Recognized rc) (rc_StreamID rc) (rc_Digest rc) (rc_Length rc) (rc_Data rc)"
    using d len by (metis append_eq_conv_conj hdr)
  then show "\<exists>q. relay_Encode rc = Inr q \<and>
        take (11 + length (rc_Data rc)) q = take (11 + length (rc_Data rc)) p"
    using relay_Encode_Inr [of rc] d len hdr by simp
qed

lemma relay_decode_sound_example:
  "\<exists>q. relay_Encode \<lparr>rc_Command = 2, rc_Recognized = 0, rc_StreamID = 5, rc_Digest = [0, 0, 0, 0],
            rc_Length = 1, rc_Data = [9]\<rparr> = Inr q \<and>
     take 12 q = take 12 [2, 0, 0, 0, 5, 0, 0, 0, 0, 0, 1, 9, 77]"
proof -
  have "DecodeRelayCell [2, 0, 0, 0, 5, 0, 0, 0, 0, 0, 1, 9, 77] =
    Inr \<lparr>rc_Command = 2, rc_Recognized = 0, rc_StreamID = 5, rc_Digest = [0, 0, 0, 0],
         rc_Length = 1, rc_Data = [9]\<rparr>"
    by code_simp
  then show ?thesis
    using relay_decode_sound [of "[2, 0, 0, 0, 5, 0, 0, 0, 0, 0, 1, 9, 77]"] by simp
qed

end
