(* ===== verification/Replay.thy ===== *)
theory Replay
  imports GoPrelude
begin

section \<open>pkg/cell/replay.go: replay protection\<close>

text \<open>
  The sliding window of one circuit. The Go struct keeps the same five fields once per
  direction; they are one record \<open>replay_dir\<close> here, held twice. Sequence numbers are
  64-bit words and wrap as uint64 does. SHA-256 (crypto/sha256) is the parameter
  \<open>sha256\<close> of the operations that hash; map[uint64]struct{} is a set, map[[16]byte]uint64
  a partial map. The mutex makes each operation atomic, so operations are functions.
\<close>

record replay_dir =
  rd_seq :: u64
  rd_window :: "u64 set"
  rd_digests :: "bytes \<rightharpoonup> u64"
  rd_attempts :: u64
  rd_outOfOrder :: u64

record ReplayProtection =
  rp_forward :: replay_dir
  rp_backward :: replay_dir
  rp_windowSize :: u64

datatype ReplayDirection = ReplayForward | ReplayBackward

datatype replay_error =
    EmptyCellData
  | DuplicateDigest u64 u64
  | DuplicateSequence u64
  | SequenceTooOld u64 u64
  | SequenceTooFarAhead u64 u64

definition DefaultWindowSize :: u64 where
  "DefaultWindowSize = 32"

definition new_replay_dir :: replay_dir where
  "new_replay_dir = \<lparr>rd_seq = 0, rd_window = {}, rd_digests = Map.empty, rd_attempts = 0, rd_outOfOrder = 0\<rparr>"

definition NewReplayProtectionWithWindow :: "u64 \<Rightarrow> ReplayProtection" where
  "NewReplayProtectionWithWindow windowSize =
     \<lparr>rp_forward = new_replay_dir, rp_backward = new_replay_dir, rp_windowSize = windowSize\<rparr>"

definition NewReplayProtection :: ReplayProtection where
  "NewReplayProtection = NewReplayProtectionWithWindow DefaultWindowSize"

subsection \<open>One direction\<close>

definition validateSequence :: "u64 \<Rightarrow> u64 \<Rightarrow> u64 \<Rightarrow> u64 set \<Rightarrow> replay_error option" where
  "validateSequence windowSize seqNum expectedSeq window =
     (if seqNum \<in> window then Some (DuplicateSequence seqNum)
      else if expectedSeq > windowSize \<and> seqNum < expectedSeq - windowSize
           then Some (SequenceTooOld seqNum (expectedSeq - windowSize))
      else let maxAhead = windowSize * 2 in
           if seqNum > expectedSeq + maxAhead then Some (SequenceTooFarAhead seqNum expectedSeq)
           else None)"

definition min_valid_seq :: "u64 \<Rightarrow> u64 \<Rightarrow> u64" where
  "min_valid_seq windowSize expectedSeq =
     (if expectedSeq > windowSize then expectedSeq - windowSize else 0)"

text \<open>The two delete loops of cleanupWindow.\<close>

definition prune_window :: "u64 \<Rightarrow> u64 set \<Rightarrow> u64 set" where
  "prune_window minValidSeq window = {s \<in> window. \<not> s < minValidSeq}"

definition prune_digests :: "u64 \<Rightarrow> (bytes \<rightharpoonup> u64) \<Rightarrow> (bytes \<rightharpoonup> u64)" where
  "prune_digests minValidSeq digests =
     (\<lambda>k. case digests k of None \<Rightarrow> None | Some s \<Rightarrow> if s < minValidSeq then None else Some s)"

definition cleanupWindow :: "u64 \<Rightarrow> replay_dir \<Rightarrow> replay_dir" where
  "cleanupWindow windowSize d =
     (let minValidSeq = min_valid_seq windowSize (rd_seq d) in
      d\<lparr>rd_window := prune_window minValidSeq (rd_window d),
        rd_digests := prune_digests minValidSeq (rd_digests d)\<rparr>)"

lemma cleanupWindow_sel [simp]:
  "rd_seq (cleanupWindow ws d) = rd_seq d"
  "rd_window (cleanupWindow ws d) = prune_window (min_valid_seq ws (rd_seq d)) (rd_window d)"
  "rd_digests (cleanupWindow ws d) = prune_digests (min_valid_seq ws (rd_seq d)) (rd_digests d)"
  by (simp_all add: cleanupWindow_def Let_def)

text \<open>validateForward and validateBackward: check, track, advance, clean up.\<close>

definition validate_dir :: "u64 \<Rightarrow> u64 \<Rightarrow> bytes \<Rightarrow> replay_dir \<Rightarrow> replay_error option \<times> replay_dir" where
  "validate_dir ws seqNum digest d =
     (case rd_digests d digest of
        Some prevSeq \<Rightarrow> (Some (DuplicateDigest prevSeq seqNum), d\<lparr>rd_attempts := rd_attempts d + 1\<rparr>)
      | None \<Rightarrow>
     (case validateSequence ws seqNum (rd_seq d) (rd_window d) of
        Some e \<Rightarrow> (Some e, d\<lparr>rd_attempts := rd_attempts d + 1\<rparr>)
      | None \<Rightarrow>
        let d1 = d\<lparr>rd_window := insert seqNum (rd_window d), rd_digests := (rd_digests d)(digest \<mapsto> seqNum)\<rparr>;
            d2 = (if seqNum < rd_seq d1 then d1\<lparr>rd_outOfOrder := rd_outOfOrder d1 + 1\<rparr> else d1);
            d3 = (if seqNum \<ge> rd_seq d2 then d2\<lparr>rd_seq := seqNum + 1\<rparr> else d2)
        in (None, cleanupWindow ws d3)))"

text \<open>The Locked variants leave the expected sequence number to their caller.\<close>

definition validate_dir_locked :: "u64 \<Rightarrow> u64 \<Rightarrow> bytes \<Rightarrow> replay_dir \<Rightarrow> replay_error option \<times> replay_dir" where
  "validate_dir_locked ws seqNum digest d =
     (case rd_digests d digest of
        Some prevSeq \<Rightarrow> (Some (DuplicateDigest prevSeq seqNum), d\<lparr>rd_attempts := rd_attempts d + 1\<rparr>)
      | None \<Rightarrow>
     (case validateSequence ws seqNum (rd_seq d) (rd_window d) of
        Some e \<Rightarrow> (Some e, d\<lparr>rd_attempts := rd_attempts d + 1\<rparr>)
      | None \<Rightarrow>
        let d1 = d\<lparr>rd_window := insert seqNum (rd_window d), rd_digests := (rd_digests d)(digest \<mapsto> seqNum)\<rparr>;
            d2 = (if seqNum < rd_seq d1 then d1\<lparr>rd_outOfOrder := rd_outOfOrder d1 + 1\<rparr> else d1)
        in (None, cleanupWindow ws d2)))"

definition auto_dir :: "u64 \<Rightarrow> bytes \<Rightarrow> replay_dir \<Rightarrow> replay_error option \<times> replay_dir" where
  "auto_dir ws digest d =
     (let (e, d') = validate_dir_locked ws (rd_seq d) digest d in
      if e \<noteq> None then (e, d') else (None, d'\<lparr>rd_seq := rd_seq d' + 1\<rparr>))"

subsection \<open>The operations on both directions\<close>

definition rp_dir :: "ReplayDirection \<Rightarrow> ReplayProtection \<Rightarrow> replay_dir" where
  "rp_dir dir r = (case dir of ReplayForward \<Rightarrow> rp_forward r | ReplayBackward \<Rightarrow> rp_backward r)"

definition rp_set_dir :: "ReplayDirection \<Rightarrow> replay_dir \<Rightarrow> ReplayProtection \<Rightarrow> ReplayProtection" where
  "rp_set_dir dir d r =
     (case dir of ReplayForward \<Rightarrow> r\<lparr>rp_forward := d\<rparr> | ReplayBackward \<Rightarrow> r\<lparr>rp_backward := d\<rparr>)"

definition validateForward :: "u64 \<Rightarrow> bytes \<Rightarrow> ReplayProtection \<Rightarrow> replay_error option \<times> ReplayProtection" where
  "validateForward seqNum digest r =
     (let (e, d) = validate_dir (rp_windowSize r) seqNum digest (rp_forward r) in (e, r\<lparr>rp_forward := d\<rparr>))"

definition validateBackward :: "u64 \<Rightarrow> bytes \<Rightarrow> ReplayProtection \<Rightarrow> replay_error option \<times> ReplayProtection" where
  "validateBackward seqNum digest r =
     (let (e, d) = validate_dir (rp_windowSize r) seqNum digest (rp_backward r) in (e, r\<lparr>rp_backward := d\<rparr>))"

definition truncated_digest :: "(bytes \<Rightarrow> bytes) \<Rightarrow> bytes \<Rightarrow> bytes" where
  "truncated_digest sha256 cellData = take 16 (sha256 cellData)"

definition ValidateAndTrack ::
  "(bytes \<Rightarrow> bytes) \<Rightarrow> ReplayDirection \<Rightarrow> u64 \<Rightarrow> bytes \<Rightarrow> ReplayProtection
     \<Rightarrow> replay_error option \<times> ReplayProtection" where
  "ValidateAndTrack sha256 dir seqNum cellData r =
     (if length cellData = 0 then (Some EmptyCellData, r)
      else let digest = truncated_digest sha256 cellData in
           if dir = ReplayForward then validateForward seqNum digest r
           else validateBackward seqNum digest r)"

definition validateForwardLocked :: "u64 \<Rightarrow> bytes \<Rightarrow> ReplayProtection \<Rightarrow> replay_error option \<times> ReplayProtection" where
  "validateForwardLocked seqNum digest r =
     (let (e, d) = validate_dir_locked (rp_windowSize r) seqNum digest (rp_forward r) in (e, r\<lparr>rp_forward := d\<rparr>))"

definition validateBackwardLocked :: "u64 \<Rightarrow> bytes \<Rightarrow> ReplayProtection \<Rightarrow> replay_error option \<times> ReplayProtection" where
  "validateBackwardLocked seqNum digest r =
     (let (e, d) = validate_dir_locked (rp_windowSize r) seqNum digest (rp_backward r) in (e, r\<lparr>rp_backward := d\<rparr>))"

definition ValidateAndTrackAuto ::
  "(bytes \<Rightarrow> bytes) \<Rightarrow> ReplayDirection \<Rightarrow> bytes \<Rightarrow> ReplayProtection
     \<Rightarrow> replay_error option \<times> ReplayProtection" where
  "ValidateAndTrackAuto sha256 dir cellData r =
     (if length cellData = 0 then (Some EmptyCellData, r)
      else let digest = truncated_digest sha256 cellData in
           if dir = ReplayForward
           then let (e, r') = validateForwardLocked (rd_seq (rp_forward r)) digest r in
                if e \<noteq> None then (e, r')
                else (None, r'\<lparr>rp_forward := (rp_forward r')\<lparr>rd_seq := rd_seq (rp_forward r') + 1\<rparr>\<rparr>)
           else let (e, r') = validateBackwardLocked (rd_seq (rp_backward r)) digest r in
                if e \<noteq> None then (e, r')
                else (None, r'\<lparr>rp_backward := (rp_backward r')\<lparr>rd_seq := rd_seq (rp_backward r') + 1\<rparr>\<rparr>))"

definition GetNextSequence :: "ReplayDirection \<Rightarrow> ReplayProtection \<Rightarrow> u64 \<times> ReplayProtection" where
  "GetNextSequence dir r =
     (if dir = ReplayForward
      then (rd_seq (rp_forward r), r\<lparr>rp_forward := (rp_forward r)\<lparr>rd_seq := rd_seq (rp_forward r) + 1\<rparr>\<rparr>)
      else (rd_seq (rp_backward r), r\<lparr>rp_backward := (rp_backward r)\<lparr>rd_seq := rd_seq (rp_backward r) + 1\<rparr>\<rparr>))"

definition reset_dir :: "replay_dir \<Rightarrow> replay_dir" where
  "reset_dir d = d\<lparr>rd_seq := 0, rd_window := {}, rd_digests := Map.empty\<rparr>"

definition Replay_Reset :: "ReplayProtection \<Rightarrow> ReplayProtection" where
  "Replay_Reset r = r\<lparr>rp_forward := reset_dir (rp_forward r), rp_backward := reset_dir (rp_backward r)\<rparr>"

definition TotalReplayAttempts :: "ReplayProtection \<Rightarrow> u64" where
  "TotalReplayAttempts r = rd_attempts (rp_forward r) + rd_attempts (rp_backward r)"

record ReplayStats =
  rs_ForwardSequence :: u64
  rs_BackwardSequence :: u64
  rs_ForwardWindowSize :: nat
  rs_BackwardWindowSize :: nat
  rs_ForwardDigests :: nat
  rs_BackwardDigests :: nat
  rs_ReplayAttemptsForward :: u64
  rs_ReplayAttemptsBackward :: u64
  rs_OutOfOrderForward :: u64
  rs_OutOfOrderBackward :: u64

definition Replay_Stats :: "ReplayProtection \<Rightarrow> ReplayStats" where
  "Replay_Stats r =
     \<lparr>rs_ForwardSequence = rd_seq (rp_forward r),
      rs_BackwardSequence = rd_seq (rp_backward r),
      rs_ForwardWindowSize = card (rd_window (rp_forward r)),
      rs_BackwardWindowSize = card (rd_window (rp_backward r)),
      rs_ForwardDigests = card (dom (rd_digests (rp_forward r))),
      rs_BackwardDigests = card (dom (rd_digests (rp_backward r))),
      rs_ReplayAttemptsForward = rd_attempts (rp_forward r),
      rs_ReplayAttemptsBackward = rd_attempts (rp_backward r),
      rs_OutOfOrderForward = rd_outOfOrder (rp_forward r),
      rs_OutOfOrderBackward = rd_outOfOrder (rp_backward r)\<rparr>"

lemmas rp_dir_defs = rp_dir_def rp_set_dir_def

lemma ValidateAndTrack_dir:
  "ValidateAndTrack sha256 dir s data r =
     (if data = [] then (Some EmptyCellData, r)
      else let (e, d) = validate_dir (rp_windowSize r) s (truncated_digest sha256 data) (rp_dir dir r)
           in (e, rp_set_dir dir d r))"
  by (cases dir) (simp_all add: ValidateAndTrack_def validateForward_def validateBackward_def rp_dir_defs)

lemma ValidateAndTrackAuto_dir:
  "ValidateAndTrackAuto sha256 dir data r =
     (if data = [] then (Some EmptyCellData, r)
      else let (e, d) = auto_dir (rp_windowSize r) (truncated_digest sha256 data) (rp_dir dir r)
           in (e, rp_set_dir dir d r))"
  by (cases dir)
     (simp_all add: ValidateAndTrackAuto_def auto_dir_def validateForwardLocked_def
       validateBackwardLocked_def rp_dir_defs Let_def split: prod.splits)

lemma rp_dir_set [simp]:
  "rp_dir dir (rp_set_dir dir d r) = d" "rp_windowSize (rp_set_dir dir d r) = rp_windowSize r"
  "dir' \<noteq> dir \<Longrightarrow> rp_dir dir' (rp_set_dir dir d r) = rp_dir dir' r"
  by (cases dir; cases dir'; simp add: rp_dir_defs)+

lemma rp_dir_new [simp]: "rp_dir dir (NewReplayProtectionWithWindow ws) = new_replay_dir"
  by (cases dir) (simp_all add: rp_dir_defs NewReplayProtectionWithWindow_def)


subsection \<open>What one direction promises\<close>

lemma min_valid_seq_nat: "unat (min_valid_seq ws s) = unat s - unat ws"
  by (auto simp: min_valid_seq_def word_less_nat_alt unat_sub_if_size)

lemma less_min_valid: "n < min_valid_seq ws s \<longleftrightarrow> unat n < unat s - unat ws"
  by (simp add: word_less_nat_alt min_valid_seq_nat)

lemma unat_suc: "unat (s :: u64) + 1 < 2 ^ 64 \<Longrightarrow> unat (s + 1) = unat s + 1"
  by (simp add: unat_word_ariths)

text \<open>validateSequence over natural numbers, while the far-ahead bound does not wrap.\<close>

lemma validateSequence_nat:
  assumes "unat s + 2 * unat ws < 2 ^ 64"
  shows "validateSequence ws n s win =
    (if n \<in> win then Some (DuplicateSequence n)
     else if unat n < unat s - unat ws then Some (SequenceTooOld n (s - ws))
     else if unat s + 2 * unat ws < unat n then Some (SequenceTooFarAhead n s)
     else None)"
proof -
  have two: "unat (ws * 2) = 2 * unat ws"
    using assms by (simp add: unat_word_ariths)
  have ahead: "unat (s + ws * 2) = unat s + 2 * unat ws"
    using assms by (simp add: unat_word_ariths(1) two)
  have old: "(s > ws \<and> n < s - ws) = (unat n < unat s - unat ws)"
    by (auto simp: word_less_nat_alt unat_sub_if_size)
  show ?thesis
    unfolding validateSequence_def Let_def old by (simp add: word_less_nat_alt ahead)
qed

text \<open>
  The invariant of a direction with respect to the set \<open>A\<close> of the sequence numbers it has
  accepted since it was new: each is below the next expected one and still in the window or
  too old; the digests and the window describe the same cells; the window is bounded.
\<close>

definition rd_inv :: "u64 \<Rightarrow> u64 set \<Rightarrow> replay_dir \<Rightarrow> bool" where
  "rd_inv ws A d \<longleftrightarrow>
     (\<forall>n\<in>A. n < rd_seq d \<and> (n \<in> rd_window d \<or> n < min_valid_seq ws (rd_seq d)))
     \<and> rd_window d \<subseteq> A
     \<and> finite (rd_window d) \<and> card (rd_window d) \<le> unat ws + 1
     \<and> inj_on (rd_digests d) (dom (rd_digests d)) \<and> ran (rd_digests d) = rd_window d"

lemma rd_inv_new: "rd_inv ws {} new_replay_dir"
  by (simp add: rd_inv_def new_replay_dir_def)

lemma rd_inv_reset: "rd_inv ws {} (reset_dir d)"
  by (simp add: rd_inv_def reset_dir_def)

lemma rd_inv_attempts: "rd_inv ws A d \<Longrightarrow> rd_inv ws A (d\<lparr>rd_attempts := k\<rparr>)"
  by (simp add: rd_inv_def)

lemma min_valid_mono: "s \<le> t \<Longrightarrow> n < min_valid_seq ws s \<Longrightarrow> n < min_valid_seq ws t"
  unfolding less_min_valid word_le_nat_alt by linarith

lemma rd_inv_next:
  assumes "rd_inv ws A d" and "unat (rd_seq d) + 1 < 2 ^ 64"
  shows "rd_inv ws A (d\<lparr>rd_seq := rd_seq d + 1\<rparr>)"
proof -
  have "rd_seq d < rd_seq d + 1"
    using unat_suc [OF assms(2)] by (simp add: word_less_nat_alt)
  with assms(1) show ?thesis
    unfolding rd_inv_def by (auto intro: min_valid_mono [of "rd_seq d"] less_imp_le order.strict_trans)
qed

lemma card_seq_interval:
  assumes "\<forall>n\<in>W. lo \<le> unat (n :: u64) \<and> unat n < hi"
  shows "finite W \<and> card W \<le> hi - lo"
proof -
  have sub: "unat ` W \<subseteq> {lo..<hi}"
    using assms by auto
  have inj: "inj_on unat W"
    by (rule inj_onI) (simp add: unsigned_word_eqI)
  have "card (unat ` W) \<le> card {lo..<hi}"
    by (rule card_mono [OF _ sub]) simp
  then have "card W \<le> hi - lo"
    by (simp add: card_image [OF inj])
  then show ?thesis
    by simp
qed

text \<open>Tracking a fresh cell, then cleaning up with the sequence number \<open>t\<close>.\<close>

definition tracked :: "u64 \<Rightarrow> u64 \<Rightarrow> bytes \<Rightarrow> u64 \<Rightarrow> replay_dir \<Rightarrow> replay_dir" where
  "tracked ws n digest t d =
     cleanupWindow ws (d\<lparr>rd_window := insert n (rd_window d), rd_digests := (rd_digests d)(digest \<mapsto> n), rd_seq := t\<rparr>)"

lemma tracked_simps:
  "rd_seq (tracked ws n g t d) = t"
  "rd_window (tracked ws n g t d) = {s \<in> insert n (rd_window d). \<not> s < min_valid_seq ws t}"
  "rd_digests (tracked ws n g t d) k = Some v \<longleftrightarrow>
     ((rd_digests d)(g \<mapsto> n)) k = Some v \<and> \<not> v < min_valid_seq ws t"
  by (auto simp: tracked_def prune_window_def prune_digests_def split: option.splits)

lemma tracked_digests:
  assumes "inj_on (rd_digests d) (dom (rd_digests d))" and "ran (rd_digests d) = rd_window d"
    and "rd_digests d g = None" and "n \<notin> rd_window d"
  shows "inj_on (rd_digests (tracked ws n g t d)) (dom (rd_digests (tracked ws n g t d)))
    \<and> ran (rd_digests (tracked ws n g t d)) = rd_window (tracked ws n g t d)"
proof
  let ?m = "(rd_digests d)(g \<mapsto> n)"
  have inj: "k = k'" if "?m k = Some v" "?m k' = Some v" for k k' v
    using that assms ranI [of "rd_digests d"] by (auto simp: inj_on_def dom_def split: if_splits)
  show "inj_on (rd_digests (tracked ws n g t d)) (dom (rd_digests (tracked ws n g t d)))"
    by (rule inj_onI) (metis domD inj tracked_simps(3))
  have "ran ?m = insert n (rd_window d)"
    using assms(2,3) by (simp add: ran_map_upd)
  then show "ran (rd_digests (tracked ws n g t d)) = rd_window (tracked ws n g t d)"
    by (auto simp: ran_def tracked_simps(2,3) set_eq_iff)
qed

lemma tracked_inv:
  assumes inv: "rd_inv ws A d" and "rd_digests d g = None" and "n \<notin> rd_window d"
    and t: "rd_seq d \<le> t" and n: "n < t"
  shows "rd_inv ws (insert n A) (tracked ws n g t d)"
proof -
  have below: "\<forall>m\<in>insert n A. m < t"
    using inv n t by (auto simp: rd_inv_def intro: less_le_trans)
  have kept: "\<forall>m\<in>insert n A. m \<in> rd_window (tracked ws n g t d) \<or> m < min_valid_seq ws t"
    using inv by (auto simp: rd_inv_def tracked_simps(2) intro: min_valid_mono [OF t])
  have sub: "rd_window (tracked ws n g t d) \<subseteq> insert n A"
    using inv by (auto simp: rd_inv_def tracked_simps(2))
  have "\<forall>m\<in>rd_window (tracked ws n g t d). unat t - unat ws \<le> unat m \<and> unat m < unat t"
    using below sub by (auto simp: tracked_simps(2) not_less word_less_nat_alt word_le_nat_alt min_valid_seq_nat)
  from card_seq_interval [OF this] below kept sub inv assms(2,3) show ?thesis
    by (simp add: rd_inv_def tracked_simps(1) tracked_digests)
qed

text \<open>Acceptance without the caller's advance (the Auto path), then the advance.\<close>

lemma auto_tracked_inv:
  assumes inv: "rd_inv ws A d" and "rd_digests d g = None" and "unat (rd_seq d) + 1 < 2 ^ 64"
  shows "rd_inv ws (insert (rd_seq d) A) ((tracked ws (rd_seq d) g (rd_seq d) d)\<lparr>rd_seq := rd_seq d + 1\<rparr>)"
proof -
  let ?s = "rd_seq d" and ?d' = "tracked ws (rd_seq d) g (rd_seq d) d"
  have suc: "unat (?s + 1) = unat ?s + 1"
    by (rule unat_suc [OF assms(3)])
  then have lt: "?s < ?s + 1"
    by (simp add: word_less_nat_alt)
  have fresh: "?s \<notin> rd_window d"
    using inv by (auto simp: rd_inv_def)
  have below: "\<forall>m\<in>insert ?s A. m < ?s + 1"
    using inv lt by (auto simp: rd_inv_def intro: less_trans)
  have kept: "\<forall>m\<in>insert ?s A. m \<in> rd_window ?d' \<or> m < min_valid_seq ws (?s + 1)"
    using inv by (auto simp: rd_inv_def tracked_simps(2) intro: min_valid_mono [OF less_imp_le [OF lt]])
  have sub: "rd_window ?d' \<subseteq> insert ?s A"
    using inv by (auto simp: rd_inv_def tracked_simps(2))
  have "\<forall>m\<in>rd_window ?d'. unat ?s - unat ws \<le> unat m \<and> unat m < unat ?s + 1"
    using below sub suc by (auto simp: tracked_simps(2) not_less word_less_nat_alt word_le_nat_alt min_valid_seq_nat)
  from card_seq_interval [OF this] below kept sub inv fresh assms(2) show ?thesis
    by (simp add: rd_inv_def tracked_digests)
qed

subsection \<open>The operations as steps of a direction\<close>

lemma rd_inv_cong: "rd_inv ws A d \<Longrightarrow> rd_seq e = rd_seq d \<Longrightarrow> rd_window e = rd_window d
    \<Longrightarrow> rd_digests e = rd_digests d \<Longrightarrow> rd_inv ws A e"
  by (simp add: rd_inv_def)

lemma validate_dir_rejected:
  "validate_dir ws n g d = (e, d') \<Longrightarrow> e \<noteq> None \<Longrightarrow> d' = d\<lparr>rd_attempts := rd_attempts d + 1\<rparr>"
  by (auto simp: validate_dir_def Let_def split: option.splits if_splits)

lemma validate_dir_accepted:
  assumes "validate_dir ws n g d = (None, d')"
  shows "rd_digests d g = None \<and> validateSequence ws n (rd_seq d) (rd_window d) = None
    \<and> (let t = if rd_seq d \<le> n then n + 1 else rd_seq d in
       rd_seq d' = t \<and> rd_window d' = rd_window (tracked ws n g t d)
       \<and> rd_digests d' = rd_digests (tracked ws n g t d))"
  using assms by (auto simp: validate_dir_def tracked_def Let_def split: option.splits if_splits)

lemma validate_dir_step:
  assumes inv: "rd_inv ws A d" and room: "unat (rd_seq d) + (2 * unat ws + 1) < 2 ^ 64"
    and step: "validate_dir ws n g d = (e, d')"
  shows "unat (rd_seq d') \<le> unat (rd_seq d) + (2 * unat ws + 1)
    \<and> (if e = None then n \<notin> A \<and> rd_inv ws (insert n A) d' else rd_inv ws A d')"
proof -
  let ?t = "if rd_seq d \<le> n then n + 1 else rd_seq d"
  consider (rejected) "e \<noteq> None" "d' = d\<lparr>rd_attempts := rd_attempts d + 1\<rparr>"
    | (accepted) "e = None" "rd_digests d g = None" "validateSequence ws n (rd_seq d) (rd_window d) = None"
        "rd_seq d' = ?t" "rd_window d' = rd_window (tracked ws n g ?t d)"
        "rd_digests d' = rd_digests (tracked ws n g ?t d)"
    using validate_dir_rejected [OF step] validate_dir_accepted [of ws n g d d'] step
    unfolding Let_def by metis
  then show ?thesis
  proof cases
    case rejected
    with inv show ?thesis
      by (auto simp: rd_inv_attempts)
  next
    case accepted
    from accepted(3) room have n: "n \<notin> rd_window d" "unat (rd_seq d) - unat ws \<le> unat n"
      "unat n \<le> unat (rd_seq d) + 2 * unat ws"
      by (simp_all add: validateSequence_nat split: if_splits)
    then have "n \<notin> A"
      using inv by (auto simp: rd_inv_def less_min_valid)
    moreover have t: "rd_seq d \<le> ?t \<and> n < ?t \<and> unat ?t \<le> unat (rd_seq d) + (2 * unat ws + 1)"
      using n(3) room unat_suc [of n] by (auto simp: word_le_nat_alt word_less_nat_alt)
    moreover have "rd_inv ws (insert n A) d'"
      using tracked_inv [OF inv accepted(2) n(1), of ?t] t accepted(4-6)
      by (auto intro: rd_inv_cong simp: tracked_simps(1) simp del: if_split)
    ultimately show ?thesis
      using accepted by simp
  qed
qed

lemma auto_dir_cases:
  assumes inv: "rd_inv ws A d" and room: "unat (rd_seq d) + (2 * unat ws + 1) < 2 ^ 64"
  shows "auto_dir ws g d =
    (case rd_digests d g of
       Some p \<Rightarrow> (Some (DuplicateDigest p (rd_seq d)), d\<lparr>rd_attempts := rd_attempts d + 1\<rparr>)
     | None \<Rightarrow> (None, (tracked ws (rd_seq d) g (rd_seq d) d)\<lparr>rd_seq := rd_seq d + 1\<rparr>))"
proof -
  have "rd_seq d \<notin> rd_window d"
    using inv by (auto simp: rd_inv_def)
  then have "validateSequence ws (rd_seq d) (rd_seq d) (rd_window d) = None"
    using room by (simp add: validateSequence_nat)
  then show ?thesis
    by (simp add: auto_dir_def validate_dir_locked_def tracked_def Let_def split: option.splits)
qed

lemma auto_dir_step:
  assumes inv: "rd_inv ws A d" and room: "unat (rd_seq d) + (2 * unat ws + 1) < 2 ^ 64"
    and step: "auto_dir ws g d = (e, d')"
  shows "unat (rd_seq d') \<le> unat (rd_seq d) + (2 * unat ws + 1)
    \<and> (if e = None then rd_seq d \<notin> A \<and> rd_inv ws (insert (rd_seq d) A) d' else rd_inv ws A d')"
proof (cases "rd_digests d g")
  case None
  have "rd_seq d \<notin> A"
    using inv by (auto simp: rd_inv_def)
  moreover have "unat (rd_seq d + 1) = unat (rd_seq d) + 1"
    using room by (intro unat_suc) simp
  ultimately show ?thesis
    using step None room auto_tracked_inv [OF inv None] by (auto simp: auto_dir_cases [OF inv room])
next
  case (Some p)
  then show ?thesis
    using step inv by (auto simp: auto_dir_cases [OF inv room] rd_inv_attempts)
qed

subsection \<open>Runs over both directions\<close>

text \<open>
  A caller's operation; \<open>rp_step\<close> performs it and reports the direction and the sequence
  number of the cell it accepted, if it accepted one.
\<close>

datatype replay_op =
    OpValidate ReplayDirection u64 bytes
  | OpAuto ReplayDirection bytes
  | OpNext ReplayDirection

definition rp_step ::
  "(bytes \<Rightarrow> bytes) \<Rightarrow> replay_op \<Rightarrow> ReplayProtection \<Rightarrow> (ReplayDirection \<times> u64) option \<times> ReplayProtection" where
  "rp_step sha256 op r =
     (case op of
        OpValidate dir n data \<Rightarrow>
          (let (e, r') = ValidateAndTrack sha256 dir n data r in (if e = None then Some (dir, n) else None, r'))
      | OpAuto dir data \<Rightarrow>
          (let (e, r') = ValidateAndTrackAuto sha256 dir data r
           in (if e = None then Some (dir, rd_seq (rp_dir dir r)) else None, r'))
      | OpNext dir \<Rightarrow> (let (n, r') = GetNextSequence dir r in (None, r')))"

fun rp_run ::
  "(bytes \<Rightarrow> bytes) \<Rightarrow> replay_op list \<Rightarrow> ReplayProtection \<Rightarrow> (ReplayDirection \<times> u64) list \<times> ReplayProtection" where
  "rp_run sha256 [] r = ([], r)"
| "rp_run sha256 (op # ops) r =
     (let (a, r1) = rp_step sha256 op r; (acc, r2) = rp_run sha256 ops r1
      in (case a of None \<Rightarrow> acc | Some x \<Rightarrow> x # acc, r2))"

definition rp_inv :: "nat \<Rightarrow> (ReplayDirection \<times> u64) set \<Rightarrow> ReplayProtection \<Rightarrow> bool" where
  "rp_inv left acc r \<longleftrightarrow>
     (\<forall>dir. rd_inv (rp_windowSize r) {n. (dir, n) \<in> acc} (rp_dir dir r)
        \<and> unat (rd_seq (rp_dir dir r)) + left * (2 * unat (rp_windowSize r) + 1) < 2 ^ 64)"

lemma rp_inv_update:
  assumes inv: "rp_inv (Suc left) acc r"
    and room: "unat (rd_seq d) \<le> unat (rd_seq (rp_dir dir r)) + (2 * unat (rp_windowSize r) + 1)"
    and d: "rd_inv (rp_windowSize r) (A \<union> {n. (dir, n) \<in> acc}) d"
  shows "rp_inv left (Pair dir ` A \<union> acc) (rp_set_dir dir d r)"
  unfolding rp_inv_def
proof
  fix dir'
  show "rd_inv (rp_windowSize (rp_set_dir dir d r)) {n. (dir', n) \<in> Pair dir ` A \<union> acc} (rp_dir dir' (rp_set_dir dir d r))
    \<and> unat (rd_seq (rp_dir dir' (rp_set_dir dir d r))) + left * (2 * unat (rp_windowSize (rp_set_dir dir d r)) + 1) < 2 ^ 64"
  proof (cases "dir' = dir")
    case True
    have "{n. (dir, n) \<in> Pair dir ` A \<union> acc} = A \<union> {n. (dir, n) \<in> acc}"
      by auto
    with True inv room d show ?thesis
      by (auto simp: rp_inv_def dest!: spec [of _ dir])
  next
    case False
    then have "{n. (dir', n) \<in> Pair dir ` A \<union> acc} = {n. (dir', n) \<in> acc}"
      by auto
    with False inv show ?thesis
      by (auto simp: rp_inv_def dest!: spec [of _ dir'])
  qed
qed

lemma rp_inv_room:
  "rp_inv (Suc left) acc r \<Longrightarrow>
     rd_inv (rp_windowSize r) {n. (dir, n) \<in> acc} (rp_dir dir r)
     \<and> unat (rd_seq (rp_dir dir r)) + (2 * unat (rp_windowSize r) + 1) < 2 ^ 64"
  by (auto simp: rp_inv_def dest!: spec [of _ dir])

lemma rp_inv_less: "rp_inv (Suc left) acc r \<Longrightarrow> rp_inv left acc r"
proof -
  assume inv: "rp_inv (Suc left) acc r"
  have "unat (rd_seq (rp_dir dir r)) + left * (2 * unat (rp_windowSize r) + 1) < 2 ^ 64" for dir
    using rp_inv_room [OF inv, of dir] inv by (auto simp: rp_inv_def dest!: spec [of _ dir])
  with inv show ?thesis
    by (simp add: rp_inv_def)
qed

lemma GetNextSequence_dir:
  "GetNextSequence dir r =
     (rd_seq (rp_dir dir r), rp_set_dir dir ((rp_dir dir r)\<lparr>rd_seq := rd_seq (rp_dir dir r) + 1\<rparr>) r)"
  by (cases dir) (simp_all add: GetNextSequence_def rp_dir_defs)

lemma rp_step_inv:
  assumes inv: "rp_inv (Suc left) acc r" and step: "rp_step sha256 op r = (a, r')"
  shows "rp_windowSize r' = rp_windowSize r
    \<and> (case a of None \<Rightarrow> rp_inv left acc r' | Some x \<Rightarrow> x \<notin> acc \<and> rp_inv left (insert x acc) r')"
proof (cases op)
  case (OpValidate dir n data)
  show ?thesis
  proof (cases "data = []")
    case True
    with OpValidate step inv show ?thesis
      by (auto simp: rp_step_def ValidateAndTrack_dir rp_inv_less)
  next
    case False
    obtain e d where v: "validate_dir (rp_windowSize r) n (truncated_digest sha256 data) (rp_dir dir r) = (e, d)"
      by (cases "validate_dir (rp_windowSize r) n (truncated_digest sha256 data) (rp_dir dir r)")
    have ar: "a = (if e = None then Some (dir, n) else None)" "r' = rp_set_dir dir d r"
      using OpValidate step False v by (auto simp: rp_step_def ValidateAndTrack_dir)
    from validate_dir_step [OF conjunct1 [OF rp_inv_room [OF inv]] conjunct2 [OF rp_inv_room [OF inv]] v]
    show ?thesis
      using rp_inv_update [OF inv, of d dir "{n}"] rp_inv_update [OF inv, of d dir "{}"] ar
      by (auto split: if_splits)
  qed
next
  case (OpAuto dir data)
  show ?thesis
  proof (cases "data = []")
    case True
    with OpAuto step inv show ?thesis
      by (auto simp: rp_step_def ValidateAndTrackAuto_dir rp_inv_less)
  next
    case False
    obtain e d where v: "auto_dir (rp_windowSize r) (truncated_digest sha256 data) (rp_dir dir r) = (e, d)"
      by (cases "auto_dir (rp_windowSize r) (truncated_digest sha256 data) (rp_dir dir r)")
    have ar: "a = (if e = None then Some (dir, rd_seq (rp_dir dir r)) else None)" "r' = rp_set_dir dir d r"
      using OpAuto step False v by (auto simp: rp_step_def ValidateAndTrackAuto_dir)
    from auto_dir_step [OF conjunct1 [OF rp_inv_room [OF inv]] conjunct2 [OF rp_inv_room [OF inv]] v]
    show ?thesis
      using rp_inv_update [OF inv, of d dir "{rd_seq (rp_dir dir r)}"] rp_inv_update [OF inv, of d dir "{}"] ar
      by (auto split: if_splits)
  qed
next
  case (OpNext dir)
  let ?d = "(rp_dir dir r)\<lparr>rd_seq := rd_seq (rp_dir dir r) + 1\<rparr>"
  have room: "unat (rd_seq (rp_dir dir r)) + 1 < 2 ^ 64"
    using rp_inv_room [OF inv, of dir] by simp
  have "rp_inv left (Pair dir ` {} \<union> acc) (rp_set_dir dir ?d r)"
    by (rule rp_inv_update [OF inv]) (use rp_inv_room [OF inv, of dir] rd_inv_next [OF _ room] unat_suc [OF room] in auto)
  with OpNext step show ?thesis
    by (auto simp: rp_step_def GetNextSequence_dir)
qed

lemma rp_run_inv:
  assumes "rp_inv (length ops) acc r" and "rp_run sha256 ops r = (xs, r')"
  shows "distinct xs \<and> set xs \<inter> acc = {} \<and> rp_windowSize r' = rp_windowSize r \<and> rp_inv 0 (set xs \<union> acc) r'"
  using assms
proof (induction ops arbitrary: acc r xs)
  case Nil
  then show ?case by simp
next
  case (Cons op ops)
  obtain a r1 where step: "rp_step sha256 op r = (a, r1)"
    by (cases "rp_step sha256 op r")
  obtain ys where run: "rp_run sha256 ops r1 = (ys, r')" and xs: "xs = (case a of None \<Rightarrow> ys | Some x \<Rightarrow> x # ys)"
    using Cons.prems(2) step by (auto split: prod.splits)
  have inv: "rp_inv (Suc (length ops)) acc r"
    using Cons.prems(1) by simp
  show ?case
  proof (cases a)
    case None
    with rp_step_inv [OF inv step] Cons.IH [OF _ run, of acc] xs show ?thesis
      by simp
  next
    case (Some x)
    with rp_step_inv [OF inv step] Cons.IH [OF _ run, of "insert x acc"] xs show ?thesis
      by auto
  qed
qed

lemma rp_inv_new:
  "n * (2 * unat ws + 1) < 2 ^ 64 \<Longrightarrow> rp_inv n {} (NewReplayProtectionWithWindow ws)"
  by (simp add: rp_inv_def rd_inv_new) (simp add: NewReplayProtectionWithWindow_def new_replay_dir_def rd_inv_new [unfolded new_replay_dir_def])

text \<open>
  C5: Over every run of ValidateAndTrack, ValidateAndTrackAuto and GetNextSequence on a new
  ReplayProtection, in any order and on both directions, no sequence number is accepted
  twice on the same direction. The only bound is that the run is too short for the 64-bit
  counter to wrap. Reset, which forgets what was accepted, is not among the operations.
\<close>

theorem replay_never_accepts_twice:
  assumes "length ops * (2 * unat ws + 1) < 2 ^ 64"
  shows "distinct (fst (rp_run sha256 ops (NewReplayProtectionWithWindow ws)))"
  using rp_run_inv [OF rp_inv_new [OF assms]] by (metis prod.collapse)

theorem replay_never_accepts_twice_witness:
  "distinct (fst (rp_run (\<lambda>x. x)
     [OpValidate ReplayForward 3 [1], OpValidate ReplayForward 3 [2], OpAuto ReplayForward [5],
      OpValidate ReplayForward 4 [6], OpValidate ReplayBackward 3 [1]] (NewReplayProtectionWithWindow 32)))"
  by (rule replay_never_accepts_twice) simp

lemma replay_cell_tracked:
  assumes "rd_inv ws A d"
  shows "card (rd_window d) \<le> unat ws + 1 \<and> card (dom (rd_digests d)) = card (rd_window d)"
proof -
  have "card (rd_window d) = card (rd_digests d ` dom (rd_digests d))"
  proof -
    have img: "rd_digests d ` dom (rd_digests d) = Some ` ran (rd_digests d)"
      by (auto simp: ran_def image_def dom_def)
    show ?thesis
      using assms by (simp add: img rd_inv_def card_image)
  qed
  moreover have "card (rd_digests d ` dom (rd_digests d)) = card (dom (rd_digests d))"
    using assms by (simp add: rd_inv_def card_image)
  ultimately show ?thesis
    using assms by (simp add: rd_inv_def)
qed

text \<open>
  The memory of the replay protection is bounded: after every run, Stats reports at
  most windowSize + 1 tracked sequence numbers in each direction, and exactly as many
  digests as sequence numbers.
\<close>

lemma replay_memory_bounded:
  assumes "length ops * (2 * unat ws + 1) < 2 ^ 64"
  shows "let st = Replay_Stats (snd (rp_run sha256 ops (NewReplayProtectionWithWindow ws))) in
    rs_ForwardWindowSize st \<le> unat ws + 1 \<and> rs_BackwardWindowSize st \<le> unat ws + 1
    \<and> rs_ForwardDigests st = rs_ForwardWindowSize st \<and> rs_BackwardDigests st = rs_BackwardWindowSize st"
proof -
  obtain xs r where run: "rp_run sha256 ops (NewReplayProtectionWithWindow ws) = (xs, r)"
    by (cases "rp_run sha256 ops (NewReplayProtectionWithWindow ws)")
  have ws: "rp_windowSize (NewReplayProtectionWithWindow ws) = ws"
    by (simp add: NewReplayProtectionWithWindow_def)
  have inv: "\<exists>A. rd_inv ws A (rp_dir dir r)" for dir
    using rp_run_inv [OF rp_inv_new [OF assms] run] by (auto simp: rp_inv_def ws)
  from inv [of ReplayForward] inv [of ReplayBackward] show ?thesis
    by (auto simp: run Replay_Stats_def rp_dir_def dest!: replay_cell_tracked)
qed

lemma replay_memory_bounded_example:
  "let st = Replay_Stats (snd (rp_run (\<lambda>x. x)
     [OpAuto ReplayForward [1], OpAuto ReplayForward [2], OpAuto ReplayForward [3]] (NewReplayProtectionWithWindow 1))) in
    rs_ForwardWindowSize st \<le> unat (1 :: u64) + 1 \<and> rs_BackwardWindowSize st \<le> unat (1 :: u64) + 1
    \<and> rs_ForwardDigests st = rs_ForwardWindowSize st \<and> rs_BackwardDigests st = rs_BackwardWindowSize st"
  by (rule replay_memory_bounded) simp

subsection \<open>The automatic mode as a list of recent digests\<close>

text \<open>
  The abstract guard: the digests of the last \<open>w + 1\<close> accepted cells; a cell is accepted
  iff its digest is not among them.
\<close>

fun recent_accepts :: "nat \<Rightarrow> bytes list \<Rightarrow> bytes list \<Rightarrow> bool list" where
  "recent_accepts w recent [] = []"
| "recent_accepts w recent (g # gs) =
     (if g \<in> set recent then False # recent_accepts w recent gs
      else True # recent_accepts w (take (w + 1) (g # recent)) gs)"

fun auto_accepts :: "(bytes \<Rightarrow> bytes) \<Rightarrow> ReplayDirection \<Rightarrow> bytes list \<Rightarrow> ReplayProtection \<Rightarrow> bool list" where
  "auto_accepts sha256 dir [] r = []"
| "auto_accepts sha256 dir (c # cs) r =
     (let (e, r') = ValidateAndTrackAuto sha256 dir c r in (e = None) # auto_accepts sha256 dir cs r')"

definition recent_rel :: "u64 \<Rightarrow> bytes list \<Rightarrow> replay_dir \<Rightarrow> bool" where
  "recent_rel ws recent d \<longleftrightarrow>
     distinct recent \<and> length recent \<le> unat (rd_seq d) \<and> length recent \<le> unat ws + 1
     \<and> (\<forall>k v. rd_digests d k = Some v \<longleftrightarrow>
          (\<exists>i<length recent. recent ! i = k \<and> unat v = unat (rd_seq d) - 1 - i))"

lemma recent_rel_dom: "recent_rel ws recent d \<Longrightarrow> rd_digests d g \<noteq> None \<longleftrightarrow> g \<in> set recent"
proof -
  assume rel: "recent_rel ws recent d"
  have "\<exists>v :: u64. unat v = unat (rd_seq d) - 1 - i" for i
  proof -
    have "unat (rd_seq d) - 1 - i < 2 ^ 64"
    proof -
      have "unat (rd_seq d) < 2 ^ LENGTH(64)"
        by (rule unsigned_less)
      then show ?thesis
        by simp
    qed
    then show ?thesis
      by (intro exI [of _ "of_nat (unat (rd_seq d) - 1 - i)"]) (simp add: unat_of_nat take_bit_nat_eq_self)
  qed
  with rel show ?thesis
    unfolding recent_rel_def in_set_conv_nth by fastforce
qed

lemma recent_rel_accept:
  assumes rel: "recent_rel ws recent d" and g: "g \<notin> set recent" and room: "unat (rd_seq d) + 1 < 2 ^ 64"
  shows "recent_rel ws (take (unat ws + 1) (g # recent))
           ((tracked ws (rd_seq d) g (rd_seq d) d)\<lparr>rd_seq := rd_seq d + 1\<rparr>)"
proof -
  let ?s = "rd_seq d" and ?d' = "tracked ws (rd_seq d) g (rd_seq d) d"
  have suc: "unat (?s + 1) = unat ?s + 1"
    by (rule unat_suc [OF room])
  have len: "length recent \<le> unat ?s" "length recent \<le> unat ws + 1" and dist: "distinct recent"
    using rel by (simp_all add: recent_rel_def)
  have old: "rd_digests d k = Some v \<longleftrightarrow> (\<exists>i<length recent. recent ! i = k \<and> unat v = unat ?s - 1 - i)" for k v
    using rel by (simp add: recent_rel_def)
  have step: "rd_digests ?d' k = Some v \<longleftrightarrow>
      (\<exists>i<min (unat ws + 1) (Suc (length recent)). (g # recent) ! i = k \<and> unat v = unat ?s - i)" for k v
  proof (cases "k = g")
    case True
    then have "rd_digests ?d' k = Some v \<longleftrightarrow> v = ?s"
      by (auto simp: tracked_simps less_min_valid)
    also have "\<dots> \<longleftrightarrow> unat v = unat ?s"
      by (metis unsigned_word_eqI)
    also have "\<dots> \<longleftrightarrow> (\<exists>i<min (unat ws + 1) (Suc (length recent)). (g # recent) ! i = k \<and> unat v = unat ?s - i)"
    proof -
      have "(g # recent) ! i = k \<longleftrightarrow> i = 0" if "i < min (unat ws + 1) (Suc (length recent))" for i
        using that g True by (cases i) auto
      then show ?thesis
        by fastforce
    qed
    finally show ?thesis .
  next
    case False
    then have "rd_digests ?d' k = Some v \<longleftrightarrow>
        (\<exists>i<length recent. recent ! i = k \<and> unat v = unat ?s - 1 - i \<and> unat ?s - unat ws \<le> unat v)"
      by (auto simp: tracked_simps less_min_valid old not_less)
    also have "\<dots> \<longleftrightarrow> (\<exists>i. Suc i < min (unat ws + 1) (Suc (length recent)) \<and> recent ! i = k \<and> unat v = unat ?s - Suc i)"
      using len by (intro ex_cong1) auto
    also have "\<dots> \<longleftrightarrow> (\<exists>i<min (unat ws + 1) (Suc (length recent)). (g # recent) ! i = k \<and> unat v = unat ?s - i)"
      using False by (metis gr0_implies_Suc neq0_conv nth_Cons_0 nth_Cons_Suc)
    finally show ?thesis .
  qed
  have digests: "rd_digests ?d' k = Some v \<longleftrightarrow>
      (\<exists>i<length (take (unat ws + 1) (g # recent)). take (unat ws + 1) (g # recent) ! i = k
         \<and> unat v = unat ?s + 1 - 1 - i)" for k v
  proof -
    have m: "length (take (unat ws + 1) (g # recent)) = min (unat ws + 1) (Suc (length recent))"
      by (simp add: min.commute)
    show ?thesis
      unfolding m step by (intro ex_cong1 conj_cong) (simp_all del: take_Suc_Cons)
  qed
  have "distinct (take (unat ws + 1) (g # recent))"
    using dist g by (intro distinct_take) simp
  with digests len show ?thesis
    unfolding recent_rel_def by (simp del: take_Suc_Cons add: suc)
qed

lemma recent_rel_new: "recent_rel ws [] new_replay_dir"
  by (simp add: recent_rel_def new_replay_dir_def)

lemma auto_accepts_refines:
  assumes "rp_inv (length cs) acc r" and "recent_rel (rp_windowSize r) recent (rp_dir dir r)"
    and "\<forall>c\<in>set cs. c \<noteq> []"
  shows "auto_accepts sha256 dir cs r =
    recent_accepts (unat (rp_windowSize r)) recent (map (truncated_digest sha256) cs)"
  using assms
proof (induction cs arbitrary: acc r recent)
  case Nil
  then show ?case by simp
next
  case (Cons c cs)
  let ?ws = "rp_windowSize r" and ?d = "rp_dir dir r" and ?g = "truncated_digest sha256 c"
  have inv: "rp_inv (Suc (length cs)) acc r"
    using Cons.prems(1) by simp
  note room = rp_inv_room [OF inv, of dir]
  have step: "rp_step sha256 (OpAuto dir c) r =
      (let (e, d) = auto_dir ?ws ?g ?d in (if e = None then Some (dir, rd_seq ?d) else None, rp_set_dir dir d r))"
    using Cons.prems(3) by (simp add: rp_step_def ValidateAndTrackAuto_dir split: prod.splits)
  show ?case
  proof (cases "rd_digests ?d ?g")
    case None
    let ?d' = "(tracked ?ws (rd_seq ?d) ?g (rd_seq ?d) ?d)\<lparr>rd_seq := rd_seq ?d + 1\<rparr>"
    have ok: "auto_dir ?ws ?g ?d = (None, ?d')"
      using None by (simp add: auto_dir_cases [OF conjunct1 [OF room] conjunct2 [OF room]])
    have "rp_inv (length cs) (insert (dir, rd_seq ?d) acc) (rp_set_dir dir ?d' r)"
      using rp_step_inv [OF inv step [unfolded ok, simplified]] by simp
    moreover have g: "?g \<notin> set recent"
      using None recent_rel_dom [OF Cons.prems(2)] by blast
    moreover have "recent_rel ?ws (take (unat ?ws + 1) (?g # recent)) ?d'"
      by (rule recent_rel_accept [OF Cons.prems(2) g]) (use room in simp)
    ultimately show ?thesis
      using Cons.IH [of _ "rp_set_dir dir ?d' r" "take (unat ?ws + 1) (?g # recent)"] Cons.prems(3) ok
      by (simp add: ValidateAndTrackAuto_dir)
  next
    case (Some p)
    let ?d' = "?d\<lparr>rd_attempts := rd_attempts ?d + 1\<rparr>"
    have no: "auto_dir ?ws ?g ?d = (Some (DuplicateDigest p (rd_seq ?d)), ?d')"
      using Some by (simp add: auto_dir_cases [OF conjunct1 [OF room] conjunct2 [OF room]])
    have "rp_inv (length cs) acc (rp_set_dir dir ?d' r)"
      using rp_step_inv [OF inv step [unfolded no, simplified]] by simp
    moreover have "?g \<in> set recent"
      using Some recent_rel_dom [OF Cons.prems(2)] by blast
    moreover have "recent_rel ?ws recent ?d'"
      using Cons.prems(2) by (simp add: recent_rel_def)
    ultimately show ?thesis
      using Cons.IH [of _ "rp_set_dir dir ?d' r" recent] Cons.prems(3) no
      by (simp add: ValidateAndTrackAuto_dir)
  qed
qed

text \<open>
  C8: ValidateAndTrackAuto refines the abstract guard: on a new ReplayProtection the k-th
  non-empty cell of a direction is accepted iff its truncated digest is not one of the
  digests of the last windowSize + 1 accepted cells.
\<close>

theorem auto_replay_refines_recent:
  assumes "length cs * (2 * unat ws + 1) < 2 ^ 64" and "\<forall>c\<in>set cs. c \<noteq> []"
  shows "auto_accepts sha256 dir cs (NewReplayProtectionWithWindow ws) =
    recent_accepts (unat ws) [] (map (truncated_digest sha256) cs)"
  using auto_accepts_refines [OF rp_inv_new [OF assms(1)] _ assms(2), of "[]" dir sha256]
  by (simp add: recent_rel_new) (simp add: NewReplayProtectionWithWindow_def recent_rel_new [unfolded new_replay_dir_def])

theorem auto_replay_refines_recent_witness:
  "auto_accepts (\<lambda>x. x) ReplayForward [[1], [2], [1], [3], [1]] (NewReplayProtectionWithWindow 1) =
    [True, True, False, True, True]"
  by (subst auto_replay_refines_recent) (simp_all add: truncated_digest_def)

lemma recent_accepts_fresh:
  "distinct gs \<Longrightarrow> set gs \<inter> set recent = {} \<Longrightarrow> recent_accepts w recent (gs @ hs) =
     replicate (length gs) True @ recent_accepts w (take (w + 1) (rev gs @ recent)) hs"
  if "length recent \<le> w + 1" for hs
  using that
proof (induction gs arbitrary: recent)
  case Nil
  then show ?case by simp
next
  case (Cons g gs)
  have "set gs \<inter> set (take (w + 1) (g # recent)) = {}"
    using Cons.prems by (auto dest!: in_set_takeD)
  moreover have "take (Suc w - length gs) (g # take w recent) = take (Suc w - length gs) (g # recent)"
    by (cases "Suc w - length gs") (auto simp: min_def)
  ultimately show ?case
    using Cons by auto
qed

text \<open>
  The guard forgets. Once windowSize + 1 further cells with other digests have been
  accepted, a replay of an accepted cell is accepted again.
\<close>

lemma auto_replay_forgets:
  assumes "(length cs + 2) * (2 * unat ws + 1) < 2 ^ 64" and "\<forall>x\<in>set (c # cs). x \<noteq> []"
    and "distinct (map (truncated_digest sha256) (c # cs))" and "length cs = unat ws + 1"
  shows "auto_accepts sha256 dir (c # cs @ [c]) (NewReplayProtectionWithWindow ws)
    = replicate (unat ws + 3) True"
proof -
  let ?g = "truncated_digest sha256"
  have "auto_accepts sha256 dir (c # cs @ [c]) (NewReplayProtectionWithWindow ws)
      = recent_accepts (unat ws) [] (map ?g (c # cs) @ [?g c])"
    using auto_accepts_refines [OF rp_inv_new, of "c # cs @ [c]" ws "[]" dir sha256] assms(1,2)
    by (simp add: recent_rel_new) (simp add: NewReplayProtectionWithWindow_def)
  also have "\<dots> = replicate (length (c # cs)) True
      @ recent_accepts (unat ws) (take (unat ws + 1) (rev (map ?g (c # cs)) @ [])) [?g c]"
    by (subst recent_accepts_fresh) (use assms(3) in simp_all)
  also have "take (unat ws + 1) (rev (map ?g (c # cs)) @ []) = rev (map ?g cs)"
    using assms(4) by (simp add: rev_map)
  finally show ?thesis
    using assms(3,4) by (simp add: numeral_3_eq_3 del: auto_accepts.simps flip: replicate_append_same)
qed

lemma auto_replay_forgets_example:
  "auto_accepts (\<lambda>x. x) ReplayForward ([7] # [[1], [2]] @ [[7]]) (NewReplayProtectionWithWindow 1)
    = replicate (unat (1 :: u64) + 3) True"
  by (rule auto_replay_forgets) (simp_all add: truncated_digest_def)

subsection \<open>The interface a circuit relies on\<close>

text \<open>
  What a caller may expect of a replay check on one stream of cells: an accepted cell is
  remembered, a remembered cell is refused, and a refusal forgets nothing.
\<close>

locale replay_guard =
  fixes check :: "'x \<Rightarrow> 's \<Rightarrow> bool \<times> 's"
    and seen :: "'s \<Rightarrow> 'x \<Rightarrow> bool"
    and ok :: "'s \<Rightarrow> bool"
  assumes accepts_unseen: "ok s \<Longrightarrow> fst (check x s) \<longleftrightarrow> \<not> seen s x"
    and remembers: "ok s \<Longrightarrow> fst (check x s) \<Longrightarrow> seen (snd (check x s)) x"
    and refusal_keeps: "ok s \<Longrightarrow> \<not> fst (check x s) \<Longrightarrow> seen (snd (check x s)) = seen s"
begin

lemma immediate_replay_refused:
  assumes "ok s" and "ok (snd (check x s))"
  shows "\<not> fst (check x (snd (check x s)))"
proof (cases "fst (check x s)")
  case True
  then show ?thesis
    using accepts_unseen [OF assms(2), of x] remembers [OF assms(1)] by simp
next
  case False
  then show ?thesis
    using accepts_unseen [OF assms(2), of x] accepts_unseen [OF assms(1), of x] refusal_keeps [OF assms(1) False]
    by simp
qed

end

text \<open>
  One direction of ValidateAndTrackAuto provides it while its counter has not wrapped and
  its window is below its counter.
\<close>

definition auto_check :: "u64 \<Rightarrow> bytes \<Rightarrow> replay_dir \<Rightarrow> bool \<times> replay_dir" where
  "auto_check ws g d = (let (e, d') = auto_dir ws g d in (e = None, d'))"

definition auto_ok :: "u64 \<Rightarrow> replay_dir \<Rightarrow> bool" where
  "auto_ok ws d \<longleftrightarrow> (\<exists>A. rd_inv ws A d) \<and> unat (rd_seq d) + (2 * unat ws + 1) < 2 ^ 64"

interpretation auto_guard: replay_guard "auto_check ws" "\<lambda>d g. g \<in> dom (rd_digests d)" "auto_ok ws" for ws
proof
  fix g d
  assume "auto_ok ws d"
  then obtain A where inv: "rd_inv ws A d" and room: "unat (rd_seq d) + (2 * unat ws + 1) < 2 ^ 64"
    by (auto simp: auto_ok_def)
  note cases = auto_dir_cases [OF inv room]
  show "fst (auto_check ws g d) \<longleftrightarrow> \<not> g \<in> dom (rd_digests d)"
    by (auto simp: auto_check_def cases split: option.splits)
  show "fst (auto_check ws g d) \<Longrightarrow> g \<in> dom (rd_digests (snd (auto_check ws g d)))"
    by (auto simp: auto_check_def cases dom_def tracked_simps less_min_valid split: option.splits)
  show "\<not> fst (auto_check ws g d) \<Longrightarrow>
      (\<lambda>g'. g' \<in> dom (rd_digests (snd (auto_check ws g d)))) = (\<lambda>g. g \<in> dom (rd_digests d))"
    by (auto simp: auto_check_def cases split: option.splits)
qed

lemma auto_ok_new: "3 * (2 * unat ws + 1) < 2 ^ 64 \<Longrightarrow> auto_ok ws new_replay_dir"
  unfolding auto_ok_def using rd_inv_new by (auto simp: new_replay_dir_def)

end
