(* ===== verification/Isolation.thy ===== *)
theory Isolation
  imports GoPrelude
begin

section \<open>pkg/circuit/isolation.go: isolation keys\<close>

text \<open>
  The key that decides which streams may share a circuit. A nil *IsolationKey is \<open>None\<close>.
  SHA-256 is the parameter \<open>sha256\<close>. \<open>to_lower\<close> is strings.ToLower on ASCII
  strings (beyond them ToLower also maps other letters, the Kelvin sign to k for instance).
\<close>

datatype IsolationLevel =
    IsolationNone
  | IsolationDestination
  | IsolationCredential
  | IsolationPort
  | IsolationSession
  | IsolationOther int

record IsolationKey =
  ik_Level :: IsolationLevel
  ik_Destination :: string
  ik_Credentials :: string
  ik_SourcePort :: u16
  ik_SessionToken :: string

definition dec_of_int :: "int \<Rightarrow> string" where
  "dec_of_int i = (if i < 0 then ''-'' @ dec_of_nat (nat (- i)) else dec_of_nat (nat i))"

definition IsolationLevel_String :: "IsolationLevel \<Rightarrow> string" where
  "IsolationLevel_String l =
     (case l of
        IsolationNone \<Rightarrow> ''none''
      | IsolationDestination \<Rightarrow> ''destination''
      | IsolationCredential \<Rightarrow> ''credential''
      | IsolationPort \<Rightarrow> ''port''
      | IsolationSession \<Rightarrow> ''session''
      | IsolationOther i \<Rightarrow> ''unknown('' @ dec_of_int i @ '')'')"

definition to_lower_char :: "char \<Rightarrow> char" where
  "to_lower_char c = (if 65 \<le> (of_char c :: nat) \<and> (of_char c :: nat) \<le> 90 then char_of (of_char c + 32 :: nat) else c)"

definition to_lower :: "string \<Rightarrow> string" where
  "to_lower s = map to_lower_char s"

definition ParseIsolationLevel :: "string \<Rightarrow> IsolationLevel \<times> string option" where
  "ParseIsolationLevel s =
     (let t = to_lower s in
      if t = ''none'' then (IsolationNone, None)
      else if t = ''destination'' then (IsolationDestination, None)
      else if t = ''credential'' \<or> t = ''credentials'' then (IsolationCredential, None)
      else if t = ''port'' then (IsolationPort, None)
      else if t = ''session'' then (IsolationSession, None)
      else (IsolationNone, Some (''invalid isolation level: '' @ s)))"

definition NewIsolationKey :: "IsolationLevel \<Rightarrow> IsolationKey" where
  "NewIsolationKey level =
     \<lparr>ik_Level = level, ik_Destination = '''', ik_Credentials = '''', ik_SourcePort = 0, ik_SessionToken = ''''\<rparr>"

text \<open>hex.EncodeToString: two lower-case digits per byte.\<close>

definition hex_digit :: "nat \<Rightarrow> char" where
  "hex_digit n = char_of (if n < 10 then 48 + n else 87 + n)"

definition hex_encode :: "bytes \<Rightarrow> string" where
  "hex_encode bs = concat (map (\<lambda>b. [hex_digit (unat b div 16), hex_digit (unat b mod 16)]) bs)"

definition WithDestination :: "string \<Rightarrow> IsolationKey \<Rightarrow> IsolationKey" where
  "WithDestination dest k = k\<lparr>ik_Destination := dest\<rparr>"

definition WithCredentials :: "(bytes \<Rightarrow> bytes) \<Rightarrow> string \<Rightarrow> IsolationKey \<Rightarrow> IsolationKey" where
  "WithCredentials sha256 username k =
     (if username \<noteq> '''' then k\<lparr>ik_Credentials := hex_encode (sha256 (bytes_of_string username))\<rparr> else k)"

definition WithSourcePort :: "u16 \<Rightarrow> IsolationKey \<Rightarrow> IsolationKey" where
  "WithSourcePort port k = k\<lparr>ik_SourcePort := port\<rparr>"

definition WithSessionToken :: "(bytes \<Rightarrow> bytes) \<Rightarrow> string \<Rightarrow> IsolationKey \<Rightarrow> IsolationKey" where
  "WithSessionToken sha256 token k =
     (if token \<noteq> '''' then k\<lparr>ik_SessionToken := hex_encode (sha256 (bytes_of_string token))\<rparr> else k)"

fun join :: "string \<Rightarrow> string list \<Rightarrow> string" where
  "join sep [] = ''''"
| "join sep [x] = x"
| "join sep (x # y # ys) = x @ sep @ join sep (y # ys)"

definition short_hash :: "string \<Rightarrow> string" where
  "short_hash s = (if length s > 8 then take 8 s @ ''...'' else s)"

definition IsolationKey_String :: "IsolationKey option \<Rightarrow> string" where
  "IsolationKey_String ko =
     (case ko of
        None \<Rightarrow> ''none''
      | Some k \<Rightarrow>
          (if ik_Level k = IsolationNone then ''none''
           else join '','' ((''level='' @ IsolationLevel_String (ik_Level k)) #
             (case ik_Level k of
                IsolationDestination \<Rightarrow>
                  (if ik_Destination k \<noteq> '''' then [''dest='' @ ik_Destination k] else [])
              | IsolationCredential \<Rightarrow>
                  (if ik_Credentials k \<noteq> '''' then [''creds='' @ short_hash (ik_Credentials k)] else [])
              | IsolationPort \<Rightarrow>
                  (if ik_SourcePort k \<noteq> 0 then [''port='' @ dec_of_nat (unat (ik_SourcePort k))] else [])
              | IsolationSession \<Rightarrow>
                  (if ik_SessionToken k \<noteq> '''' then [''session='' @ short_hash (ik_SessionToken k)] else [])
              | _ \<Rightarrow> []))))"

definition IsolationKey_Key :: "IsolationKey option \<Rightarrow> string" where
  "IsolationKey_Key ko =
     (case ko of
        None \<Rightarrow> ''''
      | Some k \<Rightarrow>
          (if ik_Level k = IsolationNone then ''''
           else join '':''
             (case ik_Level k of
                IsolationDestination \<Rightarrow> [''dest'', ik_Destination k]
              | IsolationCredential \<Rightarrow> [''creds'', ik_Credentials k]
              | IsolationPort \<Rightarrow> [''port'', dec_of_nat (unat (ik_SourcePort k))]
              | IsolationSession \<Rightarrow> [''session'', ik_SessionToken k]
              | _ \<Rightarrow> [])))"

definition IsolationKey_Equals :: "IsolationKey option \<Rightarrow> IsolationKey option \<Rightarrow> bool" where
  "IsolationKey_Equals ko other =
     (case (ko, other) of
        (None, None) \<Rightarrow> True
      | (Some k, Some o') \<Rightarrow>
          (if ik_Level k \<noteq> ik_Level o' then False
           else case ik_Level k of
                  IsolationNone \<Rightarrow> True
                | IsolationDestination \<Rightarrow> ik_Destination k = ik_Destination o'
                | IsolationCredential \<Rightarrow> ik_Credentials k = ik_Credentials o'
                | IsolationPort \<Rightarrow> ik_SourcePort k = ik_SourcePort o'
                | IsolationSession \<Rightarrow> ik_SessionToken k = ik_SessionToken o'
                | _ \<Rightarrow> False)
      | _ \<Rightarrow> False)"

datatype key_error =
    KeyNil
  | DestinationMissing
  | DestinationFormat string
  | CredentialsMissing
  | PortZero
  | SessionMissing
  | UnknownLevel int

definition IsolationKey_Validate :: "IsolationKey option \<Rightarrow> key_error option" where
  "IsolationKey_Validate ko =
     (case ko of
        None \<Rightarrow> Some KeyNil
      | Some k \<Rightarrow>
          (case ik_Level k of
             IsolationNone \<Rightarrow> None
           | IsolationDestination \<Rightarrow>
               (if ik_Destination k = '''' then Some DestinationMissing
                else if CHR '':'' \<notin> set (ik_Destination k) then Some (DestinationFormat (ik_Destination k))
                else None)
           | IsolationCredential \<Rightarrow> (if ik_Credentials k = '''' then Some CredentialsMissing else None)
           | IsolationPort \<Rightarrow> (if ik_SourcePort k = 0 then Some PortZero else None)
           | IsolationSession \<Rightarrow> (if ik_SessionToken k = '''' then Some SessionMissing else None)
           | IsolationOther i \<Rightarrow> Some (UnknownLevel i)))"

definition IsolationKey_Clone :: "IsolationKey option \<Rightarrow> IsolationKey option" where
  "IsolationKey_Clone ko =
     (case ko of
        None \<Rightarrow> None
      | Some k \<Rightarrow> Some \<lparr>ik_Level = ik_Level k, ik_Destination = ik_Destination k,
                         ik_Credentials = ik_Credentials k, ik_SourcePort = ik_SourcePort k,
                         ik_SessionToken = ik_SessionToken k\<rparr>)"

subsection \<open>Levels\<close>

lemma to_lower_level: "to_lower (IsolationLevel_String l) = IsolationLevel_String l" if "\<forall>i. l \<noteq> IsolationOther i"
  using that by (cases l) (simp_all add: IsolationLevel_String_def to_lower_def to_lower_char_def)

lemma ParseIsolationLevel_String:
  "ParseIsolationLevel (IsolationLevel_String l) = (l, None)" if "\<forall>i. l \<noteq> IsolationOther i"
  using that by (cases l) (simp_all add: ParseIsolationLevel_def to_lower_def to_lower_char_def IsolationLevel_String_def)

text \<open>
  The level names round-trip, whatever the case of the letters, and a level is parsed
  without error exactly from its own name (or the plural of credential).
\<close>

lemma isolation_level_roundtrip:
  "ParseIsolationLevel s = (l, None) \<longleftrightarrow>
     (to_lower s = IsolationLevel_String l \<and> (\<forall>i. l \<noteq> IsolationOther i))
     \<or> (to_lower s = ''credentials'' \<and> l = IsolationCredential)"
  by (cases l) (auto simp: ParseIsolationLevel_def IsolationLevel_String_def Let_def)

subsection \<open>Keys\<close>

lemma hex_digit_inj: "m < 16 \<Longrightarrow> n < 16 \<Longrightarrow> hex_digit m = hex_digit n \<longleftrightarrow> m = n"
  by (simp add: hex_digit_def)

lemma hex_encode_inj: "hex_encode xs = hex_encode ys \<longleftrightarrow> xs = ys"
proof (induction xs arbitrary: ys)
  case Nil
  then show ?case by (cases ys) (simp_all add: hex_encode_def)
next
  case (Cons x xs)
  have digits: "unat (b :: byte) div 16 < 16" "unat b mod 16 < 16" for b
    using unat_byte_less [of b] by simp_all
  have join: "x = y \<longleftrightarrow> unat x div 16 = unat y div 16 \<and> unat x mod 16 = unat y mod 16" for y
    by (metis mult_div_mod_eq unsigned_word_eqI)
  from Cons show ?case
    by (cases ys) (simp_all add: hex_encode_def hex_digit_inj digits join)
qed

lemma hex_encode_nonempty: "hex_encode xs = '''' \<longleftrightarrow> xs = []"
  using hex_encode_inj [of xs "[]"] by (simp add: hex_encode_def)

lemma Validate_level: "IsolationKey_Validate (Some k) = None \<Longrightarrow> ik_Level k \<noteq> IsolationOther i"
  by (auto simp: IsolationKey_Validate_def)

text \<open>
  The string the circuit pool indexes by separates exactly the keys that Equals
  separates, for keys that Validate accepts.
\<close>

lemma isolation_key_separates:
  assumes "IsolationKey_Validate (Some k) = None" and "IsolationKey_Validate (Some k') = None"
  shows "IsolationKey_Key (Some k) = IsolationKey_Key (Some k') \<longleftrightarrow> IsolationKey_Equals (Some k) (Some k')"
  using Validate_level [OF assms(1)] Validate_level [OF assms(2)]
  by (cases "ik_Level k"; cases "ik_Level k'")
     (auto simp: IsolationKey_Key_def IsolationKey_Equals_def dec_of_nat_inj intro: unsigned_word_eqI)

lemma isolation_key_separates_example:
  "IsolationKey_Key (Some (WithSourcePort 80 (NewIsolationKey IsolationPort)))
     \<noteq> IsolationKey_Key (Some (WithSourcePort 8080 (NewIsolationKey IsolationPort)))"
  by (subst isolation_key_separates)
     (simp_all add: IsolationKey_Validate_def NewIsolationKey_def WithSourcePort_def IsolationKey_Equals_def)

text \<open>
  Two credential-isolated users share a pool key iff the SHA-256 digests of their user
  names agree; the user name itself is not kept.
\<close>

lemma credential_isolation:
  assumes "u \<noteq> ''''" and "v \<noteq> ''''"
  shows "IsolationKey_Key (Some (WithCredentials sha256 u (NewIsolationKey IsolationCredential)))
       = IsolationKey_Key (Some (WithCredentials sha256 v (NewIsolationKey IsolationCredential)))
     \<longleftrightarrow> sha256 (bytes_of_string u) = sha256 (bytes_of_string v)"
  using assms by (simp add: IsolationKey_Key_def WithCredentials_def NewIsolationKey_def hex_encode_inj)

lemma credential_isolation_example:
  "IsolationKey_Key (Some (WithCredentials (\<lambda>x. x) ''alice'' (NewIsolationKey IsolationCredential)))
     \<noteq> IsolationKey_Key (Some (WithCredentials (\<lambda>x. x) ''bob'' (NewIsolationKey IsolationCredential)))"
  by (subst credential_isolation) (simp_all add: bytes_of_string_def)

lemma Clone_id: "IsolationKey_Clone ko = ko"
  by (cases ko) (simp_all add: IsolationKey_Clone_def)

text \<open>
  An unknown level is not separated from no isolation by Key, and Validate is the only
  operation that refuses it.
\<close>

lemma unknown_level_shares: "ik_Level k = IsolationOther i \<Longrightarrow>
    IsolationKey_Key (Some k) = IsolationKey_Key None \<and> IsolationKey_Validate (Some k) = Some (UnknownLevel i)"
  by (simp add: IsolationKey_Key_def IsolationKey_Validate_def)

end
