(* ===== verification/Crypto.thy ===== *)
theory Crypto
  imports Conversion
begin

section \<open>pkg/crypto/crypto.go: stream cipher, KDF-TOR and the ntor response\<close>

text \<open>
  The primitives come from outside the repository and are parameters: SHA-1 (crypto/sha1),
  the AES-CTR keystream (crypto/aes and crypto/cipher), Curve25519 (golang.org/x/crypto)
  and HKDF-SHA256. What the repository builds on them is modelled: the cipher object with
  its position, the key derivation loop, and the client's half of the ntor handshake.
\<close>

subsection \<open>AES-CTR\<close>

text \<open>
  cipher.Stream: a keystream and the position reached. XORKeyStream(dst, src) is used in
  place everywhere in the repository; it consumes as many keystream bytes as it is given.
\<close>

record stream_cipher =
  sc_keystream :: "nat \<Rightarrow> byte"
  sc_pos :: nat

definition XORKeyStream :: "bytes \<Rightarrow> stream_cipher \<Rightarrow> bytes \<times> stream_cipher" where
  "XORKeyStream src c =
     (map (\<lambda>i. src ! i XOR sc_keystream c (sc_pos c + i)) [0..<length src],
      c\<lparr>sc_pos := sc_pos c + length src\<rparr>)"

datatype crypto_error =
    AESKeySize nat
  | IVPanic
  | InvalidKeyLength int
  | ResponseLength nat
  | AuthMismatch
  | IdentityKeyLength nat
  | NtorKeyLength nat
  | SlicePanic

definition NewAESCTRCipher ::
  "(bytes \<Rightarrow> bytes \<Rightarrow> nat \<Rightarrow> byte) \<Rightarrow> bytes \<Rightarrow> bytes \<Rightarrow> crypto_error + stream_cipher" where
  "NewAESCTRCipher aes_ctr key iv =
     (if length key \<notin> {16, 24, 32} then Inl (AESKeySize (length key))
      else if length iv \<noteq> 16 then Inl IVPanic
      else Inr \<lparr>sc_keystream = aes_ctr key iv, sc_pos = 0\<rparr>)"

definition AESCTR_Encrypt :: "bytes \<Rightarrow> stream_cipher \<Rightarrow> bytes \<times> stream_cipher" where
  "AESCTR_Encrypt plaintext c = XORKeyStream plaintext c"

definition AESCTR_Decrypt :: "bytes \<Rightarrow> stream_cipher \<Rightarrow> bytes \<times> stream_cipher" where
  "AESCTR_Decrypt ciphertext c = XORKeyStream ciphertext c"

lemma XORKeyStream_length [simp]: "length (fst (XORKeyStream xs c)) = length xs"
  by (simp add: XORKeyStream_def)

lemma XORKeyStream_state: "snd (XORKeyStream xs c) = c\<lparr>sc_pos := sc_pos c + length xs\<rparr>"
  by (simp add: XORKeyStream_def)

lemma XORKeyStream_nth: "i < length xs \<Longrightarrow> fst (XORKeyStream xs c) ! i = xs ! i XOR sc_keystream c (sc_pos c + i)"
  by (simp add: XORKeyStream_def)

lemma XORKeyStream_twice [simp]: "fst (XORKeyStream (fst (XORKeyStream xs c)) c) = xs"
  by (rule nth_equalityI) (simp_all add: XORKeyStream_nth xor.assoc)

lemma XORKeyStream_append:
  "XORKeyStream (xs @ ys) c =
     (let (xs', c1) = XORKeyStream xs c; (ys', c2) = XORKeyStream ys c1 in (xs' @ ys', c2))"
proof -
  have "map (\<lambda>i. (xs @ ys) ! i XOR sc_keystream c (sc_pos c + i)) [0..<length (xs @ ys)]
    = map (\<lambda>i. xs ! i XOR sc_keystream c (sc_pos c + i)) [0..<length xs]
      @ map (\<lambda>i. ys ! i XOR sc_keystream c (sc_pos c + (length xs + i))) [0..<length ys]"
    by (rule nth_equalityI) (auto simp: nth_append)
  then show ?thesis
    by (simp add: XORKeyStream_def add.assoc)
qed

text \<open>A sequence of messages through one cipher object.\<close>

fun ctr_run :: "bytes list \<Rightarrow> stream_cipher \<Rightarrow> bytes list \<times> stream_cipher" where
  "ctr_run [] c = ([], c)"
| "ctr_run (m # ms) c =
     (let (m', c1) = AESCTR_Encrypt m c; (ms', c2) = ctr_run ms c1 in (m' # ms', c2))"

lemma ctr_run_concat: "XORKeyStream (concat ms) c = (concat (fst (ctr_run ms c)), snd (ctr_run ms c))"
proof (induction ms arbitrary: c)
  case Nil
  then show ?case by (simp add: XORKeyStream_def)
next
  case (Cons m ms)
  then show ?case
    by (simp add: XORKeyStream_append AESCTR_Encrypt_def split: prod.splits)
qed

text \<open>
  Two cipher objects made from the same key and IV are a channel: whatever sequence of
  messages one end encrypts, the other end decrypts the byte stream, however it is cut into
  pieces, and both end in the same cipher state.
\<close>

lemma aes_ctr_channel:
  assumes "NewAESCTRCipher aes_ctr key iv = Inr c" and "ctr_run ms c = (cs, c1)"
    and "concat pieces = concat cs" and "ctr_run pieces c = (ds, c2)"
  shows "concat ds = concat ms \<and> c2 = c1"
proof -
  have "XORKeyStream (concat ms) c = (concat cs, c1)"
    by (simp add: ctr_run_concat assms(2))
  moreover have "XORKeyStream (concat cs) c = (concat ds, c2)"
    using ctr_run_concat [of pieces c] by (simp add: assms(3,4))
  ultimately show ?thesis
    using XORKeyStream_twice [of "concat ms" c] XORKeyStream_state [of "concat ms" c]
      XORKeyStream_state [of "concat cs" c] XORKeyStream_length [of "concat ms" c] by simp
qed

lemma aes_ctr_channel_example:
  "concat [[1], [2, 3 :: byte]] = concat [[1, 2], [3]] \<and>
   \<lparr>sc_keystream = (\<lambda>i. of_nat i), sc_pos = 3\<rparr> = \<lparr>sc_keystream = (\<lambda>i. of_nat i), sc_pos = 3\<rparr>"
  by (rule aes_ctr_channel [where aes_ctr = "\<lambda>k v i. of_nat i" and key = "zeros 16" and iv = "zeros 16"
        and c = "\<lparr>sc_keystream = (\<lambda>i. of_nat i), sc_pos = 0\<rparr>"
        and cs = "[[1, 3], [1]]" and pieces = "[[1], [3, 1]]"])
     (simp_all add: NewAESCTRCipher_def AESCTR_Encrypt_def XORKeyStream_def numeral_2_eq_2 upt_rec)

subsection \<open>KDF-TOR\<close>

text \<open>
  The loop of DeriveKey: append SHA1(K0 | [i]) while the result is short; the counter is a
  byte and wraps.
\<close>

partial_function (option) DeriveKey_loop ::
  "(bytes \<Rightarrow> bytes) \<Rightarrow> nat \<Rightarrow> bytes \<Rightarrow> byte \<Rightarrow> bytes \<Rightarrow> bytes option" where
  "DeriveKey_loop sha1 keyLen k0 i result =
     (if length result < keyLen
      then DeriveKey_loop sha1 keyLen k0 (i + 1) (result @ sha1 (k0 @ [i]))
      else Some result)"

definition DeriveKey :: "(bytes \<Rightarrow> bytes) \<Rightarrow> bytes \<Rightarrow> int \<Rightarrow> (crypto_error + bytes) option" where
  "DeriveKey sha1 secret keyLen =
     (if keyLen \<le> 0 then Some (Inl (InvalidKeyLength keyLen))
      else let k0 = sha1 secret in
           case DeriveKey_loop sha1 (nat keyLen) k0 1 k0 of
             None \<Rightarrow> None
           | Some result \<Rightarrow> Some (Inr (take (nat keyLen) result)))"

text \<open>The blocks K0, H(K0 | [1]), H(K0 | [2]), ... with the counter modulo 256.\<close>

definition kdf_blocks :: "(bytes \<Rightarrow> bytes) \<Rightarrow> bytes \<Rightarrow> nat \<Rightarrow> nat \<Rightarrow> bytes" where
  "kdf_blocks sha1 k0 m n = concat (map (\<lambda>i. sha1 (k0 @ [of_nat i])) [m..<n])"

lemma kdf_blocks_length: "\<forall>x. length (sha1 x) = 20 \<Longrightarrow> length (kdf_blocks sha1 k0 m n) = 20 * (n - m)"
  by (simp add: kdf_blocks_def length_concat o_def sum_list_triv)

lemma kdf_blocks_Suc: "m < n \<Longrightarrow> kdf_blocks sha1 k0 m n = sha1 (k0 @ [of_nat m]) @ kdf_blocks sha1 k0 (Suc m) n"
  by (simp add: kdf_blocks_def upt_conv_Cons)

lemma DeriveKey_loop_blocks:
  assumes "\<forall>x. length (sha1 x) = 20" and "keyLen \<le> length result + 20 * d" and "d = 0 \<or> length result + 20 * d < keyLen + 20"
  shows "DeriveKey_loop sha1 keyLen k0 (of_nat i) result = Some (result @ kdf_blocks sha1 k0 i (i + d))"
  using assms(2,3)
proof (induction d arbitrary: i result)
  case 0
  then show ?case
    by (simp add: DeriveKey_loop.simps kdf_blocks_def)
next
  case (Suc d)
  let ?r = "result @ sha1 (k0 @ [of_nat i])"
  have "DeriveKey_loop sha1 keyLen k0 (of_nat i) result = DeriveKey_loop sha1 keyLen k0 (of_nat (Suc i)) ?r"
    using Suc.prems by (subst DeriveKey_loop.simps) (simp add: add.commute)
  also have "\<dots> = Some (?r @ kdf_blocks sha1 k0 (Suc i) (Suc i + d))"
    by (rule Suc.IH) (use Suc.prems assms(1) in auto)
  finally show ?case
    by (simp add: kdf_blocks_Suc [of i "Suc (i + d)"])
qed

definition kdf_extra :: "nat \<Rightarrow> nat" where
  "kdf_extra keyLen = (keyLen + 19 - 20) div 20"

lemma DeriveKey_value:
  assumes "\<forall>x. length (sha1 x) = 20" and "0 < keyLen"
  shows "DeriveKey sha1 secret keyLen = Some (Inr (take (nat keyLen)
    (sha1 secret @ kdf_blocks sha1 (sha1 secret) 1 (1 + kdf_extra (nat keyLen)))))"
proof -
  have "DeriveKey_loop sha1 (nat keyLen) (sha1 secret) (of_nat 1) (sha1 secret)
    = Some (sha1 secret @ kdf_blocks sha1 (sha1 secret) 1 (1 + kdf_extra (nat keyLen)))"
    by (rule DeriveKey_loop_blocks) (use assms(1) in \<open>auto simp: kdf_extra_def\<close>)
  with assms(2) show ?thesis
    by (simp add: DeriveKey_def Let_def)
qed

lemma kdf_blocks_take:
  assumes "\<forall>x. length (sha1 x) = 20" and "n \<le> n'"
  shows "kdf_blocks sha1 k0 m (m + n) = take (20 * n) (kdf_blocks sha1 k0 m (m + n'))"
proof -
  have "[m..<m + n'] = [m..<m + n] @ [m + n..<m + n']"
    using assms(2) upt_add_eq_append [of m "m + n" "n' - n"] by simp
  then have "kdf_blocks sha1 k0 m (m + n') = kdf_blocks sha1 k0 m (m + n) @ kdf_blocks sha1 k0 (m + n) (m + n')"
    by (simp add: kdf_blocks_def)
  then show ?thesis
    by (simp add: kdf_blocks_length [OF assms(1)])
qed

text \<open>
  DeriveKey terminates with exactly the number of bytes asked for, refuses a length
  that is not positive, and is a stream: a shorter derivation is a prefix of a longer one.
\<close>

lemma derive_key_stream:
  assumes sha1: "\<forall>x. length (sha1 x) = 20" and "0 < m" and "m \<le> n"
  shows "\<exists>a b. DeriveKey sha1 secret m = Some (Inr a) \<and> DeriveKey sha1 secret n = Some (Inr b)
    \<and> length a = nat m \<and> length b = nat n \<and> a = take (nat m) b
    \<and> DeriveKey sha1 secret (- n) = Some (Inl (InvalidKeyLength (- n)))"
proof -
  let ?k = "sha1 secret" and ?em = "kdf_extra (nat m)" and ?en = "kdf_extra (nat n)"
  have len: "nat m \<le> 20 + 20 * ?em" "nat n \<le> 20 + 20 * ?en" and mono: "?em \<le> ?en"
    using assms(2,3) by (auto simp: kdf_extra_def intro!: div_le_mono)
  have "take (nat m) (?k @ kdf_blocks sha1 ?k 1 (1 + ?em)) = take (nat m) (take (20 + 20 * ?em) (?k @ kdf_blocks sha1 ?k 1 (1 + ?en)))"
    using kdf_blocks_take [OF sha1 mono, of ?k 1] sha1 by simp
  also have "\<dots> = take (nat m) (take (nat n) (?k @ kdf_blocks sha1 ?k 1 (1 + ?en)))"
    using len(1) assms(2,3) by (simp only: take_take min.absorb1 nat_mono)
  finally have prefix: "take (nat m) (?k @ kdf_blocks sha1 ?k 1 (1 + ?em)) = \<dots>" .
  have "nat m \<le> length (?k @ kdf_blocks sha1 ?k 1 (1 + ?em))" "nat n \<le> length (?k @ kdf_blocks sha1 ?k 1 (1 + ?en))"
    using len sha1 by (simp_all add: kdf_blocks_length)
  then show ?thesis
    using assms(2,3) prefix
    by (intro exI [of _ "take (nat m) (?k @ kdf_blocks sha1 ?k 1 (1 + ?em))"] exI [of _ "take (nat n) (?k @ kdf_blocks sha1 ?k 1 (1 + ?en))"])
       (simp add: DeriveKey_value [OF sha1] del: take_append, simp add: DeriveKey_def)
qed

lemma derive_key_stream_example:
  "\<exists>a b. DeriveKey (\<lambda>x. zeros 20) [1, 2] 30 = Some (Inr a) \<and> DeriveKey (\<lambda>x. zeros 20) [1, 2] 72 = Some (Inr b)
    \<and> length a = nat 30 \<and> length b = nat 72 \<and> a = take (nat 30) b
    \<and> DeriveKey (\<lambda>x. zeros 20) [1, 2] (- 72) = Some (Inl (InvalidKeyLength (- 72)))"
  by (rule derive_key_stream) simp_all

text \<open>The byte counter wraps: block 256 + i is block i again.\<close>

lemma kdf_counter_wraps: "sha1 (k0 @ [of_nat (256 + i) :: byte]) = sha1 (k0 @ [of_nat i])"
proof -
  have "(256 :: byte) = 0"
    by simp
  then show ?thesis
    by (simp only: of_nat_add of_nat_numeral add_0)
qed

subsection \<open>The ntor handshake, client side\<close>

text \<open>
  GenerateNtorKeyPair with the 32 random bytes as an argument; \<open>base_mult\<close> and
  \<open>scalar_mult\<close> are Curve25519, \<open>hkdf\<close> is HKDF-SHA256 with a nil salt.
\<close>

record NtorKeyPair =
  kp_Private :: bytes
  kp_Public :: bytes

definition GenerateNtorKeyPair :: "(bytes \<Rightarrow> bytes) \<Rightarrow> bytes \<Rightarrow> NtorKeyPair" where
  "GenerateNtorKeyPair base_mult random = \<lparr>kp_Private = random, kp_Public = base_mult random\<rparr>"

definition NtorClientHandshake ::
  "(bytes \<Rightarrow> bytes) \<Rightarrow> bytes \<Rightarrow> bytes \<Rightarrow> bytes \<Rightarrow> crypto_error + bytes \<times> bytes" where
  "NtorClientHandshake base_mult random identityKey ntorOnionKey =
     (if length identityKey \<noteq> 32 then Inl (IdentityKeyLength (length identityKey))
      else if length ntorOnionKey \<noteq> 32 then Inl (NtorKeyLength (length ntorOnionKey))
      else let ephemeral = GenerateNtorKeyPair base_mult random;
               handshakeData = go_copy (zeros 20) (take 20 identityKey)
                 @ go_copy (zeros 32) ntorOnionKey @ go_copy (zeros 32) (kp_Public ephemeral);
               sharedSecret = go_copy (zeros 32) (kp_Private ephemeral)
           in Inr (handshakeData, sharedSecret))"

text \<open>The XOR-accumulate loop.\<close>

fun ct_accumulate :: "bytes \<Rightarrow> bytes \<Rightarrow> byte \<Rightarrow> byte" where
  "ct_accumulate (x # xs) (y # ys) result = ct_accumulate xs ys (result OR (x XOR y))"
| "ct_accumulate xs ys result = result"

definition crypto_constantTimeCompare :: "bytes \<Rightarrow> bytes \<Rightarrow> bool" where
  "crypto_constantTimeCompare a b \<longleftrightarrow>
     (if length a \<noteq> length b then False else ct_accumulate a b 0 = 0)"

lemma ct_accumulate_zero:
  "length a = length b \<Longrightarrow> ct_accumulate a b r = 0 \<longleftrightarrow> r = 0 \<and> a = b"
proof (induction a b r rule: ct_accumulate.induct)
  case (1 x xs y ys r)
  have "x XOR y = 0 \<longleftrightarrow> x = y"
    by (metis xor.assoc xor.left_neutral xor_self_eq)
  with 1 show ?case
    by (auto simp: or_eq_0_iff)
qed auto

lemma crypto_compare_eq [simp]: "crypto_constantTimeCompare a b \<longleftrightarrow> a = b"
  by (auto simp: crypto_constantTimeCompare_def ct_accumulate_zero)

definition ntor_protoid :: bytes where
  "ntor_protoid = bytes_of_string ''ntor-curve25519-sha256-1''"

definition ntor_verify :: bytes where
  "ntor_verify = bytes_of_string ''ntor-curve25519-sha256-1:verify''"

definition ntor_key_extract :: bytes where
  "ntor_key_extract = bytes_of_string ''ntor-curve25519-sha256-1:key_extract''"

record ntor_primitives =
  np_base :: "bytes \<Rightarrow> bytes"
  np_mult :: "bytes \<Rightarrow> bytes \<Rightarrow> bytes"
  np_hkdf :: "bytes \<Rightarrow> bytes \<Rightarrow> nat \<Rightarrow> bytes"

definition NtorProcessResponse ::
  "ntor_primitives \<Rightarrow> bytes \<Rightarrow> bytes \<Rightarrow> bytes \<Rightarrow> bytes \<Rightarrow> crypto_error + bytes" where
  "NtorProcessResponse np response clientPrivate serverNtorKey serverIdentity =
     (if length response \<noteq> 64 then Inl (ResponseLength (length response))
      else let serverY = go_copy (zeros 32) (take 32 response);
               auth = go_copy (zeros 32) (drop 32 response);
               clientX = go_copy (zeros 32) clientPrivate;
               sharedXY = np_mult np clientX serverY;
               serverB = go_copy (zeros 32) serverNtorKey;
               sharedXB = np_mult np clientX serverB
           in case go_slice serverIdentity 0 32 of
                None \<Rightarrow> Inl SlicePanic
              | Some ident \<Rightarrow>
                  let clientPub = np_base np clientX;
                      secretInput = sharedXY @ sharedXB @ ident @ serverNtorKey @ clientPub @ serverY @ ntor_protoid;
                      expectedAuth = np_hkdf np secretInput ntor_verify 32
                  in if \<not> crypto_constantTimeCompare auth expectedAuth then Inl AuthMismatch
                     else Inr (np_hkdf np secretInput ntor_key_extract 72))"

text \<open>What a server holding the two private keys computes for the same handshake.\<close>

definition ntor_secret_input :: "ntor_primitives \<Rightarrow> bytes \<Rightarrow> bytes \<Rightarrow> bytes \<Rightarrow> bytes \<Rightarrow> bytes" where
  "ntor_secret_input np Y x B ident =
     np_mult np x Y @ np_mult np x B @ ident @ B @ np_base np x @ Y @ ntor_protoid"

text \<open>
  C12: NtorProcessResponse accepts a response for 32-byte keys exactly when it is a 32-byte
  server key followed by the verifier of the resulting secret input, and then returns the
  72 bytes extracted from that secret input.
\<close>

theorem ntor_response_exact:
  assumes "length x = 32" and "length B = 32" and "length ident = 32"
    and "\<forall>s i n. length (np_hkdf np s i n) = n"
  shows "NtorProcessResponse np response x B ident = Inr km \<longleftrightarrow>
    (\<exists>Y. length Y = 32
       \<and> response = Y @ np_hkdf np (ntor_secret_input np Y x B ident) ntor_verify 32
       \<and> km = np_hkdf np (ntor_secret_input np Y x B ident) ntor_key_extract 72)"
proof (cases "length response = 64")
  case True
  let ?Y = "take 32 response" and ?auth = "drop 32 response"
  have "NtorProcessResponse np response x B ident =
    (if ?auth = np_hkdf np (ntor_secret_input np ?Y x B ident) ntor_verify 32
     then Inr (np_hkdf np (ntor_secret_input np ?Y x B ident) ntor_key_extract 72) else Inl AuthMismatch)"
    using True assms by (simp add: NtorProcessResponse_def Let_def go_copy_same go_slice_def ntor_secret_input_def)
  moreover have split: "length Y = 32 \<and> response = Y @ t \<longleftrightarrow> Y = ?Y \<and> t = ?auth" for Y t
    using True by (auto simp: append_eq_conv_conj)
  have "(\<exists>Y. length Y = 32
       \<and> response = Y @ np_hkdf np (ntor_secret_input np Y x B ident) ntor_verify 32
       \<and> km = np_hkdf np (ntor_secret_input np Y x B ident) ntor_key_extract 72)
    \<longleftrightarrow> ?auth = np_hkdf np (ntor_secret_input np ?Y x B ident) ntor_verify 32
       \<and> km = np_hkdf np (ntor_secret_input np ?Y x B ident) ntor_key_extract 72"
    unfolding conj_assoc [symmetric] split by auto
  ultimately show ?thesis
    by auto
next
  case False
  then show ?thesis
    using assms(4) by (auto simp: NtorProcessResponse_def)
qed

theorem ntor_response_exact_witness:
  "NtorProcessResponse \<lparr>np_base = (\<lambda>_. zeros 32), np_mult = (\<lambda>_ _. zeros 32), np_hkdf = (\<lambda>_ _ n. zeros n)\<rparr>
     (zeros 32 @ zeros 32) (zeros 32) (zeros 32) (zeros 32) = Inr (zeros 72)"
  by (subst ntor_response_exact) (auto intro!: exI [of _ "zeros 32"])

end
