(* ===== verification/Circuit.thy ===== *)
theory Circuit
  imports Cell RelayCell Replay Isolation Crypto
begin

section \<open>pkg/circuit/circuit.go: circuits\<close>

text \<open>
  A circuit with its hops. SHA-1 and SHA-256 are parameters; a hash.Hash is the bytes it has
  absorbed, a cipher.Stream its keystream and position (theory Crypto); nil is \<open>None\<close>. The
  connection is an interface: \<open>sendCell conn\<close> is \<open>None\<close> when the dynamic type has no
  SendCell, else the operation and the connection after it. Locked sections are atomic; a
  goroutine that is started is reported, so that its steps can be interleaved. The receive
  channel holds 32 cells. int fields are unbounded integers (the windows stay far from
  64 bits). The unused streamManager field is left out.
\<close>

datatype State = StateBuilding | StateOpen | StateClosed | StateFailed | StateOther int

definition State_String :: "State \<Rightarrow> string" where
  "State_String s =
     (case s of
        StateBuilding \<Rightarrow> ''BUILDING'' | StateOpen \<Rightarrow> ''OPEN'' | StateClosed \<Rightarrow> ''CLOSED''
      | StateFailed \<Rightarrow> ''FAILED'' | StateOther i \<Rightarrow> ''UNKNOWN('' @ dec_of_int i @ '')'')"

record Hop =
  hop_Fingerprint :: string
  hop_Address :: string
  hop_IsGuard :: bool
  hop_IsExit :: bool
  hop_ForwardCipher :: "stream_cipher option"
  hop_BackwardCipher :: "stream_cipher option"
  hop_ForwardDigest :: "bytes option"
  hop_BackwardDigest :: "bytes option"

record 'conn Circuit =
  ci_ID :: u32
  ci_State :: State
  ci_CreatedAt :: time
  ci_Hops :: "Hop list"
  ci_IsolationKey :: "IsolationKey option"
  ci_conn :: "'conn option"
  ci_paddingEnabled :: bool
  ci_paddingInterval :: duration
  ci_lastPaddingTime :: time
  ci_lastActivityTime :: time
  ci_forwardDigest :: "bytes option"
  ci_backwardDigest :: "bytes option"
  ci_relayReceive :: "relay_cell list"
  ci_packageWindow :: int
  ci_deliverWindow :: int
  ci_sendmeReceived :: int
  ci_sendmeSent :: int
  ci_replay :: "ReplayProtection option"

datatype Direction = DirectionForward | DirectionBackward

datatype circuit_error =
    CannotAddHop State
  | RelayDataTooShort nat
  | DigestNotInitialized Direction
  | DigestMismatch bytes bytes
  | PackageWindowExhausted
  | DeliverWindowExhausted
  | CircuitNotOpen State
  | NoConnection
  | EncodeFailed relay_error
  | ConnectionCannotSend
  | SendFailed
  | CircIDMismatch u32 u32
  | ReplayDetected replay_error
  | DecodeFailed relay_error
  | ReceiveChannelFull
  | ContextDone
  | WrongStream u16 u16
  | StreamRejected "byte option"
  | UnexpectedRelayCommand byte

definition NewHop :: "string \<Rightarrow> string \<Rightarrow> bool \<Rightarrow> bool \<Rightarrow> Hop" where
  "NewHop fingerprint address isGuard isExit =
     \<lparr>hop_Fingerprint = fingerprint, hop_Address = address, hop_IsGuard = isGuard, hop_IsExit = isExit,
      hop_ForwardCipher = None, hop_BackwardCipher = None, hop_ForwardDigest = None, hop_BackwardDigest = None\<rparr>"

definition SetCryptoState ::
  "stream_cipher option \<Rightarrow> stream_cipher option \<Rightarrow> bytes option \<Rightarrow> bytes option \<Rightarrow> Hop \<Rightarrow> Hop" where
  "SetCryptoState fc bc fd bd h =
     h\<lparr>hop_ForwardCipher := fc, hop_BackwardCipher := bc, hop_ForwardDigest := fd, hop_BackwardDigest := bd\<rparr>"

definition NewCircuit :: "time \<Rightarrow> u32 \<Rightarrow> 'conn Circuit" where
  "NewCircuit now cid =
     \<lparr>ci_ID = cid, ci_State = StateBuilding, ci_CreatedAt = now, ci_Hops = [], ci_IsolationKey = None,
      ci_conn = None, ci_paddingEnabled = True, ci_paddingInterval = 5 * Second,
      ci_lastPaddingTime = now, ci_lastActivityTime = now,
      ci_forwardDigest = Some [], ci_backwardDigest = Some [], ci_relayReceive = [],
      ci_packageWindow = 1000, ci_deliverWindow = 1000, ci_sendmeReceived = 0, ci_sendmeSent = 0,
      ci_replay = Some NewReplayProtection\<rparr>"

definition AddHop :: "Hop \<Rightarrow> 'conn Circuit \<Rightarrow> circuit_error option \<times> 'conn Circuit" where
  "AddHop hop c =
     (if ci_State c \<noteq> StateBuilding then (Some (CannotAddHop (ci_State c)), c)
      else (None, c\<lparr>ci_Hops := ci_Hops c @ [hop]\<rparr>))"

definition SetState :: "State \<Rightarrow> 'conn Circuit \<Rightarrow> 'conn Circuit" where
  "SetState s c = c\<lparr>ci_State := s\<rparr>"

definition Circuit_Length :: "'conn Circuit \<Rightarrow> nat" where
  "Circuit_Length c = length (ci_Hops c)"

definition IsReady :: "'conn Circuit \<Rightarrow> bool" where
  "IsReady c \<longleftrightarrow> ci_State c = StateOpen"

definition Age :: "time \<Rightarrow> 'conn Circuit \<Rightarrow> duration" where
  "Age now c = now - ci_CreatedAt c"

definition SetIsolationKey :: "IsolationKey option \<Rightarrow> 'conn Circuit \<Rightarrow> 'conn Circuit" where
  "SetIsolationKey key c = c\<lparr>ci_IsolationKey := key\<rparr>"

definition SetConnection :: "'conn option \<Rightarrow> 'conn Circuit \<Rightarrow> 'conn Circuit" where
  "SetConnection conn c = c\<lparr>ci_conn := conn\<rparr>"

subsection \<open>Padding policy\<close>

definition SetPaddingEnabled :: "bool \<Rightarrow> 'conn Circuit \<Rightarrow> 'conn Circuit" where
  "SetPaddingEnabled enabled c = c\<lparr>ci_paddingEnabled := enabled\<rparr>"

definition SetPaddingInterval :: "duration \<Rightarrow> 'conn Circuit \<Rightarrow> 'conn Circuit" where
  "SetPaddingInterval interval c = c\<lparr>ci_paddingInterval := interval\<rparr>"

text \<open>
  The activity threshold is 80% of the interval, computed in float64; \<open>threshold\<close> stands
  for that product.
\<close>

definition ShouldSendPadding :: "(duration \<Rightarrow> duration) \<Rightarrow> time \<Rightarrow> 'conn Circuit \<Rightarrow> bool" where
  "ShouldSendPadding threshold now c =
     (if \<not> ci_paddingEnabled c \<or> ci_State c \<noteq> StateOpen then False
      else if ci_paddingInterval c = 0 then False
      else if now - ci_lastPaddingTime c < ci_paddingInterval c then False
      else if now - ci_lastActivityTime c < threshold (ci_paddingInterval c) then False
      else True)"

definition RecordPaddingSent :: "time \<Rightarrow> 'conn Circuit \<Rightarrow> 'conn Circuit" where
  "RecordPaddingSent now c = c\<lparr>ci_lastPaddingTime := now\<rparr>"

definition RecordActivity :: "time \<Rightarrow> 'conn Circuit \<Rightarrow> 'conn Circuit" where
  "RecordActivity now c = c\<lparr>ci_lastActivityTime := now\<rparr>"

text \<open>
  The padding policy sends at most one padding cell per interval and none within the
  threshold after activity, whatever happens to the other fields in between.
\<close>

lemma padding_rate_limited:
  assumes "ShouldSendPadding threshold t1 c"
    and "ci_lastPaddingTime c' = ci_lastPaddingTime (RecordPaddingSent t1 c)"
    and "ci_paddingInterval c' = ci_paddingInterval c"
    and "ShouldSendPadding threshold t2 c'"
  shows "ci_paddingInterval c \<le> t2 - t1 \<and> ci_State c = StateOpen \<and> ci_paddingEnabled c
    \<and> threshold (ci_paddingInterval c) \<le> t2 - ci_lastActivityTime c'"
  using assms by (auto simp: ShouldSendPadding_def RecordPaddingSent_def split: if_splits)

definition padding_circuit :: "time \<Rightarrow> unit Circuit" where
  "padding_circuit t = (SetState StateOpen (NewCircuit 0 1))\<lparr>ci_lastPaddingTime := t\<rparr>"

lemma padding_rate_limited_example:
  "ci_paddingInterval (padding_circuit 0) \<le> 20 * Second - 10 * Second
    \<and> ci_State (padding_circuit 0) = StateOpen \<and> ci_paddingEnabled (padding_circuit 0)
    \<and> 4 * Second \<le> 20 * Second - ci_lastActivityTime (padding_circuit (10 * Second))"
  using padding_rate_limited [of "\<lambda>i. 4 * Second" "10 * Second" "padding_circuit 0" "padding_circuit (10 * Second)" "20 * Second"]
  by (simp add: padding_circuit_def ShouldSendPadding_def RecordPaddingSent_def SetState_def NewCircuit_def Second_def)

subsection \<open>Circuit-level running digests\<close>

definition zero_digest :: "bytes \<Rightarrow> bytes" where
  "zero_digest cellData = cellData[5 := 0, 6 := 0, 7 := 0, 8 := 0]"

definition UpdateDigest :: "Direction \<Rightarrow> bytes \<Rightarrow> 'conn Circuit \<Rightarrow> circuit_error option \<times> 'conn Circuit" where
  "UpdateDigest direction cellData c =
     (if length cellData < 11 then (Some (RelayDataTooShort (length cellData)), c)
      else if direction = DirectionForward then
        (case ci_forwardDigest c of
           None \<Rightarrow> (Some (DigestNotInitialized direction), c)
         | Some d \<Rightarrow> (None, c\<lparr>ci_forwardDigest := Some (d @ zero_digest cellData)\<rparr>))
      else
        (case ci_backwardDigest c of
           None \<Rightarrow> (Some (DigestNotInitialized direction), c)
         | Some d \<Rightarrow> (None, c\<lparr>ci_backwardDigest := Some (d @ zero_digest cellData)\<rparr>)))"

definition VerifyDigest :: "(bytes \<Rightarrow> bytes) \<Rightarrow> Direction \<Rightarrow> bytes \<Rightarrow> 'conn Circuit \<Rightarrow> circuit_error option" where
  "VerifyDigest sha1 direction receivedDigest c =
     (case (if direction = DirectionForward then ci_forwardDigest c else ci_backwardDigest c) of
        None \<Rightarrow> Some (DigestNotInitialized direction)
      | Some d \<Rightarrow>
          (let expected = take 4 (sha1 d) in
           if subtle_ConstantTimeCompare expected receivedDigest \<noteq> 1
           then Some (DigestMismatch expected receivedDigest) else None))"

definition ResetDigests :: "'conn Circuit \<Rightarrow> 'conn Circuit" where
  "ResetDigests c = c\<lparr>ci_forwardDigest := map_option (\<lambda>_. []) (ci_forwardDigest c),
                      ci_backwardDigest := map_option (\<lambda>_. []) (ci_backwardDigest c)\<rparr>"

lemma length_zero_digest [simp]: "length (zero_digest p) = length p"
  by (simp add: zero_digest_def)

definition absorb_all :: "Direction \<Rightarrow> bytes list \<Rightarrow> 'conn Circuit \<Rightarrow> 'conn Circuit" where
  "absorb_all direction cells c = fold (\<lambda>d c. snd (UpdateDigest direction d c)) cells c"

lemma absorb_all_forward:
  "\<forall>d\<in>set cells. 11 \<le> length d \<Longrightarrow> ci_forwardDigest c = Some s \<Longrightarrow>
     ci_forwardDigest (absorb_all DirectionForward cells c) = Some (s @ concat (map zero_digest cells))"
  by (induction cells arbitrary: c s) (auto simp: absorb_all_def UpdateDigest_def not_less [symmetric])

lemma absorb_all_backward:
  "\<forall>d\<in>set cells. 11 \<le> length d \<Longrightarrow> ci_backwardDigest c = Some s \<Longrightarrow>
     ci_backwardDigest (absorb_all DirectionBackward cells c) = Some (s @ concat (map zero_digest cells))"
  by (induction cells arbitrary: c s) (auto simp: absorb_all_def UpdateDigest_def not_less [symmetric])

lemma NewCircuit_digests:
  "ci_forwardDigest (NewCircuit now cid) = Some []" "ci_backwardDigest (NewCircuit now cid) = Some []"
  by (simp_all add: NewCircuit_def)

text \<open>
  The running digest of a direction is SHA-1 over all relay cells of the direction with
  their digest field zeroed: VerifyDigest accepts exactly the first four bytes of it.
\<close>

lemma running_digest:
  assumes "\<forall>d\<in>set cells. 11 \<le> length d"
  shows "VerifyDigest sha1 direction received (absorb_all direction cells (NewCircuit now cid)) = None
    \<longleftrightarrow> received = take 4 (sha1 (concat (map zero_digest cells)))"
  by (cases direction)
     (auto simp: VerifyDigest_def subtle_ConstantTimeCompare_def Let_def absorb_all_forward [OF assms, where s = "[]"]
       absorb_all_backward [OF assms, where s = "[]"] NewCircuit_digests)

lemma running_digest_example:
  "VerifyDigest (\<lambda>x. drop 8 x) DirectionBackward [0, 7, 7, 7]
     (absorb_all DirectionBackward [replicate 11 7, replicate 12 7] (NewCircuit 0 1 :: unit Circuit)) = None"
  by (subst running_digest) (simp_all add: zero_digest_def numeral_eq_Suc)

subsection \<open>Onion layers\<close>

definition hop_encrypt :: "bytes \<Rightarrow> Hop \<Rightarrow> bytes \<times> Hop" where
  "hop_encrypt p h =
     (case hop_ForwardCipher h of
        None \<Rightarrow> (p, h)
      | Some c \<Rightarrow> (let (p', c') = XORKeyStream p c in (p', h\<lparr>hop_ForwardCipher := Some c'\<rparr>)))"

definition hop_decrypt :: "bytes \<Rightarrow> Hop \<Rightarrow> bytes \<times> Hop" where
  "hop_decrypt p h =
     (case hop_BackwardCipher h of
        None \<Rightarrow> (p, h)
      | Some c \<Rightarrow> (let (p', c') = XORKeyStream p c in (p', h\<lparr>hop_BackwardCipher := Some c'\<rparr>)))"

text \<open>Forward: from the last hop down to the first. Backward: from the first to the last.\<close>

fun encrypt_hops :: "bytes \<Rightarrow> Hop list \<Rightarrow> bytes \<times> Hop list" where
  "encrypt_hops p [] = (p, [])"
| "encrypt_hops p (h # hs) =
     (let (p1, hs1) = encrypt_hops p hs; (p2, h2) = hop_encrypt p1 h in (p2, h2 # hs1))"

fun decrypt_hops :: "bytes \<Rightarrow> Hop list \<Rightarrow> bytes \<times> Hop list" where
  "decrypt_hops p [] = (p, [])"
| "decrypt_hops p (h # hs) =
     (let (p1, h1) = hop_decrypt p h; (p2, hs2) = decrypt_hops p1 hs in (p2, h1 # hs2))"

definition encryptForward :: "bytes \<Rightarrow> 'conn Circuit \<Rightarrow> bytes \<times> 'conn Circuit" where
  "encryptForward payload c =
     (let (encrypted, hops) = encrypt_hops payload (ci_Hops c) in (encrypted, c\<lparr>ci_Hops := hops\<rparr>))"

definition decryptBackward :: "bytes \<Rightarrow> 'conn Circuit \<Rightarrow> bytes \<times> 'conn Circuit" where
  "decryptBackward payload c =
     (let (decrypted, hops) = decrypt_hops payload (ci_Hops c) in (decrypted, c\<lparr>ci_Hops := hops\<rparr>))"

text \<open>Every layer is a pad: byte i of the payload meets the XOR of the keystream bytes.\<close>

definition cipher_pad :: "stream_cipher option \<Rightarrow> nat \<Rightarrow> byte" where
  "cipher_pad c i = (case c of None \<Rightarrow> 0 | Some s \<Rightarrow> sc_keystream s (sc_pos s + i))"

definition cipher_advance :: "nat \<Rightarrow> stream_cipher option \<Rightarrow> stream_cipher option" where
  "cipher_advance n c = map_option (\<lambda>s. s\<lparr>sc_pos := sc_pos s + n\<rparr>) c"

fun pads :: "stream_cipher option list \<Rightarrow> nat \<Rightarrow> byte" where
  "pads [] i = 0"
| "pads (c # cs) i = cipher_pad c i XOR pads cs i"

lemma hop_encrypt_pad:
  "hop_encrypt p h = (q, h') \<Longrightarrow> length q = length p \<and>
     (\<forall>i<length p. q ! i = p ! i XOR cipher_pad (hop_ForwardCipher h) i)
     \<and> h' = h\<lparr>hop_ForwardCipher := cipher_advance (length p) (hop_ForwardCipher h)\<rparr>"
  by (auto simp: hop_encrypt_def cipher_pad_def cipher_advance_def XORKeyStream_def split: option.splits)

lemma hop_decrypt_pad:
  "hop_decrypt p h = (q, h') \<Longrightarrow> length q = length p \<and>
     (\<forall>i<length p. q ! i = p ! i XOR cipher_pad (hop_BackwardCipher h) i)
     \<and> h' = h\<lparr>hop_BackwardCipher := cipher_advance (length p) (hop_BackwardCipher h)\<rparr>"
  by (auto simp: hop_decrypt_def cipher_pad_def cipher_advance_def XORKeyStream_def split: option.splits)

lemma encrypt_hops_pad:
  "encrypt_hops p hs = (q, hs') \<Longrightarrow> length q = length p \<and>
     (\<forall>i<length p. q ! i = p ! i XOR pads (map hop_ForwardCipher hs) i)
     \<and> hs' = map (\<lambda>h. h\<lparr>hop_ForwardCipher := cipher_advance (length p) (hop_ForwardCipher h)\<rparr>) hs"
proof (induction hs arbitrary: q hs')
  case Nil
  then show ?case by simp
next
  case (Cons h hs)
  obtain p1 hs1 h2 where 1: "encrypt_hops p hs = (p1, hs1)" "hop_encrypt p1 h = (q, h2)" "hs' = h2 # hs1"
    using Cons.prems by (auto split: prod.splits)
  from Cons.IH [OF 1(1)] hop_encrypt_pad [OF 1(2)] 1(3) show ?case
    by (auto simp: ac_simps)
qed

lemma decrypt_hops_pad:
  "decrypt_hops p hs = (q, hs') \<Longrightarrow> length q = length p \<and>
     (\<forall>i<length p. q ! i = p ! i XOR pads (map hop_BackwardCipher hs) i)
     \<and> hs' = map (\<lambda>h. h\<lparr>hop_BackwardCipher := cipher_advance (length p) (hop_BackwardCipher h)\<rparr>) hs"
proof (induction hs arbitrary: p q hs')
  case Nil
  then show ?case by simp
next
  case (Cons h hs)
  obtain p1 h1 hs2 where 1: "hop_decrypt p h = (p1, h1)" "decrypt_hops p1 hs = (q, hs2)" "hs' = h1 # hs2"
    using Cons.prems by (auto split: prod.splits)
  from Cons.IH [OF 1(2)] hop_decrypt_pad [OF 1(1)] 1(3) show ?case
    by (auto simp: xor.assoc)
qed

text \<open>
  The two ends of a circuit agree on their layers when the client's forward ciphers are the
  other end's backward ciphers, hop by hop.
\<close>

definition layers_agree :: "'a Circuit \<Rightarrow> 'b Circuit \<Rightarrow> bool" where
  "layers_agree c d \<longleftrightarrow> map hop_ForwardCipher (ci_Hops c) = map hop_BackwardCipher (ci_Hops d)"

fun send_payloads :: "bytes list \<Rightarrow> 'conn Circuit \<Rightarrow> bytes list \<times> 'conn Circuit" where
  "send_payloads [] c = ([], c)"
| "send_payloads (p # ps) c =
     (let (q, c1) = encryptForward p c; (qs, c2) = send_payloads ps c1 in (q # qs, c2))"

fun receive_payloads :: "bytes list \<Rightarrow> 'conn Circuit \<Rightarrow> bytes list \<times> 'conn Circuit" where
  "receive_payloads [] c = ([], c)"
| "receive_payloads (p # ps) c =
     (let (q, c1) = decryptBackward p c; (qs, c2) = receive_payloads ps c1 in (q # qs, c2))"

lemma onion_step:
  assumes agree: "layers_agree c d"
    and enc: "encryptForward p c = (q, c1)" and dec: "decryptBackward q d = (r, d1)"
  shows "r = p \<and> layers_agree c1 d1"
proof -
  obtain hs where e: "encrypt_hops p (ci_Hops c) = (q, hs)" "c1 = c\<lparr>ci_Hops := hs\<rparr>"
    using enc by (auto simp: encryptForward_def split: prod.splits)
  obtain gs where b: "decrypt_hops q (ci_Hops d) = (r, gs)" "d1 = d\<lparr>ci_Hops := gs\<rparr>"
    using dec by (auto simp: decryptBackward_def split: prod.splits)
  note E = encrypt_hops_pad [OF e(1)] and B = decrypt_hops_pad [OF b(1)]
  have "r = p"
    by (rule nth_equalityI) (use E B agree in \<open>auto simp: layers_agree_def xor.assoc\<close>)
  moreover have "map hop_ForwardCipher hs = map (cipher_advance (length p)) (map hop_ForwardCipher (ci_Hops c))"
    "map hop_BackwardCipher gs = map (cipher_advance (length p)) (map hop_BackwardCipher (ci_Hops d))"
    using E B by simp_all
  ultimately show ?thesis
    using agree e(2) b(2) unfolding layers_agree_def by simp
qed

text \<open>
  C1: Onion layers cancel. For every number of hops, with or without a cipher at each, a
  sequence of payloads wrapped by encryptForward and unwrapped by an end holding the same
  keystreams comes out unchanged, and the ends stay in step.
\<close>

theorem onion_roundtrip:
  assumes "layers_agree c d" and "send_payloads ps c = (qs, c')" and "receive_payloads qs d = (rs, d')"
  shows "rs = ps \<and> layers_agree c' d'"
  using assms
proof (induction ps arbitrary: c d qs rs)
  case Nil
  then show ?case by simp
next
  case (Cons p ps)
  obtain q c1 qs1 where s: "encryptForward p c = (q, c1)" "send_payloads ps c1 = (qs1, c')" "qs = q # qs1"
    using Cons.prems(2) by (auto split: prod.splits)
  obtain r d1 rs1 where t: "decryptBackward q d = (r, d1)" "receive_payloads qs1 d1 = (rs1, d')" "rs = r # rs1"
    using Cons.prems(3) s(3) by (auto split: prod.splits)
  from onion_step [OF Cons.prems(1) s(1) t(1)] Cons.IH [of c1 d1 qs1 rs1] s(2,3) t(2,3) show ?case
    by simp
qed

definition test_hop :: "byte \<Rightarrow> Hop" where
  "test_hop k = SetCryptoState (Some \<lparr>sc_keystream = (\<lambda>i. k), sc_pos = 0\<rparr>) (Some \<lparr>sc_keystream = (\<lambda>i. k), sc_pos = 0\<rparr>)
     (Some []) (Some []) (NewHop ''relay'' ''127.0.0.1:9001'' False False)"

definition test_circuit :: "byte list \<Rightarrow> unit Circuit" where
  "test_circuit ks = fold (\<lambda>k c. snd (AddHop (test_hop k) c)) ks (NewCircuit 0 1)"

theorem onion_roundtrip_witness:
  "fst (receive_payloads (fst (send_payloads [[1, 2], [3]] (test_circuit [5, 6, 7]))) (test_circuit [5, 6, 7]))
     = [[1, 2], [3]]"
proof -
  have "layers_agree (test_circuit [5, 6, 7]) (test_circuit [5, 6, 7])"
    by (simp add: layers_agree_def test_circuit_def AddHop_def NewCircuit_def test_hop_def SetCryptoState_def NewHop_def)
  then show ?thesis
    using onion_roundtrip by (metis prod.collapse)
qed

subsection \<open>Per-hop digests\<close>

definition updateHopDigests :: "Direction \<Rightarrow> bytes \<Rightarrow> 'conn Circuit \<Rightarrow> circuit_error option \<times> 'conn Circuit" where
  "updateHopDigests direction payload c =
     (if length payload < 11 then (Some (RelayDataTooShort (length payload)), c)
      else let cellCopy = zero_digest payload in
           if direction = DirectionForward
           then (None, c\<lparr>ci_Hops := map (\<lambda>h. h\<lparr>hop_ForwardDigest :=
                   map_option (\<lambda>d. d @ cellCopy) (hop_ForwardDigest h)\<rparr>) (ci_Hops c)\<rparr>)
           else (None, c\<lparr>ci_Hops := map (\<lambda>h. h\<lparr>hop_BackwardDigest :=
                   map_option (\<lambda>d. d @ cellCopy) (hop_BackwardDigest h)\<rparr>) (ci_Hops c)\<rparr>))"

text \<open>
  The loop of verifyRelayCellDigest: the first hop whose current backward digest matches
  bytes 5 to 8, provided the recognized field is zero; that hop absorbs the cell.
\<close>

fun verify_hops :: "(bytes \<Rightarrow> bytes) \<Rightarrow> bytes \<Rightarrow> nat \<Rightarrow> Hop list \<Rightarrow> (nat \<times> Hop list) option" where
  "verify_hops sha1 payload hopIdx [] = None"
| "verify_hops sha1 payload hopIdx (hop # hops) =
     (let skip = map_option (\<lambda>(i, hs). (i, hop # hs)) (verify_hops sha1 payload (Suc hopIdx) hops) in
      case hop_BackwardDigest hop of
        None \<Rightarrow> skip
      | Some d \<Rightarrow>
          (let expected = take 4 (sha1 d); cellDigest = take 4 (drop 5 payload); recognized = u16_at payload 1 in
           if subtle_ConstantTimeCompare expected cellDigest = 1 \<and> recognized = 0
           then Some (hopIdx, hop\<lparr>hop_BackwardDigest := Some (d @ zero_digest payload)\<rparr> # hops)
           else skip))"

definition verifyRelayCellDigest ::
  "(bytes \<Rightarrow> bytes) \<Rightarrow> bytes \<Rightarrow> 'conn Circuit \<Rightarrow> (circuit_error + int) \<times> 'conn Circuit" where
  "verifyRelayCellDigest sha1 payload c =
     (if length payload < 11 then (Inl (RelayDataTooShort (length payload)), c)
      else case verify_hops sha1 payload 0 (ci_Hops c) of
             None \<Rightarrow> (Inr (- 1), c)
           | Some (hopIdx, hops) \<Rightarrow> (Inr (int hopIdx), c\<lparr>ci_Hops := hops\<rparr>))"

subsection \<open>Flow control windows\<close>

definition decrementPackageWindow :: "'conn Circuit \<Rightarrow> circuit_error option \<times> 'conn Circuit" where
  "decrementPackageWindow c =
     (if ci_packageWindow c \<le> 0 then (Some PackageWindowExhausted, c)
      else (None, c\<lparr>ci_packageWindow := ci_packageWindow c - 1\<rparr>))"

definition incrementPackageWindow :: "'conn Circuit \<Rightarrow> 'conn Circuit" where
  "incrementPackageWindow c = c\<lparr>ci_packageWindow := ci_packageWindow c + 100\<rparr>"

definition decrementDeliverWindow :: "'conn Circuit \<Rightarrow> circuit_error option \<times> 'conn Circuit" where
  "decrementDeliverWindow c =
     (if ci_deliverWindow c \<le> 0 then (Some DeliverWindowExhausted, c)
      else (None, c\<lparr>ci_deliverWindow := ci_deliverWindow c - 1, ci_sendmeReceived := ci_sendmeReceived c + 1\<rparr>))"

definition shouldSendCircuitSendme :: "'conn Circuit \<Rightarrow> bool" where
  "shouldSendCircuitSendme c \<longleftrightarrow> ci_sendmeReceived c \<ge> 100"

subsection \<open>Sending\<close>

definition stamp_digest :: "bytes \<Rightarrow> bytes \<Rightarrow> bytes" where
  "stamp_digest digestSum payload =
     payload[5 := digestSum ! 0, 6 := digestSum ! 1, 7 := digestSum ! 2, 8 := digestSum ! 3]"

text \<open>The exit hop absorbs the zeroed payload, then its digest goes into the payload.\<close>

definition exit_digest :: "(bytes \<Rightarrow> bytes) \<Rightarrow> bytes \<Rightarrow> Hop list \<Rightarrow> bytes \<times> Hop list" where
  "exit_digest sha1 payload hops =
     (if hops = [] then (payload, hops)
      else case hop_ForwardDigest (last hops) of
             None \<Rightarrow> (payload, hops)
           | Some d \<Rightarrow>
               (let d' = d @ zero_digest payload
                in (stamp_digest (sha1 d') payload,
                    butlast hops @ [(last hops)\<lparr>hop_ForwardDigest := Some d'\<rparr>])))"

definition SendRelayCell ::
  "(bytes \<Rightarrow> bytes) \<Rightarrow> ('conn \<Rightarrow> (cell \<Rightarrow> bool \<times> 'conn) option) \<Rightarrow> time \<Rightarrow> relay_cell \<Rightarrow> 'conn Circuit
     \<Rightarrow> circuit_error option \<times> 'conn Circuit" where
  "SendRelayCell sha1 sendCell now rc c =
     (case (if rc_Command rc = RelayData then decrementPackageWindow c else (None, c)) of
        (Some e, c1) \<Rightarrow> (Some e, c1)
      | (None, c1) \<Rightarrow>
          if ci_State c1 \<noteq> StateOpen then (Some (CircuitNotOpen (ci_State c1)), c1)
          else (case ci_conn c1 of
            None \<Rightarrow> (Some NoConnection, c1)
          | Some conn \<Rightarrow>
              (case relay_Encode rc of
                 Inl e \<Rightarrow> (Some (EncodeFailed e), c1)
               | Inr payload \<Rightarrow>
                   (let (payload', hops) = exit_digest sha1 payload (ci_Hops c1);
                        (encrypted, c2) = encryptForward payload' (c1\<lparr>ci_Hops := hops\<rparr>);
                        cellToSend = \<lparr>CircID = ci_ID c2, Command = CmdRelay, Payload = encrypted\<rparr>
                    in case sendCell conn of
                         None \<Rightarrow> (Some ConnectionCannotSend, c2)
                       | Some send \<Rightarrow>
                           (case send cellToSend of
                              (False, conn') \<Rightarrow> (Some SendFailed, c2\<lparr>ci_conn := Some conn'\<rparr>)
                            | (True, conn') \<Rightarrow> (None, RecordActivity now (c2\<lparr>ci_conn := Some conn'\<rparr>)))))))"

text \<open>sendCircuitSendme: the locked update of the windows, then the SENDME cell.\<close>

definition sendme_window :: "'conn Circuit \<Rightarrow> 'conn Circuit" where
  "sendme_window c =
     c\<lparr>ci_sendmeReceived := 0, ci_sendmeSent := ci_sendmeSent c + 1, ci_deliverWindow := ci_deliverWindow c + 100\<rparr>"

definition sendCircuitSendme ::
  "(bytes \<Rightarrow> bytes) \<Rightarrow> ('conn \<Rightarrow> (cell \<Rightarrow> bool \<times> 'conn) option) \<Rightarrow> time \<Rightarrow> 'conn Circuit
     \<Rightarrow> circuit_error option \<times> 'conn Circuit" where
  "sendCircuitSendme sha1 sendCell now c =
     SendRelayCell sha1 sendCell now (NewRelayCell 0 RelaySendme []) (sendme_window c)"

subsection \<open>Receiving\<close>

text \<open>
  \<open>ready\<close> is the choice of select when a cell is waiting: take it, or find the context done
  first. With nothing waiting the call blocks until the context is done.
\<close>

definition ReceiveRelayCell :: "bool \<Rightarrow> 'conn Circuit \<Rightarrow> (circuit_error + relay_cell) \<times> 'conn Circuit" where
  "ReceiveRelayCell ready c =
     (case ci_relayReceive c of
        [] \<Rightarrow> (Inl ContextDone, c)
      | rc # rest \<Rightarrow> if ready then (Inr rc, c\<lparr>ci_relayReceive := rest\<rparr>) else (Inl ContextDone, c))"

text \<open>
  DeliverRelayCell. The second component of the result tells whether a goroutine running
  sendCircuitSendme was started. A full channel is one nobody reads within the 100 ms.
\<close>

definition deliver_to_channel :: "time \<Rightarrow> relay_cell \<Rightarrow> 'conn Circuit \<Rightarrow> circuit_error option \<times> 'conn Circuit" where
  "deliver_to_channel now rc c =
     (let c1 = RecordActivity now c in
      if length (ci_relayReceive c1) < 32 then (None, c1\<lparr>ci_relayReceive := ci_relayReceive c1 @ [rc]\<rparr>)
      else (Some ReceiveChannelFull, c1))"

definition deliver_recognized ::
  "time \<Rightarrow> relay_cell \<Rightarrow> 'conn Circuit \<Rightarrow> circuit_error option \<times> bool \<times> 'conn Circuit" where
  "deliver_recognized now rc c =
     (if rc_Command rc = RelayData then
        (case decrementDeliverWindow c of
           (Some e, c1) \<Rightarrow> (Some e, False, c1)
         | (None, c1) \<Rightarrow> (let (e, c2) = deliver_to_channel now rc c1 in (e, shouldSendCircuitSendme c1, c2)))
      else if rc_Command rc = RelaySendme \<and> rc_StreamID rc = 0 then (None, False, incrementPackageWindow c)
      else (let (e, c2) = deliver_to_channel now rc c in (e, False, c2)))"

definition replay_check ::
  "(bytes \<Rightarrow> bytes) \<Rightarrow> bytes \<Rightarrow> 'conn Circuit \<Rightarrow> replay_error option \<times> 'conn Circuit" where
  "replay_check sha256 payload c =
     (case ci_replay c of
        None \<Rightarrow> (None, c)
      | Some r \<Rightarrow> (let (e, r') = ValidateAndTrackAuto sha256 ReplayBackward payload r
                   in (e, c\<lparr>ci_replay := Some r'\<rparr>)))"

definition DeliverRelayCell ::
  "(bytes \<Rightarrow> bytes) \<Rightarrow> (bytes \<Rightarrow> bytes) \<Rightarrow> time \<Rightarrow> cell \<Rightarrow> 'conn Circuit
     \<Rightarrow> circuit_error option \<times> bool \<times> 'conn Circuit" where
  "DeliverRelayCell sha1 sha256 now cellData c =
     (if CircID cellData \<noteq> ci_ID c then (Some (CircIDMismatch (ci_ID c) (CircID cellData)), False, c)
      else
      let (decryptedPayload, c1) = decryptBackward (Payload cellData) c in
      case replay_check sha256 decryptedPayload c1 of
        (Some e, c2) \<Rightarrow> (Some (ReplayDetected e), False, c2)
      | (None, c2) \<Rightarrow>
          (case verifyRelayCellDigest sha1 decryptedPayload c2 of
             (Inl e, c3) \<Rightarrow> (Some e, False, c3)
           | (Inr hopIdx, c3) \<Rightarrow>
               if hopIdx < 0 then (None, False, c3)
               else (case DecodeRelayCell decryptedPayload of
                       Inl e \<Rightarrow> (Some (DecodeFailed e), False, c3)
                     | Inr rc \<Rightarrow> deliver_recognized now rc c3)))"

end
