(* ===== verification/CircuitPool.thy ===== *)
theory CircuitPool
  imports Circuit
begin

section \<open>pkg/pool/circuit_pool.go: the circuit pool\<close>

text \<open>
  Circuits are shared by reference between the pool and its clients, so they live in a heap:
  the pool holds references, \<open>heap r\<close> is the circuit object. The builder is a field of
  function type; \<open>build\<close> is what calling it does to the heap. The prebuild loop's ticks are
  calls of ensureMinCircuits; its goroutine, context and timer are left out.
\<close>

type_synonym 'conn circuits = "nat \<rightharpoonup> 'conn Circuit"

record CircuitPoolConfig =
  cpc_MinCircuits :: int
  cpc_MaxCircuits :: int
  cpc_PrebuildEnabled :: bool
  cpc_RebuildInterval :: duration

record CircuitPool =
  cp_circuits :: "nat list"
  cp_isolated :: "string \<rightharpoonup> nat list"
  cp_minCircuits :: int
  cp_maxCircuits :: int
  cp_prebuildEnabled :: bool

definition DefaultCircuitPoolConfig :: CircuitPoolConfig where
  "DefaultCircuitPoolConfig =
     \<lparr>cpc_MinCircuits = 2, cpc_MaxCircuits = 10, cpc_PrebuildEnabled = True, cpc_RebuildInterval = 30 * Second\<rparr>"

definition NewCircuitPool :: "CircuitPoolConfig option \<Rightarrow> CircuitPool" where
  "NewCircuitPool cfgo =
     (let cfg = (case cfgo of None \<Rightarrow> DefaultCircuitPoolConfig | Some c \<Rightarrow> c)
      in \<lparr>cp_circuits = [], cp_isolated = Map.empty, cp_minCircuits = cpc_MinCircuits cfg,
          cp_maxCircuits = cpc_MaxCircuits cfg, cp_prebuildEnabled = cpc_PrebuildEnabled cfg\<rparr>)"

definition isolating :: "IsolationKey option \<Rightarrow> bool" where
  "isolating k \<longleftrightarrow> (case k of None \<Rightarrow> False | Some key \<Rightarrow> ik_Level key \<noteq> IsolationNone)"

definition is_open :: "'conn circuits \<Rightarrow> nat \<Rightarrow> bool" where
  "is_open heap r \<longleftrightarrow> (case heap r of None \<Rightarrow> False | Some c \<Rightarrow> ci_State c = StateOpen)"

text \<open>The loop of GetWithIsolation: take the first, discard it unless it is open.\<close>

fun take_open :: "'conn circuits \<Rightarrow> nat list \<Rightarrow> nat option \<times> nat list" where
  "take_open heap [] = (None, [])"
| "take_open heap (r # rs) = (if is_open heap r then (Some r, rs) else take_open heap rs)"

text \<open>The pool's list is only written when the loop runs at least once.\<close>

definition GetWithIsolation ::
  "('conn circuits \<Rightarrow> nat option \<times> 'conn circuits) \<Rightarrow> IsolationKey option \<Rightarrow> 'conn circuits \<Rightarrow> CircuitPool
     \<Rightarrow> nat option \<times> 'conn circuits \<times> CircuitPool" where
  "GetWithIsolation build key heap p =
     (let poolKey = IsolationKey_Key key;
          poolCircuits = (if isolating key
                          then (case cp_isolated p poolKey of None \<Rightarrow> [] | Some rs \<Rightarrow> rs)
                          else cp_circuits p);
          (found, rest) = take_open heap poolCircuits;
          p1 = (if poolCircuits = [] then p
                else if isolating key then p\<lparr>cp_isolated := (cp_isolated p)(poolKey \<mapsto> rest)\<rparr>
                else p\<lparr>cp_circuits := rest\<rparr>)
      in case found of
           Some r \<Rightarrow> (Some r, heap, p1)
         | None \<Rightarrow>
             (case build heap of
                (None, heap1) \<Rightarrow> (None, heap1, p1)
              | (Some r, heap1) \<Rightarrow>
                  (Some r,
                   (if key \<noteq> None then heap1(r := map_option (SetIsolationKey key) (heap1 r)) else heap1),
                   p1)))"

definition CircuitPool_Get ::
  "('conn circuits \<Rightarrow> nat option \<times> 'conn circuits) \<Rightarrow> 'conn circuits \<Rightarrow> CircuitPool
     \<Rightarrow> nat option \<times> 'conn circuits \<times> CircuitPool" where
  "CircuitPool_Get build heap p = GetWithIsolation build None heap p"

definition CircuitPool_Put :: "nat option \<Rightarrow> 'conn circuits \<Rightarrow> CircuitPool \<Rightarrow> CircuitPool" where
  "CircuitPool_Put circ heap p =
     (case circ of
        None \<Rightarrow> p
      | Some r \<Rightarrow>
          (case heap r of
             None \<Rightarrow> p
           | Some c \<Rightarrow>
               if ci_State c \<noteq> StateOpen then p
               else if isolating (ci_IsolationKey c) then
                 (let poolKey = IsolationKey_Key (ci_IsolationKey c);
                      poolCircuits = (case cp_isolated p poolKey of None \<Rightarrow> [] | Some rs \<Rightarrow> rs)
                  in if int (length poolCircuits) \<ge> cp_maxCircuits p then p
                     else p\<lparr>cp_isolated := (cp_isolated p)(poolKey \<mapsto> poolCircuits @ [r])\<rparr>)
               else if int (length (cp_circuits p)) \<ge> cp_maxCircuits p then p
               else p\<lparr>cp_circuits := cp_circuits p @ [r]\<rparr>))"

fun prebuild ::
  "nat \<Rightarrow> ('conn circuits \<Rightarrow> nat option \<times> 'conn circuits) \<Rightarrow> 'conn circuits \<Rightarrow> CircuitPool \<Rightarrow> 'conn circuits \<times> CircuitPool" where
  "prebuild 0 build heap p = (heap, p)"
| "prebuild (Suc n) build heap p =
     (case build heap of
        (None, heap1) \<Rightarrow> prebuild n build heap1 p
      | (Some r, heap1) \<Rightarrow> prebuild n build heap1 (CircuitPool_Put (Some r) heap1 p))"

definition ensureMinCircuits ::
  "('conn circuits \<Rightarrow> nat option \<times> 'conn circuits) \<Rightarrow> 'conn circuits \<Rightarrow> CircuitPool \<Rightarrow> 'conn circuits \<times> CircuitPool" where
  "ensureMinCircuits build heap p =
     (let currentCount = int (length (cp_circuits p)) in
      if currentCount \<ge> cp_minCircuits p then (heap, p)
      else prebuild (nat (cp_minCircuits p - currentCount)) build heap p)"

definition pool_refs :: "CircuitPool \<Rightarrow> nat set" where
  "pool_refs p = set (cp_circuits p) \<union> (\<Union>rs\<in>ran (cp_isolated p). set rs)"

definition CircuitPool_Close :: "'conn circuits \<Rightarrow> CircuitPool \<Rightarrow> 'conn circuits \<times> CircuitPool" where
  "CircuitPool_Close heap p =
     ((\<lambda>r. if r \<in> pool_refs p then map_option (SetState StateClosed) (heap r) else heap r),
      p\<lparr>cp_circuits := [], cp_isolated := Map.empty\<rparr>)"

record CircuitPoolStats =
  cps_Total :: nat
  cps_Open :: nat
  cps_MinCircuits :: int
  cps_MaxCircuits :: int
  cps_IsolatedPools :: nat
  cps_IsolatedCircuits :: nat

definition CircuitPool_Stats :: "'conn circuits \<Rightarrow> CircuitPool \<Rightarrow> CircuitPoolStats" where
  "CircuitPool_Stats heap p =
     (let size = (\<lambda>k. case cp_isolated p k of None \<Rightarrow> 0 | Some rs \<Rightarrow> length rs);
          opened = (\<lambda>k. case cp_isolated p k of None \<Rightarrow> 0 | Some rs \<Rightarrow> length (filter (is_open heap) rs));
          isolated = sum size (dom (cp_isolated p))
      in \<lparr>cps_Total = length (cp_circuits p) + isolated,
          cps_Open = length (filter (is_open heap) (cp_circuits p)) + sum opened (dom (cp_isolated p)),
          cps_MinCircuits = cp_minCircuits p, cps_MaxCircuits = cp_maxCircuits p,
          cps_IsolatedPools = card (dom (cp_isolated p)), cps_IsolatedCircuits = isolated\<rparr>)"

subsection \<open>The pool's invariant\<close>

text \<open>
  Every pooled circuit has the isolation key of the list it is in, no list is over the
  capacity, and every reference is allocated.
\<close>

definition has_key :: "'conn circuits \<Rightarrow> nat \<Rightarrow> IsolationKey option \<Rightarrow> bool" where
  "has_key heap r key \<longleftrightarrow> (\<exists>c. heap r = Some c \<and> isolating (ci_IsolationKey c) = isolating key
     \<and> (isolating key \<longrightarrow> IsolationKey_Key (ci_IsolationKey c) = IsolationKey_Key key))"

definition pool_ok :: "'conn circuits \<Rightarrow> CircuitPool \<Rightarrow> bool" where
  "pool_ok heap p \<longleftrightarrow>
     (\<forall>r\<in>set (cp_circuits p). has_key heap r None)
     \<and> (\<forall>k rs. cp_isolated p k = Some rs \<longrightarrow>
          (\<forall>r\<in>set rs. \<exists>c. heap r = Some c \<and> isolating (ci_IsolationKey c) \<and> IsolationKey_Key (ci_IsolationKey c) = k)
          \<and> length rs \<le> nat (cp_maxCircuits p))
     \<and> length (cp_circuits p) \<le> nat (cp_maxCircuits p)"

text \<open>
  What the pool relies on: the builder answers a circuit that was not allocated before and
  leaves the others alone; the clients may do to circuits what they like except change the
  isolation key of one that the pool holds.
\<close>

definition builder_ok :: "('conn circuits \<Rightarrow> nat option \<times> 'conn circuits) \<Rightarrow> bool" where
  "builder_ok build \<longleftrightarrow> (\<forall>heap. case build heap of
     (None, heap1) \<Rightarrow> heap1 = heap
   | (Some r, heap1) \<Rightarrow> heap r = None \<and> (\<exists>c. heap1 = heap(r \<mapsto> c) \<and> ci_IsolationKey c = None))"

definition env_ok :: "'conn circuits \<Rightarrow> 'conn circuits \<Rightarrow> CircuitPool \<Rightarrow> bool" where
  "env_ok heap heap1 p \<longleftrightarrow>
     (\<forall>r\<in>pool_refs p. map_option ci_IsolationKey (heap1 r) = map_option ci_IsolationKey (heap r))"

lemma take_open_found:
  "take_open heap rs = (Some r, rest) \<Longrightarrow> is_open heap r \<and> r \<in> set rs \<and> set rest \<subseteq> set rs \<and> length rest < length rs"
  by (induction rs) (fastforce split: if_splits)+

lemma take_open_none: "take_open heap rs = (None, rest) \<Longrightarrow> rest = []"
  by (induction rs) (auto split: if_splits)

lemma take_open_rest: "take_open heap rs = (f, rest) \<Longrightarrow> set rest \<subseteq> set rs \<and> length rest \<le> length rs"
  using take_open_found [of heap rs _ rest] take_open_none [of heap rs rest] by (cases f) fastforce+

lemma pool_ok_heap:
  "pool_ok heap p \<Longrightarrow> env_ok heap heap1 p \<Longrightarrow> pool_ok heap1 p"
proof -
  assume ok: "pool_ok heap p" and env: "env_ok heap heap1 p"
  have same: "r \<in> pool_refs p \<Longrightarrow> heap r = Some c \<Longrightarrow> \<exists>d. heap1 r = Some d \<and> ci_IsolationKey d = ci_IsolationKey c" for r c
    using env by (fastforce simp: env_ok_def)
  have "\<forall>r\<in>set (cp_circuits p). has_key heap1 r None"
    using ok same by (fastforce simp: pool_ok_def has_key_def pool_refs_def)
  moreover have "\<exists>c. heap1 r = Some c \<and> isolating (ci_IsolationKey c) \<and> IsolationKey_Key (ci_IsolationKey c) = k"
    if "cp_isolated p k = Some rs" "r \<in> set rs" for k rs r
  proof -
    have "r \<in> pool_refs p"
      using that by (auto simp: pool_refs_def intro: ranI)
    with ok that same show ?thesis
      by (fastforce simp: pool_ok_def)
  qed
  ultimately show ?thesis
    using ok by (simp add: pool_ok_def)
qed

definition keys_kept :: "'conn circuits \<Rightarrow> 'conn circuits \<Rightarrow> bool" where
  "keys_kept heap heap1 \<longleftrightarrow>
     (\<forall>r c. heap r = Some c \<longrightarrow> (\<exists>d. heap1 r = Some d \<and> ci_IsolationKey d = ci_IsolationKey c))"

lemma keys_kept_refl [simp]: "keys_kept heap heap"
  by (simp add: keys_kept_def)

lemma keys_kept_trans: "keys_kept h1 h2 \<Longrightarrow> keys_kept h2 h3 \<Longrightarrow> keys_kept h1 h3"
  unfolding keys_kept_def by metis

lemma has_key_kept: "has_key heap r key \<Longrightarrow> keys_kept heap heap1 \<Longrightarrow> has_key heap1 r key"
  unfolding has_key_def keys_kept_def by metis

lemma pool_ok_kept: "pool_ok heap p \<Longrightarrow> keys_kept heap heap1 \<Longrightarrow> pool_ok heap1 p"
proof (rule pool_ok_heap)
  assume ok: "pool_ok heap p" and kept: "keys_kept heap heap1"
  have "\<exists>c. heap r = Some c" if "r \<in> pool_refs p" for r
    using that ok by (fastforce simp: pool_refs_def pool_ok_def has_key_def ran_def)
  with kept show "env_ok heap heap1 p"
    by (fastforce simp: env_ok_def keys_kept_def)
qed

lemma builder_fresh:
  "builder_ok build \<Longrightarrow> build heap = (fr, heap1) \<Longrightarrow> keys_kept heap heap1
    \<and> (\<forall>r. fr = Some r \<longrightarrow> heap r = None \<and> (\<exists>c. heap1 = heap(r \<mapsto> c) \<and> ci_IsolationKey c = None))"
  by (auto simp: builder_ok_def keys_kept_def split: option.splits dest!: spec [of _ heap])

lemma take_open_pool:
  assumes ok: "pool_ok heap p" and key: "isolating key" and "cp_isolated p (IsolationKey_Key key) = Some rs"
    and "take_open heap rs = (f, rest)"
  shows "pool_ok heap (p\<lparr>cp_isolated := (cp_isolated p)(IsolationKey_Key key \<mapsto> rest)\<rparr>)"
  using assms take_open_rest [OF assms(4)] by (fastforce simp: pool_ok_def)

lemma take_open_main:
  assumes ok: "pool_ok heap p" and "take_open heap (cp_circuits p) = (f, rest)"
  shows "pool_ok heap (p\<lparr>cp_circuits := rest\<rparr>)"
  using assms take_open_rest [OF assms(2)] by (auto simp: pool_ok_def)

lemma GetWithIsolation_ok:
  assumes ok: "pool_ok heap p" and build: "builder_ok build"
    and get: "GetWithIsolation build key heap p = (fr, heap1, p1)"
  shows "pool_ok heap1 p1 \<and> keys_kept heap heap1
    \<and> (\<forall>r. fr = Some r \<longrightarrow> has_key heap1 r key \<and> (is_open heap r \<or> heap r = None))"
proof -
  define rs where "rs = (if isolating key
      then (case cp_isolated p (IsolationKey_Key key) of None \<Rightarrow> [] | Some rs \<Rightarrow> rs) else cp_circuits p)"
  obtain found rest where t: "take_open heap rs = (found, rest)"
    by (cases "take_open heap rs")
  define p' where "p' = (if rs = [] then p
      else if isolating key then p\<lparr>cp_isolated := (cp_isolated p)(IsolationKey_Key key \<mapsto> rest)\<rparr>
      else p\<lparr>cp_circuits := rest\<rparr>)"
  have ok': "pool_ok heap p'"
    using ok t take_open_pool [OF ok] take_open_main [OF ok]
    by (auto simp: p'_def rs_def split: if_splits option.splits)
  have keyed: "has_key heap r key" if r: "r \<in> set rs" for r
  proof (cases "isolating key")
    case True
    then have "cp_isolated p (IsolationKey_Key key) = Some rs"
      using r by (cases "cp_isolated p (IsolationKey_Key key)") (simp_all add: rs_def)
    with ok r True show ?thesis
      unfolding pool_ok_def has_key_def by blast
  next
    case False
    with ok r have "has_key heap r None"
      by (simp add: rs_def pool_ok_def)
    with False show ?thesis
      by (simp add: has_key_def isolating_def)
  qed
  show ?thesis
  proof (cases found)
    case (Some r)
    with get t have "fr = Some r \<and> heap1 = heap \<and> p1 = p'"
      by (simp add: GetWithIsolation_def rs_def [symmetric] p'_def Let_def)
    with Some ok' keyed take_open_found [of heap rs r rest] t show ?thesis
      by auto
  next
    case None
    obtain b h where b: "build heap = (b, h)"
      by (cases "build heap")
    note fresh = builder_fresh [OF build b]
    show ?thesis
    proof (cases b)
      case None
      with \<open>found = None\<close> get t b have "fr = None \<and> heap1 = h \<and> p1 = p'"
        by (simp add: GetWithIsolation_def rs_def [symmetric] p'_def Let_def)
      with fresh ok' show ?thesis
        by (auto intro: pool_ok_kept)
    next
      case (Some r)
      obtain c where c: "heap r = None" "h = heap(r \<mapsto> c)" "ci_IsolationKey c = None"
        using fresh Some by auto
      have get1: "fr = Some r \<and> heap1 = (if key \<noteq> None then h(r := map_option (SetIsolationKey key) (h r)) else h) \<and> p1 = p'"
        using \<open>found = None\<close> Some get t b by (simp add: GetWithIsolation_def rs_def [symmetric] p'_def Let_def)
      have kept: "keys_kept heap heap1"
        using get1 c by (auto simp: keys_kept_def)
      have "has_key heap1 r key"
        using get1 c by (auto simp: has_key_def SetIsolationKey_def)
      with get1 c kept ok' show ?thesis
        by (auto intro: pool_ok_kept)
    qed
  qed
qed

lemma Put_ok:
  assumes ok: "pool_ok heap p"
  shows "pool_ok heap (CircuitPool_Put circ heap p)"
proof (cases "\<exists>r c. circ = Some r \<and> heap r = Some c \<and> ci_State c = StateOpen")
  case False
  then have "CircuitPool_Put circ heap p = p"
    by (auto simp: CircuitPool_Put_def split: option.splits)
  with ok show ?thesis
    by simp
next
  case True
  then obtain r c where r: "circ = Some r" "heap r = Some c" "ci_State c = StateOpen"
    by blast
  show ?thesis
  proof (cases "isolating (ci_IsolationKey c)")
    case True
    with ok r show ?thesis
      by (cases "cp_isolated p (IsolationKey_Key (ci_IsolationKey c))")
         (auto simp: CircuitPool_Put_def Let_def pool_ok_def)
  next
    case False
    with ok r show ?thesis
      by (auto simp: CircuitPool_Put_def Let_def pool_ok_def has_key_def isolating_def)
  qed
qed

lemma prebuild_ok:
  "pool_ok heap p \<Longrightarrow> builder_ok build \<Longrightarrow> prebuild n build heap p = (heap1, p1) \<Longrightarrow> pool_ok heap1 p1 \<and> keys_kept heap heap1"
proof (induction n arbitrary: heap p)
  case 0
  then show ?case by simp
next
  case (Suc n)
  obtain b h where b: "build heap = (b, h)"
    by (cases "build heap")
  note fresh = builder_fresh [OF Suc.prems(2) b]
  have h: "pool_ok h p"
    using fresh Suc.prems(1) by (auto intro: pool_ok_kept)
  show ?case
  proof (cases b)
    case None
    with Suc.IH [OF h Suc.prems(2)] Suc.prems(3) b fresh show ?thesis
      by (auto intro: keys_kept_trans)
  next
    case (Some r)
    with Suc.IH [OF Put_ok [OF h] Suc.prems(2)] Suc.prems(3) b fresh show ?thesis
      by (auto intro: keys_kept_trans)
  qed
qed

lemma ensureMin_ok:
  "pool_ok heap p \<Longrightarrow> builder_ok build \<Longrightarrow> ensureMinCircuits build heap p = (heap1, p1) \<Longrightarrow> pool_ok heap1 p1 \<and> keys_kept heap heap1"
  using prebuild_ok [of heap p build _ heap1 p1] by (auto simp: ensureMinCircuits_def Let_def split: if_splits)

subsection \<open>Runs\<close>

text \<open>
  Clients get and put circuits and act on them; \<open>PEnv f\<close> is any change to circuit objects
  that keeps their isolation keys. The run lists who was handed which circuit.
\<close>

datatype 'conn pool_op =
    PGet "IsolationKey option"
  | PPut "nat option"
  | PEnsure
  | PEnv "nat \<Rightarrow> 'conn Circuit \<Rightarrow> 'conn Circuit"

fun pool_run ::
  "('conn circuits \<Rightarrow> nat option \<times> 'conn circuits) \<Rightarrow> 'conn pool_op list \<Rightarrow> 'conn circuits \<Rightarrow> CircuitPool
     \<Rightarrow> (IsolationKey option \<times> nat) list \<times> 'conn circuits \<times> CircuitPool" where
  "pool_run build [] heap p = ([], heap, p)"
| "pool_run build (op # ops) heap p =
     (case op of
        PGet key \<Rightarrow>
          (let (fr, heap1, p1) = GetWithIsolation build key heap p; (hs, heap2, p2) = pool_run build ops heap1 p1
           in (case fr of Some r \<Rightarrow> (key, r) # hs | None \<Rightarrow> hs, heap2, p2))
      | PPut circ \<Rightarrow> pool_run build ops heap (CircuitPool_Put circ heap p)
      | PEnsure \<Rightarrow> (let (heap1, p1) = ensureMinCircuits build heap p in pool_run build ops heap1 p1)
      | PEnv f \<Rightarrow> pool_run build ops (\<lambda>r. map_option (f r) (heap r)) p)"

definition client_ok :: "'conn pool_op \<Rightarrow> bool" where
  "client_ok op \<longleftrightarrow> (case op of PEnv f \<Rightarrow> \<forall>r c. ci_IsolationKey (f r c) = ci_IsolationKey c | _ \<Rightarrow> True)"

lemma pool_run_ok:
  assumes "pool_ok heap p" and "builder_ok build" and "\<forall>op\<in>set ops. client_ok op"
    and "pool_run build ops heap p = (hs, heap1, p1)"
  shows "pool_ok heap1 p1 \<and> keys_kept heap heap1 \<and> (\<forall>(key, r)\<in>set hs. has_key heap1 r key)"
  using assms(1,3,4)
proof (induction ops arbitrary: heap p hs)
  case Nil
  then show ?case by simp
next
  case (Cons op ops)
  have rest: "\<forall>op\<in>set ops. client_ok op"
    using Cons.prems(2) by simp
  show ?case
  proof (cases op)
    case (PGet key)
    obtain fr h q where g: "GetWithIsolation build key heap p = (fr, h, q)"
      by (cases "GetWithIsolation build key heap p") auto
    obtain hs' where r: "pool_run build ops h q = (hs', heap1, p1)" "hs = (case fr of Some r \<Rightarrow> (key, r) # hs' | None \<Rightarrow> hs')"
      using Cons.prems(3) PGet g by (auto split: prod.splits)
    note get = GetWithIsolation_ok [OF Cons.prems(1) assms(2) g]
    note run = Cons.IH [OF conjunct1 [OF get] rest r(1)]
    have "keys_kept heap heap1"
      using get run keys_kept_trans by blast
    with get run r(2) show ?thesis
      by (auto intro: has_key_kept split: option.splits)
  next
    case (PPut circ)
    with Cons.IH [OF Put_ok [OF Cons.prems(1)] rest] Cons.prems(3) show ?thesis
      by simp
  next
    case PEnsure
    obtain h q where e: "ensureMinCircuits build heap p = (h, q)"
      by (cases "ensureMinCircuits build heap p")
    note ens = ensureMin_ok [OF Cons.prems(1) assms(2) e]
    from Cons.IH [OF conjunct1 [OF ens] rest, of hs] Cons.prems(3) PEnsure e ens show ?thesis
      by (auto intro: keys_kept_trans)
  next
    case (PEnv f)
    have kept: "keys_kept heap (\<lambda>r. map_option (f r) (heap r))"
      using Cons.prems(2) PEnv by (auto simp: keys_kept_def client_ok_def)
    from Cons.IH [OF pool_ok_kept [OF Cons.prems(1) kept] rest, of hs] Cons.prems(3) PEnv kept show ?thesis
      by (auto intro: keys_kept_trans)
  qed
qed

lemma pool_ok_new: "pool_ok heap (NewCircuitPool cfg)"
  by (simp add: pool_ok_def NewCircuitPool_def Let_def)

text \<open>
  C2: The pool keeps isolated traffic apart. Over every run on a new pool, with any
  interleaving of gets, puts, prebuilding and changes to the circuits, a circuit handed out
  twice was asked for with the same isolation: both times without, or both times with the
  same pool key. Close, which empties the pool, is not among the operations.
\<close>

theorem pool_isolates:
  assumes "builder_ok build" and "\<forall>op\<in>set ops. client_ok op"
    and "pool_run build ops heap (NewCircuitPool cfg) = (hs, heap1, p1)"
    and "(key, r) \<in> set hs" and "(key', r) \<in> set hs"
  shows "isolating key = isolating key' \<and> (isolating key \<longrightarrow> IsolationKey_Key key = IsolationKey_Key key')"
proof -
  have "has_key heap1 r key" "has_key heap1 r key'"
    using pool_run_ok [OF pool_ok_new assms(1-3)] assms(4,5) by blast+
  then show ?thesis
    by (auto simp: has_key_def)
qed

definition test_build :: "unit circuits \<Rightarrow> nat option \<times> unit circuits" where
  "test_build heap = (if heap 0 = None then (Some 0, heap(0 \<mapsto> SetState StateOpen (NewCircuit 0 1)))
     else if heap 1 = None then (Some 1, heap(1 \<mapsto> SetState StateOpen (NewCircuit 0 2))) else (None, heap))"

lemma test_build_ok: "builder_ok test_build"
  by (auto simp: builder_ok_def test_build_def SetState_def NewCircuit_def)

theorem pool_isolates_witness:
  "let k = Some (WithDestination ''a:1'' (NewIsolationKey IsolationDestination)); k' = Some (WithDestination ''b:2'' (NewIsolationKey IsolationDestination));
       (hs, heap, p) = pool_run test_build [PGet k, PPut (Some 0), PGet k', PGet k] Map.empty (NewCircuitPool None)
   in hs = [(k, 0), (k', 1), (k, 0)] \<and> IsolationKey_Key k = IsolationKey_Key k"
proof -
  let ?k = "Some (WithDestination ''a:1'' (NewIsolationKey IsolationDestination))" and ?k' = "Some (WithDestination ''b:2'' (NewIsolationKey IsolationDestination))"
  let ?ops = "[PGet ?k, PPut (Some 0), PGet ?k', PGet ?k]"
  obtain hs heap p where run: "pool_run test_build ?ops Map.empty (NewCircuitPool None) = (hs, heap, p)"
    by (rule prod_cases3)
  have key: "IsolationKey_Key ?k = ''dest:a:1''" "IsolationKey_Key ?k' = ''dest:b:2''" "isolating ?k" "isolating ?k'"
    by (simp_all add: IsolationKey_Key_def WithDestination_def NewIsolationKey_def isolating_def)
  have hs: "hs = [(?k, 0), (?k', 1), (?k, 0)]"
    using run by (simp add: GetWithIsolation_def key Let_def NewCircuitPool_def test_build_def CircuitPool_Put_def SetIsolationKey_def
        SetState_def NewCircuit_def DefaultCircuitPoolConfig_def is_open_def)
  have "isolating ?k = isolating ?k \<and> (isolating ?k \<longrightarrow> IsolationKey_Key ?k = IsolationKey_Key ?k)"
    by (rule pool_isolates [OF test_build_ok _ run, of _ 0]) (simp_all add: client_ok_def hs)
  with hs run show ?thesis
    by simp
qed

text \<open>
  No list of the pool ever holds more than maxCircuits circuits, and a circuit handed
  out is open or newly built.
\<close>

lemma pool_capacity:
  assumes "builder_ok build" and "\<forall>op\<in>set ops. client_ok op"
    and "pool_run build ops heap (NewCircuitPool (Some cfg)) = (hs, heap1, p1)" and "0 \<le> cpc_MaxCircuits cfg"
    and "GetWithIsolation build key heap1 p1 = (Some r, heap2, p2)"
  shows "length (cp_circuits p1) \<le> nat (cp_maxCircuits p1)
    \<and> (\<forall>k. case cp_isolated p1 k of Some rs \<Rightarrow> length rs \<le> nat (cp_maxCircuits p1) | None \<Rightarrow> True)
    \<and> (is_open heap1 r \<or> heap1 r = None)"
  using pool_run_ok [OF pool_ok_new assms(1-3)] GetWithIsolation_ok [OF _ assms(1,5)]
  by (auto simp: pool_ok_def split: option.splits)

lemma pool_capacity_example:
  "is_open (Map.empty :: unit circuits) 0 \<or> (Map.empty :: unit circuits) 0 = None"
  using pool_capacity [OF test_build_ok, of "[]" Map.empty DefaultCircuitPoolConfig "[]" Map.empty "NewCircuitPool (Some DefaultCircuitPoolConfig)" None 0
      "Map.empty(0 \<mapsto> SetState StateOpen (NewCircuit 0 1))" "NewCircuitPool (Some DefaultCircuitPoolConfig)"]
  by (simp add: DefaultCircuitPoolConfig_def GetWithIsolation_def isolating_def NewCircuitPool_def test_build_def)

end
