(* ===== verification/Stream.thy ===== *)
theory Stream
  imports Isolation
begin

section \<open>pkg/stream/stream.go: streams and their manager\<close>

text \<open>
  A stream with its two bounded queues; closeChan and closeOnce are one flag, since the
  channel is closed exactly once, inside the Once. A select with several ready cases takes
  any of them: \<open>pick\<close> says whether the queue case is preferred to the closed case. Log
  calls are left out. The manager's map holds the streams by ID.
\<close>

datatype stream_state = StreamNew | StreamConnecting | StreamConnected | StreamClosed | StreamFailed | StreamOther int

definition Stream_State_String :: "stream_state \<Rightarrow> string" where
  "Stream_State_String s =
     (case s of
        StreamNew \<Rightarrow> ''NEW'' | StreamConnecting \<Rightarrow> ''CONNECTING'' | StreamConnected \<Rightarrow> ''CONNECTED''
      | StreamClosed \<Rightarrow> ''CLOSED'' | StreamFailed \<Rightarrow> ''FAILED'' | StreamOther i \<Rightarrow> ''UNKNOWN('' @ dec_of_int i @ '')'')"

record Stream =
  st_ID :: u16
  st_CircuitID :: u32
  st_Target :: string
  st_Port :: u16
  st_State :: stream_state
  st_IsolationKey :: "IsolationKey option"
  st_CreatedAt :: time
  st_sendQueue :: "bytes list"
  st_recvQueue :: "bytes list"
  st_closed :: bool

datatype stream_error = NotConnected stream_state | StreamEOF | SendQueueFull | ReceiveQueueFull | StreamContextDone

definition NewStream :: "time \<Rightarrow> u16 \<Rightarrow> u32 \<Rightarrow> string \<Rightarrow> u16 \<Rightarrow> Stream" where
  "NewStream now sid circuitID target port =
     \<lparr>st_ID = sid, st_CircuitID = circuitID, st_Target = target, st_Port = port, st_State = StreamNew,
      st_IsolationKey = None, st_CreatedAt = now, st_sendQueue = [], st_recvQueue = [], st_closed = False\<rparr>"

definition Stream_SetState :: "stream_state \<Rightarrow> Stream \<Rightarrow> Stream" where
  "Stream_SetState state s = s\<lparr>st_State := state\<rparr>"

definition Stream_SetIsolationKey :: "IsolationKey option \<Rightarrow> Stream \<Rightarrow> Stream" where
  "Stream_SetIsolationKey key s = s\<lparr>st_IsolationKey := key\<rparr>"

definition Stream_Send :: "bool \<Rightarrow> bytes \<Rightarrow> Stream \<Rightarrow> stream_error option \<times> Stream" where
  "Stream_Send pick data s =
     (if st_State s \<noteq> StreamConnected then (Some (NotConnected (st_State s)), s)
      else if length (st_sendQueue s) < 32 \<and> (pick \<or> \<not> st_closed s)
           then (None, s\<lparr>st_sendQueue := st_sendQueue s @ [data]\<rparr>)
      else if st_closed s then (Some StreamEOF, s)
      else (Some SendQueueFull, s))"

definition Stream_ReceiveData :: "bool \<Rightarrow> bytes \<Rightarrow> Stream \<Rightarrow> stream_error option \<times> Stream" where
  "Stream_ReceiveData pick data s =
     (if length (st_recvQueue s) < 32 \<and> (pick \<or> \<not> st_closed s)
      then (None, s\<lparr>st_recvQueue := st_recvQueue s @ [data]\<rparr>)
      else if st_closed s then (Some StreamEOF, s)
      else (Some ReceiveQueueFull, s))"

text \<open>Receive and SendData block until one of their cases is ready; the context may end first.\<close>

definition Stream_Receive :: "bool \<Rightarrow> Stream \<Rightarrow> (stream_error + bytes) \<times> Stream" where
  "Stream_Receive pick s =
     (case st_recvQueue s of
        data # rest \<Rightarrow> if pick then (Inr data, s\<lparr>st_recvQueue := rest\<rparr>)
                       else (Inl (if st_closed s then StreamEOF else StreamContextDone), s)
      | [] \<Rightarrow> (Inl (if st_closed s then StreamEOF else StreamContextDone), s))"

definition Stream_SendData :: "bool \<Rightarrow> Stream \<Rightarrow> (stream_error + bytes) \<times> Stream" where
  "Stream_SendData pick s =
     (case st_sendQueue s of
        data # rest \<Rightarrow> if pick then (Inr data, s\<lparr>st_sendQueue := rest\<rparr>)
                       else (Inl (if st_closed s then StreamEOF else StreamContextDone), s)
      | [] \<Rightarrow> (Inl (if st_closed s then StreamEOF else StreamContextDone), s))"

definition Stream_Close :: "Stream \<Rightarrow> Stream" where
  "Stream_Close s = (if st_closed s then s else Stream_SetState StreamClosed (s\<lparr>st_closed := True\<rparr>))"

subsection \<open>The stream manager\<close>

record StreamManager =
  sm_streams :: "u16 \<rightharpoonup> Stream"
  sm_nextID :: u16
  sm_closed :: bool

definition NewStreamManager :: StreamManager where
  "NewStreamManager = \<lparr>sm_streams = Map.empty, sm_nextID = 1, sm_closed = False\<rparr>"

definition CreateStream :: "time \<Rightarrow> u32 \<Rightarrow> string \<Rightarrow> u16 \<Rightarrow> StreamManager \<Rightarrow> Stream option \<times> StreamManager" where
  "CreateStream now circuitID target port m =
     (if sm_closed m then (None, m)
      else let streamID = sm_nextID m;
               n = sm_nextID m + 1;
               stream = NewStream now streamID circuitID target port
           in (Some stream, m\<lparr>sm_nextID := (if n = 0 then 1 else n), sm_streams := (sm_streams m)(streamID \<mapsto> stream)\<rparr>))"

definition GetStream :: "u16 \<Rightarrow> StreamManager \<Rightarrow> Stream option" where
  "GetStream sid m = sm_streams m sid"

text \<open>The removed stream, closed, is returned: its owner still holds it.\<close>

definition RemoveStream :: "u16 \<Rightarrow> StreamManager \<Rightarrow> Stream option \<times> StreamManager" where
  "RemoveStream sid m =
     (case sm_streams m sid of
        None \<Rightarrow> (None, m)
      | Some s \<Rightarrow> (Some (Stream_Close s), m\<lparr>sm_streams := (sm_streams m)(sid := None)\<rparr>))"

definition GetStreamsForCircuit :: "u32 \<Rightarrow> StreamManager \<Rightarrow> Stream set" where
  "GetStreamsForCircuit circuitID m = {s \<in> ran (sm_streams m). st_CircuitID s = circuitID}"

definition StreamManager_Close :: "StreamManager \<Rightarrow> Stream set \<times> StreamManager" where
  "StreamManager_Close m =
     (if sm_closed m then ({}, m)
      else (Stream_Close ` ran (sm_streams m), m\<lparr>sm_closed := True, sm_streams := Map.empty\<rparr>))"

definition StreamManager_Count :: "StreamManager \<Rightarrow> nat" where
  "StreamManager_Count m = card (dom (sm_streams m))"

subsection \<open>Queues\<close>

datatype stream_op =
    SOpDeliver bool bytes
  | SOpReceive bool
  | SOpSend bool bytes
  | SOpTake bool
  | SOpState stream_state
  | SOpClose

text \<open>A run: the data accepted by ReceiveData, and the data handed out by Receive.\<close>

fun stream_run :: "stream_op list \<Rightarrow> Stream \<Rightarrow> bytes list \<times> bytes list \<times> Stream" where
  "stream_run [] s = ([], [], s)"
| "stream_run (op # ops) s =
     (case op of
        SOpDeliver pick d \<Rightarrow>
          (let (e, s1) = Stream_ReceiveData pick d s; (ins, outs, s2) = stream_run ops s1
           in (if e = None then d # ins else ins, outs, s2))
      | SOpReceive pick \<Rightarrow>
          (let (r, s1) = Stream_Receive pick s; (ins, outs, s2) = stream_run ops s1
           in (ins, case r of Inr d \<Rightarrow> d # outs | Inl _ \<Rightarrow> outs, s2))
      | SOpSend pick d \<Rightarrow> stream_run ops (snd (Stream_Send pick d s))
      | SOpTake pick \<Rightarrow> stream_run ops (snd (Stream_SendData pick s))
      | SOpState st \<Rightarrow> stream_run ops (Stream_SetState st s)
      | SOpClose \<Rightarrow> stream_run ops (Stream_Close s))"

lemma other_ops_keep_recv:
  "st_recvQueue (snd (Stream_Send pick d s)) = st_recvQueue s"
  "st_recvQueue (snd (Stream_SendData pick s)) = st_recvQueue s"
  "st_recvQueue (Stream_SetState st s) = st_recvQueue s"
  "st_recvQueue (Stream_Close s) = st_recvQueue s"
  by (simp_all add: Stream_Send_def Stream_SendData_def Stream_SetState_def Stream_Close_def split: list.splits)

text \<open>
  C39: A stream delivers its data in order, without loss and without duplication, whatever
  the interleaving of producers, consumers, state changes and Close: what Receive has
  handed out followed by what is still queued is exactly what ReceiveData has accepted, and
  the queue never holds more than 32 pieces.
\<close>

theorem stream_fifo:
  assumes "stream_run ops (NewStream now sid cid target port) = (ins, outs, s)"
  shows "outs @ st_recvQueue s = ins \<and> length (st_recvQueue s) \<le> 32"
proof -
  have "outs @ st_recvQueue s = st_recvQueue s0 @ ins \<and> length (st_recvQueue s) \<le> 32"
    if "stream_run ops s0 = (ins, outs, s)" and "length (st_recvQueue s0) \<le> 32" for s0
    using that
  proof (induction ops arbitrary: s0 ins outs)
    case Nil
    then show ?case by simp
  next
    case (Cons op ops)
    note step = Cons.IH [OF _ le_trans]
    show ?case
    proof (cases op)
      case (SOpDeliver pick d)
      with Cons.prems Cons.IH show ?thesis
        by (fastforce simp: Stream_ReceiveData_def split: prod.splits if_splits)
    next
      case (SOpReceive pick)
      with Cons.prems Cons.IH show ?thesis
        by (fastforce simp: Stream_Receive_def split: prod.splits list.splits if_splits)
    qed (use Cons.prems Cons.IH in \<open>simp_all add: other_ops_keep_recv\<close>)
  qed
  from this [OF assms] show ?thesis
    by (simp add: NewStream_def)
qed

theorem stream_fifo_witness:
  "let (ins, outs, s) = stream_run [SOpDeliver True [1], SOpDeliver True [2], SOpReceive True, SOpClose, SOpReceive True]
     (NewStream 0 1 2 ''example.com'' 80) in outs @ st_recvQueue s = ins"
proof -
  obtain ins outs s where run: "stream_run [SOpDeliver True [1], SOpDeliver True [2], SOpReceive True, SOpClose, SOpReceive True]
     (NewStream 0 1 2 ''example.com'' 80) = (ins, outs, s)"
    by (rule prod_cases3)
  show ?thesis
    unfolding run using stream_fifo [OF run] by simp
qed

subsection \<open>Stream IDs\<close>

text \<open>The IDs handed out by n creations in a row, with no removal in between.\<close>

fun create_ids :: "nat \<Rightarrow> StreamManager \<Rightarrow> u16 list \<times> StreamManager" where
  "create_ids 0 m = ([], m)"
| "create_ids (Suc n) m =
     (let (s, m1) = CreateStream 0 1 ''example.com'' 80 m; (ids, m2) = create_ids n m1
      in (case s of Some st \<Rightarrow> st_ID st # ids | None \<Rightarrow> ids, m2))"

definition id_after :: "nat \<Rightarrow> u16" where
  "id_after k = of_nat (k mod 65535 + 1)"

lemma unat_id_after: "unat (id_after k) = k mod 65535 + 1"
proof -
  have "k mod 65535 + 1 < 2 ^ LENGTH(16)"
    using mod_less_divisor [of 65535 k] by simp
  then show ?thesis
    unfolding id_after_def unat_of_nat by (rule mod_less)
qed

lemma id_after_step: "(if id_after k + 1 = 0 then 1 else id_after k + 1) = id_after (Suc k)"
proof (rule unsigned_word_eqI)
  have "unat (id_after k + 1) = (k mod 65535 + 2) mod 65536"
    by (simp add: unat_word_ariths(1) unat_id_after)
  moreover have "id_after k + 1 = 0 \<longleftrightarrow> unat (id_after k + 1) = 0"
    by (simp add: unat_eq_zero)
  moreover have "k mod 65535 < 65535"
    by simp
  ultimately show "unat (if id_after k + 1 = 0 then 1 else id_after k + 1) = unat (id_after (Suc k))"
    by (auto simp: unat_id_after mod_Suc)
qed

lemma create_ids_value:
  "sm_nextID m = id_after k \<Longrightarrow> \<not> sm_closed m \<Longrightarrow>
     fst (create_ids n m) = map (\<lambda>i. id_after (k + i)) [0..<n]
     \<and> (\<forall>i. sm_streams (snd (create_ids n m)) i \<noteq> None \<longleftrightarrow> i \<in> (\<lambda>i. id_after (k + i)) ` {0..<n} \<or> sm_streams m i \<noteq> None)"
proof (induction n arbitrary: k m)
  case 0
  then show ?case by simp
next
  case (Suc n)
  obtain st m1 where c: "CreateStream 0 1 ''example.com'' 80 m = (Some st, m1)" "st_ID st = id_after k"
    "sm_nextID m1 = id_after (Suc k)" "\<not> sm_closed m1" "\<forall>i. sm_streams m1 i \<noteq> None \<longleftrightarrow> i = id_after k \<or> sm_streams m i \<noteq> None"
    using Suc.prems by (auto simp: CreateStream_def NewStream_def Let_def id_after_step)
  have upt: "map (\<lambda>i. id_after (k + i)) [0..<Suc n] = id_after k # map (\<lambda>i. id_after (Suc k + i)) [0..<n]"
    by (rule nth_equalityI) (auto simp: nth_Cons' simp del: upt_Suc)
  have img: "(\<lambda>i. id_after (k + i)) ` {0..<Suc n} = insert (id_after k) ((\<lambda>i. id_after (Suc k + i)) ` {0..<n})"
    using arg_cong [OF upt, of set] by (simp only: set_map set_upt list.set(2))
  show ?case
    unfolding upt img using Suc.IH [OF c(3,4)] c(1,2,5) by (auto split: prod.splits)
qed

lemma id_after_inj: "i < 65535 \<Longrightarrow> j < 65535 \<Longrightarrow> id_after i = id_after j \<Longrightarrow> i = j"
proof -
  assume "i < 65535" and "j < 65535" and eq: "id_after i = id_after j"
  moreover have "i mod 65535 + 1 = j mod 65535 + 1"
    unfolding unat_id_after [symmetric] eq ..
  ultimately show "i = j"
    by simp
qed

text \<open>
  Stream IDs are non-zero and distinct for the first 65535 streams, and no longer: the
  next CreateStream reuses ID 1 without looking, and the live stream registered under it is
  replaced in the map without being closed.
\<close>

lemma stream_ids_reused:
  "distinct (fst (create_ids 65535 NewStreamManager)) \<and> 0 \<notin> set (fst (create_ids 65535 NewStreamManager))
   \<and> StreamManager_Count (snd (create_ids 65535 NewStreamManager)) = 65535
   \<and> fst (create_ids 65536 NewStreamManager) = fst (create_ids 65535 NewStreamManager) @ [1]
   \<and> StreamManager_Count (snd (create_ids 65536 NewStreamManager)) = 65535"
proof -
  have new: "sm_nextID NewStreamManager = id_after 0" "\<not> sm_closed NewStreamManager" "\<And>i. sm_streams NewStreamManager i = None"
    by (simp_all add: NewStreamManager_def id_after_def)
  have ids: "fst (create_ids n NewStreamManager) = map id_after [0..<n]" for n
    using create_ids_value [OF new(1,2), of n] by simp
  have dom: "dom (sm_streams (snd (create_ids n NewStreamManager))) = id_after ` {0..<n}" for n
    using create_ids_value [OF new(1,2), of n] new(3) by (simp add: dom_def)
  have inj: "inj_on id_after {0..<65535}"
    by (rule inj_onI) (simp add: id_after_inj)
  have wrap: "id_after 65535 = id_after 0" "id_after 0 = 1"
    by (simp_all add: id_after_def)
  have suc: "(65536 :: nat) = Suc 65535"
    by simp
  have nonzero: "0 \<noteq> id_after i" for i
    using unat_id_after [of i] by (metis Suc_eq_plus1 nat.distinct(1) unsigned_0)
  have count: "StreamManager_Count (snd (create_ids 65535 NewStreamManager)) = 65535"
    unfolding StreamManager_Count_def dom card_image [OF inj] by (rule card_atLeastLessThan [THEN trans]) simp
  have "id_after ` {0..<Suc 65535} = insert (id_after 0) (id_after ` {0..<65535})"
    by (simp only: atLeast0_lessThan_Suc image_insert wrap(1))
  also have "\<dots> = id_after ` {0..<65535}"
    by (intro insert_absorb imageI) simp
  finally have "StreamManager_Count (snd (create_ids 65536 NewStreamManager)) = 65535"
    using count unfolding StreamManager_Count_def dom suc by simp
  moreover have "fst (create_ids 65536 NewStreamManager) = fst (create_ids 65535 NewStreamManager) @ [1]"
    unfolding ids suc upt_Suc_append [OF le0] map_append list.map wrap ..
  moreover have "distinct (fst (create_ids 65535 NewStreamManager))"
    unfolding ids using inj by (simp only: distinct_map distinct_upt set_upt simp_thms)
  moreover have "0 \<notin> set (fst (create_ids 65535 NewStreamManager))"
    unfolding ids using nonzero by (simp only: set_map image_iff) blast
  ultimately show ?thesis
    using count by blast
qed

end
