(* ===== verification/Errors.thy ===== *)
theory Errors
  imports GoPrelude
begin

section \<open>pkg/errors: structured errors, retries and the circuit breaker\<close>

text \<open>
  The error chain (a TorError, an error wrapped by fmt.Errorf with the verb w, a plain one),
  the retry loops and the circuit breaker. Retried functions act on a state. Backoff delays
  are float64 arithmetic with a random jitter and only slow the loop down; \<open>delay\<close> stands
  for them. The comparison of the error rate with the threshold is float64 as well and is a
  component of the configuration.
\<close>

datatype ErrorCategory =
    CategoryConnection | CategoryCircuit | CategoryDirectory | CategoryProtocol | CategoryCrypto
  | CategoryConfiguration | CategoryTimeout | CategoryNetwork | CategoryInternal | CategoryOther string

datatype Severity = SeverityLow | SeverityMedium | SeverityHigh | SeverityCritical | SeverityOther string

datatype go_error =
    PlainError string
  | WrapError string go_error
  | TorError (te_Category: ErrorCategory) (te_Severity: Severity) (te_Message: string)
      (te_Underlying: "go_error option") (te_Retryable: bool)

subsection \<open>errors.go\<close>

definition New :: "ErrorCategory \<Rightarrow> Severity \<Rightarrow> string \<Rightarrow> go_error" where
  "New category severity message = TorError category severity message None False"

definition Wrap :: "ErrorCategory \<Rightarrow> Severity \<Rightarrow> string \<Rightarrow> go_error option \<Rightarrow> go_error" where
  "Wrap category severity message err = TorError category severity message err False"

definition NewRetryable :: "ErrorCategory \<Rightarrow> Severity \<Rightarrow> string \<Rightarrow> go_error" where
  "NewRetryable category severity message = TorError category severity message None True"

definition WrapRetryable :: "ErrorCategory \<Rightarrow> Severity \<Rightarrow> string \<Rightarrow> go_error option \<Rightarrow> go_error" where
  "WrapRetryable category severity message err = TorError category severity message err True"

definition ConnectionError :: "string \<Rightarrow> go_error option \<Rightarrow> go_error" where
  "ConnectionError message err = WrapRetryable CategoryConnection SeverityMedium message err"

definition CircuitError :: "string \<Rightarrow> go_error option \<Rightarrow> go_error" where
  "CircuitError message err = WrapRetryable CategoryCircuit SeverityMedium message err"

definition DirectoryError :: "string \<Rightarrow> go_error option \<Rightarrow> go_error" where
  "DirectoryError message err = WrapRetryable CategoryDirectory SeverityMedium message err"

definition ProtocolError :: "string \<Rightarrow> go_error option \<Rightarrow> go_error" where
  "ProtocolError message err = Wrap CategoryProtocol SeverityHigh message err"

definition CryptoError :: "string \<Rightarrow> go_error option \<Rightarrow> go_error" where
  "CryptoError message err = Wrap CategoryCrypto SeverityHigh message err"

definition ConfigurationError :: "string \<Rightarrow> go_error option \<Rightarrow> go_error" where
  "ConfigurationError message err = Wrap CategoryConfiguration SeverityCritical message err"

definition TimeoutError :: "string \<Rightarrow> go_error option \<Rightarrow> go_error" where
  "TimeoutError message err = WrapRetryable CategoryTimeout SeverityMedium message err"

definition NetworkError :: "string \<Rightarrow> go_error option \<Rightarrow> go_error" where
  "NetworkError message err = WrapRetryable CategoryNetwork SeverityMedium message err"

definition InternalError :: "string \<Rightarrow> go_error option \<Rightarrow> go_error" where
  "InternalError message err = Wrap CategoryInternal SeverityHigh message err"

text \<open>errors.As with a *TorError target: the first TorError of the chain of Unwrap.\<close>

fun errors_As :: "go_error \<Rightarrow> go_error option" where
  "errors_As (PlainError m) = None"
| "errors_As (WrapError m e) = errors_As e"
| "errors_As (TorError c s m u r) = Some (TorError c s m u r)"

definition IsRetryable :: "go_error \<Rightarrow> bool" where
  "IsRetryable err = (case errors_As err of Some t \<Rightarrow> te_Retryable t | None \<Rightarrow> False)"

definition GetCategory :: "go_error \<Rightarrow> ErrorCategory" where
  "GetCategory err = (case errors_As err of Some t \<Rightarrow> te_Category t | None \<Rightarrow> CategoryInternal)"

definition GetSeverity :: "go_error \<Rightarrow> Severity" where
  "GetSeverity err = (case errors_As err of Some t \<Rightarrow> te_Severity t | None \<Rightarrow> SeverityMedium)"

definition IsCategory :: "go_error \<Rightarrow> ErrorCategory \<Rightarrow> bool" where
  "IsCategory err category = (case errors_As err of Some t \<Rightarrow> te_Category t = category | None \<Rightarrow> False)"

lemma wrap_transparent:
  "IsRetryable (WrapError m e) = IsRetryable e" "GetCategory (WrapError m e) = GetCategory e"
  by (simp_all add: IsRetryable_def GetCategory_def)

subsection \<open>retry.go\<close>

record RetryPolicy =
  rp_MaxAttempts :: int
  rp_RetryableErrors :: "(ErrorCategory \<Rightarrow> bool) option"

definition default_categories :: "ErrorCategory \<Rightarrow> bool" where
  "default_categories c \<longleftrightarrow>
     c \<in> {CategoryConnection, CategoryCircuit, CategoryDirectory, CategoryTimeout, CategoryNetwork}"

definition DefaultRetryPolicy :: RetryPolicy where
  "DefaultRetryPolicy = \<lparr>rp_MaxAttempts = 3, rp_RetryableErrors = Some default_categories\<rparr>"

definition AggressiveRetryPolicy :: RetryPolicy where
  "AggressiveRetryPolicy = \<lparr>rp_MaxAttempts = 5, rp_RetryableErrors = Some default_categories\<rparr>"

definition ConservativeRetryPolicy :: RetryPolicy where
  "ConservativeRetryPolicy =
     \<lparr>rp_MaxAttempts = 2,
      rp_RetryableErrors = Some (\<lambda>c. c \<in> {CategoryConnection, CategoryTimeout, CategoryNetwork})\<rparr>"

definition shouldRetry :: "RetryPolicy \<Rightarrow> go_error \<Rightarrow> bool" where
  "shouldRetry p err =
     (if IsRetryable err then True
      else case rp_RetryableErrors p of Some cats \<Rightarrow> cats (GetCategory err) | None \<Rightarrow> False)"

text \<open>
  The context: whether it is done when attempt i starts, and whether it ends during the
  backoff after attempt i.
\<close>

record retry_ctx =
  rc_done :: "nat \<Rightarrow> bool"
  rc_done_backoff :: "nat \<Rightarrow> bool"

definition cancelled :: go_error where
  "cancelled = WrapError ''retry cancelled'' (PlainError ''context done'')"

text \<open>
  The loop from an attempt on, with the number of attempts left; it returns the error, the
  number of calls of the function, and the state.
\<close>

fun retry_loop ::
  "retry_ctx \<Rightarrow> RetryPolicy \<Rightarrow> ('s \<Rightarrow> go_error option \<times> 's) \<Rightarrow> nat \<Rightarrow> nat \<Rightarrow> go_error option \<Rightarrow> 's
     \<Rightarrow> go_error option \<times> nat \<times> 's" where
  "retry_loop ctx p fn 0 attempt lastErr s = (lastErr, 0, s)"
| "retry_loop ctx p fn (Suc left) attempt lastErr s =
     (if rc_done ctx attempt then (Some cancelled, 0, s)
      else case fn s of
        (None, s1) \<Rightarrow> (None, 1, s1)
      | (Some err, s1) \<Rightarrow>
          if \<not> shouldRetry p err then (Some err, 1, s1)
          else if int attempt \<ge> rp_MaxAttempts p
          then (Some (WrapError ''max retry attempts exceeded'' err), 1, s1)
          else if rc_done_backoff ctx attempt then (Some cancelled, 1, s1)
          else (let (e, n, s2) = retry_loop ctx p fn left (Suc attempt) (Some err) s1 in (e, Suc n, s2)))"

definition RetryWithPolicy ::
  "retry_ctx \<Rightarrow> RetryPolicy option \<Rightarrow> ('s \<Rightarrow> go_error option \<times> 's) \<Rightarrow> 's \<Rightarrow> go_error option \<times> nat \<times> 's" where
  "RetryWithPolicy ctx policy fn s =
     (let p = (case policy of None \<Rightarrow> DefaultRetryPolicy | Some p \<Rightarrow> p)
      in retry_loop ctx p fn (nat (rp_MaxAttempts p + 1)) 0 None s)"

definition Retry :: "retry_ctx \<Rightarrow> ('s \<Rightarrow> go_error option \<times> 's) \<Rightarrow> 's \<Rightarrow> go_error option \<times> nat \<times> 's" where
  "Retry ctx fn s = RetryWithPolicy ctx (Some DefaultRetryPolicy) fn s"

text \<open>What the i-th call of the function returns when all are made.\<close>

definition state_after :: "('s \<Rightarrow> go_error option \<times> 's) \<Rightarrow> nat \<Rightarrow> 's \<Rightarrow> 's" where
  "state_after fn i s = ((snd \<circ> fn) ^^ i) s"

definition outcome :: "('s \<Rightarrow> go_error option \<times> 's) \<Rightarrow> nat \<Rightarrow> 's \<Rightarrow> go_error option" where
  "outcome fn i s = fst (fn (state_after fn i s))"

lemma outcome_shift: "outcome fn i (snd (fn s)) = outcome fn (Suc i) s"
  by (simp add: outcome_def state_after_def funpow_swap1)

lemma state_after_shift: "state_after fn i (snd (fn s)) = state_after fn (Suc i) s"
  by (simp add: state_after_def funpow_swap1)

lemma retry_loop_exact:
  assumes "\<forall>i\<le>k. \<not> rc_done ctx (a + i)" and "\<forall>i<k. \<not> rc_done_backoff ctx (a + i)"
    and "\<forall>i<k. \<exists>e. outcome fn i s = Some e \<and> shouldRetry p e" and "int (a + k) \<le> rp_MaxAttempts p"
    and "k < left"
    and "outcome fn k s = None \<or> (\<exists>e. outcome fn k s = Some e \<and> (\<not> shouldRetry p e \<or> int (a + k) = rp_MaxAttempts p))"
  shows "retry_loop ctx p fn left a lastErr s =
    (map_option (\<lambda>e. if shouldRetry p e then WrapError ''max retry attempts exceeded'' e else e) (outcome fn k s), Suc k, state_after fn (Suc k) s)"
  using assms
proof (induction k arbitrary: a left lastErr s)
  case 0
  then obtain l where "left = Suc l"
    by (cases left) auto
  with 0 show ?case
    by (auto simp: outcome_def state_after_def split: prod.splits)
next
  case (Suc k)
  obtain l where l: "left = Suc l"
    using Suc.prems(5) by (cases left) auto
  obtain e where e: "outcome fn 0 s = Some e" "shouldRetry p e"
    using Suc.prems(3) by auto
  have fn: "fn s = (Some e, snd (fn s))"
    using e(1) by (simp add: outcome_def state_after_def prod_eq_iff)
  have more: "\<not> int a \<ge> rp_MaxAttempts p" "\<not> rc_done ctx a" "\<not> rc_done_backoff ctx a"
    using Suc.prems(1,2,4) by (auto dest: spec [of _ 0])
  have "retry_loop ctx p fn l (Suc a) (Some e) (snd (fn s)) =
    (map_option (\<lambda>e. if shouldRetry p e then WrapError ''max retry attempts exceeded'' e else e) (outcome fn k (snd (fn s))), Suc k, state_after fn (Suc k) (snd (fn s)))"
  proof (rule Suc.IH)
    show "\<forall>i\<le>k. \<not> rc_done ctx (Suc a + i)"
      using Suc.prems(1) by (auto dest: spec [of _ "Suc i" for i])
    show "\<forall>i<k. \<not> rc_done_backoff ctx (Suc a + i)"
      using Suc.prems(2) by (auto dest: spec [of _ "Suc i" for i])
    show "\<forall>i<k. \<exists>e. outcome fn i (snd (fn s)) = Some e \<and> shouldRetry p e"
      using Suc.prems(3) by (simp add: outcome_shift)
  qed (use Suc.prems(4,5,6) l in \<open>simp_all add: outcome_shift\<close>)
  then show ?case
    using more e(2) by (subst l, subst retry_loop.simps(2), subst fn) (simp add: outcome_shift state_after_shift)
qed

text \<open>
  RetryWithPolicy calls the function exactly as often as its policy says: if the first k
  calls fail with errors to retry, the context does not end, and call k is a success, an
  error not to retry, or the last one allowed, it makes k + 1 calls and returns that result.
\<close>

lemma retry_exact:
  assumes "\<forall>i\<le>k. \<not> rc_done ctx i" and "\<forall>i<k. \<not> rc_done_backoff ctx i"
    and "\<forall>i<k. \<exists>e. outcome fn i s = Some e \<and> shouldRetry p e" and "int k \<le> rp_MaxAttempts p"
    and "outcome fn k s = None \<or> (\<exists>e. outcome fn k s = Some e \<and> (\<not> shouldRetry p e \<or> int k = rp_MaxAttempts p))"
  shows "RetryWithPolicy ctx (Some p) fn s =
    (map_option (\<lambda>e. if shouldRetry p e then WrapError ''max retry attempts exceeded'' e else e) (outcome fn k s), Suc k, state_after fn (Suc k) s)"
  using retry_loop_exact [of k ctx 0 fn s p "nat (rp_MaxAttempts p + 1)" None] assms
  by (simp add: RetryWithPolicy_def)

definition flaky :: "nat \<Rightarrow> go_error option \<times> nat" where
  "flaky n = (if n = 0 then None else Some (NetworkError ''down'' None), n - 1)"

lemma retry_exact_example:
  "RetryWithPolicy \<lparr>rc_done = (\<lambda>_. False), rc_done_backoff = (\<lambda>_. False)\<rparr> (Some DefaultRetryPolicy) flaky 2 = (None, 3, 0)"
  by (subst retry_exact [of 2])
     (auto simp: DefaultRetryPolicy_def flaky_def outcome_def state_after_def numeral_eq_Suc less_Suc_eq shouldRetry_def
       IsRetryable_def NetworkError_def WrapRetryable_def)

lemma retry_loop_calls: "fst (snd (retry_loop ctx p fn left a lastErr s)) \<le> left"
  by (induction left arbitrary: a lastErr s) (auto split: prod.splits option.splits, metis fst_conv snd_conv)

text \<open>
  The function is called at most MaxAttempts + 1 times, whatever it returns; and with a
  negative MaxAttempts it is not called at all, yet success is reported.
\<close>

lemma retry_bounded:
  "int (fst (snd (RetryWithPolicy ctx (Some p) fn s))) \<le> max 0 (rp_MaxAttempts p + 1)
   \<and> (if rp_MaxAttempts p < 0 then RetryWithPolicy ctx (Some p) fn s = (None, 0, s) else True)"
proof -
  have "fst (snd (RetryWithPolicy ctx (Some p) fn s)) \<le> nat (rp_MaxAttempts p + 1)"
    unfolding RetryWithPolicy_def Let_def option.case by (rule retry_loop_calls)
  then show ?thesis
    by (auto simp: RetryWithPolicy_def)
qed

end
