(* ===== verification/Breaker.thy ===== *)
theory Breaker
  imports Errors
begin

section \<open>pkg/errors/breaker.go: the circuit breaker\<close>

text \<open>
  Requests of several goroutines overlap, so the two locked halves of Execute, beforeRequest
  and afterRequest, are operations of their own. \<open>bc_rateReached\<close> is the float64 test that
  failures / total is at or over FailureThreshold. The state-change callback is left out.
\<close>

datatype breaker_state = BreakerClosed | BreakerOpen | BreakerHalfOpen | BreakerOther int

definition CircuitState_String :: "breaker_state \<Rightarrow> string" where
  "CircuitState_String s =
     (case s of BreakerClosed \<Rightarrow> ''closed'' | BreakerOpen \<Rightarrow> ''open'' | BreakerHalfOpen \<Rightarrow> ''half-open''
      | BreakerOther i \<Rightarrow> ''unknown'')"

record CircuitBreakerConfig =
  bc_MaxFailures :: int
  bc_Timeout :: duration
  bc_HalfOpenMaxRequests :: int
  bc_rateReached :: "int \<Rightarrow> int \<Rightarrow> bool"
  bc_MinRequests :: int

record CircuitBreaker =
  cb_config :: CircuitBreakerConfig
  cb_state :: breaker_state
  cb_failures :: int
  cb_successes :: int
  cb_totalRequests :: int
  cb_lastFailureTime :: time
  cb_halfOpenRequests :: int
  cb_halfOpenFailures :: int
  cb_openedAt :: time

definition DefaultCircuitBreakerConfig :: CircuitBreakerConfig where
  "DefaultCircuitBreakerConfig =
     \<lparr>bc_MaxFailures = 5, bc_Timeout = 30 * Second, bc_HalfOpenMaxRequests = 1,
      bc_rateReached = (\<lambda>failures total. 2 * failures \<ge> total), bc_MinRequests = 10\<rparr>"

definition NewCircuitBreaker :: "CircuitBreakerConfig option \<Rightarrow> CircuitBreaker" where
  "NewCircuitBreaker config =
     \<lparr>cb_config = (case config of None \<Rightarrow> DefaultCircuitBreakerConfig | Some c \<Rightarrow> c),
      cb_state = BreakerClosed, cb_failures = 0, cb_successes = 0, cb_totalRequests = 0, cb_lastFailureTime = 0,
      cb_halfOpenRequests = 0, cb_halfOpenFailures = 0, cb_openedAt = 0\<rparr>"

definition breaker_error :: "string \<Rightarrow> go_error" where
  "breaker_error message = TorError CategoryInternal SeverityMedium message None True"

definition changeState :: "breaker_state \<Rightarrow> CircuitBreaker \<Rightarrow> CircuitBreaker" where
  "changeState newState cb = cb\<lparr>cb_state := newState\<rparr>"

definition breaker_reset :: "CircuitBreaker \<Rightarrow> CircuitBreaker" where
  "breaker_reset cb = cb\<lparr>cb_failures := 0, cb_successes := 0, cb_totalRequests := 0,
                         cb_halfOpenRequests := 0, cb_halfOpenFailures := 0\<rparr>"

definition beforeRequest :: "time \<Rightarrow> CircuitBreaker \<Rightarrow> go_error option \<times> CircuitBreaker" where
  "beforeRequest now cb =
     (case cb_state cb of
        BreakerClosed \<Rightarrow> (None, cb)
      | BreakerOpen \<Rightarrow>
          (if now - cb_openedAt cb \<ge> bc_Timeout (cb_config cb)
           then (None, (changeState BreakerHalfOpen cb)\<lparr>cb_halfOpenRequests := 0, cb_halfOpenFailures := 0\<rparr>)
           else (Some (breaker_error ''circuit breaker is open''), cb))
      | BreakerHalfOpen \<Rightarrow>
          (if cb_halfOpenRequests cb \<ge> bc_HalfOpenMaxRequests (cb_config cb)
           then (Some (breaker_error ''circuit breaker is half-open, max requests reached''), cb)
           else (None, cb\<lparr>cb_halfOpenRequests := cb_halfOpenRequests cb + 1\<rparr>))
      | BreakerOther i \<Rightarrow> (Some (PlainError ''unknown circuit breaker state''), cb))"

definition shouldOpen :: "CircuitBreaker \<Rightarrow> bool" where
  "shouldOpen cb \<longleftrightarrow>
     (if cb_failures cb \<ge> bc_MaxFailures (cb_config cb) then True
      else if cb_totalRequests cb \<ge> bc_MinRequests (cb_config cb)
           then bc_rateReached (cb_config cb) (cb_failures cb) (cb_totalRequests cb)
      else False)"

definition afterRequest :: "time \<Rightarrow> bool \<Rightarrow> CircuitBreaker \<Rightarrow> CircuitBreaker" where
  "afterRequest now failed cb =
     (case cb_state cb of
        BreakerClosed \<Rightarrow>
          (let cb1 = cb\<lparr>cb_totalRequests := cb_totalRequests cb + 1\<rparr> in
           if failed then
             (let cb2 = cb1\<lparr>cb_failures := cb_failures cb1 + 1, cb_lastFailureTime := now\<rparr>
              in if shouldOpen cb2 then (changeState BreakerOpen cb2)\<lparr>cb_openedAt := now\<rparr> else cb2)
           else cb1\<lparr>cb_successes := cb_successes cb1 + 1\<rparr>)
      | BreakerHalfOpen \<Rightarrow>
          (if failed
           then (changeState BreakerOpen (cb\<lparr>cb_halfOpenFailures := cb_halfOpenFailures cb + 1\<rparr>))\<lparr>cb_openedAt := now\<rparr>
           else breaker_reset (changeState BreakerClosed cb))
      | _ \<Rightarrow> cb)"

definition Execute ::
  "time \<Rightarrow> time \<Rightarrow> ('s \<Rightarrow> go_error option \<times> 's) \<Rightarrow> 's \<Rightarrow> CircuitBreaker \<Rightarrow> go_error option \<times> 's \<times> CircuitBreaker" where
  "Execute t1 t2 fn s cb =
     (case beforeRequest t1 cb of
        (Some e, cb1) \<Rightarrow> (Some e, s, cb1)
      | (None, cb1) \<Rightarrow> (let (e, s1) = fn s in (e, s1, afterRequest t2 (e \<noteq> None) cb1)))"

definition Breaker_Reset :: "CircuitBreaker \<Rightarrow> CircuitBreaker" where
  "Breaker_Reset cb = breaker_reset (cb\<lparr>cb_state := BreakerClosed\<rparr>)"

definition ForceOpen :: "time \<Rightarrow> CircuitBreaker \<Rightarrow> CircuitBreaker" where
  "ForceOpen now cb =
     (if cb_state cb \<noteq> BreakerOpen then cb\<lparr>cb_state := BreakerOpen, cb_openedAt := now\<rparr> else cb)"

definition ExecuteWithRetry ::
  "retry_ctx \<Rightarrow> RetryPolicy option \<Rightarrow> time \<Rightarrow> time \<Rightarrow> ('s \<Rightarrow> go_error option \<times> 's) \<Rightarrow> 's \<Rightarrow> CircuitBreaker
     \<Rightarrow> go_error option \<times> nat \<times> 's \<times> CircuitBreaker" where
  "ExecuteWithRetry ctx policy t1 t2 fn s cb =
     (let (e, n, s1, cb1) = RetryWithPolicy ctx policy (\<lambda>(s, cb). Execute t1 t2 fn s cb) (s, cb)
      in (e, n, s1, cb1))"

subsection \<open>Counting probes\<close>

text \<open>n requests that arrive one after the other before any of them finishes.\<close>

fun admit :: "time list \<Rightarrow> CircuitBreaker \<Rightarrow> nat \<times> CircuitBreaker" where
  "admit [] cb = (0, cb)"
| "admit (t # ts) cb =
     (let (e, cb1) = beforeRequest t cb; (n, cb2) = admit ts cb1 in ((if e = None then 1 else 0) + n, cb2))"

lemma admit_half_open:
  "cb_state cb = BreakerHalfOpen \<Longrightarrow> 0 \<le> cb_halfOpenRequests cb \<Longrightarrow>
     fst (admit ts cb) = min (length ts) (nat (bc_HalfOpenMaxRequests (cb_config cb) - cb_halfOpenRequests cb))"
proof (induction ts arbitrary: cb)
  case Nil
  then show ?case by simp
next
  case (Cons t ts)
  show ?case
  proof (cases "cb_halfOpenRequests cb \<ge> bc_HalfOpenMaxRequests (cb_config cb)")
    case True
    with Cons.prems Cons.IH [of cb] show ?thesis
      by (auto simp: beforeRequest_def split: prod.splits)
  next
    case False
    let ?cb = "cb\<lparr>cb_halfOpenRequests := cb_halfOpenRequests cb + 1\<rparr>"
    have "nat (bc_HalfOpenMaxRequests (cb_config cb) - cb_halfOpenRequests cb)
        = Suc (nat (bc_HalfOpenMaxRequests (cb_config cb) - (cb_halfOpenRequests cb + 1)))"
      using False by simp
    with False Cons.prems Cons.IH [of ?cb] show ?thesis
      by (auto simp: beforeRequest_def split: prod.splits)
  qed
qed

text \<open>
  When the timeout of an open breaker has passed, HalfOpenMaxRequests + 1 requests are
  let through before any result is known: the request that turns the breaker half-open is
  not counted. Before the timeout none is let through.
\<close>

lemma half_open_probes:
  assumes "cb_state cb = BreakerOpen" and "0 \<le> bc_HalfOpenMaxRequests (cb_config cb)"
  shows "if t - cb_openedAt cb \<ge> bc_Timeout (cb_config cb)
    then fst (admit (t # ts) cb) = 1 + min (length ts) (nat (bc_HalfOpenMaxRequests (cb_config cb)))
    else \<forall>us. (\<forall>u\<in>set us. u \<le> t) \<longrightarrow> admit us cb = (0, cb)"
proof (cases "t - cb_openedAt cb \<ge> bc_Timeout (cb_config cb)")
  case True
  let ?cb = "(changeState BreakerHalfOpen cb)\<lparr>cb_halfOpenRequests := 0, cb_halfOpenFailures := 0\<rparr>"
  have "fst (admit ts ?cb) = min (length ts) (nat (bc_HalfOpenMaxRequests (cb_config cb)))"
    using admit_half_open [of ?cb ts] by (simp add: changeState_def)
  with True assms show ?thesis
    by (auto simp: beforeRequest_def split: prod.splits)
next
  case False
  have "admit us cb = (0, cb)" if "\<forall>u\<in>set us. u \<le> t" for us
    using that False assms(1) by (induction us) (auto simp: beforeRequest_def)
  with False show ?thesis
    by simp
qed

lemma half_open_probes_example:
  "fst (admit [40 * Second, 40 * Second, 40 * Second] (ForceOpen 0 (NewCircuitBreaker None))) = 2"
  using half_open_probes [of "ForceOpen 0 (NewCircuitBreaker None)" "40 * Second" "[40 * Second, 40 * Second]"]
  by (simp add: ForceOpen_def NewCircuitBreaker_def DefaultCircuitBreakerConfig_def Second_def)

subsection \<open>When the breaker opens\<close>

text \<open>A sequence of finished requests, True for a failure, all at the same time.\<close>

fun breaker_run :: "time \<Rightarrow> bool list \<Rightarrow> CircuitBreaker \<Rightarrow> CircuitBreaker" where
  "breaker_run t [] cb = cb"
| "breaker_run t (failed # os) cb =
     (case beforeRequest t cb of
        (Some e, cb1) \<Rightarrow> breaker_run t os cb1
      | (None, cb1) \<Rightarrow> breaker_run t os (afterRequest t failed cb1))"

lemma breaker_run_open:
  "cb_state cb = BreakerOpen \<Longrightarrow> t - cb_openedAt cb < bc_Timeout (cb_config cb) \<Longrightarrow> breaker_run t os cb = cb"
  by (induction os) (auto simp: beforeRequest_def)

lemma breaker_run_closed:
  assumes "cb_state cb = BreakerClosed" and "0 < bc_Timeout (cb_config cb)"
    and "cb_totalRequests cb + int (length os) < bc_MinRequests (cb_config cb)" and "cb_failures cb < bc_MaxFailures (cb_config cb)"
  shows "cb_state (breaker_run t os cb) =
    (if cb_failures cb + int (count_list os True) < bc_MaxFailures (cb_config cb) then BreakerClosed else BreakerOpen)"
  using assms
proof (induction os arbitrary: cb)
  case Nil
  then show ?case by simp
next
  case (Cons failed os)
  let ?cb = "afterRequest t failed cb"
  have run: "breaker_run t (failed # os) cb = breaker_run t os ?cb"
    using Cons.prems(1) by (simp add: beforeRequest_def)
  show ?case
  proof (cases "failed \<and> cb_failures cb + 1 \<ge> bc_MaxFailures (cb_config cb)")
    case True
    then have "cb_state ?cb = BreakerOpen" "cb_openedAt ?cb = t" "cb_config ?cb = cb_config cb"
      using Cons.prems(1) by (auto simp: afterRequest_def shouldOpen_def changeState_def Let_def)
    with True Cons.prems show ?thesis
      unfolding run by (subst breaker_run_open) auto
  next
    case False
    then have "cb_state ?cb = BreakerClosed" "cb_config ?cb = cb_config cb"
      "cb_totalRequests ?cb = cb_totalRequests cb + 1" "cb_failures ?cb = cb_failures cb + (if failed then 1 else 0)"
      using Cons.prems by (auto simp: afterRequest_def shouldOpen_def changeState_def Let_def)
    with False Cons.prems Cons.IH [of ?cb] show ?thesis
      unfolding run by (auto split: if_splits)
  qed
qed

text \<open>
  Below MinRequests the breaker opens exactly when MaxFailures requests have failed,
  however many succeeded in between: the count of failures is never reset by a success,
  although the code calls it the count of consecutive failures.
\<close>

lemma breaker_opens_on_total_failures:
  assumes "0 < bc_MaxFailures cfg" and "0 < bc_Timeout cfg" and "int (length os) < bc_MinRequests cfg"
  shows "cb_state (breaker_run t os (NewCircuitBreaker (Some cfg))) =
    (if int (count_list os True) < bc_MaxFailures cfg then BreakerClosed else BreakerOpen)"
  using breaker_run_closed [of "NewCircuitBreaker (Some cfg)" os t] assms by (simp add: NewCircuitBreaker_def)

lemma breaker_opens_on_total_failures_example:
  "cb_state (breaker_run 0 [True, False, True, False, True, False, True, False, True]
     (NewCircuitBreaker (Some DefaultCircuitBreakerConfig))) = BreakerOpen"
  by (subst breaker_opens_on_total_failures) (simp_all add: DefaultCircuitBreakerConfig_def Second_def)

end
