(* ===== verification/CircuitManager.thy ===== *)
theory CircuitManager
  imports Circuit
begin

section \<open>pkg/circuit/circuit.go: the circuit manager\<close>

text \<open>
  The manager's map from circuit IDs to circuits, the next ID to try and the closed flag.
  The search loop of CreateCircuit is a partial function that is proved to return. A closed
  circuit leaves the map; the operation returns it, since its owner still holds it.
\<close>

record 'conn Manager =
  cm_circuits :: "u32 \<rightharpoonup> 'conn Circuit"
  cm_nextID :: u32
  cm_closed :: bool

datatype manager_error =
    ManagerClosed
  | NoAvailableIDs
  | CircuitNotFound u32
  | AlreadyClosed

definition NewManager :: "'conn Manager" where
  "NewManager = \<lparr>cm_circuits = Map.empty, cm_nextID = 1, cm_closed = False\<rparr>"

text \<open>
  The loop over the IDs in use: the outer option is termination, the inner one the answer
  (None: it came back to where it started).
\<close>

partial_function (option) find_id :: "u32 set \<Rightarrow> u32 \<Rightarrow> u32 \<Rightarrow> u32 option option" where
  "find_id used start i =
     (if i \<notin> used then Some (Some i)
      else let i1 = i + 1; i2 = (if i1 = 0 then 1 else i1)
           in if i2 = start then Some None else find_id used start i2)"

definition CreateCircuit :: "time \<Rightarrow> 'conn Manager \<Rightarrow> ((manager_error + 'conn Circuit) \<times> 'conn Manager) option" where
  "CreateCircuit now m =
     (if cm_closed m then Some (Inl ManagerClosed, m)
      else case find_id (dom (cm_circuits m)) (cm_nextID m) (cm_nextID m) of
             None \<Rightarrow> None
           | Some None \<Rightarrow> Some (Inl NoAvailableIDs, m)
           | Some (Some i) \<Rightarrow>
               (let circuit = NewCircuit now i
                in Some (Inr circuit,
                         m\<lparr>cm_nextID := (if i + 1 = 0 then 1 else i + 1),
                           cm_circuits := (cm_circuits m)(i \<mapsto> circuit)\<rparr>)))"

definition GetCircuit :: "u32 \<Rightarrow> 'conn Manager \<Rightarrow> manager_error + 'conn Circuit" where
  "GetCircuit i m = (case cm_circuits m i of None \<Rightarrow> Inl (CircuitNotFound i) | Some c \<Rightarrow> Inr c)"

definition CloseCircuit :: "u32 \<Rightarrow> 'conn Manager \<Rightarrow> (manager_error + 'conn Circuit) \<times> 'conn Manager" where
  "CloseCircuit i m =
     (case cm_circuits m i of
        None \<Rightarrow> (Inl (CircuitNotFound i), m)
      | Some c \<Rightarrow> (Inr (SetState StateClosed c), m\<lparr>cm_circuits := (cm_circuits m)(i := None)\<rparr>))"

definition ListCircuits :: "'conn Manager \<Rightarrow> u32 set" where
  "ListCircuits m = dom (cm_circuits m)"

definition Manager_Count :: "'conn Manager \<Rightarrow> nat" where
  "Manager_Count m = card (dom (cm_circuits m))"

definition Manager_Close :: "'conn Manager \<Rightarrow> (manager_error + 'conn Circuit set) \<times> 'conn Manager" where
  "Manager_Close m =
     (if cm_closed m then (Inl AlreadyClosed, m)
      else (Inr (SetState StateClosed ` ran (cm_circuits m)),
            m\<lparr>cm_closed := True, cm_circuits := Map.empty\<rparr>))"

definition Manager_IsClosed :: "'conn Manager \<Rightarrow> bool" where
  "Manager_IsClosed m \<longleftrightarrow> cm_closed m"

subsection \<open>The search\<close>

text \<open>
  How many IDs the loop still visits from an ID before it is back at the start: the IDs from
  1 to 2 ^ 32 - 1 in a circle.
\<close>

definition ids_left :: "u32 \<Rightarrow> u32 \<Rightarrow> nat" where
  "ids_left start i = (if unat i < unat start then unat start - unat i else 4294967295 - unat i + unat start)"

definition next_id :: "u32 \<Rightarrow> u32" where
  "next_id i = (if i + 1 = 0 then 1 else i + 1)"

lemma unat_next_id: "unat (next_id i) = (if unat i = 4294967295 then 1 else unat i + 1)"
proof -
  have lt: "unat i < 4294967296"
    using unat_u32_less [of i] by simp
  have "i + 1 = 0 \<longleftrightarrow> unat (i + 1) = 0"
    by (simp add: unat_eq_zero)
  moreover have "unat (i + 1) = (unat i + 1) mod 4294967296"
    by (simp add: unat_word_ariths)
  ultimately show ?thesis
    using lt by (auto simp: next_id_def)
qed

lemma ids_left_next:
  assumes "start \<noteq> 0" and "next_id i \<noteq> start"
  shows "ids_left start i = Suc (ids_left start (next_id i))"
proof -
  have "unat (next_id i) \<noteq> unat start"
    using assms(2) by (metis unsigned_word_eqI)
  moreover have "unat i < 4294967296" "unat start < 4294967296"
    using unat_u32_less [of i] unat_u32_less [of start] by simp_all
  moreover have "unat start \<noteq> 0"
    using assms(1) by (simp add: unat_eq_zero)
  ultimately show ?thesis
    by (auto simp: ids_left_def unat_next_id split: if_splits)
qed

lemma ids_left_inj: "i \<noteq> 0 \<Longrightarrow> j \<noteq> 0 \<Longrightarrow> ids_left start i = ids_left start j \<Longrightarrow> i = j"
proof -
  assume "i \<noteq> 0" "j \<noteq> 0" "ids_left start i = ids_left start j"
  moreover have "unat i < 4294967296" "unat j < 4294967296"
    using unat_u32_less [of i] unat_u32_less [of j] by simp_all
  moreover have "unat i \<noteq> 0" "unat j \<noteq> 0"
    using calculation(1,2) by (simp_all add: unat_eq_zero)
  ultimately have "unat i = unat j"
    by (auto simp: ids_left_def split: if_splits)
  then show "i = j"
    by (rule unsigned_word_eqI)
qed

lemma next_id_nonzero: "next_id i \<noteq> 0"
  by (simp add: next_id_def)

lemma ids_left_last: "next_id i = start \<Longrightarrow> i \<noteq> 0 \<Longrightarrow> ids_left start i = 1"
proof -
  assume "next_id i = start" "i \<noteq> 0"
  then have "unat start = (if unat i = 4294967295 then 1 else unat i + 1)" and "unat i \<noteq> 0"
    using unat_next_id [of i] by (auto simp: unat_eq_zero)
  moreover have "unat i < 4294967296"
    using unat_u32_less [of i] by simp
  ultimately show ?thesis
    by (auto simp: ids_left_def split: if_splits)
qed

lemma find_id_total:
  assumes "start \<noteq> 0" and "i \<noteq> 0"
    and "\<forall>j. j \<noteq> 0 \<and> ids_left start i < ids_left start j \<longrightarrow> j \<in> used"
  shows "\<exists>r. find_id used start i = Some r \<and>
    (case r of Some k \<Rightarrow> k \<noteq> 0 \<and> k \<notin> used | None \<Rightarrow> \<forall>j. j \<noteq> 0 \<longrightarrow> j \<in> used)"
  using assms(2,3)
proof (induction "ids_left start i" arbitrary: i rule: less_induct)
  case less
  show ?case
  proof (cases "i \<in> used")
    case False
    with less.prems show ?thesis
      by (subst find_id.simps) simp
  next
    case True
    have ge: "j \<in> used" if "j \<noteq> 0" "ids_left start i \<le> ids_left start j" for j
      using that True less.prems ids_left_inj [of j i start] by (cases "ids_left start i = ids_left start j") auto
    show ?thesis
    proof (cases "next_id i = start")
      case last: True
      have "1 \<le> ids_left start j" for j
      proof -
        have "0 < unat start"
          using assms(1) by (simp add: unat_gt_0)
        then show ?thesis
          using unat_u32_less [of j] by (auto simp: ids_left_def)
      qed
      then have "\<forall>j. j \<noteq> 0 \<longrightarrow> j \<in> used"
        using ge ids_left_last [OF last less.prems(1)] by auto
      with True last show ?thesis
        by (subst find_id.simps) (simp add: next_id_def Let_def)
    next
      case more: False
      have "find_id used start i = find_id used start (next_id i)"
        using True more by (subst find_id.simps) (simp add: next_id_def Let_def)
      moreover have "\<exists>r. find_id used start (next_id i) = Some r \<and>
          (case r of Some k \<Rightarrow> k \<noteq> 0 \<and> k \<notin> used | None \<Rightarrow> \<forall>j. j \<noteq> 0 \<longrightarrow> j \<in> used)"
        by (rule less.hyps) (use ids_left_next [OF assms(1) more] next_id_nonzero ge in auto)
      ultimately show ?thesis
        by simp
    qed
  qed
qed

subsection \<open>What the manager promises\<close>

definition manager_ok :: "'conn Manager \<Rightarrow> bool" where
  "manager_ok m \<longleftrightarrow> cm_nextID m \<noteq> 0
     \<and> (\<forall>i c. cm_circuits m i = Some c \<longrightarrow> i \<noteq> 0 \<and> ci_ID c = i)
     \<and> (cm_closed m \<longrightarrow> cm_circuits m = Map.empty)"

lemma manager_ok_new [inv_intros]: "manager_ok NewManager"
  by (simp add: manager_ok_def NewManager_def)

lemma CreateCircuit_cases:
  assumes "manager_ok m"
  shows "(cm_closed m \<and> CreateCircuit now m = Some (Inl ManagerClosed, m))
    \<or> (\<not> cm_closed m \<and> (\<forall>j. j \<noteq> 0 \<longrightarrow> j \<in> dom (cm_circuits m)) \<and> CreateCircuit now m = Some (Inl NoAvailableIDs, m))
    \<or> (\<exists>i. \<not> cm_closed m \<and> i \<noteq> 0 \<and> i \<notin> dom (cm_circuits m)
        \<and> CreateCircuit now m = Some (Inr (NewCircuit now i),
            m\<lparr>cm_nextID := next_id i, cm_circuits := (cm_circuits m)(i \<mapsto> NewCircuit now i)\<rparr>))"
proof -
  have start: "cm_nextID m \<noteq> 0"
    using assms by (simp add: manager_ok_def)
  have max: "ids_left (cm_nextID m) j \<le> ids_left (cm_nextID m) (cm_nextID m)" if "j \<noteq> 0" for j
  proof -
    have "unat j < 4294967296" "unat (cm_nextID m) < 4294967296"
      using unat_u32_less [of j] unat_u32_less [of "cm_nextID m"] by simp_all
    then show ?thesis
      using that by (auto simp: ids_left_def unat_eq_zero)
  qed
  then have "\<exists>r. find_id (dom (cm_circuits m)) (cm_nextID m) (cm_nextID m) = Some r \<and>
      (case r of Some k \<Rightarrow> k \<noteq> 0 \<and> k \<notin> dom (cm_circuits m) | None \<Rightarrow> \<forall>j. j \<noteq> 0 \<longrightarrow> j \<in> dom (cm_circuits m))"
    using start by (intro find_id_total) (auto simp: not_less [symmetric])
  then show ?thesis
    by (auto simp: CreateCircuit_def next_id_def Let_def split: option.splits)
qed

text \<open>
  C9: CreateCircuit always returns, and on an open manager it returns a new circuit under a
  non-zero ID nobody uses, and leaves every other circuit alone; it fails only when the
  manager is closed or all 2 ^ 32 - 1 IDs are in use.
\<close>

theorem create_circuit_fresh:
  assumes "manager_ok m"
  shows "\<exists>r m'. CreateCircuit now m = Some (r, m') \<and>
    (case r of
       Inr c \<Rightarrow> ci_ID c \<noteq> 0 \<and> cm_circuits m (ci_ID c) = None \<and> GetCircuit (ci_ID c) m' = Inr c
         \<and> (\<forall>j. j \<noteq> ci_ID c \<longrightarrow> cm_circuits m' j = cm_circuits m j)
     | Inl e \<Rightarrow> m' = m \<and> (cm_closed m \<or> (\<forall>j. j \<noteq> 0 \<longrightarrow> cm_circuits m j \<noteq> None)))"
  using CreateCircuit_cases [OF assms, of now]
  by (elim disjE exE) (auto simp: GetCircuit_def NewCircuit_def domIff)

theorem create_circuit_fresh_witness:
  "\<exists>r m'. CreateCircuit 0 (NewManager :: unit Manager) = Some (r, m') \<and>
    (case r of
       Inr c \<Rightarrow> ci_ID c \<noteq> 0 \<and> cm_circuits (NewManager :: unit Manager) (ci_ID c) = None \<and> GetCircuit (ci_ID c) m' = Inr c
         \<and> (\<forall>j. j \<noteq> ci_ID c \<longrightarrow> cm_circuits m' j = cm_circuits (NewManager :: unit Manager) j)
     | Inl e \<Rightarrow> m' = (NewManager :: unit Manager) \<and> (cm_closed (NewManager :: unit Manager) \<or> (\<forall>j. j \<noteq> 0 \<longrightarrow> cm_circuits (NewManager :: unit Manager) j \<noteq> None)))"
  by (rule create_circuit_fresh) (rule manager_ok_new)

datatype manager_op = MCreate time | MClose u32 | MCloseAll

definition manager_step :: "manager_op \<Rightarrow> 'conn Manager \<Rightarrow> 'conn Manager" where
  "manager_step op m =
     (case op of
        MCreate now \<Rightarrow> (case CreateCircuit now m of None \<Rightarrow> m | Some (r, m') \<Rightarrow> m')
      | MClose i \<Rightarrow> snd (CloseCircuit i m)
      | MCloseAll \<Rightarrow> snd (Manager_Close m))"

lemma manager_ok_step [inv_intros]:
  assumes ok: "manager_ok m"
  shows "manager_ok (manager_step op m)"
proof (cases op)
  case (MCreate now)
  from CreateCircuit_cases [OF ok, of now] show ?thesis
    using ok MCreate by (elim disjE exE) (auto simp: manager_step_def manager_ok_def next_id_nonzero NewCircuit_def)
next
  case (MClose i)
  with ok show ?thesis
    by (auto simp: manager_step_def CloseCircuit_def manager_ok_def split: option.splits)
next
  case MCloseAll
  with ok show ?thesis
    by (auto simp: manager_step_def Manager_Close_def manager_ok_def)
qed

interpretation manager_sys: op_system manager_step manager_ok
  by unfold_locales (rule manager_ok_step)

text \<open>
  After every sequence of creations and closings, the manager finds each live circuit
  under its own non-zero ID, and once closed it is empty and stays so.
\<close>

lemma manager_consistent:
  "let m = fold manager_step ops (NewManager :: 'conn Manager) in
     GetCircuit i m = (case cm_circuits m i of None \<Rightarrow> Inl (CircuitNotFound i) | Some c \<Rightarrow> Inr c)
     \<and> (case GetCircuit i m of Inr c \<Rightarrow> ci_ID c = i \<and> i \<noteq> 0 \<and> \<not> cm_closed m | Inl e \<Rightarrow> i \<notin> ListCircuits m)
     \<and> (if Manager_IsClosed m then Manager_Count (fold manager_step ops' m) = 0 else True)"
proof -
  let ?m = "fold manager_step ops (NewManager :: 'conn Manager)"
  have ok: "manager_ok ?m"
    by (rule manager_sys.run_inv [OF manager_ok_new])
  have closed: "cm_closed m \<Longrightarrow> cm_closed (manager_step op m)" for op and m :: "'conn Manager"
    by (auto simp: manager_step_def CreateCircuit_def CloseCircuit_def Manager_Close_def split: manager_op.splits option.splits)
  have "cm_closed m \<Longrightarrow> cm_closed (fold manager_step ops' m)" for m :: "'conn Manager"
    by (induction ops' arbitrary: m) (simp_all add: closed)
  moreover have "manager_ok (fold manager_step ops' ?m)"
    by (rule manager_sys.run_inv [OF ok])
  ultimately show ?thesis
    using ok by (auto simp: Let_def GetCircuit_def Manager_IsClosed_def Manager_Count_def ListCircuits_def manager_ok_def split: option.splits)
qed

end
