(* ===== verification/Connection.thy ===== *)
theory Connection
  imports Cell
begin

section \<open>pkg/connection/connection.go: TLS connections to relays\<close>

text \<open>
  The connection's states, Connect with the certificate checks that decide the TLS
  handshake, SendCell and ReceiveCell over the cell codec, and Close. TCP and TLS are
  not under src/: what they answer is an argument. The bytes the peer sends before it
  ends the stream are \<open>cn_in\<close>; a read that needs more than the peer ever sends fails when
  the stream ends. The logger is left out.
\<close>

subsection \<open>States\<close>

datatype conn_state =
    ConnConnecting | ConnHandshaking | ConnOpen | ConnClosed | ConnFailed | ConnOther int

definition conn_State_String :: "conn_state \<Rightarrow> string" where
  "conn_State_String s =
     (case s of
        ConnConnecting \<Rightarrow> ''CONNECTING'' | ConnHandshaking \<Rightarrow> ''HANDSHAKING'' | ConnOpen \<Rightarrow> ''OPEN''
      | ConnClosed \<Rightarrow> ''CLOSED'' | ConnFailed \<Rightarrow> ''FAILED''
      | ConnOther i \<Rightarrow> ''UNKNOWN('' @ (if i < 0 then ''-'' else '''') @ dec_of_nat (nat \<bar>i\<bar>) @ '')'')"

text \<open>\<open>cn_closed\<close> is both the closed channel closeCh and the spent closeOnce.\<close>

record Connection =
  cn_address :: string
  cn_tcp :: bool
  cn_tls :: bool
  cn_state :: conn_state
  cn_closed :: bool
  cn_in :: bytes
  cn_out :: writer

subsection \<open>Certificates\<close>

text \<open>
  What the code reads of a parsed X.509 certificate; \<open>parse\<close> is x509.ParseCertificate.
\<close>

record certificate =
  ct_NotBefore :: time
  ct_NotAfter :: time
  ct_hasPublicKey :: bool
  ct_knownSignature :: bool

datatype cert_error =
    NoCertificates | CertParseFailed | CertNotYetValid | CertExpired | CertNoPublicKey | CertUnknownSignature

definition verifyTorRelayCertificate ::
  "(bytes \<Rightarrow> certificate option) \<Rightarrow> time \<Rightarrow> bytes list \<Rightarrow> cert_error option" where
  "verifyTorRelayCertificate parse now rawCerts =
     (case rawCerts of
        [] \<Rightarrow> Some NoCertificates
      | raw # _ \<Rightarrow>
          (case parse raw of
             None \<Rightarrow> Some CertParseFailed
           | Some cert \<Rightarrow>
               if now < ct_NotBefore cert then Some CertNotYetValid
               else if now > ct_NotAfter cert then Some CertExpired
               else if \<not> ct_hasPublicKey cert then Some CertNoPublicKey
               else if \<not> ct_knownSignature cert then Some CertUnknownSignature
               else None))"

definition verifyRelayIdentityPinning ::
  "(bytes \<Rightarrow> certificate option) \<Rightarrow> bytes list \<Rightarrow> bytes \<Rightarrow> string \<Rightarrow> cert_error option" where
  "verifyRelayIdentityPinning parse rawCerts expectedIdentity expectedFingerprint =
     (if expectedIdentity = [] \<and> expectedFingerprint = '''' then None
      else case rawCerts of
        [] \<Rightarrow> Some NoCertificates
      | raw # _ \<Rightarrow> (case parse raw of None \<Rightarrow> Some CertParseFailed | Some _ \<Rightarrow> None))"

definition pinned_verifier ::
  "(bytes \<Rightarrow> certificate option) \<Rightarrow> time \<Rightarrow> bytes \<Rightarrow> string \<Rightarrow> bytes list \<Rightarrow> cert_error option" where
  "pinned_verifier parse now expectedIdentity expectedFingerprint rawCerts =
     (case verifyTorRelayCertificate parse now rawCerts of
        Some e \<Rightarrow> Some e
      | None \<Rightarrow> verifyRelayIdentityPinning parse rawCerts expectedIdentity expectedFingerprint)"

subsection \<open>Configuration and Connect\<close>

text \<open>\<open>cf_TLSConfig\<close> is the verification callback of a configuration the caller supplies.\<close>

record conn_config =
  cf_Address :: string
  cf_Timeout :: duration
  cf_TLSConfig :: "(bytes list \<Rightarrow> cert_error option) option"
  cf_LinkProtocolV4 :: bool
  cf_ExpectedIdentity :: bytes
  cf_ExpectedFingerprint :: string

definition DefaultConfig :: "string \<Rightarrow> conn_config" where
  "DefaultConfig address =
     \<lparr>cf_Address = address, cf_Timeout = 30 * Second, cf_TLSConfig = None, cf_LinkProtocolV4 = True,
      cf_ExpectedIdentity = [], cf_ExpectedFingerprint = ''''\<rparr>"

definition conn_New :: "conn_config \<Rightarrow> Connection" where
  "conn_New cfg =
     \<lparr>cn_address = cf_Address cfg, cn_tcp = False, cn_tls = False, cn_state = ConnConnecting,
      cn_closed = False, cn_in = [], cn_out = new_buffer\<rparr>"

text \<open>
  What the network answers to one Connect: whether the dial succeeds, the certificates the
  peer presents, whether the rest of the TLS handshake succeeds, the stream it will send,
  and how much it will take.
\<close>

record network =
  nw_parse :: "bytes \<Rightarrow> certificate option"
  nw_now :: time
  nw_dial :: bool
  nw_certs :: "bytes list"
  nw_tls :: bool
  nw_stream :: bytes
  nw_room :: "nat option"

datatype conn_error =
    DialFailed | TLSFailed | NotOpen conn_state | ConnectionClosed
  | SendCellFailed cell_enc_error | RemoteEOF | ReceiveCellFailed cell_dec_error | CloseFailed

definition setState :: "conn_state \<Rightarrow> Connection \<Rightarrow> Connection" where
  "setState s c = c\<lparr>cn_state := s\<rparr>"

definition tls_verifier :: "network \<Rightarrow> conn_config \<Rightarrow> bytes list \<Rightarrow> cert_error option" where
  "tls_verifier nw cfg =
     (case cf_TLSConfig cfg of
        Some verify \<Rightarrow> verify
      | None \<Rightarrow>
          (if cf_ExpectedIdentity cfg \<noteq> [] \<or> cf_ExpectedFingerprint cfg \<noteq> ''''
           then pinned_verifier (nw_parse nw) (nw_now nw) (cf_ExpectedIdentity cfg) (cf_ExpectedFingerprint cfg)
           else verifyTorRelayCertificate (nw_parse nw) (nw_now nw)))"

definition Connect :: "network \<Rightarrow> conn_config \<Rightarrow> Connection \<Rightarrow> conn_error option \<times> Connection" where
  "Connect nw cfg c =
     (if \<not> nw_dial nw then (Some DialFailed, setState ConnFailed c)
      else
      let c1 = setState ConnHandshaking (c\<lparr>cn_tcp := True\<rparr>) in
      if \<not> (nw_tls nw \<and> tls_verifier nw cfg (nw_certs nw) = None)
      then (Some TLSFailed, setState ConnFailed c1)
      else (None, setState ConnOpen
              (c1\<lparr>cn_tls := True, cn_in := nw_stream nw, cn_out := \<lparr>wr_out = [], wr_room = nw_room nw\<rparr>\<rparr>)))"

subsection \<open>Cells\<close>

definition conn_SendCell :: "cell \<Rightarrow> Connection \<Rightarrow> conn_error option \<times> Connection" where
  "conn_SendCell x c =
     (if cn_state c \<noteq> ConnOpen then (Some (NotOpen (cn_state c)), c)
      else if cn_closed c then (Some ConnectionClosed, c)
      else case cell_Encode x (cn_out c) of
             (Some e, out) \<Rightarrow> (Some (SendCellFailed e), c\<lparr>cn_out := out\<rparr>)
           | (None, out) \<Rightarrow> (None, c\<lparr>cn_out := out\<rparr>))"

text \<open>Close; \<open>close_ok\<close> is the answer of the TLS or TCP close.\<close>

definition conn_Close :: "bool \<Rightarrow> Connection \<Rightarrow> conn_error option \<times> Connection" where
  "conn_Close close_ok c =
     (if cn_closed c then (None, c)
      else (if (cn_tls c \<or> cn_tcp c) \<and> \<not> close_ok then Some CloseFailed else None,
            setState ConnClosed (c\<lparr>cn_closed := True\<rparr>)))"

text \<open>
  The error values of DecodeCell: each is made by fmt.Errorf with the verb w around the
  reader's error, so comparing one with io.EOF compares a wrapper with the sentinel.
\<close>

datatype go_err = Sentinel io_error | Wrapped string go_err

fun dec_go_err :: "cell_dec_error \<Rightarrow> go_err" where
  "dec_go_err (DecCircID e) = Wrapped ''failed to read circuit ID'' (Sentinel e)"
| "dec_go_err (DecCommand e) = Wrapped ''failed to read command'' (Sentinel e)"
| "dec_go_err (DecLength e) = Wrapped ''failed to read payload length'' (Sentinel e)"
| "dec_go_err (DecVarPayload e) = Wrapped ''failed to read variable-length payload'' (Sentinel e)"
| "dec_go_err (DecFixedPayload e) = Wrapped ''failed to read fixed-length payload'' (Sentinel e)"

text \<open>A failed read has consumed what there was.\<close>

definition ReceiveCell :: "bool \<Rightarrow> Connection \<Rightarrow> (conn_error + cell) \<times> Connection" where
  "ReceiveCell close_ok c =
     (if cn_state c \<noteq> ConnOpen then (Inl (NotOpen (cn_state c)), c)
      else if cn_closed c then (Inl ConnectionClosed, c)
      else case DecodeCell (cn_in c) of
             Inl err \<Rightarrow>
               (if dec_go_err err = Sentinel EOF
                then (Inl RemoteEOF, snd (conn_Close close_ok (c\<lparr>cn_in := []\<rparr>)))
                else (Inl (ReceiveCellFailed err), c\<lparr>cn_in := []\<rparr>))
           | Inr (x, rest) \<Rightarrow> (Inr x, c\<lparr>cn_in := rest\<rparr>))"

definition IsOpen :: "Connection \<Rightarrow> bool" where
  "IsOpen c \<longleftrightarrow> cn_state c = ConnOpen"

subsection \<open>What a connection guarantees\<close>

text \<open>Runs of the operations; the cells handed out and the bytes handed to the peer.\<close>

datatype conn_op =
    OpConnect network conn_config
  | OpSend cell
  | OpReceive bool
  | OpClose bool

definition conn_step :: "conn_op \<Rightarrow> Connection \<Rightarrow> Connection" where
  "conn_step x c =
     (case x of
        OpConnect nw cfg \<Rightarrow> snd (Connect nw cfg c)
      | OpSend y \<Rightarrow> snd (conn_SendCell y c)
      | OpReceive ok \<Rightarrow> snd (ReceiveCell ok c)
      | OpClose ok \<Rightarrow> snd (conn_Close ok c))"

text \<open>An open, unclosed connection has a TLS layer; a closed one stays closed.\<close>

definition conn_ok :: "Connection \<Rightarrow> bool" where
  "conn_ok c \<longleftrightarrow> (cn_state c = ConnOpen \<longrightarrow> cn_tls c) \<and> (cn_tls c \<longrightarrow> cn_tcp c)
     \<and> (cn_state c = ConnClosed \<longrightarrow> cn_closed c)"

lemma conn_ok_New: "conn_ok (conn_New cfg)"
  by (simp add: conn_ok_def conn_New_def)

lemma dec_go_err_not_EOF [simp]: "dec_go_err e \<noteq> Sentinel x"
  by (cases e) simp_all

lemma conn_step_ok: "conn_ok c \<Longrightarrow> conn_ok (conn_step x c)"
  by (cases x)
    (auto simp: conn_ok_def conn_step_def Connect_def conn_SendCell_def ReceiveCell_def conn_Close_def setState_def Let_def
      split: option.splits prod.splits sum.splits if_splits)

interpretation connection_sys: op_system conn_step conn_ok
  by unfold_locales (rule conn_step_ok)

lemma conn_step_closed: "cn_closed c \<Longrightarrow> cn_closed (conn_step x c)"
  by (cases x)
    (auto simp: conn_step_def Connect_def conn_SendCell_def ReceiveCell_def conn_Close_def setState_def Let_def
      split: option.splits prod.splits sum.splits if_splits)

interpretation closed_sys: op_system conn_step cn_closed
  by unfold_locales (rule conn_step_closed)

text \<open>
  Pinning has no effect. Whatever identity and fingerprint a relay is expected to
  have, Connect does exactly what it does without them, on every network: a relay of any
  other identity is accepted.
\<close>

lemma pinning_has_no_effect:
  "Connect nw (cfg\<lparr>cf_ExpectedIdentity := identity, cf_ExpectedFingerprint := fingerprint\<rparr>) c = Connect nw cfg c"
proof -
  have pinned: "pinned_verifier parse now ident fp certs = verifyTorRelayCertificate parse now certs"
    for parse now ident fp certs
    by (auto simp: pinned_verifier_def verifyTorRelayCertificate_def verifyRelayIdentityPinning_def
        split: list.splits option.splits)
  have "tls_verifier nw (cfg\<lparr>cf_ExpectedIdentity := identity, cf_ExpectedFingerprint := fingerprint\<rparr>) = tls_verifier nw cfg"
    by (cases "cf_TLSConfig cfg") (simp_all add: tls_verifier_def fun_eq_iff pinned)
  then show ?thesis
    by (simp add: Connect_def)
qed

text \<open>
  Close is final. Whatever is done to a connection after Close, reconnecting
  included, SendCell and ReceiveCell fail and leave the wire alone.
\<close>

lemma closed_connection_dead:
  "let c' = fold conn_step ops (snd (conn_Close ok c))
   in (\<exists>e. conn_SendCell x c' = (Some e, c')) \<and> (\<exists>e. ReceiveCell ok' c' = (Inl e, c'))"
proof -
  have "cn_closed (snd (conn_Close ok c))"
    by (simp add: conn_Close_def setState_def)
  then have "cn_closed (fold conn_step ops (snd (conn_Close ok c)))"
    by (rule closed_sys.run_inv)
  then show ?thesis
    by (simp add: Let_def conn_SendCell_def ReceiveCell_def)
qed

text \<open>
  The end of the peer's stream goes unnoticed. When the peer has closed and nothing is
  left to read, ReceiveCell fails with a wrapped io.EOF, which it does not recognise: the
  connection is not closed and still counts as open, so a pool hands it out again.
\<close>

lemma remote_eof_unnoticed:
  assumes "IsOpen c" and "\<not> cn_closed c" and "cn_in c = []"
  shows "ReceiveCell ok c = (Inl (ReceiveCellFailed (DecCircID EOF)), c) \<and> IsOpen (snd (ReceiveCell ok c))"
  using assms by (simp add: ReceiveCell_def IsOpen_def DecodeCell_def read_full_def)

definition loopback :: network where
  "loopback =
     \<lparr>nw_parse = (\<lambda>_. Some \<lparr>ct_NotBefore = 0, ct_NotAfter = 10, ct_hasPublicKey = True, ct_knownSignature = True\<rparr>),
      nw_now = 5, nw_dial = True, nw_certs = [[1]], nw_tls = True, nw_stream = [], nw_room = None\<rparr>"

definition relay_conn :: Connection where
  "relay_conn = snd (Connect loopback (DefaultConfig ''10.0.0.1:9001'') (conn_New (DefaultConfig ''10.0.0.1:9001'')))"

lemma remote_eof_unnoticed_example:
  "ReceiveCell True relay_conn = (Inl (ReceiveCellFailed (DecCircID EOF)), relay_conn) \<and> IsOpen relay_conn"
proof -
  have "IsOpen relay_conn" "\<not> cn_closed relay_conn" "cn_in relay_conn = []"
    by (simp_all add: relay_conn_def loopback_def Connect_def conn_New_def DefaultConfig_def tls_verifier_def
        verifyTorRelayCertificate_def IsOpen_def setState_def Let_def)
  with remote_eof_unnoticed [OF this, of True] show ?thesis by simp
qed

end
