(* ===== verification/Directory.thy ===== *)
theory Directory
  imports GoPrelude
begin

section \<open>pkg/directory/directory.go: the consensus document\<close>

text \<open>
  The relay record and the consensus parser. The document arrives as the list of lines the
  bufio.Scanner produced (\<open>scanErr\<close>: it stopped with an error). Relays are pointers that
  may be in the result more than once and are written to later, so the parser keeps them in
  a table and collects indices. HTTP, TLS and decompression are not modelled.
\<close>

record Relay =
  rl_Nickname :: string
  rl_Fingerprint :: string
  rl_Address :: string
  rl_ORPort :: int
  rl_DirPort :: int
  rl_Flags :: "string list"
  rl_IdentityKey :: bytes
  rl_NtorOnionKey :: bytes

definition HasFlag :: "string \<Rightarrow> Relay \<Rightarrow> bool" where
  "HasFlag flag r = list_ex (\<lambda>f. f = flag) (rl_Flags r)"

definition IsGuard :: "Relay \<Rightarrow> bool" where "IsGuard r = HasFlag ''Guard'' r"
definition IsExit :: "Relay \<Rightarrow> bool" where "IsExit r = HasFlag ''Exit'' r"
definition IsStable :: "Relay \<Rightarrow> bool" where "IsStable r = HasFlag ''Stable'' r"
definition IsRunning :: "Relay \<Rightarrow> bool" where "IsRunning r = HasFlag ''Running'' r"
definition IsValid :: "Relay \<Rightarrow> bool" where "IsValid r = HasFlag ''Valid'' r"

definition HasValidKeys :: "Relay \<Rightarrow> bool" where
  "HasValidKeys r \<longleftrightarrow> length (rl_IdentityKey r) = 32 \<and> length (rl_NtorOnionKey r) = 32"

subsection \<open>Text\<close>

text \<open>
  strings.Fields and strings.HasPrefix on ASCII text (beyond it strings.Fields also splits at
  U+0085, U+00A0 and the other white space of Unicode); fmt.Sscanf with the verb d.
\<close>

definition is_space :: "char \<Rightarrow> bool" where
  "is_space c \<longleftrightarrow> (of_char c :: nat) \<in> {9, 10, 11, 12, 13, 32}"

fun str_fields_from :: "string \<Rightarrow> string \<Rightarrow> string list" where
  "str_fields_from word [] = (if word = [] then [] else [word])"
| "str_fields_from word (c # cs) =
     (if is_space c then (if word = [] then str_fields_from [] cs else word # str_fields_from [] cs)
      else str_fields_from (word @ [c]) cs)"

definition str_fields :: "string \<Rightarrow> string list" where
  "str_fields s = str_fields_from [] s"

definition has_prefix :: "string \<Rightarrow> string \<Rightarrow> bool" where
  "has_prefix p s \<longleftrightarrow> take (length p) s = p"

definition is_digit :: "char \<Rightarrow> bool" where
  "is_digit c \<longleftrightarrow> 48 \<le> (of_char c :: nat) \<and> (of_char c :: nat) \<le> 57"

definition sscanf_d :: "string \<Rightarrow> int option" where
  "sscanf_d s =
     (let (neg, body) = (case s of c # cs \<Rightarrow> if c = CHR ''-'' then (True, cs) else if c = CHR ''+'' then (False, cs) else (False, s)
                         | [] \<Rightarrow> (False, []));
          tok = takeWhile is_digit body;
          v = (if neg then - int (dec_value tok) else int (dec_value tok))
      in if tok = [] then None
         else if - (2 ^ 63) \<le> v \<and> v < 2 ^ 63 then Some v else None)"

subsection \<open>The parser\<close>

record parse_state =
  ps_table :: "Relay list"
  ps_relays :: "nat list"
  ps_current :: "nat option"
  ps_totalEntries :: nat
  ps_malformedEntries :: nat
  ps_portParseErrors :: nat

definition parse_init :: parse_state where
  "parse_init = \<lparr>ps_table = [], ps_relays = [], ps_current = None, ps_totalEntries = 0,
                 ps_malformedEntries = 0, ps_portParseErrors = 0\<rparr>"

definition port_or_zero :: "string \<Rightarrow> int" where
  "port_or_zero s = (case sscanf_d s of Some v \<Rightarrow> v | None \<Rightarrow> 0)"

definition port_errors :: "string \<Rightarrow> nat" where
  "port_errors s = (case sscanf_d s of Some v \<Rightarrow> 0 | None \<Rightarrow> 1)"

definition flush_current :: "parse_state \<Rightarrow> parse_state" where
  "flush_current st =
     (case ps_current st of None \<Rightarrow> st | Some i \<Rightarrow> st\<lparr>ps_relays := ps_relays st @ [i]\<rparr>)"

definition parse_r_line :: "string \<Rightarrow> parse_state \<Rightarrow> parse_state" where
  "parse_r_line line st =
     (let st1 = flush_current (st\<lparr>ps_totalEntries := ps_totalEntries st + 1\<rparr>);
          parts = str_fields line
      in if length parts < 9 then st1\<lparr>ps_malformedEntries := ps_malformedEntries st1 + 1\<rparr>
         else let relay = \<lparr>rl_Nickname = parts ! 1, rl_Fingerprint = parts ! 2, rl_Address = parts ! 6,
                           rl_ORPort = port_or_zero (parts ! 7), rl_DirPort = port_or_zero (parts ! 8),
                           rl_Flags = [], rl_IdentityKey = [], rl_NtorOnionKey = []\<rparr>
              in st1\<lparr>ps_table := ps_table st1 @ [relay], ps_current := Some (length (ps_table st1)),
                     ps_portParseErrors := ps_portParseErrors st1 + port_errors (parts ! 7) + port_errors (parts ! 8)\<rparr>)"

definition parse_s_line :: "string \<Rightarrow> parse_state \<Rightarrow> parse_state" where
  "parse_s_line line st =
     (case ps_current st of
        None \<Rightarrow> st
      | Some i \<Rightarrow> st\<lparr>ps_table := (ps_table st)[i := (ps_table st ! i)\<lparr>rl_Flags := str_fields (drop 2 line)\<rparr>]\<rparr>)"

definition parse_line :: "string \<Rightarrow> parse_state \<Rightarrow> parse_state" where
  "parse_line line st =
     (if has_prefix ''r '' line then parse_r_line line st
      else if has_prefix ''s '' line then parse_s_line line st
      else st)"

datatype consensus_error = ScanError | ExcessiveMalformed nat nat

definition parseConsensus :: "bool \<Rightarrow> string list \<Rightarrow> consensus_error + Relay list" where
  "parseConsensus scanErr lines =
     (let st = flush_current (fold parse_line lines parse_init) in
      if scanErr then Inl ScanError
      else if ps_totalEntries st > 0 \<and> ps_malformedEntries st > ps_totalEntries st * 10 div 100
      then Inl (ExcessiveMalformed (ps_malformedEntries st) (ps_totalEntries st))
      else Inr (map (\<lambda>i. ps_table st ! i) (ps_relays st)))"

text \<open>FetchConsensus: the first authority whose fetch succeeds; \<open>fetch\<close> is the HTTP request.\<close>

fun FetchConsensus :: "(string \<Rightarrow> (bool \<times> string list) option) \<Rightarrow> string list \<Rightarrow> Relay list option" where
  "FetchConsensus fetch [] = None"
| "FetchConsensus fetch (authority # rest) =
     (case fetch authority of
        None \<Rightarrow> FetchConsensus fetch rest
      | Some (scanErr, lines) \<Rightarrow>
          (case parseConsensus scanErr lines of
             Inl e \<Rightarrow> FetchConsensus fetch rest
           | Inr relays \<Rightarrow> Some relays))"

record ConsensusMetadata =
  cmd_ValidAfter :: time
  cmd_FreshUntil :: time
  cmd_ValidUntil :: time
  cmd_Signatures :: int
  cmd_Authorities :: int

datatype metadata_error = TooFarInFuture | ConsensusExpired | InsufficientSignatures | InsufficientAuthorities

definition maxClockSkew :: duration where
  "maxClockSkew = 30 * 60 * Second"

definition ValidateConsensusMetadata :: "time \<Rightarrow> ConsensusMetadata \<Rightarrow> metadata_error option" where
  "ValidateConsensusMetadata now meta =
     (if cmd_ValidAfter meta > now + maxClockSkew then Some TooFarInFuture
      else if cmd_ValidUntil meta < now - maxClockSkew then Some ConsensusExpired
      else if cmd_Signatures meta < 2 then Some InsufficientSignatures
      else if cmd_Authorities meta < 3 then Some InsufficientAuthorities
      else None)"

subsection \<open>What the parser returns\<close>

definition is_r :: "string \<Rightarrow> bool" where
  "is_r line \<longleftrightarrow> has_prefix ''r '' line"

definition malformed :: "string \<Rightarrow> bool" where
  "malformed line \<longleftrightarrow> is_r line \<and> length (str_fields line) < 9"

definition parse_ok :: "parse_state \<Rightarrow> bool" where
  "parse_ok st \<longleftrightarrow> (\<forall>i\<in>set (ps_relays st). i < length (ps_table st))
     \<and> (\<forall>i. ps_current st = Some i \<longrightarrow> i < length (ps_table st))
     \<and> (ps_current st = None \<longrightarrow> ps_relays st = [])"

lemma parse_line_counts:
  "ps_totalEntries (parse_line line st) = ps_totalEntries st + (if is_r line then 1 else 0)
   \<and> ps_malformedEntries (parse_line line st) = ps_malformedEntries st + (if malformed line then 1 else 0)
   \<and> (ps_current (parse_line line st) = None \<longleftrightarrow> ps_current st = None \<and> \<not> (is_r line \<and> \<not> malformed line))
   \<and> length (ps_relays (parse_line line st)) =
       length (ps_relays st) + (if is_r line \<and> ps_current st \<noteq> None then 1 else 0)
   \<and> length (ps_table (parse_line line st)) = length (ps_table st) + (if is_r line \<and> \<not> malformed line then 1 else 0)"
  by (auto simp: parse_line_def parse_r_line_def parse_s_line_def flush_current_def is_r_def malformed_def Let_def split: option.splits)

lemma parse_fold_counts:
  "ps_totalEntries (fold parse_line ls st) = ps_totalEntries st + length (filter is_r ls)
   \<and> ps_malformedEntries (fold parse_line ls st) = ps_malformedEntries st + length (filter malformed ls)
   \<and> (ps_current st \<noteq> None \<longrightarrow> ps_current (fold parse_line ls st) \<noteq> None
        \<and> length (ps_relays (fold parse_line ls st)) = length (ps_relays st) + length (filter is_r ls))"
proof (induction ls arbitrary: st)
  case Nil
  then show ?case by simp
next
  case (Cons line ls)
  from Cons.IH [of "parse_line line st"] parse_line_counts [of line st] show ?case
    by (auto simp: malformed_def)
qed

text \<open>
  The parser rejects a consensus exactly when more than a tenth of its router entries
  are malformed (with the integer division of the code) or the scanner failed.
\<close>

lemma parse_accepts:
  "(\<exists>relays. parseConsensus scanErr ls = Inr relays) \<longleftrightarrow>
     \<not> scanErr \<and> length (filter malformed ls) \<le> length (filter is_r ls) div 10"
proof -
  let ?st = "flush_current (fold parse_line ls parse_init)"
  have counts: "ps_totalEntries ?st = length (filter is_r ls)" "ps_malformedEntries ?st = length (filter malformed ls)"
    using parse_fold_counts [of ls parse_init] by (auto simp: flush_current_def parse_init_def split: option.splits)
  have "length (filter malformed ls) \<le> length (filter is_r ls)"
    by (induction ls) (auto simp: malformed_def)
  moreover have "n * 10 div 100 = n div 10" for n :: nat
    by simp
  ultimately show ?thesis
    by (auto simp: parseConsensus_def Let_def counts)
qed

text \<open>
  What a line does to the fingerprints of the table, and that no relay ever gets keys: the
  parser leaves both key fields of a relay empty.
\<close>

lemma parse_line_fingerprints:
  "map rl_Fingerprint (ps_table (parse_line line st)) =
    map rl_Fingerprint (ps_table st) @ (if is_r line \<and> \<not> malformed line then [str_fields line ! 2] else [])"
proof -
  have upd: "map rl_Fingerprint (xs[i := (xs ! i)\<lparr>rl_Flags := f\<rparr>]) = map rl_Fingerprint xs" for xs i f
    by (cases "i < length xs") (simp_all add: map_update list_update_same_conv list_update_beyond)
  show ?thesis
    by (auto simp: parse_line_def parse_r_line_def parse_s_line_def flush_current_def is_r_def malformed_def Let_def upd
        split: option.splits)
qed

lemma parse_line_ok: "parse_ok st \<Longrightarrow> parse_ok (parse_line line st)"
  by (auto simp: parse_ok_def parse_line_def parse_r_line_def parse_s_line_def flush_current_def Let_def less_SucI
      split: option.splits)

lemma parse_line_no_keys:
  assumes "\<forall>r\<in>set (ps_table st). rl_IdentityKey r = []"
  shows "\<forall>r\<in>set (ps_table (parse_line line st)). rl_IdentityKey r = []"
proof -
  have upd: "rl_IdentityKey r = []"
    if "r \<in> set (xs[i := (xs ! i)\<lparr>rl_Flags := f\<rparr>])" "\<forall>r\<in>set xs. rl_IdentityKey r = []" for r xs i f
    using that by (cases "i < length xs") (auto simp: list_update_beyond dest!: subsetD [OF set_update_subset_insert])
  show ?thesis
    using assms
    by (auto simp: parse_line_def parse_r_line_def parse_s_line_def flush_current_def Let_def dest: upd split: option.splits)
qed

interpretation parser: op_system parse_line "\<lambda>st. parse_ok st \<and> (\<forall>r\<in>set (ps_table st). rl_IdentityKey r = [])"
  by unfold_locales (blast intro: parse_line_ok parse_line_no_keys [rule_format])

lemma parsed_relays_without_keys:
  assumes "parseConsensus scanErr ls = Inr relays" and "r \<in> set relays"
  shows "\<not> HasValidKeys r"
proof -
  let ?st = "fold parse_line ls parse_init"
  have "parse_ok ?st \<and> (\<forall>r\<in>set (ps_table ?st). rl_IdentityKey r = [])"
    by (rule parser.run_inv) (simp add: parse_ok_def parse_init_def)
  then have "parse_ok (flush_current ?st) \<and> (\<forall>r\<in>set (ps_table (flush_current ?st)). rl_IdentityKey r = [])"
    by (auto simp: flush_current_def parse_ok_def split: option.splits)
  moreover have "relays = map (\<lambda>i. ps_table (flush_current ?st) ! i) (ps_relays (flush_current ?st))"
    using assms(1) by (auto simp: parseConsensus_def Let_def split: if_splits)
  ultimately have "rl_IdentityKey r = []"
    using assms(2) by (auto simp: parse_ok_def)
  then show ?thesis
    by (simp add: HasValidKeys_def)
qed

text \<open>
  The fingerprints the parser lists after a well-formed entry: one for each router entry,
  the previous one again for a malformed entry.
\<close>

fun listed :: "string \<Rightarrow> string list \<Rightarrow> string list" where
  "listed cur [] = [cur]"
| "listed cur (line # ls) =
     (if \<not> is_r line then listed cur ls
      else cur # listed (if malformed line then cur else str_fields line ! 2) ls)"

lemma parse_fold_listed:
  assumes "parse_ok st" and "ps_current st = Some i" and "rl_Fingerprint (ps_table st ! i) = cur"
  shows "let st' = flush_current (fold parse_line ls st) in
    map (\<lambda>j. rl_Fingerprint (ps_table st' ! j)) (ps_relays st') =
    map (\<lambda>j. rl_Fingerprint (ps_table st ! j)) (ps_relays st) @ listed cur ls"
  using assms
proof (induction ls arbitrary: st i cur)
  case Nil
  then show ?case by (simp add: flush_current_def)
next
  case (Cons line ls)
  let ?st = "parse_line line st"
  have ok: "parse_ok ?st"
    by (rule parse_line_ok [OF Cons.prems(1)])
  have i: "i < length (ps_table st)"
    using Cons.prems(1,2) by (simp add: parse_ok_def)
  have fp: "rl_Fingerprint (ps_table ?st ! j) = rl_Fingerprint (ps_table st ! j)" if "j < length (ps_table st)" for j
  proof -
    have len: "j < length (ps_table ?st)"
      using that parse_line_counts [of line st] by simp
    have "map rl_Fingerprint (ps_table ?st) ! j = map rl_Fingerprint (ps_table st) ! j"
      using that unfolding parse_line_fingerprints by (simp add: nth_append)
    with len that show ?thesis by simp
  qed
  have old: "map (\<lambda>j. rl_Fingerprint (ps_table ?st ! j)) (ps_relays st) = map (\<lambda>j. rl_Fingerprint (ps_table st ! j)) (ps_relays st)"
    using Cons.prems(1) by (auto simp: parse_ok_def fp)
  show ?case
  proof (cases "is_r line")
    case False
    then have "ps_current ?st = Some i" "ps_relays ?st = ps_relays st"
      using Cons.prems(2) by (auto simp: parse_line_def parse_s_line_def is_r_def)
    with Cons.IH [OF ok, of i cur] fp [OF i] old Cons.prems(3) False show ?thesis
      by (simp add: Let_def)
  next
    case True
    then have relays: "ps_relays ?st = ps_relays st @ [i]"
      using Cons.prems(2) by (auto simp: parse_line_def parse_r_line_def is_r_def flush_current_def Let_def)
    define k where "k = (if malformed line then i else length (ps_table st))"
    have cur: "ps_current ?st = Some k"
      using True Cons.prems(2)
      by (auto simp: parse_line_def parse_r_line_def is_r_def malformed_def flush_current_def Let_def k_def)
    have "rl_Fingerprint (ps_table ?st ! k) = (if malformed line then cur else str_fields line ! 2)"
    proof (cases "malformed line")
      case True
      with fp [OF i] Cons.prems(3) show ?thesis by (simp add: k_def)
    next
      case False
      have "length (ps_table ?st) = Suc (length (ps_table st))"
        using parse_line_counts [of line st] True False by simp
      moreover have "map rl_Fingerprint (ps_table ?st) ! length (ps_table st) = str_fields line ! 2"
        using True False unfolding parse_line_fingerprints by (simp add: nth_append)
      ultimately show ?thesis
        using False by (simp add: k_def)
    qed
    from Cons.IH [OF ok cur this] relays old fp [OF i] Cons.prems(3) True show ?thesis
      by (simp add: Let_def)
  qed
qed

text \<open>
  Malformed router entries are not skipped. After a well-formed first entry the
  fingerprints of the result are one for each router entry, in order, and a malformed
  entry lists the relay before it once more.
\<close>

lemma malformed_entry_repeats_relay:
  assumes "\<not> malformed r" and "is_r r" and "\<forall>l\<in>set pre. \<not> is_r l"
    and "parseConsensus False (pre @ r # ls) = Inr relays"
  shows "map rl_Fingerprint relays = listed (str_fields r ! 2) ls"
proof -
  let ?st0 = "fold parse_line pre parse_init"
  have pre: "ps_current ?st0 = None \<and> ps_relays ?st0 = [] \<and> ps_table ?st0 = [] \<and> parse_ok ?st0"
    using assms(3)
  proof (induction pre rule: rev_induct)
    case Nil
    then show ?case by (simp add: parse_init_def parse_ok_def)
  next
    case (snoc l pre)
    then show ?case
      using parse_line_counts [of l "fold parse_line pre parse_init"] by (simp add: parse_line_ok)
  qed
  let ?st1 = "parse_line r ?st0"
  have st1: "ps_current ?st1 = Some 0" "ps_relays ?st1 = []" "rl_Fingerprint (ps_table ?st1 ! 0) = str_fields r ! 2"
    using pre assms(1,2)
    by (auto simp: parse_line_def parse_r_line_def is_r_def malformed_def flush_current_def Let_def)
  have "relays = (let st' = flush_current (fold parse_line ls ?st1) in map (\<lambda>j. ps_table st' ! j) (ps_relays st'))"
    using assms(4) by (auto simp: parseConsensus_def Let_def split: if_splits)
  then show ?thesis
    using parse_fold_listed [OF parse_line_ok st1(1,3), of ls] pre st1(2) by (simp add: Let_def comp_def)
qed

definition entry :: "string \<Rightarrow> string" where
  "entry nick = ''r '' @ nick @ '' ID DG 2025-01-01 00:00:00 10.0.0.1 9001 0''"

definition sample_consensus :: "string list" where
  "sample_consensus = map entry [''a'', ''b'', ''c'', ''d'', ''e'', ''f'', ''g'', ''h'', ''i''] @ [''r broken'']"

lemma malformed_entry_repeats_relay_example:
  "\<exists>relays. parseConsensus False (entry ''a'' # tl sample_consensus) = Inr relays
     \<and> map rl_Fingerprint relays = listed ''ID'' (tl sample_consensus) \<and> length (listed ''ID'' (tl sample_consensus)) = 10
     \<and> length (filter malformed sample_consensus) = 1"
proof -
  have ok: "\<not> malformed (entry ''a'')" "is_r (entry ''a'')" "str_fields (entry ''a'') ! 2 = ''ID''"
    by code_simp+
  have cons: "entry ''a'' # tl sample_consensus = sample_consensus"
    by (simp add: sample_consensus_def)
  have counts: "length (filter malformed sample_consensus) = 1" "length (filter is_r sample_consensus) = 10"
    "length (listed ''ID'' (tl sample_consensus)) = 10"
    by code_simp+
  obtain relays where "parseConsensus False sample_consensus = Inr relays"
    using counts parse_accepts [of False sample_consensus] by auto
  then show ?thesis
    using malformed_entry_repeats_relay [OF ok(1,2), of "[]" "tl sample_consensus" relays] ok(3) counts cons by simp
qed

end
