(* ===== verification/PathSelection.thy ===== *)
theory PathSelection
  imports Directory
begin

section \<open>pkg/path: guard persistence and path selection\<close>

text \<open>
  The persistent guard list and the selector. crypto/rand is a parameter: a draw is a function
  \<open>rnd\<close> with \<open>rnd n\<close> a random index below n, None when the source fails, and SelectPath takes
  one such function for each of its three draws, so that they are independent. Loading and saving the state file
  (encoding/json, os) are parameters or left out: saving only stamps LastUpdated.
\<close>

subsection \<open>guards.go\<close>

record GuardEntry =
  ge_Fingerprint :: string
  ge_Nickname :: string
  ge_Address :: string
  ge_FirstUsed :: time
  ge_LastUsed :: time
  ge_Confirmed :: bool

record GuardManager =
  gm_Guards :: "GuardEntry list"
  gm_LastUpdated :: time
  gm_maxGuards :: nat
  gm_guardExpiry :: duration

text \<open>The state the file held, if it could be read and parsed.\<close>

definition NewGuardManager :: "(GuardEntry list \<times> time) option \<Rightarrow> GuardManager" where
  "NewGuardManager loaded =
     (let (guards, updated) = (case loaded of None \<Rightarrow> ([], 0) | Some x \<Rightarrow> x)
      in \<lparr>gm_Guards = guards, gm_LastUpdated = updated, gm_maxGuards = 3, gm_guardExpiry = 90 * 24 * 3600 * Second\<rparr>)"

definition Guards_Save :: "time \<Rightarrow> GuardManager \<Rightarrow> GuardManager" where
  "Guards_Save now gm = gm\<lparr>gm_LastUpdated := now\<rparr>"

definition unexpired :: "time \<Rightarrow> GuardManager \<Rightarrow> GuardEntry \<Rightarrow> bool" where
  "unexpired now gm g \<longleftrightarrow> now - ge_LastUsed g < gm_guardExpiry gm"

definition GetGuards :: "time \<Rightarrow> GuardManager \<Rightarrow> GuardEntry list" where
  "GetGuards now gm = filter (unexpired now gm) (gm_Guards gm)"

text \<open>The loops that look for an entry: update the first match, remove the first match.\<close>

fun update_first :: "('a \<Rightarrow> bool) \<Rightarrow> ('a \<Rightarrow> 'a) \<Rightarrow> 'a list \<Rightarrow> 'a list option" where
  "update_first P f [] = None"
| "update_first P f (x # xs) = (if P x then Some (f x # xs) else map_option ((#) x) (update_first P f xs))"

fun remove_first :: "('a \<Rightarrow> bool) \<Rightarrow> 'a list \<Rightarrow> 'a list option" where
  "remove_first P [] = None"
| "remove_first P (x # xs) = (if P x then Some xs else map_option ((#) x) (remove_first P xs))"

definition AddGuard :: "time \<Rightarrow> Relay \<Rightarrow> GuardManager \<Rightarrow> GuardManager" where
  "AddGuard now relay gm =
     (case update_first (\<lambda>g. ge_Fingerprint g = rl_Fingerprint relay)
             (\<lambda>g. g\<lparr>ge_LastUsed := now, ge_Confirmed := True\<rparr>) (gm_Guards gm) of
        Some guards \<Rightarrow> gm\<lparr>gm_Guards := guards\<rparr>
      | None \<Rightarrow>
          (let entry = \<lparr>ge_Fingerprint = rl_Fingerprint relay, ge_Nickname = rl_Nickname relay,
                        ge_Address = rl_Address relay, ge_FirstUsed = now, ge_LastUsed = now, ge_Confirmed = False\<rparr>
           in if length (gm_Guards gm) \<ge> gm_maxGuards gm
              then (case remove_first (\<lambda>g. \<not> ge_Confirmed g) (gm_Guards gm) of
                      None \<Rightarrow> gm
                    | Some rest \<Rightarrow> gm\<lparr>gm_Guards := rest @ [entry]\<rparr>)
              else gm\<lparr>gm_Guards := gm_Guards gm @ [entry]\<rparr>))"

definition ConfirmGuard :: "time \<Rightarrow> string \<Rightarrow> GuardManager \<Rightarrow> bool \<times> GuardManager" where
  "ConfirmGuard now fingerprint gm =
     (case update_first (\<lambda>g. ge_Fingerprint g = fingerprint)
             (\<lambda>g. g\<lparr>ge_Confirmed := True, ge_LastUsed := now\<rparr>) (gm_Guards gm) of
        Some guards \<Rightarrow> (True, gm\<lparr>gm_Guards := guards\<rparr>)
      | None \<Rightarrow> (False, gm))"

definition RemoveGuard :: "string \<Rightarrow> GuardManager \<Rightarrow> bool \<times> GuardManager" where
  "RemoveGuard fingerprint gm =
     (case remove_first (\<lambda>g. ge_Fingerprint g = fingerprint) (gm_Guards gm) of
        Some guards \<Rightarrow> (True, gm\<lparr>gm_Guards := guards\<rparr>)
      | None \<Rightarrow> (False, gm))"

definition CleanupExpired :: "time \<Rightarrow> GuardManager \<Rightarrow> GuardManager" where
  "CleanupExpired now gm =
     (let validGuards = filter (unexpired now gm) (gm_Guards gm)
      in if length validGuards \<noteq> length (gm_Guards gm) then gm\<lparr>gm_Guards := validGuards\<rparr> else gm)"

definition Guards_GetStats :: "GuardManager \<Rightarrow> nat \<times> nat \<times> time" where
  "Guards_GetStats gm = (length (gm_Guards gm), length (filter ge_Confirmed (gm_Guards gm)), gm_LastUpdated gm)"

lemma update_first_map:
  "update_first P f xs = Some ys \<Longrightarrow> (\<forall>x. g (f x) = g x) \<Longrightarrow> map g ys = map g xs"
  by (induction xs arbitrary: ys) (auto split: if_splits)

lemma update_first_None: "update_first P f xs = None \<longleftrightarrow> (\<forall>x\<in>set xs. \<not> P x)"
  by (induction xs) (auto split: if_splits)

lemma update_first_set: "update_first P f xs = Some ys \<Longrightarrow> y \<in> set xs \<Longrightarrow> y \<in> set ys \<or> f y \<in> set ys"
  by (induction xs arbitrary: ys) (auto split: if_splits)

lemma remove_first_split:
  "remove_first P xs = Some ys \<Longrightarrow> \<exists>us x vs. xs = us @ x # vs \<and> ys = us @ vs \<and> P x \<and> (\<forall>u\<in>set us. \<not> P u)"
proof (induction xs arbitrary: ys)
  case Nil
  then show ?case by simp
next
  case (Cons a xs)
  show ?case
  proof (cases "P a")
    case True
    with Cons.prems show ?thesis
      by (intro exI [of _ "[]"]) auto
  next
    case False
    with Cons.prems obtain zs where zs: "remove_first P xs = Some zs" "ys = a # zs"
      by auto
    from Cons.IH [OF zs(1)] obtain us x vs where "xs = us @ x # vs" "zs = us @ vs" "P x" "\<forall>u\<in>set us. \<not> P u"
      by blast
    with False zs show ?thesis
      by (intro exI [of _ "a # us"]) auto
  qed
qed

lemma remove_first_None: "remove_first P xs = None \<longleftrightarrow> (\<forall>x\<in>set xs. \<not> P x)"
  by (induction xs) auto

definition guards_ok :: "GuardManager \<Rightarrow> bool" where
  "guards_ok gm \<longleftrightarrow> distinct (map ge_Fingerprint (gm_Guards gm)) \<and> length (gm_Guards gm) \<le> gm_maxGuards gm \<and> 0 < gm_maxGuards gm"

lemma AddGuard_ok [inv_intros]: "guards_ok gm \<Longrightarrow> guards_ok (AddGuard now relay gm)"
proof -
  assume ok: "guards_ok gm"
  let ?P = "\<lambda>g. ge_Fingerprint g = rl_Fingerprint relay" and ?f = "\<lambda>g. g\<lparr>ge_LastUsed := now, ge_Confirmed := True\<rparr>"
  show ?thesis
  proof (cases "update_first ?P ?f (gm_Guards gm)")
    case (Some guards)
    have "map ge_Fingerprint guards = map ge_Fingerprint (gm_Guards gm)"
      using update_first_map [OF Some, of ge_Fingerprint] by simp
    with Some ok show ?thesis
      by (simp add: AddGuard_def guards_ok_def) (metis length_map)
  next
    case None
    then have new: "rl_Fingerprint relay \<notin> set (map ge_Fingerprint (gm_Guards gm))"
      by (auto simp: update_first_None)
    show ?thesis
    proof (cases "length (gm_Guards gm) \<ge> gm_maxGuards gm")
      case False
      with None new ok show ?thesis
        by (simp add: AddGuard_def guards_ok_def)
    next
      case True
      show ?thesis
      proof (cases "remove_first (\<lambda>g. \<not> ge_Confirmed g) (gm_Guards gm)")
        case n: None
        with None True ok show ?thesis
          by (simp add: AddGuard_def)
      next
        case (Some rest)
        from remove_first_split [OF this] obtain us x vs where "gm_Guards gm = us @ x # vs" "rest = us @ vs"
          by blast
        with None True Some new ok show ?thesis
          by (auto simp: AddGuard_def guards_ok_def)
      qed
    qed
  qed
qed

datatype guard_op = GAdd time Relay | GConfirm time string | GRemove string | GCleanup time | GSave time

definition guard_step :: "guard_op \<Rightarrow> GuardManager \<Rightarrow> GuardManager" where
  "guard_step op gm =
     (case op of
        GAdd now relay \<Rightarrow> AddGuard now relay gm
      | GConfirm now fp \<Rightarrow> snd (ConfirmGuard now fp gm)
      | GRemove fp \<Rightarrow> snd (RemoveGuard fp gm)
      | GCleanup now \<Rightarrow> CleanupExpired now gm
      | GSave now \<Rightarrow> Guards_Save now gm)"

lemma guards_ok_step [inv_intros]:
  assumes ok: "guards_ok gm"
  shows "guards_ok (guard_step op gm)"
proof (cases op)
  case (GAdd now relay)
  with ok show ?thesis
    by (simp add: guard_step_def AddGuard_ok)
next
  case (GConfirm now fp)
  show ?thesis
  proof (cases "update_first (\<lambda>g. ge_Fingerprint g = fp) (\<lambda>g. g\<lparr>ge_Confirmed := True, ge_LastUsed := now\<rparr>) (gm_Guards gm)")
    case None
    with GConfirm ok show ?thesis
      by (simp add: guard_step_def ConfirmGuard_def)
  next
    case (Some guards)
    have "map ge_Fingerprint guards = map ge_Fingerprint (gm_Guards gm)"
      using update_first_map [OF Some, of ge_Fingerprint] by simp
    with Some GConfirm ok show ?thesis
      by (simp add: guard_step_def ConfirmGuard_def guards_ok_def) (metis length_map)
  qed
next
  case (GRemove fp)
  with ok show ?thesis
    by (auto simp: guard_step_def RemoveGuard_def guards_ok_def split: option.splits dest!: remove_first_split)
next
  case (GCleanup now)
  with ok show ?thesis
    by (auto simp: guard_step_def CleanupExpired_def guards_ok_def Let_def intro: distinct_map_filter le_trans [OF length_filter_le])
next
  case (GSave now)
  with ok show ?thesis
    by (simp add: guard_step_def Guards_Save_def guards_ok_def)
qed

interpretation guards_sys: op_system guard_step guards_ok
  by unfold_locales (rule guards_ok_step)

text \<open>
  Over every sequence of operations on a new guard manager there are at most three
  guards, with distinct fingerprints, and making room for a new guard never removes a
  confirmed one.
\<close>

lemma guards_bounded:
  "let gm = fold guard_step ops (NewGuardManager None) in
     length (gm_Guards gm) \<le> 3 \<and> distinct (map ge_Fingerprint (gm_Guards gm))
     \<and> set (map ge_Fingerprint (filter ge_Confirmed (gm_Guards gm)))
         \<subseteq> set (map ge_Fingerprint (filter ge_Confirmed (gm_Guards (AddGuard now relay gm))))"
proof -
  let ?gm = "fold guard_step ops (NewGuardManager None)"
  have new: "guards_ok (NewGuardManager None)"
    by (simp add: guards_ok_def NewGuardManager_def)
  have "gm_maxGuards (guard_step op gm) = gm_maxGuards gm" for op gm
    by (auto simp: guard_step_def AddGuard_def ConfirmGuard_def RemoveGuard_def CleanupExpired_def Guards_Save_def Let_def split: guard_op.splits option.splits)
  then have "gm_maxGuards (fold guard_step ops gm) = gm_maxGuards gm" for gm
    by (induction ops arbitrary: gm) simp_all
  then have max: "gm_maxGuards ?gm = 3"
    by (simp add: NewGuardManager_def)
  have keep: "ge_Fingerprint g \<in> set (map ge_Fingerprint (filter ge_Confirmed (gm_Guards (AddGuard now relay gm))))"
    if "g \<in> set (gm_Guards gm)" "ge_Confirmed g" for g gm
  proof (cases "update_first (\<lambda>g. ge_Fingerprint g = rl_Fingerprint relay) (\<lambda>g. g\<lparr>ge_LastUsed := now, ge_Confirmed := True\<rparr>) (gm_Guards gm)")
    case (Some guards)
    have "\<exists>h\<in>set guards. ge_Confirmed h \<and> ge_Fingerprint h = ge_Fingerprint g"
      using update_first_set [OF Some that(1)] that(2) by (elim disjE) (auto intro: bexI [rotated])
    with Some show ?thesis
      by (auto simp: AddGuard_def image_iff)
  next
    case None
    with that show ?thesis
      by (fastforce simp: AddGuard_def Let_def split: option.splits dest!: remove_first_split)
  qed
  from guards_sys.run_inv [OF new, of ops] max keep show ?thesis
    by (auto simp: Let_def guards_ok_def)
qed

subsection \<open>path.go\<close>

record Selector =
  se_guardManager :: "GuardManager option"
  se_guards :: "Relay list"
  se_relays :: "Relay list"

record Path =
  pa_Guard :: Relay
  pa_Middle :: Relay
  pa_Exit :: Relay

datatype path_error = NoRelays | NoGuards | NoExit | NoMiddle | RandomIndexFailed | FetchFailed

definition NewSelector :: "GuardManager option \<Rightarrow> Selector" where
  "NewSelector guardMgr = \<lparr>se_guardManager = guardMgr, se_guards = [], se_relays = []\<rparr>"

text \<open>The consensus the directory client fetched, None when it failed.\<close>

definition UpdateConsensus :: "Relay list option \<Rightarrow> Selector \<Rightarrow> path_error option \<times> Selector" where
  "UpdateConsensus fetched s =
     (case fetched of
        None \<Rightarrow> (Some FetchFailed, s)
      | Some relays \<Rightarrow>
          (let allRelays = filter (\<lambda>r. IsRunning r \<and> IsValid r) relays
           in (None, s\<lparr>se_guards := filter (\<lambda>r. IsGuard r \<and> IsStable r) allRelays, se_relays := allRelays\<rparr>)))"

definition randomIndex :: "(nat \<Rightarrow> nat option) \<Rightarrow> nat \<Rightarrow> nat option" where
  "randomIndex rnd n = (if n = 0 then None else rnd n)"

text \<open>The first relay in the guard list that the first persistent guard with one has.\<close>

fun find_persistent :: "GuardEntry list \<Rightarrow> Relay list \<Rightarrow> Relay option" where
  "find_persistent [] guards = None"
| "find_persistent (p # ps) guards =
     (case find (\<lambda>r. rl_Fingerprint r = ge_Fingerprint p) guards of
        Some r \<Rightarrow> Some r
      | None \<Rightarrow> find_persistent ps guards)"

definition selectGuard :: "(nat \<Rightarrow> nat option) \<Rightarrow> time \<Rightarrow> Selector \<Rightarrow> (path_error + Relay) \<times> Selector" where
  "selectGuard rnd now s =
     (if se_guards s = [] then (Inl NoGuards, s)
      else case (case se_guardManager s of None \<Rightarrow> None | Some gm \<Rightarrow> find_persistent (GetGuards now gm) (se_guards s)) of
        Some r \<Rightarrow> (Inr r, s)
      | None \<Rightarrow>
          (case randomIndex rnd (length (se_guards s)) of
             None \<Rightarrow> (Inl RandomIndexFailed, s)
           | Some i \<Rightarrow>
               (let guard = se_guards s ! i
                in (Inr guard, s\<lparr>se_guardManager := map_option (\<lambda>gm. Guards_Save now (AddGuard now guard gm)) (se_guardManager s)\<rparr>))))"

definition selectExit :: "(nat \<Rightarrow> nat option) \<Rightarrow> Relay \<Rightarrow> Selector \<Rightarrow> path_error + Relay" where
  "selectExit rnd avoid s =
     (let exits0 = filter (\<lambda>r. IsExit r \<and> rl_Fingerprint r \<noteq> rl_Fingerprint avoid) (se_relays s);
          exits = (if exits0 = [] then filter (\<lambda>r. rl_Fingerprint r \<noteq> rl_Fingerprint avoid) (se_relays s) else exits0)
      in if exits = [] then Inl NoExit
         else case randomIndex rnd (length exits) of None \<Rightarrow> Inl RandomIndexFailed | Some i \<Rightarrow> Inr (exits ! i))"

definition selectMiddle :: "(nat \<Rightarrow> nat option) \<Rightarrow> Relay \<Rightarrow> Relay \<Rightarrow> Selector \<Rightarrow> path_error + Relay" where
  "selectMiddle rnd guard exit s =
     (let candidates = filter (\<lambda>r. rl_Fingerprint r \<noteq> rl_Fingerprint guard \<and> rl_Fingerprint r \<noteq> rl_Fingerprint exit) (se_relays s)
      in if candidates = [] then Inl NoMiddle
         else case randomIndex rnd (length candidates) of None \<Rightarrow> Inl RandomIndexFailed | Some i \<Rightarrow> Inr (candidates ! i))"

text \<open>SelectPath: \<open>rnd i\<close> is the i-th draw of an index.\<close>

definition SelectPath :: "(nat \<Rightarrow> nat \<Rightarrow> nat option) \<Rightarrow> time \<Rightarrow> Selector \<Rightarrow> (path_error + Path) \<times> Selector" where
  "SelectPath rnd now s =
     (if se_guards s = [] \<or> se_relays s = [] then (Inl NoRelays, s)
      else case selectGuard (rnd 0) now s of
        (Inl e, s1) \<Rightarrow> (Inl e, s1)
      | (Inr guard, s1) \<Rightarrow>
          (case selectExit (rnd 1) guard s1 of
             Inl e \<Rightarrow> (Inl e, s1)
           | Inr exit \<Rightarrow>
               (case selectMiddle (rnd 2) guard exit s1 of
                  Inl e \<Rightarrow> (Inl e, s1)
                | Inr middle \<Rightarrow> (Inr \<lparr>pa_Guard = guard, pa_Middle = middle, pa_Exit = exit\<rparr>, s1))))"

definition Selector_ConfirmGuard :: "time \<Rightarrow> string \<Rightarrow> Selector \<Rightarrow> Selector" where
  "Selector_ConfirmGuard now fingerprint s =
     (case se_guardManager s of
        None \<Rightarrow> s
      | Some gm \<Rightarrow>
          (case ConfirmGuard now fingerprint gm of
             (False, gm1) \<Rightarrow> s
           | (True, gm1) \<Rightarrow> s\<lparr>se_guardManager := Some (Guards_Save now gm1)\<rparr>))"

definition rnd_ok :: "(nat \<Rightarrow> nat option) \<Rightarrow> bool" where
  "rnd_ok rnd \<longleftrightarrow> (\<forall>n i. rnd n = Some i \<longrightarrow> i < n)"

lemma find_persistent_in: "find_persistent ps guards = Some r \<Longrightarrow> r \<in> set guards"
  by (induction ps) (auto split: option.splits simp: find_Some_iff)

lemma selectGuard_in:
  "rnd_ok rnd \<Longrightarrow> selectGuard rnd now s = (Inr g, s1) \<Longrightarrow> g \<in> set (se_guards s) \<and> se_relays s1 = se_relays s \<and> se_guards s1 = se_guards s"
  by (auto simp: selectGuard_def randomIndex_def rnd_ok_def Let_def dest: find_persistent_in split: option.splits if_splits)

lemma random_pick: "rnd_ok rnd \<Longrightarrow> randomIndex rnd (length xs) = Some i \<Longrightarrow> xs ! i \<in> set xs"
  by (auto simp: rnd_ok_def randomIndex_def split: if_splits)

lemma selectExit_in:
  assumes "rnd_ok rnd" and "selectExit rnd a s = Inr e"
  shows "e \<in> set (se_relays s) \<and> rl_Fingerprint e \<noteq> rl_Fingerprint a
    \<and> (IsExit e \<or> (\<forall>r\<in>set (se_relays s). IsExit r \<longrightarrow> rl_Fingerprint r = rl_Fingerprint a))"
proof -
  define exits0 where "exits0 = filter (\<lambda>r. IsExit r \<and> rl_Fingerprint r \<noteq> rl_Fingerprint a) (se_relays s)"
  define exits where "exits = (if exits0 = [] then filter (\<lambda>r. rl_Fingerprint r \<noteq> rl_Fingerprint a) (se_relays s) else exits0)"
  have mem: "e \<in> set exits"
    using assms(2) random_pick [OF assms(1), of exits]
    unfolding selectExit_def Let_def exits0_def [symmetric] exits_def [symmetric]
    by (auto split: if_splits option.splits simp del: set_filter)
  show ?thesis
  proof (cases "exits0 = []")
    case True
    then have "exits = filter (\<lambda>r. rl_Fingerprint r \<noteq> rl_Fingerprint a) (se_relays s)"
      by (simp add: exits_def)
    moreover have "\<forall>r\<in>set (se_relays s). IsExit r \<longrightarrow> rl_Fingerprint r = rl_Fingerprint a"
      using True unfolding exits0_def filter_empty_conv by blast
    ultimately show ?thesis
      using mem by simp
  next
    case False
    then have "exits = exits0"
      by (simp add: exits_def)
    with mem show ?thesis
      by (simp add: exits0_def)
  qed
qed

lemma selectMiddle_in:
  assumes "rnd_ok rnd" and "selectMiddle rnd g e s = Inr m"
  shows "m \<in> set (se_relays s) \<and> rl_Fingerprint m \<noteq> rl_Fingerprint g \<and> rl_Fingerprint m \<noteq> rl_Fingerprint e"
proof -
  define cs where "cs = filter (\<lambda>r. rl_Fingerprint r \<noteq> rl_Fingerprint g \<and> rl_Fingerprint r \<noteq> rl_Fingerprint e) (se_relays s)"
  have "m \<in> set cs"
    using assms(2) random_pick [OF assms(1), of cs]
    unfolding selectMiddle_def Let_def cs_def [symmetric] by (auto split: if_splits option.splits)
  then show ?thesis
    by (auto simp: cs_def)
qed

text \<open>
  C40: A selected path has three relays of the consensus with pairwise different
  fingerprints, all running and valid; the guard is a stable guard; and the exit is an exit,
  unless no relay other than the guard has the Exit flag, when any other relay is taken. The
  three draws are independent of each other and arbitrary within their bounds. The requested
  port plays no part, as in the code.
\<close>

theorem selected_path_valid:
  assumes "\<And>i. rnd_ok (rnd i)" and "UpdateConsensus (Some relays) s0 = (None, s)" and "SelectPath rnd now s = (Inr p, s1)"
  shows "rl_Fingerprint (pa_Guard p) \<noteq> rl_Fingerprint (pa_Middle p)
    \<and> rl_Fingerprint (pa_Middle p) \<noteq> rl_Fingerprint (pa_Exit p)
    \<and> rl_Fingerprint (pa_Guard p) \<noteq> rl_Fingerprint (pa_Exit p)
    \<and> (\<forall>r\<in>{pa_Guard p, pa_Middle p, pa_Exit p}. r \<in> set relays \<and> IsRunning r \<and> IsValid r)
    \<and> IsGuard (pa_Guard p) \<and> IsStable (pa_Guard p)
    \<and> (IsExit (pa_Exit p) \<or> (\<forall>r\<in>set relays. IsRunning r \<and> IsValid r \<and> IsExit r \<longrightarrow> rl_Fingerprint r = rl_Fingerprint (pa_Guard p)))"
proof -
  obtain g e m where sel: "selectGuard (rnd 0) now s = (Inr g, s1)" "selectExit (rnd 1) g s1 = Inr e" "selectMiddle (rnd 2) g e s1 = Inr m"
    and p: "p = \<lparr>pa_Guard = g, pa_Middle = m, pa_Exit = e\<rparr>"
    using assms(3) by (auto simp: SelectPath_def split: if_splits sum.splits prod.splits)
  have s: "se_relays s = filter (\<lambda>r. IsRunning r \<and> IsValid r) relays"
    "se_guards s = filter (\<lambda>r. IsGuard r \<and> IsStable r) (se_relays s)"
    using assms(2) by (auto simp: UpdateConsensus_def Let_def)
  from selectGuard_in [OF assms(1) sel(1)] selectExit_in [OF assms(1) sel(2)] selectMiddle_in [OF assms(1) sel(3)] s show ?thesis
    by (auto simp: p)
qed

definition sample_relay :: "string \<Rightarrow> Relay" where
  "sample_relay fp = \<lparr>rl_Nickname = fp, rl_Fingerprint = fp, rl_Address = ''10.0.0.1'', rl_ORPort = 9001, rl_DirPort = 0,
     rl_Flags = [''Guard'', ''Stable'', ''Running'', ''Valid'', ''Exit''], rl_IdentityKey = [], rl_NtorOnionKey = []\<rparr>"

definition last_index :: "nat \<Rightarrow> nat option" where
  "last_index n = (if n = 0 then None else Some (n - 1))"

definition sample_selector :: Selector where
  "sample_selector = snd (UpdateConsensus (Some (map sample_relay [''A'', ''B'', ''C''])) (NewSelector None))"

text \<open>
  Two guards A and B, two exits B and C: the first draw takes the first guard and the second
  the second exit, of lists of the same length.
\<close>

definition mixed_relays :: "Relay list" where
  "mixed_relays =
     [(sample_relay ''A'')\<lparr>rl_Flags := [''Guard'', ''Stable'', ''Running'', ''Valid'']\<rparr>,
      sample_relay ''B'',
      (sample_relay ''C'')\<lparr>rl_Flags := [''Running'', ''Valid'', ''Exit'']\<rparr>]"

definition mixed_draws :: "nat \<Rightarrow> nat \<Rightarrow> nat option" where
  "mixed_draws i = (if i = 1 then last_index else (\<lambda>n. if n = 0 then None else Some 0))"

definition mixed_path :: "(path_error + Path) \<times> Selector" where
  "mixed_path = SelectPath mixed_draws 0 (snd (UpdateConsensus (Some mixed_relays) (NewSelector None)))"

theorem selected_path_valid_witness:
  "\<exists>p s1. mixed_path = (Inr p, s1) \<and> rl_Fingerprint (pa_Guard p) = ''A'' \<and> rl_Fingerprint (pa_Exit p) = ''C''
    \<and> IsExit (pa_Exit p) \<and> rl_Fingerprint (pa_Middle p) \<noteq> rl_Fingerprint (pa_Exit p)"
proof -
  have "case fst mixed_path of Inl _ \<Rightarrow> False
      | Inr p \<Rightarrow> rl_Fingerprint (pa_Guard p) = ''A'' \<and> rl_Fingerprint (pa_Exit p) = ''C'' \<and> IsExit (pa_Exit p)"
    by code_simp
  then obtain p where r: "fst mixed_path = Inr p" "rl_Fingerprint (pa_Guard p) = ''A''"
      "rl_Fingerprint (pa_Exit p) = ''C''" "IsExit (pa_Exit p)"
    by (cases "fst mixed_path") simp_all
  then obtain s1 where p: "mixed_path = (Inr p, s1)"
    by (metis prod.collapse)
  have "\<And>i. rnd_ok (mixed_draws i)"
    by (simp add: rnd_ok_def mixed_draws_def last_index_def)
  moreover obtain s where s: "UpdateConsensus (Some mixed_relays) (NewSelector None) = (None, s)"
    by (simp add: UpdateConsensus_def Let_def)
  moreover have "SelectPath mixed_draws 0 s = (Inr p, s1)"
    using p s by (simp add: mixed_path_def)
  ultimately show ?thesis
    using selected_path_valid [of mixed_draws mixed_relays "NewSelector None" s 0 p s1] p r by blast
qed

end
