(* ===== verification/Builder.thy ===== *)
theory Builder
  imports CircuitManager Connection PathSelection
begin

section \<open>pkg/circuit/builder.go: building a circuit\<close>

text \<open>
  BuildCircuit on the manager, the path and the connection of the other components. The
  builder holds its lock for the whole call and the new circuit is known to no other
  component, so the call is modelled as one step; the circuit the caller holds is the one in
  the manager's map. What the network does, and whether the context ends within the 100 ms
  after connecting, are arguments. The result carries the guard connection as the call
  leaves it.
\<close>

datatype build_error =
    BuildCreateFailed manager_error
  | GuardConnectFailed conn_error
  | BuildContextDone
  | AddHopFailed circuit_error

definition relay_address :: "Relay \<Rightarrow> string" where
  "relay_address r = rl_Address r @ '':'' @ dec_of_int (rl_ORPort r)"

definition connectToRelay :: "network \<Rightarrow> bool \<Rightarrow> bool \<Rightarrow> string \<Rightarrow> (build_error + unit) \<times> Connection" where
  "connectToRelay nw ctx_done close_ok address =
     (let cfg = DefaultConfig address in
      case Connect nw cfg (conn_New cfg) of
        (Some e, conn) \<Rightarrow> (Inl (GuardConnectFailed e), conn)
      | (None, conn) \<Rightarrow>
          (if ctx_done then (Inl BuildContextDone, snd (conn_Close close_ok conn)) else (Inr (), conn)))"

text \<open>Adding the hops one after the other; the first failure stops.\<close>

fun add_hops :: "Hop list \<Rightarrow> 'conn Circuit \<Rightarrow> circuit_error option \<times> 'conn Circuit" where
  "add_hops [] c = (None, c)"
| "add_hops (h # hs) c =
     (case AddHop h c of
        (Some e, c1) \<Rightarrow> (Some e, c1)
      | (None, c1) \<Rightarrow> add_hops hs c1)"

definition path_hops :: "Path \<Rightarrow> Hop list" where
  "path_hops p =
     [NewHop (rl_Fingerprint (pa_Guard p)) (relay_address (pa_Guard p)) True False,
      NewHop (rl_Fingerprint (pa_Middle p)) (relay_address (pa_Middle p)) False False,
      NewHop (rl_Fingerprint (pa_Exit p)) (relay_address (pa_Exit p)) False True]"

definition store_circuit :: "'conn Circuit \<Rightarrow> 'conn Manager \<Rightarrow> 'conn Manager" where
  "store_circuit c m = m\<lparr>cm_circuits := (cm_circuits m)(ci_ID c \<mapsto> c)\<rparr>"

definition BuildCircuit ::
  "network \<Rightarrow> bool \<Rightarrow> bool \<Rightarrow> time \<Rightarrow> Path \<Rightarrow> 'conn Manager
     \<Rightarrow> ((build_error + 'conn Circuit) \<times> Connection option \<times> 'conn Manager) option" where
  "BuildCircuit nw ctx_done close_ok now p m =
     (case CreateCircuit now m of
        None \<Rightarrow> None
      | Some (Inl e, m1) \<Rightarrow> Some (Inl (BuildCreateFailed e), None, m1)
      | Some (Inr circuit, m1) \<Rightarrow>
          (case connectToRelay nw ctx_done close_ok (relay_address (pa_Guard p)) of
             (Inl e, conn) \<Rightarrow> Some (Inl e, Some conn, store_circuit (SetState StateFailed circuit) m1)
           | (Inr _, conn) \<Rightarrow>
               (let guardConn = snd (conn_Close close_ok conn) in
                case add_hops (path_hops p) circuit of
                  (Some e, c1) \<Rightarrow> Some (Inl (AddHopFailed e), Some guardConn, store_circuit (SetState StateFailed c1) m1)
                | (None, c1) \<Rightarrow>
                    (let c2 = SetState StateOpen c1 in Some (Inr c2, Some guardConn, store_circuit c2 m1)))))"

subsection \<open>What a built circuit is\<close>

lemma add_hops_building:
  "ci_State c = StateBuilding \<Longrightarrow> add_hops hs c = (None, c\<lparr>ci_Hops := ci_Hops c @ hs\<rparr>)"
  by (induction hs arbitrary: c) (simp_all add: AddHop_def)

lemma connectToRelay_Inr:
  "connectToRelay nw d ok a = (Inr u, conn) \<Longrightarrow> IsOpen conn"
  by (auto simp: connectToRelay_def Connect_def IsOpen_def setState_def Let_def split: if_splits)

lemma BuildCircuit_cases:
  assumes "manager_ok m" and "BuildCircuit nw ctx_done ok now p m = Some (r, conn, m')"
  shows "(\<exists>e. r = Inl (BuildCreateFailed e) \<and> m' = m)
    \<or> (\<exists>i. i \<noteq> 0 \<and> cm_circuits m i = None \<and>
        (case r of
           Inl e \<Rightarrow> m' = m\<lparr>cm_nextID := next_id i, cm_circuits := (cm_circuits m)(i \<mapsto> SetState StateFailed (NewCircuit now i))\<rparr>
         | Inr c \<Rightarrow> c = (SetState StateOpen (NewCircuit now i))\<lparr>ci_Hops := path_hops p\<rparr>
             \<and> (\<exists>g. conn = Some g \<and> cn_closed g)
             \<and> m' = m\<lparr>cm_nextID := next_id i, cm_circuits := (cm_circuits m)(i \<mapsto> c)\<rparr>))"
proof -
  have new: "ci_State (NewCircuit now i :: 'a Circuit) = StateBuilding" "ci_ID (NewCircuit now i :: 'a Circuit) = i"
    "ci_Hops (NewCircuit now i :: 'a Circuit) = []" for i
    by (simp_all add: NewCircuit_def)
  have closed: "cn_closed (snd (conn_Close ok c))" for c
    by (simp add: conn_Close_def setState_def)
  from CreateCircuit_cases [OF assms(1), of now] show ?thesis
  proof (elim disjE exE conjE)
    fix i
    assume i: "i \<noteq> 0" "i \<notin> dom (cm_circuits m)"
      and create: "CreateCircuit now m = Some (Inr (NewCircuit now i),
        m\<lparr>cm_nextID := next_id i, cm_circuits := (cm_circuits m)(i \<mapsto> NewCircuit now i)\<rparr>)"
    show ?thesis
      using assms(2) i
      by (intro disjI2 exI [of _ i])
        (auto simp: BuildCircuit_def create add_hops_building new closed store_circuit_def SetState_def Let_def
          split: prod.splits sum.splits)
  qed (use assms(2) in \<open>auto simp: BuildCircuit_def\<close>)
qed

lemma BuildCircuit_total:
  assumes "manager_ok m"
  shows "\<exists>r conn m'. BuildCircuit nw ctx_done ok now p m = Some (r, conn, m')"
proof -
  have "CreateCircuit now m \<noteq> None"
    using CreateCircuit_cases [OF assms, of now] by auto
  then show ?thesis
    by (cases "BuildCircuit nw ctx_done ok now p m")
      (auto simp: BuildCircuit_def Let_def split: option.splits sum.splits prod.splits)
qed

lemma first_circuit: "\<exists>i m'. CreateCircuit now (NewManager :: 'conn Manager) = Some (Inr (NewCircuit now i), m')"
proof -
  have "\<not> (\<forall>j. j \<noteq> 0 \<longrightarrow> j \<in> dom (cm_circuits (NewManager :: 'conn Manager)))"
    by (auto simp: NewManager_def intro: exI [of _ 1])
  moreover have "\<not> cm_closed (NewManager :: 'conn Manager)"
    by (simp add: NewManager_def)
  ultimately show ?thesis
    using CreateCircuit_cases [OF manager_ok_new, of now] by blast
qed

text \<open>
  C37: A built circuit cannot be used. BuildCircuit always returns; when it succeeds the
  circuit is open, has its three hops and is registered, but it has no connection and no
  keys, the guard connection has been closed again, and SendRelayCell fails on it for every
  cell, whatever the connection interface and the hash.
\<close>

theorem built_circuit_cannot_send:
  assumes "manager_ok m"
  shows "\<exists>r conn m'. BuildCircuit nw ctx_done ok now p m = Some (r, conn, m') \<and>
    (case r of
       Inl e \<Rightarrow> True
     | Inr c \<Rightarrow> IsReady c \<and> Circuit_Length c = 3 \<and> GetCircuit (ci_ID c) m' = Inr c
         \<and> (\<exists>g. conn = Some g \<and> cn_closed g)
         \<and> (\<forall>h\<in>set (ci_Hops c). hop_ForwardCipher h = None \<and> hop_BackwardCipher h = None)
         \<and> (\<forall>sha1 sendCell t rc. fst (SendRelayCell sha1 sendCell t rc c) = Some NoConnection))"
proof -
  obtain r conn m' where b: "BuildCircuit nw ctx_done ok now p m = Some (r, conn, m')"
    using BuildCircuit_total [OF assms] by blast
  show ?thesis
  proof (cases r)
    case (Inl e)
    with b show ?thesis by auto
  next
    case (Inr c)
    then obtain i g where c: "c = (SetState StateOpen (NewCircuit now i))\<lparr>ci_Hops := path_hops p\<rparr>"
      "conn = Some g" "cn_closed g" "cm_circuits m' i = Some c"
      using BuildCircuit_cases [OF assms b] by auto
    have "fst (SendRelayCell sha1 sendCell t rc c) = Some NoConnection" for sha1 sendCell t rc
      by (simp add: SendRelayCell_def c(1) SetState_def NewCircuit_def decrementPackageWindow_def)
    moreover have "IsReady c \<and> Circuit_Length c = 3 \<and> GetCircuit (ci_ID c) m' = Inr c
        \<and> (\<forall>h\<in>set (ci_Hops c). hop_ForwardCipher h = None \<and> hop_BackwardCipher h = None)"
      using c(4) by (simp add: c(1) IsReady_def SetState_def Circuit_Length_def path_hops_def GetCircuit_def
          NewCircuit_def NewHop_def)
    ultimately show ?thesis
      using b Inr c(2,3) by auto
  qed
qed

definition sample_path :: Path where
  "sample_path = \<lparr>pa_Guard = sample_relay ''A'', pa_Middle = sample_relay ''B'', pa_Exit = sample_relay ''C''\<rparr>"

theorem built_circuit_cannot_send_witness:
  "\<exists>c conn m'. BuildCircuit loopback False True 0 sample_path (NewManager :: unit Manager) = Some (Inr c, conn, m')
    \<and> (\<forall>sha1 sendCell t rc. fst (SendRelayCell sha1 sendCell t rc c) = Some NoConnection)"
proof -
  have ok: "manager_ok (NewManager :: unit Manager)"
    by (rule manager_ok_new)
  have "connectToRelay loopback False True a = (Inr (), snd (Connect loopback (DefaultConfig a) (conn_New (DefaultConfig a))))" for a
    by (simp add: connectToRelay_def Connect_def loopback_def DefaultConfig_def tls_verifier_def
        verifyTorRelayCertificate_def Let_def)
  moreover have "ci_State (NewCircuit 0 i :: unit Circuit) = StateBuilding" for i
    by (simp add: NewCircuit_def)
  ultimately obtain c conn m' where b: "BuildCircuit loopback False True 0 sample_path (NewManager :: unit Manager) = Some (Inr c, conn, m')"
    using first_circuit [of 0, where 'conn = unit]
    by (auto simp: BuildCircuit_def add_hops_building Let_def)
  have "\<forall>sha1 sendCell t rc. fst (SendRelayCell sha1 sendCell t rc c) = Some NoConnection"
    using built_circuit_cannot_send [OF ok, of loopback False True 0 sample_path] unfolding b by simp
  with b show ?thesis by auto
qed

text \<open>
  A failed build is not cleaned up. When the guard cannot be reached, the failed
  circuit stays registered with the manager under an ID of its own, one more for each
  attempt, and the caller gets no handle to close it by.
\<close>

lemma failed_build_stays_registered:
  assumes "manager_ok m" and "finite (ListCircuits m)"
    and "BuildCircuit nw ctx_done ok now p m = Some (Inl e, conn, m')" and "\<And>x. e \<noteq> BuildCreateFailed x"
  shows "Manager_Count m' = Manager_Count m + 1
    \<and> (\<exists>i c. i \<notin> ListCircuits m \<and> GetCircuit i m' = Inr c \<and> ci_State c = StateFailed)"
proof -
  obtain i where "i \<noteq> 0" "cm_circuits m i = None"
    "m' = m\<lparr>cm_nextID := next_id i, cm_circuits := (cm_circuits m)(i \<mapsto> SetState StateFailed (NewCircuit now i))\<rparr>"
    using BuildCircuit_cases [OF assms(1,3)] assms(4) by auto
  with assms(2) show ?thesis
    by (auto simp: Manager_Count_def ListCircuits_def GetCircuit_def SetState_def domIff intro!: exI [of _ i])
qed

lemma failed_build_stays_registered_example:
  "\<exists>e conn m'. BuildCircuit (loopback\<lparr>nw_dial := False\<rparr>) False True 0 sample_path (NewManager :: unit Manager) = Some (Inl e, conn, m')
    \<and> Manager_Count m' = 1"
proof -
  have ok: "manager_ok (NewManager :: unit Manager)"
    by (rule manager_ok_new)
  have fin: "finite (ListCircuits (NewManager :: unit Manager))" "Manager_Count (NewManager :: unit Manager) = 0"
    by (simp_all add: ListCircuits_def Manager_Count_def NewManager_def)
  have "connectToRelay (loopback\<lparr>nw_dial := False\<rparr>) False True a
      = (Inl (GuardConnectFailed DialFailed), setState ConnFailed (conn_New (DefaultConfig a)))" for a
    by (simp add: connectToRelay_def Connect_def loopback_def Let_def)
  then obtain conn m' where b: "BuildCircuit (loopback\<lparr>nw_dial := False\<rparr>) False True 0 sample_path (NewManager :: unit Manager)
      = Some (Inl (GuardConnectFailed DialFailed), conn, m')"
    using first_circuit [of 0, where 'conn = unit]
    by (auto simp: BuildCircuit_def Let_def)
  from failed_build_stays_registered [OF ok fin(1) b] fin(2) b show ?thesis by auto
qed

end
