(* ===== verification/CircuitFlow.thy ===== *)
theory CircuitFlow
  imports Circuit
begin

section \<open>pkg/circuit/circuit.go: streams on a circuit, and what sending and receiving promise\<close>

text \<open>
  The stream conveniences of a circuit (OpenStream, ReadFromStream, WriteToStream,
  EndStream), its replay methods, and the lemmas about SendRelayCell and DeliverRelayCell:
  flow control, delivery end to end, replay refusal, and how digests are compared.
\<close>

subsection \<open>Streams\<close>

text \<open>
  While OpenStream waits, other goroutines act on the circuit: \<open>env\<close> is what they do to it,
  \<open>ready\<close> the choice of the select as in ReceiveRelayCell.
\<close>

definition OpenStream ::
  "(bytes \<Rightarrow> bytes) \<Rightarrow> ('conn \<Rightarrow> (cell \<Rightarrow> bool \<times> 'conn) option) \<Rightarrow> time \<Rightarrow> ('conn Circuit \<Rightarrow> 'conn Circuit)
     \<Rightarrow> bool \<Rightarrow> u16 \<Rightarrow> string \<Rightarrow> u16 \<Rightarrow> 'conn Circuit \<Rightarrow> circuit_error option \<times> 'conn Circuit" where
  "OpenStream sha1 sendCell now env ready streamID target port c =
     (let beginPayload = bytes_of_string (target @ '':'' @ dec_of_nat (unat port)) @ [0] in
      case SendRelayCell sha1 sendCell now (NewRelayCell streamID RelayBegin beginPayload) c of
        (Some e, c1) \<Rightarrow> (Some e, c1)
      | (None, c1) \<Rightarrow>
          (case ReceiveRelayCell ready (env c1) of
             (Inl e, c2) \<Rightarrow> (Some e, c2)
           | (Inr rc, c2) \<Rightarrow>
               if rc_StreamID rc \<noteq> streamID then (Some (WrongStream streamID (rc_StreamID rc)), c2)
               else if rc_Command rc = RelayEnd
               then (Some (StreamRejected (if rc_Data rc = [] then None else Some (rc_Data rc ! 0))), c2)
               else if rc_Command rc \<noteq> RelayConnected then (Some (UnexpectedRelayCommand (rc_Command rc)), c2)
               else (None, c2)))"

datatype stream_read = ReadData bytes | ReadEOF | ReadFailed

text \<open>The loop of ReadFromStream over the waiting cells; it fails when none is left.\<close>

fun read_stream :: "u16 \<Rightarrow> relay_cell list \<Rightarrow> stream_read \<times> relay_cell list" where
  "read_stream streamID [] = (ReadFailed, [])"
| "read_stream streamID (rc # rest) =
     (if rc_StreamID rc \<noteq> streamID then read_stream streamID rest
      else if rc_Command rc = RelayData then (ReadData (rc_Data rc), rest)
      else if rc_Command rc = RelayEnd then (ReadEOF, rest)
      else read_stream streamID rest)"

definition ReadFromStream :: "u16 \<Rightarrow> 'conn Circuit \<Rightarrow> stream_read \<times> 'conn Circuit" where
  "ReadFromStream streamID c =
     (let (res, rest) = read_stream streamID (ci_relayReceive c) in (res, c\<lparr>ci_relayReceive := rest\<rparr>))"

definition WriteToStream ::
  "(bytes \<Rightarrow> bytes) \<Rightarrow> ('conn \<Rightarrow> (cell \<Rightarrow> bool \<times> 'conn) option) \<Rightarrow> time \<Rightarrow> u16 \<Rightarrow> bytes \<Rightarrow> 'conn Circuit
     \<Rightarrow> circuit_error option \<times> 'conn Circuit" where
  "WriteToStream sha1 sendCell now streamID data c =
     SendRelayCell sha1 sendCell now (NewRelayCell streamID RelayData data) c"

definition EndStream ::
  "(bytes \<Rightarrow> bytes) \<Rightarrow> ('conn \<Rightarrow> (cell \<Rightarrow> bool \<times> 'conn) option) \<Rightarrow> time \<Rightarrow> u16 \<Rightarrow> byte \<Rightarrow> 'conn Circuit
     \<Rightarrow> circuit_error option \<times> 'conn Circuit" where
  "EndStream sha1 sendCell now streamID reason c =
     SendRelayCell sha1 sendCell now (NewRelayCell streamID RelayEnd [reason]) c"

text \<open>
  ReadFromStream drops what it reads past: the cells of other streams that arrived before
  the first DATA cell of its own stream are gone.
\<close>

lemma read_stream_discards:
  assumes "\<forall>x\<in>set others. rc_StreamID x \<noteq> streamID"
    and "rc_StreamID rc = streamID" and "rc_Command rc = RelayData"
    and "ci_relayReceive c = others @ rc # rest"
  shows "ReadFromStream streamID c = (ReadData (rc_Data rc), c\<lparr>ci_relayReceive := rest\<rparr>)"
proof -
  have "read_stream streamID (others @ rc # rest) = (ReadData (rc_Data rc), rest)"
    using assms(1-3) by (induction others) simp_all
  with assms(4) show ?thesis
    by (simp add: ReadFromStream_def)
qed

subsection \<open>Replay methods\<close>

definition GetReplayStats :: "'conn Circuit \<Rightarrow> ReplayStats option" where
  "GetReplayStats c = map_option Replay_Stats (ci_replay c)"

definition GetReplayAttempts :: "'conn Circuit \<Rightarrow> u64" where
  "GetReplayAttempts c = (case ci_replay c of None \<Rightarrow> 0 | Some r \<Rightarrow> TotalReplayAttempts r)"

definition ValidateCellForReplay ::
  "(bytes \<Rightarrow> bytes) \<Rightarrow> ReplayDirection \<Rightarrow> bytes \<Rightarrow> 'conn Circuit \<Rightarrow> replay_error option \<times> 'conn Circuit" where
  "ValidateCellForReplay sha256 direction cellData c =
     (case ci_replay c of
        None \<Rightarrow> (None, c)
      | Some rp \<Rightarrow> (let (e, rp') = ValidateAndTrackAuto sha256 direction cellData rp
                    in (e, c\<lparr>ci_replay := Some rp'\<rparr>)))"

definition ResetReplayProtection :: "'conn Circuit \<Rightarrow> 'conn Circuit" where
  "ResetReplayProtection c = c\<lparr>ci_replay := map_option Replay_Reset (ci_replay c)\<rparr>"

subsection \<open>Frame lemmas\<close>

text \<open>What the crypto steps leave alone: everything but the hops.\<close>

lemma encryptForward_frame: "snd (encryptForward p c) = c\<lparr>ci_Hops := snd (encrypt_hops p (ci_Hops c))\<rparr>"
  by (simp add: encryptForward_def split: prod.splits)

lemma decryptBackward_frame: "snd (decryptBackward p c) = c\<lparr>ci_Hops := snd (decrypt_hops p (ci_Hops c))\<rparr>"
  by (simp add: decryptBackward_def split: prod.splits)

lemma verifyRelayCellDigest_frame:
  "verifyRelayCellDigest sha1 p c = (v, c') \<Longrightarrow> \<exists>hs. c' = c\<lparr>ci_Hops := hs\<rparr>"
  by (auto simp: verifyRelayCellDigest_def split: if_splits option.splits intro: exI [of _ "ci_Hops c"])

text \<open>The flow-control state of a circuit.\<close>

definition windows :: "'conn Circuit \<Rightarrow> int \<times> int \<times> int" where
  "windows c = (ci_packageWindow c, ci_deliverWindow c, ci_sendmeReceived c)"

lemma SendRelayCell_effect:
  assumes "SendRelayCell sha1 sendCell now rc c = (e, c')"
  shows "ci_deliverWindow c' = ci_deliverWindow c \<and> ci_sendmeReceived c' = ci_sendmeReceived c
    \<and> ci_relayReceive c' = ci_relayReceive c \<and> ci_replay c' = ci_replay c \<and> ci_ID c' = ci_ID c
    \<and> ci_State c' = ci_State c
    \<and> ci_packageWindow c' = ci_packageWindow c - (if rc_Command rc = RelayData \<and> 0 < ci_packageWindow c then 1 else 0)
    \<and> (e = None \<and> rc_Command rc = RelayData \<longrightarrow> 0 < ci_packageWindow c)"
  using assms
  by (auto simp: SendRelayCell_def decrementPackageWindow_def encryptForward_def RecordActivity_def Let_def
      split: if_splits option.splits sum.splits prod.splits bool.splits)

lemma deliver_to_channel_effect:
  "deliver_to_channel now rc c = (e, c') \<Longrightarrow> windows c' = windows c \<and> ci_replay c' = ci_replay c \<and> ci_ID c' = ci_ID c"
  by (auto simp: deliver_to_channel_def RecordActivity_def windows_def Let_def split: if_splits)

lemma deliver_recognized_effect:
  assumes "deliver_recognized now rc c = (e, s, c')"
  shows "ci_replay c' = ci_replay c \<and> ci_ID c' = ci_ID c
    \<and> (if rc_Command rc = RelayData \<and> 0 < ci_deliverWindow c
       then windows c' = (ci_packageWindow c, ci_deliverWindow c - 1, ci_sendmeReceived c + 1)
         \<and> s = (ci_sendmeReceived c + 1 \<ge> 100) \<and> e \<noteq> Some DeliverWindowExhausted
       else if rc_Command rc \<noteq> RelayData \<and> rc_Command rc = RelaySendme \<and> rc_StreamID rc = 0
       then windows c' = (ci_packageWindow c + 100, ci_deliverWindow c, ci_sendmeReceived c) \<and> \<not> s \<and> e = None
       else windows c' = windows c \<and> \<not> s)"
  using assms
  by (auto simp: deliver_recognized_def decrementDeliverWindow_def incrementPackageWindow_def shouldSendCircuitSendme_def
      windows_def deliver_to_channel_def RecordActivity_def Let_def split: if_splits prod.splits)

text \<open>
  The relay cell a delivery gets to: the circuit ID is the circuit's, the replay check
  passes, a hop recognises the digest and the payload decodes. Without one the delivery
  leaves the windows alone and starts nothing; with one it is deliver_recognized on a
  circuit with the same windows.
\<close>

definition recognised_relay ::
  "(bytes \<Rightarrow> bytes) \<Rightarrow> (bytes \<Rightarrow> bytes) \<Rightarrow> cell \<Rightarrow> 'conn Circuit \<Rightarrow> relay_cell option" where
  "recognised_relay sha1 sha256 x c =
     (if CircID x \<noteq> ci_ID c then None
      else let (p, c1) = decryptBackward (Payload x) c; (re, c2) = replay_check sha256 p c1 in
        if re \<noteq> None then None
        else (case fst (verifyRelayCellDigest sha1 p c2) of
            Inl e \<Rightarrow> None
          | Inr hopIdx \<Rightarrow>
              if hopIdx < 0 then None
              else (case DecodeRelayCell p of Inl e \<Rightarrow> None | Inr rc \<Rightarrow> Some rc)))"

lemma DeliverRelayCell_recognised:
  assumes "DeliverRelayCell sha1 sha256 now x c = (e, s, c')"
  shows "case recognised_relay sha1 sha256 x c of
      None \<Rightarrow> windows c' = windows c \<and> \<not> s \<and> e \<noteq> Some DeliverWindowExhausted
    | Some rc \<Rightarrow> \<exists>c2. windows c2 = windows c \<and> deliver_recognized now rc c2 = (e, s, c')"
proof (cases "CircID x = ci_ID c")
  case False
  with assms show ?thesis
    by (auto simp: DeliverRelayCell_def recognised_relay_def)
next
  case True
  obtain p c1 where d: "decryptBackward (Payload x) c = (p, c1)"
    by (cases "decryptBackward (Payload x) c")
  have w1: "windows c1 = windows c"
    using decryptBackward_frame [of "Payload x" c] d by (simp add: windows_def)
  obtain re c2 where r: "replay_check sha256 p c1 = (re, c2)"
    by (cases "replay_check sha256 p c1")
  have w2: "windows c2 = windows c"
    using r w1 by (auto simp: replay_check_def windows_def split: option.splits prod.splits)
  obtain v c3 where v: "verifyRelayCellDigest sha1 p c2 = (v, c3)"
    by (cases "verifyRelayCellDigest sha1 p c2")
  have w3: "windows c3 = windows c" and v1: "v \<noteq> Inl DeliverWindowExhausted"
    using verifyRelayCellDigest_frame [OF v] w2 v
    by (auto simp: windows_def verifyRelayCellDigest_def split: if_splits option.splits)
  show ?thesis
    using assms True d r v w2 w3 v1
    by (auto simp: DeliverRelayCell_def recognised_relay_def split: option.splits sum.splits if_splits)
qed

lemma DeliverRelayCell_cases:
  assumes "DeliverRelayCell sha1 sha256 now x c = (e, s, c')"
  shows "(windows c' = windows c \<and> \<not> s \<and> e \<noteq> Some DeliverWindowExhausted)
    \<or> (\<exists>rc c2. windows c2 = windows c \<and> deliver_recognized now rc c2 = (e, s, c'))"
  using DeliverRelayCell_recognised [OF assms] by (auto split: option.splits)

subsection \<open>Flow control\<close>

text \<open>
  An owner's run over a circuit, from its construction on: hops and their crypto state,
  the connection and the state are set, cells are sent, delivered and received, and the
  SENDME goroutine runs, in any order. \<open>circuit_run\<close> counts the DATA cells handed to the
  connection and the circuit-level SENDMEs recognised.
\<close>

datatype 'conn circuit_op =
    OpAddHop Hop
  | OpSetCrypto nat "stream_cipher option" "stream_cipher option" "bytes option" "bytes option"
  | OpSetConnection "'conn option"
  | OpSetState State
  | OpSend relay_cell time
  | OpDeliver cell time
  | OpReceive bool
  | OpSendme time

definition circuit_step ::
  "(bytes \<Rightarrow> bytes) \<Rightarrow> (bytes \<Rightarrow> bytes) \<Rightarrow> ('conn \<Rightarrow> (cell \<Rightarrow> bool \<times> 'conn) option)
     \<Rightarrow> 'conn circuit_op \<Rightarrow> 'conn Circuit \<Rightarrow> nat \<times> nat \<times> 'conn Circuit" where
  "circuit_step sha1 sha256 sendCell op c =
     (case op of
        OpAddHop hop \<Rightarrow> (0, 0, snd (AddHop hop c))
      | OpSetCrypto i fc bc fd bd \<Rightarrow>
          (0, 0, c\<lparr>ci_Hops := (ci_Hops c)[i := SetCryptoState fc bc fd bd (ci_Hops c ! i)]\<rparr>)
      | OpSetConnection conn \<Rightarrow> (0, 0, SetConnection conn c)
      | OpSetState s \<Rightarrow> (0, 0, SetState s c)
      | OpSend rc now \<Rightarrow>
          (let (e, c') = SendRelayCell sha1 sendCell now rc c
           in (if e = None \<and> rc_Command rc = RelayData then 1 else 0, 0, c'))
      | OpDeliver x now \<Rightarrow>
          (let (e, s, c') = DeliverRelayCell sha1 sha256 now x c
           in (0, case recognised_relay sha1 sha256 x c of
                    None \<Rightarrow> 0
                  | Some rc \<Rightarrow> if rc_Command rc = RelaySendme \<and> rc_StreamID rc = 0 then 1 else 0, c'))
      | OpReceive ready \<Rightarrow> (let (r, c') = ReceiveRelayCell ready c in (0, 0, c'))
      | OpSendme now \<Rightarrow> (let (e, c') = sendCircuitSendme sha1 sendCell now c in (0, 0, c')))"

fun circuit_run ::
  "(bytes \<Rightarrow> bytes) \<Rightarrow> (bytes \<Rightarrow> bytes) \<Rightarrow> ('conn \<Rightarrow> (cell \<Rightarrow> bool \<times> 'conn) option)
     \<Rightarrow> 'conn circuit_op list \<Rightarrow> 'conn Circuit \<Rightarrow> nat \<times> nat \<times> 'conn Circuit" where
  "circuit_run sha1 sha256 sendCell [] c = (0, 0, c)"
| "circuit_run sha1 sha256 sendCell (op # ops) c =
     (let (n, g, c1) = circuit_step sha1 sha256 sendCell op c;
          (m, k, c2) = circuit_run sha1 sha256 sendCell ops c1
      in (n + m, g + k, c2))"

definition is_deliver :: "'conn circuit_op \<Rightarrow> bool" where
  "is_deliver op = (case op of OpDeliver _ _ \<Rightarrow> True | _ \<Rightarrow> False)"

lemma NewRelayCell_command [simp]: "rc_Command (NewRelayCell sid cmd data) = cmd"
  by (simp add: NewRelayCell_def Let_def)

lemma package_window_step:
  assumes "circuit_step sha1 sha256 sendCell op c = (n, g, c')" and "0 \<le> ci_packageWindow c"
  shows "0 \<le> ci_packageWindow c' \<and> int n + ci_packageWindow c' \<le> ci_packageWindow c + 100 * int g
    \<and> g \<le> (if is_deliver op then 1 else 0)"
proof (cases op)
  case (OpSend rc now)
  obtain e where s: "SendRelayCell sha1 sendCell now rc c = (e, c')" and g: "g = 0"
    and n: "n = (if e = None \<and> rc_Command rc = RelayData then 1 else 0)"
    using assms(1) OpSend by (auto simp: circuit_step_def split: prod.splits)
  from SendRelayCell_effect [OF s] n g assms(2) OpSend show ?thesis
    by (auto simp: is_deliver_def)
next
  case (OpDeliver x now)
  obtain e s where d: "DeliverRelayCell sha1 sha256 now x c = (e, s, c')" and n: "n = 0"
    and g: "g = (case recognised_relay sha1 sha256 x c of None \<Rightarrow> 0
      | Some rc \<Rightarrow> if rc_Command rc = RelaySendme \<and> rc_StreamID rc = 0 then 1 else 0)"
    using assms(1) OpDeliver by (auto simp: circuit_step_def split: prod.splits)
  from DeliverRelayCell_recognised [OF d] show ?thesis
    using assms(2) OpDeliver n g
    by (auto simp: is_deliver_def windows_def dest!: deliver_recognized_effect split: if_splits option.splits)
next
  case (OpSendme now)
  obtain e where s: "SendRelayCell sha1 sendCell now (NewRelayCell 0 RelaySendme []) (sendme_window c) = (e, c')"
    and n: "n = 0" "g = 0"
    using assms(1) OpSendme by (auto simp: circuit_step_def sendCircuitSendme_def split: prod.splits)
  from SendRelayCell_effect [OF s] n assms(2) OpSendme show ?thesis
    by (simp add: is_deliver_def sendme_window_def)
qed (use assms in \<open>auto simp: circuit_step_def SetState_def SetConnection_def AddHop_def ReceiveRelayCell_def
       is_deliver_def split: list.splits if_splits\<close>)

lemma package_window_run:
  assumes "circuit_run sha1 sha256 sendCell ops c = (n, g, c')" and "0 \<le> ci_packageWindow c"
  shows "0 \<le> ci_packageWindow c' \<and> int n + ci_packageWindow c' \<le> ci_packageWindow c + 100 * int g
    \<and> g \<le> length (filter is_deliver ops)"
  using assms
proof (induction ops arbitrary: c n g)
  case Nil
  then show ?case by simp
next
  case (Cons op ops)
  obtain m h c1 k l where s: "circuit_step sha1 sha256 sendCell op c = (m, h, c1)"
    and r: "circuit_run sha1 sha256 sendCell ops c1 = (k, l, c')" and n: "n = m + k" "g = h + l"
    using Cons.prems(1) by (auto split: prod.splits)
  from package_window_step [OF s Cons.prems(2)] Cons.IH [OF r] n show ?case
    by (auto split: if_splits)
qed

text \<open>
  C10: Flow control of sending. Over every run from a new circuit, in which hops, crypto
  state, connection and state are set and cells are sent, delivered and received in any
  order, the DATA cells handed to the connection and what is left of the package window
  together are at most 1000 plus 100 for each circuit-level SENDME that a hop of the
  circuit authenticated; there are at most as many of those as deliveries, and the window
  never goes below zero. Each operation runs as a whole.
\<close>

theorem package_window_bounds_data:
  assumes "circuit_run sha1 sha256 sendCell ops (NewCircuit now cid) = (n, granted, c)"
  shows "int n + ci_packageWindow c \<le> 1000 + 100 * int granted \<and> granted \<le> length (filter is_deliver ops)
    \<and> 0 \<le> ci_packageWindow c"
  using package_window_run [OF assms] by (simp add: NewCircuit_def)

text \<open>A run that sends two DATA cells over a one-hop circuit and has a SENDME recognised in between.\<close>

definition logging_send :: "cell list \<Rightarrow> (cell \<Rightarrow> bool \<times> cell list) option" where
  "logging_send sent = Some (\<lambda>x. (True, sent @ [x]))"

definition sending_run :: "cell list circuit_op list" where
  "sending_run =
     [OpAddHop (NewHop ''A'' ''10.0.0.1:9001'' True True), OpSetCrypto 0 None None (Some []) (Some []),
      OpSetConnection (Some []), OpSetState StateOpen,
      OpSend (NewRelayCell 5 RelayData [1]) 9,
      OpDeliver \<lparr>CircID = 1, Command = CmdRelay, Payload = RelaySendme # zeros 508\<rparr> 10,
      OpSend (NewRelayCell 5 RelayData [2]) 11]"

lemma sending_run_result:
  "(case circuit_run (\<lambda>x. zeros 20) (\<lambda>x. x) logging_send sending_run (NewCircuit 0 1) of
      (n, g, c) \<Rightarrow> n = 2 \<and> g = 1 \<and> ci_packageWindow c = 1098 \<and> map_option length (ci_conn c) = Some 2)"
  by code_simp

theorem package_window_bounds_data_witness:
  "\<exists>c. circuit_run (\<lambda>x. zeros 20) (\<lambda>x. x) logging_send sending_run (NewCircuit 0 1) = (2, 1, c)
    \<and> int 2 + ci_packageWindow c \<le> 1000 + 100 * int 1 \<and> map_option length (ci_conn c) = Some 2"
proof -
  obtain c where c: "circuit_run (\<lambda>x. zeros 20) (\<lambda>x. x) logging_send sending_run (NewCircuit 0 1) = (2, 1, c)"
    "map_option length (ci_conn c) = Some 2"
    using sending_run_result by (auto split: prod.splits)
  with package_window_bounds_data [OF c(1)] show ?thesis
    by blast
qed

text \<open>Deliveries whose SENDME goroutine, if one was started, runs before the next delivery.\<close>

fun deliver_in_turn ::
  "(bytes \<Rightarrow> bytes) \<Rightarrow> (bytes \<Rightarrow> bytes) \<Rightarrow> ('conn \<Rightarrow> (cell \<Rightarrow> bool \<times> 'conn) option)
     \<Rightarrow> (cell \<times> time) list \<Rightarrow> 'conn Circuit \<Rightarrow> circuit_error option list \<times> 'conn Circuit" where
  "deliver_in_turn sha1 sha256 sendCell [] c = ([], c)"
| "deliver_in_turn sha1 sha256 sendCell ((x, now) # xs) c =
     (let (e, s, c1) = DeliverRelayCell sha1 sha256 now x c;
          c2 = (if s then snd (sendCircuitSendme sha1 sendCell now c1) else c1);
          (es, c3) = deliver_in_turn sha1 sha256 sendCell xs c2
      in (e # es, c3))"

definition deliver_ok :: "'conn Circuit \<Rightarrow> bool" where
  "deliver_ok c \<longleftrightarrow> ci_deliverWindow c + ci_sendmeReceived c = 1000 \<and> 0 \<le> ci_sendmeReceived c \<and> ci_sendmeReceived c < 100"

lemma deliver_in_turn_step:
  assumes ok: "deliver_ok c" and d: "DeliverRelayCell sha1 sha256 now x c = (e, s, c1)"
  shows "e \<noteq> Some DeliverWindowExhausted \<and>
    deliver_ok (if s then snd (sendCircuitSendme sha1 sendCell now c1) else c1)"
proof -
  have sendme: "windows (snd (sendCircuitSendme sha1 sendCell now c1))
      = (ci_packageWindow c1, ci_deliverWindow c1 + 100, 0)"
    using SendRelayCell_effect [of sha1 sendCell now "NewRelayCell 0 RelaySendme []" "sendme_window c1"]
    by (cases "SendRelayCell sha1 sendCell now (NewRelayCell 0 RelaySendme []) (sendme_window c1)")
       (auto simp: sendCircuitSendme_def windows_def sendme_window_def)
  from DeliverRelayCell_cases [OF d] show ?thesis
  proof
    assume "windows c1 = windows c \<and> \<not> s \<and> e \<noteq> Some DeliverWindowExhausted"
    with ok show ?thesis
      by (simp add: deliver_ok_def windows_def)
  next
    assume "\<exists>rc c2. windows c2 = windows c \<and> deliver_recognized now rc c2 = (e, s, c1)"
    then obtain rc c2 where w: "windows c2 = windows c" and r: "deliver_recognized now rc c2 = (e, s, c1)"
      by blast
    have "0 < ci_deliverWindow c2"
      using ok w by (simp add: deliver_ok_def windows_def)
    moreover have "rc_Command rc \<noteq> RelayData \<Longrightarrow> e \<noteq> Some DeliverWindowExhausted"
      using r by (auto simp: deliver_recognized_def deliver_to_channel_def Let_def split: if_splits prod.splits)
    ultimately show ?thesis
      using deliver_recognized_effect [OF r] ok w sendme
      by (auto simp: deliver_ok_def windows_def split: if_splits)
  qed
qed

text \<open>
  Flow control of receiving. When each SENDME goroutine runs before the next delivery,
  the deliver window stays between 901 and 1000, and no delivery is ever refused for an
  exhausted window.
\<close>

lemma deliver_window_in_turn:
  assumes "deliver_in_turn sha1 sha256 sendCell xs (NewCircuit now cid) = (es, c)"
  shows "901 \<le> ci_deliverWindow c \<and> ci_deliverWindow c \<le> 1000 \<and> Some DeliverWindowExhausted \<notin> set es"
proof -
  have "deliver_ok c \<and> Some DeliverWindowExhausted \<notin> set es"
    if "deliver_ok c0" and "deliver_in_turn sha1 sha256 sendCell xs c0 = (es, c)" for c0
    using that
  proof (induction xs arbitrary: c0 es)
    case Nil
    then show ?case by simp
  next
    case (Cons a xs)
    obtain x t where a: "a = (x, t)" by (cases a)
    obtain e s c1 where d: "DeliverRelayCell sha1 sha256 t x c0 = (e, s, c1)"
      by (cases "DeliverRelayCell sha1 sha256 t x c0")
    from Cons.prems(2) Cons.IH deliver_in_turn_step [OF Cons.prems(1) d, of sendCell] show ?case
      by (fastforce simp: a d Let_def split: prod.splits)
  qed
  moreover have "deliver_ok (NewCircuit now cid)"
    by (simp add: deliver_ok_def NewCircuit_def)
  ultimately show ?thesis
    using assms by (fastforce simp: deliver_ok_def)
qed

lemma deliver_window_in_turn_example:
  "901 \<le> ci_deliverWindow (snd (deliver_in_turn (\<lambda>x. x) (\<lambda>x. x) (\<lambda>c. None)
      [(\<lparr>CircID = 1, Command = CmdRelay, Payload = zeros 509\<rparr>, 5)] (NewCircuit 0 1 :: unit Circuit)))"
  using deliver_window_in_turn [OF prod.collapse [symmetric]] by blast

text \<open>The schedule in which the goroutines come late: n DATA cells first, then all of them.\<close>

fun deliver_late :: "nat \<Rightarrow> time \<Rightarrow> relay_cell \<Rightarrow> 'conn Circuit \<Rightarrow> nat \<times> 'conn Circuit" where
  "deliver_late 0 now rc c = (0, c)"
| "deliver_late (Suc n) now rc c =
     (let (e, s, c1) = deliver_recognized now rc c; (k, c2) = deliver_late n now rc c1
      in ((if s then 1 else 0) + k, c2))"

lemma deliver_late_windows:
  assumes "rc_Command rc = RelayData" and "int n \<le> ci_deliverWindow c" and "0 \<le> ci_sendmeReceived c"
    and "deliver_late n now rc c = (k, c')"
  shows "ci_deliverWindow c' = ci_deliverWindow c - int n
    \<and> int k = max 0 (int n - max 0 (99 - ci_sendmeReceived c))"
  using assms(2-)
proof (induction n arbitrary: c k)
  case 0
  then show ?case by simp
next
  case (Suc n)
  obtain e s c1 where d: "deliver_recognized now rc c = (e, s, c1)"
    by (cases "deliver_recognized now rc c")
  obtain k1 where l: "deliver_late n now rc c1 = (k1, c')" and k: "k = (if s then 1 else 0) + k1"
    using Suc.prems(3) d by (auto split: prod.splits)
  have eff: "ci_deliverWindow c1 = ci_deliverWindow c - 1" "ci_sendmeReceived c1 = ci_sendmeReceived c + 1"
    "s = (ci_sendmeReceived c + 1 \<ge> 100)"
    using deliver_recognized_effect [OF d] assms(1) Suc.prems(1) by (auto simp: windows_def split: if_splits)
  from Suc.IH [OF _ _ l] Suc.prems(1,2) eff k show ?case
    by auto
qed

text \<open>
  The deliver window is not bounded by 1000 when the goroutines come late: between the
  check of the counter and its reset every further DATA cell starts another goroutine, and
  each of them grants the peer 100 cells.
\<close>

lemma late_sendmes_widen_window:
  assumes "rc_Command rc = RelayData" and "99 \<le> n" and "n \<le> 1000"
    and "deliver_late n now rc (NewCircuit t cid) = (k, c)"
  shows "k = n - 99 \<and> ci_deliverWindow ((sendme_window ^^ k) c) = 1000 - int n + 100 * (int n - 99)"
proof -
  have k: "k = n - 99" and w: "ci_deliverWindow c = 1000 - int n"
    using deliver_late_windows [OF assms(1) _ _ assms(4)] assms(2,3) by (auto simp: NewCircuit_def)
  have "ci_deliverWindow ((sendme_window ^^ j) c) = ci_deliverWindow c + 100 * int j" for j
    by (induction j) (simp_all add: sendme_window_def)
  with k w assms(2) show ?thesis
    by simp
qed

lemma late_sendmes_widen_window_example:
  "let (k, c) = deliver_late 1000 0 (NewRelayCell 5 RelayData [1]) (NewCircuit 0 1 :: unit Circuit)
   in ci_deliverWindow ((sendme_window ^^ k) c) = 90100"
  using late_sendmes_widen_window [of "NewRelayCell 5 RelayData [1]" 1000 0 0 1]
  by (auto split: prod.splits)

subsection \<open>What a digest covers\<close>

lemma map_fst_skip [simp]: "map_option fst (map_option (\<lambda>(i, hs). (i, h # hs)) v) = map_option fst v"
  by (cases v) auto

lemma verify_hops_cong:
  assumes "u16_at p 1 = u16_at p' 1" and "take 4 (drop 5 p) = take 4 (drop 5 p')"
  shows "map_option fst (verify_hops sha1 p i hs) = map_option fst (verify_hops sha1 p' i hs)"
proof (induction hs arbitrary: i)
  case Nil
  then show ?case by simp
next
  case (Cons h hs)
  from Cons [of "Suc i"] show ?case
    by (cases "hop_BackwardDigest h") (simp_all add: Let_def assms [unfolded One_nat_def])
qed

text \<open>
  verifyRelayCellDigest does not authenticate the payload. The digest it compares is
  taken before the cell is absorbed, so the hop it answers depends on the recognized and
  digest fields only: command, stream, length and data may be anything.
\<close>

lemma recognition_ignores_content:
  assumes "length p \<ge> 11" and "length p' \<ge> 11"
    and "u16_at p 1 = u16_at p' 1" and "take 4 (drop 5 p) = take 4 (drop 5 p')"
  shows "fst (verifyRelayCellDigest sha1 p c) = fst (verifyRelayCellDigest sha1 p' c)"
  using verify_hops_cong [OF assms(3,4), of sha1 0 "ci_Hops c"] assms(1,2)
  by (cases "verify_hops sha1 p 0 (ci_Hops c)"; cases "verify_hops sha1 p' 0 (ci_Hops c)")
     (auto simp: verifyRelayCellDigest_def)

lemma recognition_ignores_content_example:
  "fst (verifyRelayCellDigest (\<lambda>x. zeros 20) (RelayData # zeros 20) (test_circuit [5]))
    = fst (verifyRelayCellDigest (\<lambda>x. zeros 20) (RelayEnd # zeros 20) (test_circuit [5]))"
  by (rule recognition_ignores_content) (simp_all add: u16_at_def)

lemma zero_digest_stamp: "zero_digest (stamp_digest s p) = zero_digest p"
  by (simp add: zero_digest_def stamp_digest_def list_update_swap)

lemma stamp_digest_field:
  assumes "length s \<ge> 4" and "length p \<ge> 11"
  shows "take 4 (drop 5 (stamp_digest s p)) = take 4 s"
  by (rule nth_equalityI) (use assms in \<open>auto simp: stamp_digest_def nth_list_update less_Suc_eq numeral_eq_Suc\<close>)

lemma stamp_digest_recognized:
  "length p \<ge> 11 \<Longrightarrow> u16_at (stamp_digest s p) 1 = u16_at p 1"
  by (simp add: u16_at_def stamp_digest_def)

text \<open>
  The receiver refuses what a sender of the same code sends. A cell that the other end
  stamps the way SendRelayCell does, with the digest after absorbing it, is recognised only
  if the first four bytes of SHA-1 happen to agree before and after the cell.
\<close>

lemma stamped_cell_recognition:
  assumes "\<forall>x. length (sha1 x) = 20" and "length p \<ge> 11" and "u16_at p 1 = 0"
    and "ci_Hops c = [h]" and "hop_BackwardDigest h = Some d"
  shows "fst (verifyRelayCellDigest sha1 (stamp_digest (sha1 (d @ zero_digest p)) p) c) = Inr 0
    \<longleftrightarrow> take 4 (sha1 (d @ zero_digest p)) = take 4 (sha1 d)"
proof -
  have len: "length (stamp_digest s p) = length p" for s
    by (simp add: stamp_digest_def)
  show ?thesis
    using assms by (auto simp: verifyRelayCellDigest_def len stamp_digest_field
        stamp_digest_recognized [unfolded One_nat_def] subtle_ConstantTimeCompare_def Let_def)
qed

lemma zero_digest_Nil [simp]: "zero_digest p = [] \<longleftrightarrow> p = []"
  by (simp add: zero_digest_def)

lemma stamped_cell_recognition_example:
  "fst (verifyRelayCellDigest (\<lambda>x. if x = [] then zeros 20 else replicate 20 1)
      (stamp_digest (replicate 20 1) (zeros 11)) (test_circuit [5])) \<noteq> Inr 0"
proof -
  have hops: "ci_Hops (test_circuit [5]) = [test_hop 5]"
    by (simp add: test_circuit_def AddHop_def NewCircuit_def)
  show ?thesis
    using stamped_cell_recognition [OF _ _ _ hops, of "\<lambda>x. if x = [] then zeros 20 else replicate 20 1" "zeros 11" "[]"]
    by (simp add: u16_at_def test_hop_def SetCryptoState_def)
qed

subsection \<open>Sending end to end\<close>

lemma stamp_digest_payload:
  assumes "length dig = 4" and "4 \<le> length t"
  shows "stamp_digest t (relay_payload cmd recog sid dig len body) = relay_payload cmd recog sid (take 4 t) len body"
proof -
  obtain a b c d where dig: "dig = [a, b, c, d]"
    using assms(1) by (auto simp: length_Suc_conv numeral_eq_Suc)
  obtain w x y z r where t: "t = w # x # y # z # r"
    using assms(2) by (auto simp: Suc_le_length_iff numeral_eq_Suc)
  show ?thesis
    by (simp add: dig t stamp_digest_def relay_payload_def be16_def eval_nat_numeral)
qed

lemma DecodeRelayCell_stamped:
  assumes enc: "relay_Encode rc = Inr payload" and dig: "length (rc_Digest rc) = 4"
    and len: "unat (rc_Length rc) = length (rc_Data rc)" and t: "4 \<le> length t"
  shows "DecodeRelayCell (stamp_digest t payload) = Inr (rc\<lparr>rc_Digest := take 4 t\<rparr>)"
proof -
  have le: "length (rc_Data rc) \<le> 498"
    using enc by (auto simp: relay_Encode_def split: if_splits)
  then have "payload = relay_payload (rc_Command rc) (rc_Recognized rc) (rc_StreamID rc)
      (rc_Digest rc) (rc_Length rc) (rc_Data rc @ zeros (498 - length (rc_Data rc)))"
    using enc relay_Encode_Inr [OF dig le] by simp
  then have "stamp_digest t payload = relay_payload (rc_Command rc) (rc_Recognized rc) (rc_StreamID rc)
      (take 4 t) (rc_Length rc) (rc_Data rc @ zeros (498 - length (rc_Data rc)))"
    using stamp_digest_payload [OF dig t] by simp
  with DecodeRelayCell_payload [OF _ len le, of "take 4 t"] t show ?thesis
    by (cases rc) simp
qed

lemma exit_digest_some:
  assumes "hops \<noteq> []" and "hop_ForwardDigest (last hops) = Some dg"
  shows "fst (exit_digest sha1 p hops) = stamp_digest (sha1 (dg @ zero_digest p)) p
    \<and> map hop_ForwardCipher (snd (exit_digest sha1 p hops)) = map hop_ForwardCipher hops"
proof -
  have "map hop_ForwardCipher hops = map hop_ForwardCipher (butlast hops) @ [hop_ForwardCipher (last hops)]"
    using assms(1) by (metis append_butlast_last_id list.simps(8) list.simps(9) map_append)
  with assms show ?thesis
    by (simp add: exit_digest_def Let_def)
qed

lemma SendRelayCell_success:
  assumes "SendRelayCell sha1 logging_send now rc c = (None, c')" and "ci_conn c = Some sent"
  shows "\<exists>payload q c1. relay_Encode rc = Inr payload
    \<and> encryptForward (fst (exit_digest sha1 payload (ci_Hops c)))
        (c1\<lparr>ci_Hops := snd (exit_digest sha1 payload (ci_Hops c))\<rparr>) = q
    \<and> ci_conn c' = Some (sent @ [\<lparr>CircID = ci_ID c, Command = CmdRelay, Payload = fst q\<rparr>])"
proof -
  obtain c1 where c1: "(if rc_Command rc = RelayData then decrementPackageWindow c else (None, c)) = (None, c1)"
    "ci_Hops c1 = ci_Hops c" "ci_conn c1 = ci_conn c" "ci_ID c1 = ci_ID c"
    using assms(1) by (auto simp: SendRelayCell_def decrementPackageWindow_def split: if_splits)
  obtain payload where payload: "relay_Encode rc = Inr payload"
    using assms(1) c1 assms(2) by (auto simp: SendRelayCell_def Let_def split: if_splits sum.splits)
  have "ci_ID (snd (encryptForward p d)) = ci_ID d" for p and d :: "cell list Circuit"
    by (simp add: encryptForward_frame)
  then show ?thesis
    using assms c1 payload
    by (intro exI [of _ payload] exI [of _ "encryptForward (fst (exit_digest sha1 payload (ci_Hops c)))
        (c1\<lparr>ci_Hops := snd (exit_digest sha1 payload (ci_Hops c))\<rparr>)"] exI [of _ c1])
      (auto simp: SendRelayCell_def logging_send_def RecordActivity_def Let_def encryptForward_def
        split: if_splits prod.splits)
qed

text \<open>
  C7: What SendRelayCell puts on the connection. On success exactly one RELAY cell of this
  circuit is sent, and the end that holds the same keystreams unwraps it to a relay payload
  that decodes to the cell with, as digest, the first four bytes of SHA-1 over all the exit
  hop has absorbed, this cell included.
\<close>

theorem send_relay_cell_delivers:
  assumes "SendRelayCell sha1 logging_send now rc c = (None, c')" and "ci_conn c = Some sent"
    and "layers_agree c d" and "ci_Hops c \<noteq> []" and "hop_ForwardDigest (last (ci_Hops c)) = Some dg"
    and "\<forall>x. length (sha1 x) = 20" and "length (rc_Digest rc) = 4" and "unat (rc_Length rc) = length (rc_Data rc)"
  shows "\<exists>x payload. ci_conn c' = Some (sent @ [x]) \<and> CircID x = ci_ID c \<and> Command x = CmdRelay
    \<and> relay_Encode rc = Inr payload
    \<and> DecodeRelayCell (fst (decryptBackward (Payload x) d))
        = Inr (rc\<lparr>rc_Digest := take 4 (sha1 (dg @ zero_digest payload))\<rparr>)"
proof -
  obtain payload q c1 where enc: "relay_Encode rc = Inr payload"
    and q: "encryptForward (fst (exit_digest sha1 payload (ci_Hops c)))
        (c1\<lparr>ci_Hops := snd (exit_digest sha1 payload (ci_Hops c))\<rparr>) = q"
    and sent: "ci_conn c' = Some (sent @ [\<lparr>CircID = ci_ID c, Command = CmdRelay, Payload = fst q\<rparr>])"
    using SendRelayCell_success [OF assms(1,2)] by blast
  let ?t = "sha1 (dg @ zero_digest payload)"
  note ex = exit_digest_some [OF assms(4,5), of sha1 payload]
  have "layers_agree (c1\<lparr>ci_Hops := snd (exit_digest sha1 payload (ci_Hops c))\<rparr>) d"
    using assms(3) ex by (simp add: layers_agree_def)
  from onion_step [OF this] q ex
  have peel: "fst (decryptBackward (fst q) d) = stamp_digest ?t payload"
    by (cases q; cases "decryptBackward (fst q) d") auto
  have "DecodeRelayCell (stamp_digest ?t payload) = Inr (rc\<lparr>rc_Digest := take 4 ?t\<rparr>)"
    using DecodeRelayCell_stamped [OF enc assms(7,8)] assms(6) by simp
  with sent enc peel show ?thesis
    by auto
qed

definition open_circuit :: "byte list \<Rightarrow> cell list Circuit" where
  "open_circuit ks = (fold (\<lambda>k c. snd (AddHop (test_hop k) c)) ks (NewCircuit 0 1))\<lparr>ci_State := StateOpen, ci_conn := Some []\<rparr>"

theorem send_relay_cell_delivers_witness:
  "\<exists>c' x payload. SendRelayCell (\<lambda>x. zeros 20) logging_send 5 (NewRelayCell 5 RelayEnd [6]) (open_circuit [5, 6]) = (None, c')
    \<and> ci_conn c' = Some ([] @ [x])
    \<and> DecodeRelayCell (fst (decryptBackward (Payload x) (open_circuit [5, 6]))) = Inr (NewRelayCell 5 RelayEnd [6])"
proof -
  let ?rc = "NewRelayCell 5 RelayEnd [6]" and ?c = "open_circuit [5, 6]"
  have rc: "?rc = \<lparr>rc_Command = RelayEnd, rc_Recognized = 0, rc_StreamID = 5, rc_Digest = [0, 0, 0, 0], rc_Length = 1, rc_Data = [6]\<rparr>"
    by (simp add: NewRelayCell_def len16_Inr)
  have hops: "ci_Hops ?c = [test_hop 5, test_hop 6]" "ci_conn ?c = Some []" "ci_State ?c = StateOpen"
    by (simp_all add: open_circuit_def AddHop_def NewCircuit_def)
  obtain e c' where send: "SendRelayCell (\<lambda>x. zeros 20) logging_send 5 ?rc ?c = (e, c')"
    by (cases "SendRelayCell (\<lambda>x. zeros 20) logging_send 5 ?rc ?c")
  then have none: "e = None"
    using hops by (auto simp: SendRelayCell_def rc relay_Encode_def logging_send_def Let_def split: prod.splits)
  have "\<exists>x payload. ci_conn c' = Some ([] @ [x]) \<and> CircID x = ci_ID ?c \<and> Command x = CmdRelay
    \<and> relay_Encode ?rc = Inr payload \<and> DecodeRelayCell (fst (decryptBackward (Payload x) ?c))
        = Inr (?rc\<lparr>rc_Digest := take 4 ((\<lambda>x. zeros 20) ([] @ zero_digest payload))\<rparr>)"
    by (rule send_relay_cell_delivers [OF send [unfolded none]])
       (simp_all add: hops layers_agree_def, simp_all add: test_hop_def SetCryptoState_def rc)
  moreover have "?rc\<lparr>rc_Digest := take 4 (zeros 20)\<rparr> = ?rc"
    by (simp add: rc eval_nat_numeral)
  ultimately show ?thesis
    using send none by auto
qed

subsection \<open>Replays\<close>

lemma auto_ok_step:
  assumes "auto_ok ws d" and "unat (rd_seq d) + 2 * (2 * unat ws + 1) < 2 ^ 64"
  shows "auto_ok ws (snd (auto_check ws g d))"
proof -
  obtain A where inv: "rd_inv ws A d" and room: "unat (rd_seq d) + (2 * unat ws + 1) < 2 ^ 64"
    using assms(1) by (auto simp: auto_ok_def)
  obtain e d' where a: "auto_dir ws g d = (e, d')"
    by (cases "auto_dir ws g d")
  from auto_dir_step [OF inv room a] assms(2) a show ?thesis
    by (auto simp: auto_ok_def auto_check_def split: if_splits)
qed

lemma replay_check_backward:
  assumes "ci_replay c = Some r" and "payload \<noteq> []"
  shows "replay_check sha256 payload c = (e, c') \<Longrightarrow>
    (e = None) = fst (auto_check (rp_windowSize r) (truncated_digest sha256 payload) (rp_backward r))
    \<and> ci_replay c' = Some (rp_set_dir ReplayBackward
        (snd (auto_check (rp_windowSize r) (truncated_digest sha256 payload) (rp_backward r))) r)
    \<and> windows c' = windows c \<and> ci_relayReceive c' = ci_relayReceive c"
  using assms
  by (auto simp: replay_check_def ValidateAndTrackAuto_dir auto_check_def rp_dir_def windows_def Let_def split: prod.splits)

lemma DeliverRelayCell_replay:
  assumes "CircID x = ci_ID c" and "decryptBackward (Payload x) c = (p, c1)" and "replay_check sha256 p c1 = (re, c2)"
    and "DeliverRelayCell sha1 sha256 now x c = (e, s, c')"
  shows "ci_replay c' = ci_replay c2 \<and> ci_ID c' = ci_ID c
    \<and> (case re of Some r \<Rightarrow> e = Some (ReplayDetected r) \<and> \<not> s \<and> c' = c2 | None \<Rightarrow> True)"
proof (cases re)
  case (Some r)
  moreover have "ci_ID c2 = ci_ID c"
    using assms(2,3) decryptBackward_frame [of "Payload x" c] by (auto simp: replay_check_def split: option.splits prod.splits)
  ultimately show ?thesis
    using assms by (simp add: DeliverRelayCell_def)
next
  case None
  have id2: "ci_ID c2 = ci_ID c"
    using assms(2,3) decryptBackward_frame [of "Payload x" c] by (auto simp: replay_check_def split: option.splits prod.splits)
  obtain v c3 where v: "verifyRelayCellDigest sha1 p c2 = (v, c3)"
    by (cases "verifyRelayCellDigest sha1 p c2")
  have c3: "ci_replay c3 = ci_replay c2" "ci_ID c3 = ci_ID c2"
    using verifyRelayCellDigest_frame [OF v] by auto
  have rec: "deliver_recognized now rc c3 = (e', s', c'') \<Longrightarrow> ci_replay c'' = ci_replay c3 \<and> ci_ID c'' = ci_ID c3" for rc e' s' c''
    by (drule deliver_recognized_effect) simp
  show ?thesis
    using assms None v c3 id2 by (auto simp: DeliverRelayCell_def dest!: rec split: sum.splits if_splits)
qed

text \<open>
  DeliverRelayCell refuses an immediate replay. If a cell that decrypts to some payload
  has been delivered, a second cell that decrypts to the same payload is refused as a
  replay, and neither the windows nor the receive channel change.
\<close>

lemma immediate_replay_refused_by_circuit:
  assumes "ci_replay c = Some r" and "auto_ok (rp_windowSize r) (rp_backward r)"
    and "unat (rd_seq (rp_backward r)) + 2 * (2 * unat (rp_windowSize r) + 1) < 2 ^ 64"
    and "CircID x = ci_ID c" and "CircID y = ci_ID c"
    and "DeliverRelayCell sha1 sha256 t1 x c = (e1, s1, c1)"
    and "fst (decryptBackward (Payload x) c) = p" and "fst (decryptBackward (Payload y) c1) = p" and "p \<noteq> []"
    and "DeliverRelayCell sha1 sha256 t2 y c1 = (e2, s2, c2)"
  shows "(\<exists>re. e2 = Some (ReplayDetected re)) \<and> \<not> s2 \<and> windows c2 = windows c1 \<and> ci_relayReceive c2 = ci_relayReceive c1"
proof -
  let ?ws = "rp_windowSize r" and ?g = "truncated_digest sha256 p"
  obtain d1 where d: "decryptBackward (Payload x) c = (p, d1)"
    using assms(7) by (cases "decryptBackward (Payload x) c") auto
  have "ci_replay d1 = Some r"
    using decryptBackward_frame [of "Payload x" c] d assms(1) by simp
  moreover obtain ra d2 where ra: "replay_check sha256 p d1 = (ra, d2)"
    by (cases "replay_check sha256 p d1")
  ultimately have r2: "ci_replay d2 = Some (rp_set_dir ReplayBackward (snd (auto_check ?ws ?g (rp_backward r))) r)"
    using replay_check_backward [of d1 r p sha256 ra d2] assms(9) by simp
  then have r1: "ci_replay c1 = Some (rp_set_dir ReplayBackward (snd (auto_check ?ws ?g (rp_backward r))) r)" "ci_ID c1 = ci_ID c"
    using DeliverRelayCell_replay [OF assms(4) d ra assms(6)] by simp_all
  obtain f1 where f: "decryptBackward (Payload y) c1 = (p, f1)"
    using assms(8) by (cases "decryptBackward (Payload y) c1") auto
  have f1: "ci_replay f1 = ci_replay c1" "windows f1 = windows c1" "ci_relayReceive f1 = ci_relayReceive c1"
    using decryptBackward_frame [of "Payload y" c1] f by (simp_all add: windows_def)
  obtain rb f2 where rb: "replay_check sha256 p f1 = (rb, f2)"
    by (cases "replay_check sha256 p f1")
  have "(rb = None) = fst (auto_check ?ws ?g (snd (auto_check ?ws ?g (rp_backward r))))
      \<and> windows f2 = windows f1 \<and> ci_relayReceive f2 = ci_relayReceive f1"
    using replay_check_backward [OF _ assms(9) rb] f1(1) r1(1) by (auto simp: rp_set_dir_def)
  then have "rb \<noteq> None" "windows f2 = windows c1" "ci_relayReceive f2 = ci_relayReceive c1"
    using auto_guard.immediate_replay_refused [OF assms(2) auto_ok_step [OF assms(2,3)]] f1 by simp_all
  then show ?thesis
    using DeliverRelayCell_replay [OF _ f rb assms(10)] assms(5) r1(2) by (auto split: option.splits)
qed

lemma immediate_replay_refused_by_circuit_example:
  "\<exists>re. fst (DeliverRelayCell (\<lambda>x. x) (\<lambda>x. x) 2 \<lparr>CircID = 1, Command = CmdRelay, Payload = zeros 11\<rparr>
      (snd (snd (DeliverRelayCell (\<lambda>x. x) (\<lambda>x. x) 1 \<lparr>CircID = 1, Command = CmdRelay, Payload = zeros 11\<rparr>
        (NewCircuit 0 1 :: unit Circuit))))) = Some (ReplayDetected re)"
proof -
  let ?x = "\<lparr>CircID = 1, Command = CmdRelay, Payload = zeros 11\<rparr> :: cell" and ?c = "NewCircuit 0 1 :: unit Circuit"
  obtain e1 s1 c1 where one: "DeliverRelayCell (\<lambda>x. x) (\<lambda>x. x) 1 ?x ?c = (e1, s1, c1)"
    by (cases "DeliverRelayCell (\<lambda>x. x) (\<lambda>x. x) 1 ?x ?c")
  obtain e2 s2 c2 where two: "DeliverRelayCell (\<lambda>x. x) (\<lambda>x. x) 2 ?x c1 = (e2, s2, c2)"
    by (cases "DeliverRelayCell (\<lambda>x. x) (\<lambda>x. x) 2 ?x c1")
  have "ci_Hops c1 = []"
    using one by (auto simp: DeliverRelayCell_def NewCircuit_def decryptBackward_def replay_check_def
        verifyRelayCellDigest_def split: option.splits prod.splits)
  then have dec: "fst (decryptBackward (Payload ?x) ?c) = zeros 11" "fst (decryptBackward (Payload ?x) c1) = zeros 11"
    by (simp_all add: decryptBackward_def NewCircuit_def)
  have new: "ci_replay ?c = Some (NewReplayProtectionWithWindow 32)" "CircID ?x = ci_ID ?c"
    by (simp_all add: NewCircuit_def NewReplayProtection_def DefaultWindowSize_def)
  have ws: "rp_windowSize (NewReplayProtectionWithWindow 32) = 32" "rp_backward (NewReplayProtectionWithWindow 32) = new_replay_dir"
    by (simp_all add: NewReplayProtectionWithWindow_def)
  have "auto_ok 32 new_replay_dir"
    by (rule auto_ok_new) simp
  then show ?thesis
    using immediate_replay_refused_by_circuit [OF new(1) _ _ new(2,2) one dec _ two] one two
    by (simp add: ws) (simp add: new_replay_dir_def)
qed

end
