(* ===== verification/Dns.thy ===== *)
theory Dns
  imports CircuitFlow
begin

section \<open>pkg/circuit/dns.go: name resolution through a circuit\<close>

text \<open>
  ResolveHostname and ResolveIP over SendRelayCell and ReceiveRelayCell, and the parser of
  RELAY_RESOLVED. A net.IP is its byte slice (None: nil); To4 and To16 are written out as the
  standard library defines them. The parser's loop works on data from the offset on.
\<close>

abbreviation DNSTypeHostname :: byte where "DNSTypeHostname \<equiv> 0"
abbreviation DNSTypeIPv4 :: byte where "DNSTypeIPv4 \<equiv> 4"
abbreviation DNSTypeIPv6 :: byte where "DNSTypeIPv6 \<equiv> 6"
abbreviation DNSTypeError :: byte where "DNSTypeError \<equiv> 240"
abbreviation DNSTypeErrorTTL :: byte where "DNSTypeErrorTTL \<equiv> 241"

record DNSResult =
  dr_Type :: byte
  dr_TTL :: u32
  dr_Addresses :: "bytes list"
  dr_Hostname :: bytes
  dr_Error :: byte

datatype dns_error =
    EmptyResolved | IncompleteRecord | BadIPv4Length nat | BadIPv6Length nat | BadErrorLength nat | NoValidRecords
  | EmptyHostname | NilIP | InvalidIP | ResolveSend circuit_error | ResolveReceive circuit_error
  | NotResolved byte | ParseFailed dns_error | ResolutionFailed byte

definition empty_result :: DNSResult where
  "empty_result = \<lparr>dr_Type = 0, dr_TTL = 0, dr_Addresses = [], dr_Hostname = [], dr_Error = 0\<rparr>"

definition v4_prefix :: bytes where
  "v4_prefix = zeros 10 @ [255, 255]"

text \<open>net.IPv4 makes the 16-byte form.\<close>

definition net_IPv4 :: "bytes \<Rightarrow> bytes" where
  "net_IPv4 value = v4_prefix @ value"

definition To4 :: "bytes \<Rightarrow> bytes option" where
  "To4 ip = (if length ip = 4 then Some ip
             else if length ip = 16 \<and> take 12 ip = v4_prefix then Some (drop 12 ip) else None)"

definition To16 :: "bytes \<Rightarrow> bytes option" where
  "To16 ip = (if length ip = 4 then Some (net_IPv4 ip) else if length ip = 16 then Some ip else None)"

definition strip_nul :: "bytes \<Rightarrow> bytes" where
  "strip_nul value = (if length value > 0 \<and> last value = 0 then butlast value else value)"

text \<open>The switch of the parser; None is an unknown type, which is skipped.\<close>

definition resolved_record :: "byte \<Rightarrow> bytes \<Rightarrow> u32 \<Rightarrow> (dns_error + DNSResult) option" where
  "resolved_record recordType value ttl =
     (if recordType = DNSTypeHostname
      then Some (Inr (empty_result\<lparr>dr_Type := DNSTypeHostname, dr_Hostname := strip_nul value, dr_TTL := ttl\<rparr>))
      else if recordType = DNSTypeIPv4
      then (if length value \<noteq> 4 then Some (Inl (BadIPv4Length (length value)))
            else Some (Inr (empty_result\<lparr>dr_Type := DNSTypeIPv4, dr_Addresses := [net_IPv4 value], dr_TTL := ttl\<rparr>)))
      else if recordType = DNSTypeIPv6
      then (if length value \<noteq> 16 then Some (Inl (BadIPv6Length (length value)))
            else Some (Inr (empty_result\<lparr>dr_Type := DNSTypeIPv6, dr_Addresses := [go_copy (zeros 16) value], dr_TTL := ttl\<rparr>)))
      else if recordType = DNSTypeError \<or> recordType = DNSTypeErrorTTL
      then (if length value < 1 then Some (Inl (BadErrorLength (length value)))
            else Some (Inr (empty_result\<lparr>dr_Type := recordType, dr_Error := value ! 0, dr_TTL := ttl\<rparr>)))
      else None)"

fun parse_records :: "bytes \<Rightarrow> dns_error + DNSResult" where
  "parse_records (recordType # len # rest) =
     (let length1 = unat len in
      if length1 + 4 > length rest then Inl IncompleteRecord
      else case resolved_record recordType (take length1 rest) (u32_at (drop length1 rest) 0) of
             Some r \<Rightarrow> r
           | None \<Rightarrow> parse_records (drop (length1 + 4) rest))"
| "parse_records _ = Inl NoValidRecords"

definition parseResolvedCell :: "bytes \<Rightarrow> dns_error + DNSResult" where
  "parseResolvedCell data = (if length data = 0 then Inl EmptyResolved else parse_records data)"

text \<open>
  Both queries send a RESOLVE cell on stream 0 and take the next relay cell of the circuit;
  \<open>env\<close> and \<open>ready\<close> are as for OpenStream. On a reported failure the code returns the
  result together with the error; the model keeps the error.
\<close>

definition resolve_exchange ::
  "(bytes \<Rightarrow> bytes) \<Rightarrow> ('conn \<Rightarrow> (cell \<Rightarrow> bool \<times> 'conn) option) \<Rightarrow> time \<Rightarrow> ('conn Circuit \<Rightarrow> 'conn Circuit)
     \<Rightarrow> bool \<Rightarrow> bytes \<Rightarrow> 'conn Circuit \<Rightarrow> (dns_error + DNSResult) \<times> 'conn Circuit" where
  "resolve_exchange sha1 sendCell now env ready payload c =
     (case SendRelayCell sha1 sendCell now (NewRelayCell 0 RelayResolve payload) c of
        (Some e, c1) \<Rightarrow> (Inl (ResolveSend e), c1)
      | (None, c1) \<Rightarrow>
     (case ReceiveRelayCell ready (env c1) of
        (Inl e, c2) \<Rightarrow> (Inl (ResolveReceive e), c2)
      | (Inr rc, c2) \<Rightarrow>
          if rc_Command rc \<noteq> RelayResolved then (Inl (NotResolved (rc_Command rc)), c2)
          else (case parseResolvedCell (rc_Data rc) of
                  Inl e \<Rightarrow> (Inl (ParseFailed e), c2)
                | Inr r \<Rightarrow>
                    if dr_Type r = DNSTypeError \<or> dr_Type r = DNSTypeErrorTTL
                    then (Inl (ResolutionFailed (dr_Error r)), c2)
                    else (Inr r, c2))))"

definition ResolveHostname ::
  "(bytes \<Rightarrow> bytes) \<Rightarrow> ('conn \<Rightarrow> (cell \<Rightarrow> bool \<times> 'conn) option) \<Rightarrow> time \<Rightarrow> ('conn Circuit \<Rightarrow> 'conn Circuit)
     \<Rightarrow> bool \<Rightarrow> string \<Rightarrow> 'conn Circuit \<Rightarrow> (dns_error + DNSResult) \<times> 'conn Circuit" where
  "ResolveHostname sha1 sendCell now env ready hostname c =
     (if hostname = '''' then (Inl EmptyHostname, c)
      else resolve_exchange sha1 sendCell now env ready (bytes_of_string hostname @ [0]) c)"

definition ptr_payload :: "bytes \<Rightarrow> bytes option" where
  "ptr_payload ip =
     (case To4 ip of
        Some v4 \<Rightarrow> Some ([DNSTypeIPv4, 4] @ go_copy (zeros 4) v4)
      | None \<Rightarrow>
          (case To16 ip of
             Some v6 \<Rightarrow> Some ([DNSTypeIPv6, 16] @ go_copy (zeros 16) v6)
           | None \<Rightarrow> None))"

definition ResolveIP ::
  "(bytes \<Rightarrow> bytes) \<Rightarrow> ('conn \<Rightarrow> (cell \<Rightarrow> bool \<times> 'conn) option) \<Rightarrow> time \<Rightarrow> ('conn Circuit \<Rightarrow> 'conn Circuit)
     \<Rightarrow> bool \<Rightarrow> bytes option \<Rightarrow> 'conn Circuit \<Rightarrow> (dns_error + DNSResult) \<times> 'conn Circuit" where
  "ResolveIP sha1 sendCell now env ready ipAddr c =
     (case ipAddr of
        None \<Rightarrow> (Inl NilIP, c)
      | Some ip \<Rightarrow>
          (case ptr_payload ip of
             None \<Rightarrow> (Inl InvalidIP, c)
           | Some payload \<Rightarrow> resolve_exchange sha1 sendCell now env ready payload c))"

subsection \<open>The parser\<close>

text \<open>What an exit puts on the wire: type, length, value, TTL.\<close>

definition enc_record :: "byte \<times> bytes \<times> u32 \<Rightarrow> bytes" where
  "enc_record x = (case x of (t, value, ttl) \<Rightarrow> [t, of_nat (length value)] @ value @ be32 ttl)"

lemma parse_records_record:
  assumes "length value < 256"
  shows "parse_records (enc_record (t, value, ttl) @ rest) =
    (case resolved_record t value ttl of Some r \<Rightarrow> r | None \<Rightarrow> parse_records rest)"
proof -
  have "unat (of_nat (length value) :: byte) = length value"
    unfolding unat_of_nat by (rule mod_less) (use assms in simp)
  then show ?thesis
    by (simp add: enc_record_def Let_def codec_simps split: option.splits)
qed

lemma parse_records_list:
  assumes "\<forall>(t, value, ttl)\<in>set xs. length value < 256"
  shows "parse_records (concat (map enc_record xs)) =
    (case List.map_filter (\<lambda>(t, value, ttl). resolved_record t value ttl) xs of
       [] \<Rightarrow> Inl NoValidRecords | r # _ \<Rightarrow> r)"
  using assms
proof (induction xs)
  case Nil
  then show ?case by (simp add: map_filter_simps)
next
  case (Cons x xs)
  obtain t v ttl where x: "x = (t, v, ttl)"
    by (cases x)
  with Cons show ?case
    by (cases "resolved_record t v ttl") (simp_all add: parse_records_record map_filter_simps)
qed

text \<open>
  The parser of RELAY_RESOLVED: on the records an exit sends it answers by the first
  record whose type it knows, skipping unknown types of any length, and the TTL, the
  address, the host name without its NUL, or the error code are those of that record; with
  only unknown types it fails.
\<close>

lemma resolved_first_known:
  assumes "\<forall>(t, value, ttl)\<in>set xs. length value < 256" and "xs \<noteq> []"
  shows "parseResolvedCell (concat (map enc_record xs)) =
    (case List.map_filter (\<lambda>(t, value, ttl). resolved_record t value ttl) xs of
       [] \<Rightarrow> Inl NoValidRecords | r # _ \<Rightarrow> r)"
proof -
  have "length (concat (map enc_record xs)) \<noteq> 0"
    using assms(2) by (cases xs) (auto simp: enc_record_def split: prod.splits)
  with parse_records_list [OF assms(1)] show ?thesis
    unfolding parseResolvedCell_def by (simp only: if_False)
qed

lemma resolved_first_known_example:
  "parseResolvedCell (concat (map enc_record [(9, [1, 2, 3], 60), (4, [10, 0, 0, 1], 300), (0, [97, 0], 5)])) =
    Inr \<lparr>dr_Type = 4, dr_TTL = 300, dr_Addresses = [zeros 10 @ [255, 255, 10, 0, 0, 1]], dr_Hostname = [], dr_Error = 0\<rparr>"
  using resolved_first_known [of "[(9, [1, 2, 3], 60), (4, [10, 0, 0, 1], 300), (0, [97, 0], 5)]"]
  by (simp add: map_filter_simps resolved_record_def empty_result_def net_IPv4_def v4_prefix_def)

text \<open>The PTR query of an address carries it back: what is sent identifies the address.\<close>

lemma ptr_payload_address:
  assumes "ptr_payload ip = Some p"
  shows "drop 2 p = (case To4 ip of Some v4 \<Rightarrow> v4 | None \<Rightarrow> ip) \<and> unat (p ! 1) = length (drop 2 p)"
  using assms by (auto simp: ptr_payload_def To4_def To16_def go_copy_same split: if_splits)

end
