(* ===== verification/Extension.thy ===== *)
theory Extension
  imports RelayCell Crypto
begin

section \<open>pkg/circuit/extension.go: circuit extension handshakes\<close>

text \<open>
  The Extension object: the target relay whose keys are used, and what it remembers of a
  handshake until the answer arrives. rand.Read is the parameter \<open>rnd\<close> (None: it failed),
  the curve and HKDF are those of \<open>ntor_primitives\<close>. The circuit pointer is only read for
  its ID. CreateFirstHop and ExtendCircuit build their cell and drop it; it is a result of
  the model so that its contents can be stated.
\<close>

definition HandshakeTypeNTor :: u16 where
  "HandshakeTypeNTor = 2"

definition HandshakeTypeTAP :: u16 where
  "HandshakeTypeTAP = 0"

text \<open>
  The dynamic type of the interface{} the target relay is stored in: nil, the anonymous
  struct with the two keys, a type with the two getters, anything else.
\<close>

datatype target_relay =
    NoTarget
  | RelayStruct bytes bytes
  | RelayMethods bytes bytes
  | OtherTarget

record Extension =
  ex_circuit :: u32
  ex_targetRelay :: target_relay
  ex_ephemeralPrivate :: "bytes option"
  ex_serverIdentity :: "bytes option"
  ex_serverNtorKey :: "bytes option"

datatype ext_error =
    NoTargetRelay
  | BadIdentityKey nat
  | BadNtorKey nat
  | TargetWithoutKeys
  | RandomFailed
  | UnsupportedHandshake u16
  | HandshakeTooLarge
  | UnexpectedCommand
  | ResponseTooShort
  | ResponseIncomplete
  | HandshakeNotInitiated
  | HandshakeVerification crypto_error
  | InsufficientKeyMaterial nat
  | SliceOutOfRange

definition NewExtension :: "u32 \<Rightarrow> Extension" where
  "NewExtension circuit =
     \<lparr>ex_circuit = circuit, ex_targetRelay = NoTarget, ex_ephemeralPrivate = None,
      ex_serverIdentity = None, ex_serverNtorKey = None\<rparr>"

definition SetTargetRelay :: "target_relay \<Rightarrow> Extension \<Rightarrow> Extension" where
  "SetTargetRelay relay e = e\<lparr>ex_targetRelay := relay\<rparr>"

definition getRelayKeys :: "Extension \<Rightarrow> ext_error + bytes \<times> bytes" where
  "getRelayKeys e =
     (case ex_targetRelay e of
        NoTarget \<Rightarrow> Inl NoTargetRelay
      | RelayStruct identityKey ntorKey \<Rightarrow>
          (if length identityKey \<noteq> 32 then Inl (BadIdentityKey (length identityKey))
           else if length ntorKey \<noteq> 32 then Inl (BadNtorKey (length ntorKey))
           else Inr (identityKey, ntorKey))
      | RelayMethods identityKey ntorKey \<Rightarrow>
          (if length identityKey \<noteq> 32 then Inl (BadIdentityKey (length identityKey))
           else if length ntorKey \<noteq> 32 then Inl (BadNtorKey (length ntorKey))
           else Inr (identityKey, ntorKey))
      | OtherTarget \<Rightarrow> Inl TargetWithoutKeys)"

definition generateHandshakeData ::
  "ntor_primitives \<Rightarrow> (nat \<Rightarrow> bytes option) \<Rightarrow> u16 \<Rightarrow> Extension \<Rightarrow> (ext_error + bytes) \<times> Extension" where
  "generateHandshakeData np rnd handshakeType e =
     (if handshakeType = HandshakeTypeNTor then
        (let (relayIdentity, relayNtorKey) =
               (case getRelayKeys e of Inl _ \<Rightarrow> (zeros 32, zeros 32) | Inr keys \<Rightarrow> keys);
             e1 = e\<lparr>ex_serverIdentity := Some (go_copy (zeros 32) relayIdentity),
                    ex_serverNtorKey := Some (go_copy (zeros 32) relayNtorKey)\<rparr>
         in case rnd 32 of
              None \<Rightarrow> (Inl RandomFailed, e1)
            | Some random \<Rightarrow>
                let ephemeral = GenerateNtorKeyPair (np_base np) random;
                    e2 = e1\<lparr>ex_ephemeralPrivate := Some (go_copy (zeros 32) (kp_Private ephemeral))\<rparr>;
                    handshakeData = go_copy (zeros 20) (take 20 relayIdentity)
                      @ go_copy (zeros 32) relayNtorKey @ go_copy (zeros 32) (kp_Public ephemeral)
                in (Inr handshakeData, e2))
      else if handshakeType = HandshakeTypeTAP then
        (case rnd 144 of
           None \<Rightarrow> (Inl RandomFailed, e)
         | Some random \<Rightarrow> (Inr (go_copy (zeros 144) random), e))
      else (Inl (UnsupportedHandshake handshakeType), e))"

definition CreateFirstHop ::
  "ntor_primitives \<Rightarrow> (nat \<Rightarrow> bytes option) \<Rightarrow> u16 \<Rightarrow> Extension \<Rightarrow> (ext_error + cell) \<times> Extension" where
  "CreateFirstHop np rnd handshakeType e =
     (case generateHandshakeData np rnd handshakeType e of
        (Inl err, e1) \<Rightarrow> (Inl err, e1)
      | (Inr handshakeData, e1) \<Rightarrow>
          (case SafeLenToUint16 handshakeData of
             Inl _ \<Rightarrow> (Inl HandshakeTooLarge, e1)
           | Inr hlen \<Rightarrow>
               (Inr \<lparr>CircID = ex_circuit e1, Command = CmdCreate2,
                     Payload = be16 handshakeType @ be16 hlen @ handshakeData\<rparr>, e1)))"

definition buildExtend2Data :: "u16 \<Rightarrow> bytes \<Rightarrow> bytes option" where
  "buildExtend2Data handshakeType handshakeData =
     (case SafeLenToUint16 handshakeData of
        Inl _ \<Rightarrow> None
      | Inr hlen \<Rightarrow> Some ([1] @ [0] @ [6] @ [127, 0, 0, 1] @ [0, 0]
                           @ be16 handshakeType @ be16 hlen @ handshakeData))"

definition ExtendCircuit ::
  "ntor_primitives \<Rightarrow> (nat \<Rightarrow> bytes option) \<Rightarrow> u16 \<Rightarrow> Extension \<Rightarrow> (ext_error + relay_cell) \<times> Extension" where
  "ExtendCircuit np rnd handshakeType e =
     (case generateHandshakeData np rnd handshakeType e of
        (Inl err, e1) \<Rightarrow> (Inl err, e1)
      | (Inr handshakeData, e1) \<Rightarrow>
          (Inr \<lparr>rc_Command = RelayExtend2, rc_Recognized = 0, rc_StreamID = 0,
                rc_Digest = zeros 4, rc_Length = 0,
                rc_Data = (case buildExtend2Data handshakeType handshakeData of None \<Rightarrow> [] | Some d \<Rightarrow> d)\<rparr>, e1))"

text \<open>
  ProcessCreated2 and ProcessExtended2 differ in where the payload comes from. The bound
  check adds in uint16; a slice whose bounds cross is a run-time panic.
\<close>

definition process_handshake_reply ::
  "ntor_primitives \<Rightarrow> bytes \<Rightarrow> Extension \<Rightarrow> ext_error option \<times> Extension" where
  "process_handshake_reply np payload e =
     (if length payload < 2 then (Some ResponseTooShort, e)
      else let hlen = u16_at payload 0 in
      if length payload < unat (2 + hlen) then (Some ResponseIncomplete, e)
      else case go_slice payload 2 (unat (2 + hlen)) of
        None \<Rightarrow> (Some SliceOutOfRange, e)
      | Some handshakeResponse \<Rightarrow>
          (case ex_ephemeralPrivate e of
             None \<Rightarrow> (Some HandshakeNotInitiated, e)
           | Some private \<Rightarrow>
               (case NtorProcessResponse np handshakeResponse private
                       (case ex_serverNtorKey e of None \<Rightarrow> [] | Some k \<Rightarrow> k)
                       (case ex_serverIdentity e of None \<Rightarrow> [] | Some k \<Rightarrow> k) of
                  Inl err \<Rightarrow> (Some (HandshakeVerification err), e)
                | Inr keyMaterial \<Rightarrow>
                    if length keyMaterial < 72 then (Some (InsufficientKeyMaterial (length keyMaterial)), e)
                    else (None, e\<lparr>ex_ephemeralPrivate := None\<rparr>))))"

definition ProcessCreated2 :: "ntor_primitives \<Rightarrow> cell \<Rightarrow> Extension \<Rightarrow> ext_error option \<times> Extension" where
  "ProcessCreated2 np created2Cell e =
     (if Command created2Cell \<noteq> CmdCreated2 then (Some UnexpectedCommand, e)
      else process_handshake_reply np (Payload created2Cell) e)"

definition ProcessExtended2 :: "ntor_primitives \<Rightarrow> relay_cell \<Rightarrow> Extension \<Rightarrow> ext_error option \<times> Extension" where
  "ProcessExtended2 np extended2Cell e =
     (if rc_Command extended2Cell \<noteq> RelayExtended2 then (Some UnexpectedCommand, e)
      else process_handshake_reply np (rc_Data extended2Cell) e)"

definition DeriveKeys :: "(bytes \<Rightarrow> bytes) \<Rightarrow> bytes \<Rightarrow> (crypto_error + bytes \<times> bytes) option" where
  "DeriveKeys sha1 sharedSecret =
     (case DeriveKey sha1 sharedSecret 72 of
        None \<Rightarrow> None
      | Some (Inl e) \<Rightarrow> Some (Inl e)
      | Some (Inr km) \<Rightarrow>
          (case (go_slice km 40 56, go_slice km 56 72) of
             (Some forwardKey, Some backwardKey) \<Rightarrow> Some (Inr (forwardKey, backwardKey))
           | _ \<Rightarrow> Some (Inl SlicePanic)))"

subsection \<open>The object's invariant\<close>

text \<open>A pending handshake has 32-byte server keys.\<close>

definition ext_ok :: "Extension \<Rightarrow> bool" where
  "ext_ok e \<longleftrightarrow>
     (case ex_ephemeralPrivate e of
        None \<Rightarrow> True
      | Some x \<Rightarrow> length x = 32 \<and>
          (\<exists>ident B. ex_serverIdentity e = Some ident \<and> length ident = 32
             \<and> ex_serverNtorKey e = Some B \<and> length B = 32))"

lemma ext_ok_new [inv_intros]: "ext_ok (NewExtension c)"
  by (simp add: ext_ok_def NewExtension_def)

lemma ext_ok_target [inv_intros]: "ext_ok e \<Longrightarrow> ext_ok (SetTargetRelay r e)"
  by (simp add: ext_ok_def SetTargetRelay_def split: option.splits)

lemma ext_ok_generate [inv_intros]:
  "ext_ok e \<Longrightarrow> ext_ok (snd (generateHandshakeData np rnd t e))"
  by (auto simp: ext_ok_def generateHandshakeData_def Let_def split: option.splits sum.splits prod.splits)

lemma ext_ok_create [inv_intros]: "ext_ok e \<Longrightarrow> ext_ok (snd (CreateFirstHop np rnd t e))"
  using ext_ok_generate [of e np rnd t] by (auto simp: CreateFirstHop_def split: sum.splits prod.splits)

lemma ext_ok_extend [inv_intros]: "ext_ok e \<Longrightarrow> ext_ok (snd (ExtendCircuit np rnd t e))"
  using ext_ok_generate [of e np rnd t] by (auto simp: ExtendCircuit_def split: sum.splits prod.splits)

lemma ext_ok_process [inv_intros]: "ext_ok e \<Longrightarrow> ext_ok (snd (process_handshake_reply np p e))"
  by (auto simp: process_handshake_reply_def Let_def ext_ok_def split: option.splits sum.splits if_splits)

datatype ext_op =
    OpTarget target_relay
  | OpCreate "nat \<Rightarrow> bytes option" u16
  | OpExtend "nat \<Rightarrow> bytes option" u16
  | OpCreated2 cell
  | OpExtended2 relay_cell

definition ext_step :: "ntor_primitives \<Rightarrow> ext_op \<Rightarrow> Extension \<Rightarrow> Extension" where
  "ext_step np op e =
     (case op of
        OpTarget r \<Rightarrow> SetTargetRelay r e
      | OpCreate rnd t \<Rightarrow> snd (CreateFirstHop np rnd t e)
      | OpExtend rnd t \<Rightarrow> snd (ExtendCircuit np rnd t e)
      | OpCreated2 c \<Rightarrow> snd (ProcessCreated2 np c e)
      | OpExtended2 c \<Rightarrow> snd (ProcessExtended2 np c e))"

interpretation ext_sys: op_system "ext_step np" ext_ok for np
  by unfold_locales (auto simp: ext_step_def ProcessCreated2_def ProcessExtended2_def split: ext_op.splits intro: inv_intros)

subsection \<open>What the handshake promises\<close>

lemma unat_two_plus: "unat (2 + h :: u16) = (if unat h < 65534 then unat h + 2 else unat h - 65534)"
  using unat_u16_less [of h] by (simp add: unat_word_ariths(1) mod_if)

lemma process_handshake_panic:
  "fst (process_handshake_reply np p e) = Some SliceOutOfRange \<longleftrightarrow> 2 \<le> length p \<and> 65534 \<le> unat (u16_at p 0)"
  using unat_u16_less [of "u16_at p 0"]
  by (auto simp: process_handshake_reply_def Let_def go_slice_def unat_two_plus split: option.splits sum.splits if_splits)

text \<open>
  On a slice of untrusted bytes the reply parser panics exactly for a length field of
  0xfffe or 0xffff, because 2 + hlen is computed in uint16: a peer that sends CREATED2 (or
  EXTENDED2) with such a length stops the process.
\<close>

lemma created2_length_wraps:
  "(fst (ProcessCreated2 np c e) = Some SliceOutOfRange) =
     (Command c = CmdCreated2 \<and> 2 \<le> length (Payload c) \<and> 65534 \<le> unat (u16_at (Payload c) 0))"
  by (auto simp: ProcessCreated2_def process_handshake_panic)

text \<open>Below that bound the parser reads exactly the announced bytes.\<close>

lemma process_handshake_hlen:
  assumes "unat (u16_at p 0) < 65534" and "2 \<le> length p"
  shows "process_handshake_reply np p e =
    (if length p < unat (u16_at p 0) + 2 then (Some ResponseIncomplete, e)
     else case ex_ephemeralPrivate e of
        None \<Rightarrow> (Some HandshakeNotInitiated, e)
      | Some private \<Rightarrow>
          (case NtorProcessResponse np (take (unat (u16_at p 0)) (drop 2 p)) private
                  (case ex_serverNtorKey e of None \<Rightarrow> [] | Some k \<Rightarrow> k)
                  (case ex_serverIdentity e of None \<Rightarrow> [] | Some k \<Rightarrow> k) of
             Inl err \<Rightarrow> (Some (HandshakeVerification err), e)
           | Inr keyMaterial \<Rightarrow>
               if length keyMaterial < 72 then (Some (InsufficientKeyMaterial (length keyMaterial)), e)
               else (None, e\<lparr>ex_ephemeralPrivate := None\<rparr>)))"
  using assms by (auto simp: process_handshake_reply_def Let_def go_slice_def unat_two_plus)

lemma process_handshake_success:
  assumes "process_handshake_reply np p e = (None, e')"
  shows "e' = e\<lparr>ex_ephemeralPrivate := None\<rparr> \<and> ex_ephemeralPrivate e \<noteq> None"
  using assms by (auto simp: process_handshake_reply_def Let_def split: option.splits sum.splits if_splits)

text \<open>
  A pending handshake is used once. After a reply has been accepted, by either
  handler, no reply is accepted until a new handshake has been generated.
\<close>

lemma handshake_single_use:
  assumes "ProcessCreated2 np c e = (None, e') \<or> ProcessExtended2 np x e = (None, e')"
  shows "fst (ProcessCreated2 np c' e') \<noteq> None \<and> fst (ProcessExtended2 np x' e') \<noteq> None
    \<and> snd (ProcessCreated2 np c' e') = e' \<and> snd (ProcessExtended2 np x' e') = e'"
proof -
  have none: "ex_ephemeralPrivate e' = None"
    using assms by (auto simp: ProcessCreated2_def ProcessExtended2_def dest!: process_handshake_success split: if_splits)
  have "fst (process_handshake_reply np p e') \<noteq> None \<and> snd (process_handshake_reply np p e') = e'" for p
    using none process_handshake_success [of np p e']
    by (auto simp: process_handshake_reply_def Let_def split: option.splits)
  then show ?thesis
    by (auto simp: ProcessCreated2_def ProcessExtended2_def)
qed

definition ntor_const :: ntor_primitives where
  "ntor_const = \<lparr>np_base = (\<lambda>_. zeros 32), np_mult = (\<lambda>_ _. zeros 32), np_hkdf = (\<lambda>_ _ n. zeros n)\<rparr>"

definition pending_ext :: Extension where
  "pending_ext = (NewExtension 7)\<lparr>ex_ephemeralPrivate := Some (zeros 32),
     ex_serverIdentity := Some (zeros 32), ex_serverNtorKey := Some (zeros 32)\<rparr>"

definition created2_reply :: cell where
  "created2_reply = \<lparr>CircID = 7, Command = CmdCreated2, Payload = be16 64 @ zeros 64 @ zeros 443\<rparr>"

lemma created2_reply_accepted:
  "ProcessCreated2 ntor_const created2_reply pending_ext = (None, pending_ext\<lparr>ex_ephemeralPrivate := None\<rparr>)"
  by (simp add: ProcessCreated2_def created2_reply_def process_handshake_hlen codec_simps)
     (simp add: pending_ext_def NewExtension_def NtorProcessResponse_def Let_def go_copy_same go_slice_def ntor_const_def codec_simps)

lemma handshake_single_use_example:
  "fst (ProcessCreated2 ntor_const created2_reply (pending_ext\<lparr>ex_ephemeralPrivate := None\<rparr>)) \<noteq> None"
  using handshake_single_use [OF disjI1 [OF created2_reply_accepted]] by blast

lemma ntor_response_Inr:
  assumes "length x = 32" and "length B = 32" and "length ident = 32"
    and "\<forall>s i n. length (np_hkdf np s i n) = n" and "length Y = 32"
  shows "NtorProcessResponse np (Y @ np_hkdf np (ntor_secret_input np Y x B ident) ntor_verify 32) x B ident
    = Inr (np_hkdf np (ntor_secret_input np Y x B ident) ntor_key_extract 72)"
  using assms by (simp add: NtorProcessResponse_def Let_def go_copy_same go_slice_def ntor_secret_input_def)

text \<open>
  C35: Completeness of the handshake. After CreateFirstHop for a relay with valid keys and
  working randomness, the CREATED2 reply of a server that computes the same secret input
  is accepted, whatever padding follows it, and consumes the handshake.
\<close>

theorem ntor_handshake_completes:
  assumes "\<forall>s i n. length (np_hkdf np s i n) = n" and "length Y = 32"
    and "length ident = 32" and "length B = 32" and "rnd 32 = Some x" and "length x = 32"
    and "CreateFirstHop np rnd HandshakeTypeNTor (SetTargetRelay (RelayStruct ident B) e) = (Inr c, e1)"
    and "Command reply = CmdCreated2"
    and "Payload reply = be16 64 @ Y @ np_hkdf np (ntor_secret_input np Y x B ident) ntor_verify 32 @ padding"
  shows "ProcessCreated2 np reply e1 = (None, e1\<lparr>ex_ephemeralPrivate := None\<rparr>)"
proof -
  have e1: "ex_ephemeralPrivate e1 = Some x" "ex_serverNtorKey e1 = Some B" "ex_serverIdentity e1 = Some ident"
    using assms(3-7)
    by (auto simp: CreateFirstHop_def generateHandshakeData_def getRelayKeys_def SetTargetRelay_def
        GenerateNtorKeyPair_def go_copy_same Let_def split: sum.splits)
  have hl: "u16_at (Payload reply) 0 = 64"
    by (simp add: assms(9) codec_simps)
  have resp: "take 64 (drop 2 (Payload reply)) = Y @ np_hkdf np (ntor_secret_input np Y x B ident) ntor_verify 32"
    using assms(1,2,9) by simp
  have len: "66 \<le> length (Payload reply)"
    using assms(1,2,9) by simp
  have "process_handshake_reply np (Payload reply) e1 = (None, e1\<lparr>ex_ephemeralPrivate := None\<rparr>)"
    using len assms(1) by (simp add: process_handshake_hlen hl resp e1 ntor_response_Inr [OF assms(6,4,3,1,2)])
  with assms(8) show ?thesis
    by (simp add: ProcessCreated2_def)
qed

theorem ntor_handshake_completes_witness:
  "ProcessCreated2 ntor_const created2_reply
      (snd (CreateFirstHop ntor_const (\<lambda>n. Some (zeros n)) HandshakeTypeNTor
        (SetTargetRelay (RelayStruct (zeros 32) (zeros 32)) (NewExtension 7))))
    = (None, (snd (CreateFirstHop ntor_const (\<lambda>n. Some (zeros n)) HandshakeTypeNTor
        (SetTargetRelay (RelayStruct (zeros 32) (zeros 32)) (NewExtension 7))))\<lparr>ex_ephemeralPrivate := None\<rparr>)"
  by (rule ntor_handshake_completes [where Y = "zeros 32" and ident = "zeros 32" and B = "zeros 32" and x = "zeros 32"
        and rnd = "\<lambda>n. Some (zeros n)" and e = "NewExtension 7" and padding = "zeros 443"
        and c = "\<lparr>CircID = 7, Command = CmdCreate2, Payload = be16 2 @ be16 84 @ zeros 84\<rparr>"])
     (simp_all add: ntor_const_def created2_reply_def CreateFirstHop_def generateHandshakeData_def
       SetTargetRelay_def NewExtension_def getRelayKeys_def GenerateNtorKeyPair_def Let_def go_copy_same
       len16_Inr HandshakeTypeNTor_def flip: replicate_add)

lemma generateHandshakeData_length:
  "generateHandshakeData np rnd t e = (Inr hs, e1) \<Longrightarrow>
     (t = HandshakeTypeNTor \<and> length hs = 84) \<or> (t = HandshakeTypeTAP \<and> length hs = 144)"
  by (auto simp: generateHandshakeData_def Let_def split: option.splits sum.splits prod.splits if_splits)

text \<open>
  The CREATE2 cell of CreateFirstHop announces its own handshake data: HTYPE, then
  the length 84 (ntor) or 144 (TAP), then that many bytes; it fits a fixed-size cell.
\<close>

lemma create2_payload_layout:
  assumes "CreateFirstHop np rnd t e = (Inr c, e1)"
  shows "\<exists>hs. Payload c = be16 t @ be16 (of_nat (length hs)) @ hs
    \<and> length hs = (if t = HandshakeTypeNTor then 84 else 144) \<and> (t = HandshakeTypeNTor \<or> t = HandshakeTypeTAP)
    \<and> Command c = CmdCreate2 \<and> CircID c = ex_circuit e \<and> length (Payload c) \<le> PayloadLen"
proof -
  from assms obtain hs where gen: "generateHandshakeData np rnd t e = (Inr hs, e1)"
    by (auto simp: CreateFirstHop_def split: sum.splits prod.splits)
  have len: "(t = HandshakeTypeNTor \<and> length hs = 84) \<or> (t = HandshakeTypeTAP \<and> length hs = 144)"
    by (rule generateHandshakeData_length [OF gen])
  have "ex_circuit e1 = ex_circuit e"
    using gen by (auto simp: generateHandshakeData_def Let_def split: option.splits sum.splits prod.splits if_splits)
  with assms gen len show ?thesis
    by (intro exI [of _ hs]) (auto simp: CreateFirstHop_def len16_Inr HandshakeTypeNTor_def HandshakeTypeTAP_def)
qed

lemma create2_payload_layout_example:
  "\<exists>hs. be16 2 @ be16 84 @ zeros 84 = be16 2 @ be16 (of_nat (length hs)) @ (hs :: bytes) \<and> length hs = 84"
  using create2_payload_layout [of ntor_const "\<lambda>n. Some (zeros n)" 2 "NewExtension 7"
      "\<lparr>CircID = 7, Command = CmdCreate2, Payload = be16 2 @ be16 84 @ zeros 84\<rparr>"
      "pending_ext"]
  by (simp add: CreateFirstHop_def generateHandshakeData_def NewExtension_def getRelayKeys_def
      GenerateNtorKeyPair_def Let_def go_copy_same len16_Inr HandshakeTypeNTor_def pending_ext_def
      ntor_const_def flip: replicate_add)

lemma DeriveKeys_value:
  assumes "\<forall>x. length (sha1 x) = 20"
  shows "\<exists>kf kb. DeriveKeys sha1 secret = Some (Inr (kf, kb)) \<and> length kf = 16 \<and> length kb = 16
    \<and> (\<exists>km. DeriveKey sha1 secret 72 = Some (Inr km) \<and> drop 40 km = kf @ kb)"
proof -
  obtain km where km: "DeriveKey sha1 secret 72 = Some (Inr km)" and len: "length km = 72"
    using DeriveKey_value [OF assms, of 72 secret] assms by (simp add: kdf_blocks_length kdf_extra_def)
  have "take 16 (drop 56 km) = drop 16 (drop 40 km)"
    using len by simp
  then have "drop 40 km = take 16 (drop 40 km) @ take 16 (drop 56 km)"
    by (simp only: append_take_drop_id)
  then show ?thesis
    using km len by (intro exI [of _ "take 16 (drop 40 km)"] exI [of _ "take 16 (drop 56 km)"])
      (simp add: DeriveKeys_def go_slice_def)
qed

end
