(* ===== verification/ConnRetry.thy ===== *)
theory ConnRetry
  imports Connection
begin

section \<open>pkg/connection/retry.go: reconnecting and the per-relay pool\<close>

text \<open>
  ConnectWithRetry with its backoff, and the small connection pool of the same file. The
  float64 products are arguments: \<open>scale d k\<close> is time.Duration(float64(d) * m ^ k) for the
  configured multiplier m, \<open>jitter\<close> the amount calculateBackoff adds. Connections are
  pointers, so the pool works on a heap of them.
\<close>

subsection \<open>Backoff\<close>

record RetryConfig =
  ry_MaxAttempts :: int
  ry_InitialBackoff :: duration
  ry_MaxBackoff :: duration
  ry_scale :: "duration \<Rightarrow> nat \<Rightarrow> duration"
  ry_Jitter :: bool

text \<open>The default multiplier is 2.0.\<close>

definition DefaultRetryConfig :: RetryConfig where
  "DefaultRetryConfig =
     \<lparr>ry_MaxAttempts = 3, ry_InitialBackoff = 1 * Second, ry_MaxBackoff = 30 * Second,
      ry_scale = (\<lambda>d k. d * 2 ^ k), ry_Jitter = True\<rparr>"

definition cap :: "duration \<Rightarrow> duration \<Rightarrow> duration" where
  "cap limit d = (if d > limit then limit else d)"

definition calculateBackoff :: "(nat \<Rightarrow> duration \<Rightarrow> duration) \<Rightarrow> duration \<Rightarrow> RetryConfig \<Rightarrow> nat \<Rightarrow> duration" where
  "calculateBackoff jitter base cfg attempt =
     (let backoff = cap (ry_MaxBackoff cfg) (ry_scale cfg base attempt)
      in if ry_Jitter cfg then backoff + jitter attempt backoff else backoff)"

subsection \<open>ConnectWithRetry\<close>

text \<open>
  The world of one call: what the network answers to attempt i, whether the context is done
  before it, and whether it ends during the backoff after it.
\<close>

record retry_world =
  rw_network :: "nat \<Rightarrow> network"
  rw_done :: "nat \<Rightarrow> bool"
  rw_done_backoff :: "nat \<Rightarrow> bool"
  rw_jitter :: "nat \<Rightarrow> duration \<Rightarrow> duration"

datatype retry_error =
    CancelledBefore | CancelledDuring | AttemptsFailed int "conn_error option"

text \<open>
  The loop from an attempt on with the number of attempts left; it returns the error, the
  delays slept and the connection. A delay cut short by the context is not counted.
\<close>

fun connect_loop ::
  "retry_world \<Rightarrow> conn_config \<Rightarrow> RetryConfig \<Rightarrow> nat \<Rightarrow> nat \<Rightarrow> duration \<Rightarrow> conn_error option \<Rightarrow> Connection
     \<Rightarrow> retry_error option \<times> duration list \<times> Connection" where
  "connect_loop w cfg ry 0 attempt backoff lastErr c =
     (Some (AttemptsFailed (ry_MaxAttempts ry + 1) lastErr), [], c)"
| "connect_loop w cfg ry (Suc left) attempt backoff lastErr c =
     (if rw_done w attempt then (Some CancelledBefore, [], c)
      else case Connect (rw_network w attempt) cfg c of
        (None, c1) \<Rightarrow> (None, [], c1)
      | (Some err, c1) \<Rightarrow>
          if int attempt \<ge> ry_MaxAttempts ry
          then (Some (AttemptsFailed (ry_MaxAttempts ry + 1) (Some err)), [], c1)
          else let currentBackoff = calculateBackoff (rw_jitter w) backoff ry attempt in
          if rw_done_backoff w attempt then (Some CancelledDuring, [], c1)
          else let (e, slept, c2) =
                     connect_loop w cfg ry left (Suc attempt)
                       (cap (ry_MaxBackoff ry) (ry_scale ry backoff 1)) (Some err) c1
               in (e, currentBackoff # slept, c2))"

definition ConnectWithRetry ::
  "retry_world \<Rightarrow> conn_config \<Rightarrow> RetryConfig option \<Rightarrow> Connection \<Rightarrow> retry_error option \<times> duration list \<times> Connection" where
  "ConnectWithRetry w cfg retryCfg c =
     (let ry = (case retryCfg of None \<Rightarrow> DefaultRetryConfig | Some r \<Rightarrow> r)
      in connect_loop w cfg ry (nat (ry_MaxAttempts ry + 1)) 0 (ry_InitialBackoff ry) None c)"

subsection \<open>Pool\<close>

type_synonym conn_heap = "nat \<rightharpoonup> Connection"

record conn_Pool =
  pl_maxSize :: nat
  pl_retryCfg :: RetryConfig
  pl_available :: "nat list"
  pl_closed :: bool

definition NewPool :: "nat \<Rightarrow> RetryConfig option \<Rightarrow> conn_Pool" where
  "NewPool maxSize retryCfg =
     \<lparr>pl_maxSize = maxSize,
      pl_retryCfg = (case retryCfg of None \<Rightarrow> DefaultRetryConfig | Some r \<Rightarrow> r),
      pl_available = [], pl_closed = False\<rparr>"

datatype pool_error = GetCancelled | PoolConnectFailed retry_error | NilConnection | SendOnClosedChannel

definition create_conn ::
  "retry_world \<Rightarrow> nat \<Rightarrow> conn_config \<Rightarrow> conn_heap \<Rightarrow> conn_Pool \<Rightarrow> (pool_error + nat) \<times> conn_heap \<times> conn_Pool" where
  "create_conn w r cfg heap p =
     (case ConnectWithRetry w cfg (Some (pl_retryCfg p)) (conn_New cfg) of
        (Some e, _, c) \<Rightarrow> (Inl (PoolConnectFailed e), heap(r \<mapsto> c), p)
      | (None, _, c) \<Rightarrow> (Inr r, heap(r \<mapsto> c), p))"

text \<open>
  Get; \<open>r\<close> is the address a new connection is allocated at. With a connection waiting and
  the context done, select takes either (\<open>prefer_ctx\<close>). A closed empty channel yields nil,
  whose IsOpen is a nil dereference.
\<close>

definition Pool_Get ::
  "retry_world \<Rightarrow> bool \<Rightarrow> bool \<Rightarrow> nat \<Rightarrow> conn_config \<Rightarrow> conn_heap \<Rightarrow> conn_Pool
     \<Rightarrow> (pool_error + nat) \<times> conn_heap \<times> conn_Pool" where
  "Pool_Get w ctx_done prefer_ctx r cfg heap p =
     (if ctx_done \<and> (prefer_ctx \<or> (pl_available p = [] \<and> \<not> pl_closed p)) then (Inl GetCancelled, heap, p)
      else case pl_available p of
        q # rest \<Rightarrow>
          (let p1 = p\<lparr>pl_available := rest\<rparr> in
           if (case heap q of None \<Rightarrow> False | Some c \<Rightarrow> IsOpen c) then (Inr q, heap, p1)
           else create_conn w r cfg heap p1)
      | [] \<Rightarrow> (if pl_closed p then (Inl NilConnection, heap, p) else create_conn w r cfg heap p))"

definition Pool_Put :: "bool \<Rightarrow> nat \<Rightarrow> conn_heap \<Rightarrow> conn_Pool \<Rightarrow> pool_error option \<times> conn_heap \<times> conn_Pool" where
  "Pool_Put close_ok r heap p =
     (case heap r of
        None \<Rightarrow> (Some NilConnection, heap, p)
      | Some c \<Rightarrow>
          if \<not> IsOpen c then (None, heap, p)
          else if pl_closed p then (Some SendOnClosedChannel, heap, p)
          else if length (pl_available p) < pl_maxSize p
          then (None, heap, p\<lparr>pl_available := pl_available p @ [r]\<rparr>)
          else (None, heap(r \<mapsto> snd (conn_Close close_ok c)), p))"

text \<open>Close of a pool that is already closed panics.\<close>

definition Pool_Close :: "bool \<Rightarrow> conn_heap \<Rightarrow> conn_Pool \<Rightarrow> pool_error option \<times> conn_heap \<times> conn_Pool" where
  "Pool_Close close_ok heap p =
     (if pl_closed p then (Some SendOnClosedChannel, heap, p)
      else (None,
            \<lambda>r. if r \<in> set (pl_available p) then map_option (\<lambda>c. snd (conn_Close close_ok c)) (heap r) else heap r,
            p\<lparr>pl_available := [], pl_closed := True\<rparr>))"

subsection \<open>The retry loop\<close>

lemma connect_loop_length:
  "attempt + length (fst (snd (connect_loop w cfg ry left attempt backoff lastErr c)))
     \<le> max attempt (nat (ry_MaxAttempts ry))"
proof (induction left arbitrary: attempt backoff lastErr c)
  case 0
  then show ?case by simp
next
  case (Suc left)
  show ?case
  proof (cases "\<not> rw_done w attempt \<and> fst (Connect (rw_network w attempt) cfg c) \<noteq> None
      \<and> int attempt < ry_MaxAttempts ry \<and> \<not> rw_done_backoff w attempt")
    case True
    then obtain err c1 where "Connect (rw_network w attempt) cfg c = (Some err, c1)"
      by (cases "Connect (rw_network w attempt) cfg c") auto
    with True Suc.IH [of "Suc attempt" "cap (ry_MaxBackoff ry) (ry_scale ry backoff 1)" "Some err" c1]
    show ?thesis
      by (auto simp: Let_def split: prod.splits)
  next
    case False
    then show ?thesis
      by (auto simp: Let_def split: prod.splits option.splits)
  qed
qed

text \<open>What the k-th base of the loop is, for a doubling multiplier.\<close>

lemma cap_double:
  assumes "0 \<le> d" and "0 \<le> m"
  shows "cap m (cap m (d * 2 ^ i) * 2) = cap m (d * 2 ^ Suc i)"
  using assms by (auto simp: cap_def)

lemma cap_compound:
  assumes "0 \<le> d" and "0 \<le> m"
  shows "cap m (cap m (d * 2 ^ i) * 2 ^ i) = cap m (d * 4 ^ i)"
proof -
  have four: "d * 4 ^ i = (d * 2 ^ i) * 2 ^ i"
    by (simp flip: power_mult_distrib)
  show ?thesis
  proof (cases "d * 2 ^ i > m")
    case True
    have "m * 1 \<le> m * 2 ^ i"
      using assms(2) by (intro mult_left_mono) auto
    moreover have "(d * 2 ^ i) * 1 \<le> (d * 2 ^ i) * 2 ^ i"
      using assms(1) by (intro mult_left_mono) auto
    ultimately show ?thesis
      using True by (auto simp: cap_def four)
  next
    case False
    then show ?thesis
      by (simp add: cap_def four)
  qed
qed

text \<open>
  As long as attempts fail and the context lives, the loop sleeps the capped fourfold
  growth of the initial backoff.
\<close>

lemma connect_loop_sleeps:
  assumes "ry_scale ry = (\<lambda>d k. d * 2 ^ k)" and "\<not> ry_Jitter ry"
    and "0 \<le> ry_InitialBackoff ry" and "0 \<le> ry_MaxBackoff ry"
    and "\<And>i. \<not> rw_done w i" and "\<And>i. \<not> rw_done_backoff w i"
    and "\<And>i c. i < attempt + n \<Longrightarrow> fst (Connect (rw_network w i) cfg c) \<noteq> None"
    and "\<And>c. fst (Connect (rw_network w (attempt + n)) cfg c) = None"
    and "int (attempt + n) \<le> ry_MaxAttempts ry" and "n < left"
    and "backoff = cap (ry_MaxBackoff ry) (ry_InitialBackoff ry * 2 ^ attempt) \<or> attempt = 0 \<and> backoff = ry_InitialBackoff ry"
  shows "\<exists>c'. connect_loop w cfg ry left attempt backoff lastErr c
    = (None, map (\<lambda>i. cap (ry_MaxBackoff ry) (ry_InitialBackoff ry * 4 ^ i)) [attempt..<attempt + n], c') \<and> IsOpen c'"
  using assms(7-)
proof (induction n arbitrary: attempt left backoff lastErr c)
  case 0
  then obtain left' where "left = Suc left'"
    by (cases left) auto
  moreover obtain c' where "Connect (rw_network w attempt) cfg c = (None, c')"
    using "0.prems"(2) [of c] by (cases "Connect (rw_network w attempt) cfg c") auto
  ultimately show ?case
    using assms(5) by (auto simp: IsOpen_def Connect_def setState_def Let_def split: if_splits)
next
  case (Suc n)
  then obtain left' where left: "left = Suc left'"
    by (cases left) auto
  obtain err c1 where fail: "Connect (rw_network w attempt) cfg c = (Some err, c1)"
    using Suc.prems(1) [of attempt c] by (cases "Connect (rw_network w attempt) cfg c") auto
  let ?M = "ry_MaxBackoff ry" and ?I = "ry_InitialBackoff ry"
  have sleep: "calculateBackoff (rw_jitter w) backoff ry attempt = cap ?M (?I * 4 ^ attempt)"
    using Suc.prems(5) assms(1-4) cap_compound [of ?I ?M attempt]
    by (auto simp: calculateBackoff_def Let_def)
  have base: "cap ?M (ry_scale ry backoff 1) = cap ?M (?I * 2 ^ Suc attempt)"
    using Suc.prems(5) assms(1,3,4) cap_double [of ?I ?M attempt]
    by (auto simp: mult.commute)
  have "\<exists>c'. connect_loop w cfg ry left' (Suc attempt) (cap ?M (?I * 2 ^ Suc attempt)) (Some err) c1
    = (None, map (\<lambda>i. cap ?M (?I * 4 ^ i)) [Suc attempt..<Suc attempt + n], c') \<and> IsOpen c'"
  proof (rule Suc.IH)
    show "fst (Connect (rw_network w i) cfg c) \<noteq> None" if "i < Suc attempt + n" for i c
      using Suc.prems(1) that by simp
    show "fst (Connect (rw_network w (Suc attempt + n)) cfg c) = None" for c
      using Suc.prems(2) [of c] by simp
  qed (use Suc.prems left in auto)
  then obtain c' where "connect_loop w cfg ry left' (Suc attempt) (cap ?M (?I * 2 ^ Suc attempt)) (Some err) c1
    = (None, map (\<lambda>i. cap ?M (?I * 4 ^ i)) [Suc attempt..<Suc attempt + n], c')" "IsOpen c'"
    by blast
  moreover have "\<not> ry_MaxAttempts ry \<le> int attempt"
    using Suc.prems(3) by simp
  moreover have "[attempt..<attempt + Suc n] = attempt # [Suc attempt..<Suc attempt + n]"
    by (simp add: upt_rec)
  ultimately show ?case
    using assms(5,6) fail
    by (simp add: left sleep base Let_def del: upt_Suc One_nat_def)
qed

text \<open>
  reconnecting. If the first n attempts fail, n is at most MaxAttempts, attempt n
  succeeds and the context lives, ConnectWithRetry ends with an open connection after n
  delays. The delays grow fourfold, not by the multiplier of 2: the loop doubles the base
  and calculateBackoff multiplies it by 2 to the attempt once more, up to MaxBackoff.
\<close>

lemma reconnect_backoff:
  assumes "ry_scale ry = (\<lambda>d k. d * 2 ^ k)" and "\<not> ry_Jitter ry"
    and "0 \<le> ry_InitialBackoff ry" and "0 \<le> ry_MaxBackoff ry"
    and "\<And>i. \<not> rw_done w i" and "\<And>i. \<not> rw_done_backoff w i"
    and "\<And>i c. i < n \<Longrightarrow> fst (Connect (rw_network w i) cfg c) \<noteq> None"
    and "\<And>c. fst (Connect (rw_network w n) cfg c) = None"
    and "int n \<le> ry_MaxAttempts ry"
  shows "\<exists>c'. ConnectWithRetry w cfg (Some ry) c
    = (None, map (\<lambda>i. cap (ry_MaxBackoff ry) (ry_InitialBackoff ry * 4 ^ i)) [0..<n], c') \<and> IsOpen c'"
proof -
  have "n < nat (ry_MaxAttempts ry + 1)"
    using assms(9) by linarith
  with connect_loop_sleeps [of ry w 0 n cfg "nat (ry_MaxAttempts ry + 1)" "ry_InitialBackoff ry" None c] assms
  show ?thesis
    by (simp add: ConnectWithRetry_def)
qed

definition late_world :: retry_world where
  "late_world =
     \<lparr>rw_network = (\<lambda>i. loopback\<lparr>nw_dial := (i = 3)\<rparr>), rw_done = (\<lambda>_. False),
      rw_done_backoff = (\<lambda>_. False), rw_jitter = (\<lambda>_ _. 0)\<rparr>"

lemma reconnect_backoff_example:
  "\<exists>c'. ConnectWithRetry late_world (DefaultConfig ''10.0.0.1:9001'')
      (Some (DefaultRetryConfig\<lparr>ry_Jitter := False\<rparr>)) (conn_New (DefaultConfig ''10.0.0.1:9001''))
    = (None, [1 * Second, 4 * Second, 16 * Second], c') \<and> IsOpen c'"
proof -
  have net: "fst (Connect (rw_network late_world i) (DefaultConfig ''10.0.0.1:9001'') c) = None \<longleftrightarrow> i = 3" for i c
    by (simp add: late_world_def loopback_def Connect_def DefaultConfig_def tls_verifier_def
        verifyTorRelayCertificate_def Let_def)
  let ?ry = "DefaultRetryConfig\<lparr>ry_Jitter := False\<rparr>"
  have "\<exists>c'. ConnectWithRetry late_world (DefaultConfig ''10.0.0.1:9001'') (Some ?ry) (conn_New (DefaultConfig ''10.0.0.1:9001''))
    = (None, map (\<lambda>i. cap (ry_MaxBackoff ?ry) (ry_InitialBackoff ?ry * 4 ^ i)) [0..<3], c') \<and> IsOpen c'"
    by (rule reconnect_backoff) (simp_all add: net DefaultRetryConfig_def Second_def, simp_all add: late_world_def)
  moreover have "map (\<lambda>i. cap (ry_MaxBackoff ?ry) (ry_InitialBackoff ?ry * 4 ^ i)) [0..<3] = [1 * Second, 4 * Second, 16 * Second]"
    by (simp add: upt_rec cap_def Second_def DefaultRetryConfig_def)
  ultimately show ?thesis
    by (simp only:)
qed

subsection \<open>The pool\<close>

fun put_all :: "nat list \<Rightarrow> conn_heap \<Rightarrow> conn_Pool \<Rightarrow> conn_heap \<times> conn_Pool" where
  "put_all [] heap p = (heap, p)"
| "put_all (r # rs) heap p = (let (_, heap1, p1) = Pool_Put True r heap p in put_all rs heap1 p1)"

fun get_all ::
  "retry_world \<Rightarrow> nat \<Rightarrow> conn_config list \<Rightarrow> conn_heap \<Rightarrow> conn_Pool \<Rightarrow> (pool_error + nat) list \<times> conn_heap \<times> conn_Pool" where
  "get_all w q [] heap p = ([], heap, p)"
| "get_all w q (cfg # cfgs) heap p =
     (let (x, heap1, p1) = Pool_Get w False False q cfg heap p;
          (xs, heap2, p2) = get_all w q cfgs heap1 p1
      in (x # xs, heap2, p2))"

abbreviation open_ref :: "conn_heap \<Rightarrow> nat \<Rightarrow> bool" where
  "open_ref heap r \<equiv> (\<exists>c. heap r = Some c \<and> IsOpen c)"

lemma put_all_open:
  assumes "\<forall>r\<in>set rs. open_ref heap r" and "length (pl_available p) + length rs \<le> pl_maxSize p" and "\<not> pl_closed p"
  shows "put_all rs heap p = (heap, p\<lparr>pl_available := pl_available p @ rs\<rparr>)"
  using assms by (induction rs arbitrary: p) (auto simp: Pool_Put_def)

lemma get_all_open:
  assumes "\<forall>r\<in>set rs. open_ref heap r" and "length cfgs = length rs" and "pl_available p = rs"
  shows "get_all w q cfgs heap p = (map Inr rs, heap, p\<lparr>pl_available := []\<rparr>)"
  using assms
proof (induction rs arbitrary: cfgs p)
  case Nil
  then show ?case by simp
next
  case (Cons r rs)
  then obtain cfg cfgs' where cfgs: "cfgs = cfg # cfgs'"
    by (cases cfgs) auto
  obtain c where "heap r = Some c" "IsOpen c"
    using Cons.prems(1) by auto
  then have "Pool_Get w False False q cfg heap p = (Inr r, heap, p\<lparr>pl_available := rs\<rparr>)"
    using Cons.prems(3) by (simp add: Pool_Get_def)
  with Cons.IH [of cfgs' "p\<lparr>pl_available := rs\<rparr>"] Cons.prems cfgs show ?case
    by simp
qed

text \<open>
  The pool hands connections out in the order they were put back, whichever relays
  are asked for: the configuration is not looked at while an open connection waits, so a
  caller gets a connection to another relay.
\<close>

lemma pool_ignores_relay:
  assumes "\<forall>r\<in>set rs. \<exists>c. heap r = Some c \<and> IsOpen c" and "length rs \<le> maxSize" and "length cfgs = length rs"
  shows "(let (heap1, p1) = put_all rs heap (NewPool maxSize ry) in fst (get_all w q cfgs heap1 p1)) = map Inr rs"
proof -
  have "put_all rs heap (NewPool maxSize ry) = (heap, (NewPool maxSize ry)\<lparr>pl_available := rs\<rparr>)"
    using put_all_open [of rs heap "NewPool maxSize ry"] assms(1,2) by (simp add: NewPool_def)
  then show ?thesis
    using get_all_open [of rs heap cfgs "(NewPool maxSize ry)\<lparr>pl_available := rs\<rparr>"] assms by simp
qed

lemma pool_ignores_relay_example:
  "(let (heap1, p1) = put_all [7] [7 \<mapsto> relay_conn] (NewPool 5 None)
    in fst (get_all late_world 9 [DefaultConfig ''192.0.2.1:443''] heap1 p1)) = [Inr 7]"
proof -
  have "IsOpen relay_conn"
    by (simp add: relay_conn_def loopback_def Connect_def conn_New_def DefaultConfig_def tls_verifier_def
        verifyTorRelayCertificate_def IsOpen_def setState_def Let_def)
  then show ?thesis
    using pool_ignores_relay [of "[7]" "[7 \<mapsto> relay_conn]" 5 "[DefaultConfig ''192.0.2.1:443'']" None late_world 9]
    by simp
qed

end
