(* ===== verification/ConnectionPool.thy ===== *)
theory ConnectionPool
  imports ConnRetry
begin

section \<open>pkg/pool/connection_pool.go: one pooled connection per relay address\<close>

text \<open>
  The pool maps an address to one entry. Connections are pointers into a heap; a Get that
  has to connect allocates the new connection at a fresh address. time.Now() is read once
  per operation in the model: the code's readings inside one call lie after one another and
  only feed log lines and timestamps.
\<close>

record pooledConnection =
  pc_conn :: nat
  pc_inUse :: bool
  pc_lastUsed :: time
  pc_createdAt :: time

record ConnectionPool =
  cpl_connections :: "string \<rightharpoonup> pooledConnection"
  cpl_maxIdle :: int
  cpl_maxLifetime :: duration

record ConnectionPoolConfig =
  cpc_MaxIdlePerHost :: int
  cpc_MaxLifetime :: duration

definition DefaultConnectionPoolConfig :: ConnectionPoolConfig where
  "DefaultConnectionPoolConfig = \<lparr>cpc_MaxIdlePerHost = 5, cpc_MaxLifetime = 600 * Second\<rparr>"

definition NewConnectionPool :: "ConnectionPoolConfig option \<Rightarrow> ConnectionPool" where
  "NewConnectionPool cfg =
     (let c = (case cfg of None \<Rightarrow> DefaultConnectionPoolConfig | Some c \<Rightarrow> c)
      in \<lparr>cpl_connections = Map.empty, cpl_maxIdle = cpc_MaxIdlePerHost c, cpl_maxLifetime = cpc_MaxLifetime c\<rparr>)"

text \<open>Closing the connection a pointer stands for; \<open>close_ok\<close> is the answer of the socket.\<close>

definition close_ref :: "bool \<Rightarrow> nat \<Rightarrow> conn_heap \<Rightarrow> conn_heap" where
  "close_ref close_ok r heap = heap(r := map_option (\<lambda>c. snd (conn_Close close_ok c)) (heap r))"

definition ref_open :: "conn_heap \<Rightarrow> nat \<Rightarrow> bool" where
  "ref_open heap r \<longleftrightarrow> (case heap r of None \<Rightarrow> False | Some c \<Rightarrow> cn_state c = ConnOpen)"

text \<open>The second half of Get: connect, and put the new connection into the map.\<close>

definition pool_connect ::
  "network \<Rightarrow> time \<Rightarrow> nat \<Rightarrow> string \<Rightarrow> conn_config \<Rightarrow> conn_heap \<Rightarrow> ConnectionPool
     \<Rightarrow> (conn_error + nat) \<times> conn_heap \<times> ConnectionPool" where
  "pool_connect nw now r key cfg heap p =
     (case Connect nw cfg (conn_New cfg) of
        (Some e, c) \<Rightarrow> (Inl e, heap(r \<mapsto> c), p)
      | (None, c) \<Rightarrow>
          (Inr r, heap(r \<mapsto> c),
           p\<lparr>cpl_connections := (cpl_connections p)(key \<mapsto>
             \<lparr>pc_conn = r, pc_inUse = True, pc_lastUsed = now, pc_createdAt = now\<rparr>)\<rparr>))"

definition ConnectionPool_Get ::
  "network \<Rightarrow> bool \<Rightarrow> time \<Rightarrow> nat \<Rightarrow> string \<Rightarrow> conn_config \<Rightarrow> conn_heap \<Rightarrow> ConnectionPool
     \<Rightarrow> (conn_error + nat) \<times> conn_heap \<times> ConnectionPool" where
  "ConnectionPool_Get nw close_ok now r key cfg heap p =
     (case cpl_connections p key of
        None \<Rightarrow> pool_connect nw now r key cfg heap p
      | Some pc \<Rightarrow>
          if \<not> pc_inUse pc \<and> ref_open heap (pc_conn pc) then
            (if now - pc_createdAt pc < cpl_maxLifetime p
             then (Inr (pc_conn pc), heap,
                   p\<lparr>cpl_connections := (cpl_connections p)(key \<mapsto> pc\<lparr>pc_inUse := True, pc_lastUsed := now\<rparr>)\<rparr>)
             else pool_connect nw now r key cfg (close_ref close_ok (pc_conn pc) heap)
                    (p\<lparr>cpl_connections := (cpl_connections p)(key := None)\<rparr>))
          else pool_connect nw now r key cfg heap p)"

definition ConnectionPool_Put :: "time \<Rightarrow> string \<Rightarrow> nat \<Rightarrow> ConnectionPool \<Rightarrow> ConnectionPool" where
  "ConnectionPool_Put now key conn p =
     (case cpl_connections p key of
        None \<Rightarrow> p
      | Some pc \<Rightarrow>
          if pc_conn pc = conn
          then p\<lparr>cpl_connections := (cpl_connections p)(key \<mapsto> pc\<lparr>pc_inUse := False, pc_lastUsed := now\<rparr>)\<rparr>
          else p)"

definition ConnectionPool_Remove ::
  "bool \<Rightarrow> string \<Rightarrow> conn_heap \<Rightarrow> ConnectionPool \<Rightarrow> conn_heap \<times> ConnectionPool" where
  "ConnectionPool_Remove close_ok key heap p =
     (case cpl_connections p key of
        None \<Rightarrow> (heap, p)
      | Some pc \<Rightarrow> (close_ref close_ok (pc_conn pc) heap,
                    p\<lparr>cpl_connections := (cpl_connections p)(key := None)\<rparr>))"

text \<open>
  The three sweeps close and drop the entries they select; the order in which the range over
  the map meets them does not matter, as each closes its own connection.
\<close>

definition sweep ::
  "(pooledConnection \<Rightarrow> bool) \<Rightarrow> bool \<Rightarrow> conn_heap \<Rightarrow> ConnectionPool \<Rightarrow> conn_heap \<times> ConnectionPool" where
  "sweep doomed close_ok heap p =
     (let gone = {r. \<exists>key pc. cpl_connections p key = Some pc \<and> doomed pc \<and> pc_conn pc = r} in
      (\<lambda>r. if r \<in> gone then map_option (\<lambda>c. snd (conn_Close close_ok c)) (heap r) else heap r,
       p\<lparr>cpl_connections := (\<lambda>key. case cpl_connections p key of
            None \<Rightarrow> None | Some pc \<Rightarrow> if doomed pc then None else Some pc)\<rparr>))"

definition CleanupIdle :: "time \<Rightarrow> duration \<Rightarrow> bool \<Rightarrow> conn_heap \<Rightarrow> ConnectionPool \<Rightarrow> conn_heap \<times> ConnectionPool" where
  "CleanupIdle now maxIdleTime = sweep (\<lambda>pc. \<not> pc_inUse pc \<and> now - pc_lastUsed pc > maxIdleTime)"

definition ConnectionPool_CleanupExpired :: "time \<Rightarrow> bool \<Rightarrow> conn_heap \<Rightarrow> ConnectionPool \<Rightarrow> conn_heap \<times> ConnectionPool" where
  "ConnectionPool_CleanupExpired now close_ok heap p =
     sweep (\<lambda>pc. now - pc_createdAt pc > cpl_maxLifetime p) close_ok heap p"

definition ConnectionPool_Close :: "bool \<Rightarrow> conn_heap \<Rightarrow> ConnectionPool \<Rightarrow> conn_heap \<times> ConnectionPool" where
  "ConnectionPool_Close close_ok heap p =
     (fst (sweep (\<lambda>_. True) close_ok heap p), p\<lparr>cpl_connections := Map.empty\<rparr>)"

text \<open>Stats: total, in use, idle.\<close>

definition ConnectionPool_Stats :: "ConnectionPool \<Rightarrow> nat \<times> nat \<times> nat" where
  "ConnectionPool_Stats p =
     (card (dom (cpl_connections p)),
      card {key. \<exists>pc. cpl_connections p key = Some pc \<and> pc_inUse pc},
      card {key. \<exists>pc. cpl_connections p key = Some pc \<and> \<not> pc_inUse pc})"

subsection \<open>Runs\<close>

text \<open>
  The clients' operations, with the connection each Get hands out. \<open>held\<close> are the
  connections handed out and not put back since; a fresh pointer is one never used.
\<close>

datatype cpool_op =
    PGet network bool time string conn_config
  | PPut time string nat
  | PRemove bool string
  | PIdle time duration bool
  | PExpired time bool
  | PClose bool

record cpool_world =
  pw_heap :: conn_heap
  pw_pool :: ConnectionPool
  pw_next :: nat
  pw_held :: "nat set"
  pw_shared :: bool

definition cpool_step :: "cpool_op \<Rightarrow> cpool_world \<Rightarrow> cpool_world" where
  "cpool_step x w =
     (case x of
        PGet nw ok now key cfg \<Rightarrow>
          (case ConnectionPool_Get nw ok now (pw_next w) key cfg (pw_heap w) (pw_pool w) of
             (Inl e, heap, p) \<Rightarrow> w\<lparr>pw_heap := heap, pw_pool := p, pw_next := Suc (pw_next w)\<rparr>
           | (Inr r, heap, p) \<Rightarrow>
               w\<lparr>pw_heap := heap, pw_pool := p, pw_next := Suc (pw_next w),
                 pw_held := insert r (pw_held w), pw_shared := pw_shared w \<or> r \<in> pw_held w\<rparr>)
      | PPut now key r \<Rightarrow>
          w\<lparr>pw_pool := ConnectionPool_Put now key r (pw_pool w), pw_held := pw_held w - {r}\<rparr>
      | PRemove ok key \<Rightarrow>
          (let (heap, p) = ConnectionPool_Remove ok key (pw_heap w) (pw_pool w) in w\<lparr>pw_heap := heap, pw_pool := p\<rparr>)
      | PIdle now d ok \<Rightarrow>
          (let (heap, p) = CleanupIdle now d ok (pw_heap w) (pw_pool w) in w\<lparr>pw_heap := heap, pw_pool := p\<rparr>)
      | PExpired now ok \<Rightarrow>
          (let (heap, p) = ConnectionPool_CleanupExpired now ok (pw_heap w) (pw_pool w) in w\<lparr>pw_heap := heap, pw_pool := p\<rparr>)
      | PClose ok \<Rightarrow>
          (let (heap, p) = ConnectionPool_Close ok (pw_heap w) (pw_pool w) in w\<lparr>pw_heap := heap, pw_pool := p\<rparr>))"

definition cpool_init :: "ConnectionPoolConfig option \<Rightarrow> cpool_world" where
  "cpool_init cfg =
     \<lparr>pw_heap = Map.empty, pw_pool = NewConnectionPool cfg, pw_next = 0, pw_held = {}, pw_shared = False\<rparr>"

text \<open>
  The invariant: an idle entry is not held by a client, entries of different addresses hold
  different connections, and pointers from \<open>pw_next\<close> on are unused.
\<close>

definition cpool_ok :: "cpool_world \<Rightarrow> bool" where
  "cpool_ok w \<longleftrightarrow>
     (\<forall>key pc. cpl_connections (pw_pool w) key = Some pc \<longrightarrow>
        pc_conn pc < pw_next w \<and> (\<not> pc_inUse pc \<longrightarrow> pc_conn pc \<notin> pw_held w))
     \<and> (\<forall>k1 k2 a b. cpl_connections (pw_pool w) k1 = Some a \<and> cpl_connections (pw_pool w) k2 = Some b
          \<and> pc_conn a = pc_conn b \<longrightarrow> k1 = k2)
     \<and> (\<forall>r\<in>pw_held w. r < pw_next w)
     \<and> \<not> pw_shared w"

lemma cpool_ok_restrict:
  assumes "cpool_ok w" and "\<And>key pc. cpl_connections p key = Some pc \<Longrightarrow> cpl_connections (pw_pool w) key = Some pc"
  shows "cpool_ok (w\<lparr>pw_heap := heap, pw_pool := p\<rparr>)"
  using assms unfolding cpool_ok_def by simp metis

lemma pool_connect_ok:
  assumes "cpool_ok w" and "\<And>k pc. cpl_connections p k = Some pc \<Longrightarrow> cpl_connections (pw_pool w) k = Some pc"
    and "pool_connect nw now (pw_next w) key cfg heap p = (x, heap', p')"
  shows "case x of
      Inl e \<Rightarrow> cpool_ok (w\<lparr>pw_heap := heap', pw_pool := p', pw_next := Suc (pw_next w)\<rparr>)
    | Inr r \<Rightarrow> r = pw_next w \<and> cpool_ok (w\<lparr>pw_heap := heap', pw_pool := p', pw_next := Suc (pw_next w),
        pw_held := insert r (pw_held w), pw_shared := pw_shared w \<or> r \<in> pw_held w\<rparr>)"
  using assms
  by (auto simp: pool_connect_def cpool_ok_def split: prod.splits option.splits)
    (metis less_SucI less_irrefl)+

lemma ConnectionPool_Get_ok:
  assumes "cpool_ok w"
  shows "cpool_ok (cpool_step (PGet nw ok now key cfg) w)"
proof (cases "\<exists>pc. cpl_connections (pw_pool w) key = Some pc \<and> \<not> pc_inUse pc \<and> ref_open (pw_heap w) (pc_conn pc)
    \<and> now - pc_createdAt pc < cpl_maxLifetime (pw_pool w)")
  case True
  then obtain pc where pc: "cpl_connections (pw_pool w) key = Some pc" "\<not> pc_inUse pc"
    "ref_open (pw_heap w) (pc_conn pc)" "now - pc_createdAt pc < cpl_maxLifetime (pw_pool w)"
    by blast
  then have "pc_conn pc \<notin> pw_held w" "pc_conn pc < pw_next w"
    using assms by (auto simp: cpool_ok_def)
  with pc assms show ?thesis
    by (auto simp: cpool_step_def ConnectionPool_Get_def cpool_ok_def less_SucI split: if_splits)
next
  case False
  define p where "p = (case cpl_connections (pw_pool w) key of
      None \<Rightarrow> pw_pool w
    | Some pc \<Rightarrow> if \<not> pc_inUse pc \<and> ref_open (pw_heap w) (pc_conn pc)
                 then (pw_pool w)\<lparr>cpl_connections := (cpl_connections (pw_pool w))(key := None)\<rparr> else pw_pool w)"
  have sub: "cpl_connections p k = Some pc \<Longrightarrow> cpl_connections (pw_pool w) k = Some pc" for k pc
    by (auto simp: p_def split: option.splits if_splits)
  obtain heap where get: "ConnectionPool_Get nw ok now (pw_next w) key cfg (pw_heap w) (pw_pool w)
      = pool_connect nw now (pw_next w) key cfg heap p"
    using False by (fastforce simp: ConnectionPool_Get_def p_def split: option.splits if_splits)
  obtain x heap' p' where c: "pool_connect nw now (pw_next w) key cfg heap p = (x, heap', p')"
    by (cases "pool_connect nw now (pw_next w) key cfg heap p")
  from pool_connect_ok [OF assms sub c] show ?thesis
    by (simp add: cpool_step_def get c split: sum.splits)
qed

lemma ConnectionPool_Put_ok:
  assumes "cpool_ok w"
  shows "cpool_ok (cpool_step (PPut now key r) w)"
proof (cases "\<exists>pc. cpl_connections (pw_pool w) key = Some pc \<and> pc_conn pc = r")
  case True
  then obtain pc where "cpl_connections (pw_pool w) key = Some pc" "pc_conn pc = r"
    by blast
  with assms show ?thesis
    by (auto simp: cpool_step_def ConnectionPool_Put_def cpool_ok_def)
next
  case False
  then have "ConnectionPool_Put now key r (pw_pool w) = pw_pool w"
    by (auto simp: ConnectionPool_Put_def split: option.splits)
  with assms show ?thesis
    by (auto simp: cpool_step_def cpool_ok_def)
qed

lemma sweep_sub:
  "sweep doomed ok heap p = (heap', p') \<Longrightarrow> cpl_connections p' k = Some pc \<Longrightarrow> cpl_connections p k = Some pc"
  by (auto simp: sweep_def Let_def split: option.splits if_splits)

lemma cpool_step_ok:
  assumes "cpool_ok w"
  shows "cpool_ok (cpool_step x w)"
proof (cases x)
  case (PGet nw ok now key cfg)
  with ConnectionPool_Get_ok [OF assms] show ?thesis by simp
next
  case (PPut now key r)
  with ConnectionPool_Put_ok [OF assms] show ?thesis by simp
next
  case (PRemove ok key)
  obtain heap p where h: "ConnectionPool_Remove ok key (pw_heap w) (pw_pool w) = (heap, p)"
    by (cases "ConnectionPool_Remove ok key (pw_heap w) (pw_pool w)")
  have "cpl_connections p k = Some pc \<Longrightarrow> cpl_connections (pw_pool w) k = Some pc" for k pc
    using h by (auto simp: ConnectionPool_Remove_def split: option.splits if_splits)
  from cpool_ok_restrict [OF assms this] show ?thesis
    by (simp add: cpool_step_def PRemove h)
next
  case (PIdle now d ok)
  obtain heap p where h: "CleanupIdle now d ok (pw_heap w) (pw_pool w) = (heap, p)"
    by (cases "CleanupIdle now d ok (pw_heap w) (pw_pool w)")
  from cpool_ok_restrict [OF assms sweep_sub [OF h [unfolded CleanupIdle_def]]] show ?thesis
    by (simp add: cpool_step_def PIdle h)
next
  case (PExpired now ok)
  obtain heap p where h: "ConnectionPool_CleanupExpired now ok (pw_heap w) (pw_pool w) = (heap, p)"
    by (cases "ConnectionPool_CleanupExpired now ok (pw_heap w) (pw_pool w)")
  from cpool_ok_restrict [OF assms sweep_sub [OF h [unfolded ConnectionPool_CleanupExpired_def]]] show ?thesis
    by (simp add: cpool_step_def PExpired h)
next
  case (PClose ok)
  have "cpool_ok (w\<lparr>pw_heap := heap, pw_pool := (pw_pool w)\<lparr>cpl_connections := Map.empty\<rparr>\<rparr>)" for heap
    using assms by (simp add: cpool_ok_def)
  then show ?thesis
    by (simp add: cpool_step_def PClose ConnectionPool_Close_def)
qed

interpretation cpool_sys: op_system cpool_step cpool_ok
  by unfold_locales (rule cpool_step_ok)

text \<open>
  C38: No connection is shared. Over every run on a new pool, Get never hands out a
  connection that a client was given and has not put back.
\<close>

theorem connection_pool_exclusive:
  "\<not> pw_shared (fold cpool_step ops (cpool_init cfg))"
proof -
  have "cpool_ok (cpool_init cfg)"
    by (simp add: cpool_ok_def cpool_init_def NewConnectionPool_def Let_def)
  then have "cpool_ok (fold cpool_step ops (cpool_init cfg))"
    by (rule cpool_sys.run_inv)
  then show ?thesis
    by (simp add: cpool_ok_def)
qed

text \<open>
  A busy relay leaks connections. When Get is called for an address whose connection is
  in use and connects anew, the old entry is overwritten: putting the old connection back
  does nothing, and closing the pool does not close it.
\<close>

lemma connection_pool_leaks:
  assumes "cpl_connections p key = Some pc" and "pc_inUse pc" and "heap (pc_conn pc) = Some old"
    and "r \<noteq> pc_conn pc" and "\<And>k x. cpl_connections p k = Some x \<Longrightarrow> k \<noteq> key \<Longrightarrow> pc_conn x \<noteq> pc_conn pc"
    and "ConnectionPool_Get nw ok now r key cfg heap p = (Inr q, heap1, p1)"
  shows "q = r \<and> ConnectionPool_Put now' key (pc_conn pc) p1 = p1
    \<and> fst (ConnectionPool_Close ok' heap1 p1) (pc_conn pc) = Some old"
proof -
  have g: "q = r" "heap1 (pc_conn pc) = Some old" "cpl_connections p1 = (cpl_connections p)(key \<mapsto>
      \<lparr>pc_conn = r, pc_inUse = True, pc_lastUsed = now, pc_createdAt = now\<rparr>)"
    using assms(1-4,6) by (auto simp: ConnectionPool_Get_def pool_connect_def split: prod.splits option.splits)
  have "pc_conn x \<noteq> pc_conn pc" if "cpl_connections p1 k = Some x" for k x
    using that g(3) assms(4,5) by (auto split: if_splits)
  then have "fst (ConnectionPool_Close ok' heap1 p1) (pc_conn pc) = Some old"
    using g(2) by (auto simp: ConnectionPool_Close_def sweep_def Let_def)
  with g assms(4) show ?thesis
    by (simp add: ConnectionPool_Put_def)
qed

lemma connection_pool_leaks_example:
  "\<exists>heap1 p1. ConnectionPool_Get loopback True 5 1 ''r'' (DefaultConfig ''r'') [0 \<mapsto> relay_conn]
      ((NewConnectionPool None)\<lparr>cpl_connections := [''r'' \<mapsto> \<lparr>pc_conn = 0, pc_inUse = True, pc_lastUsed = 0, pc_createdAt = 0\<rparr>]\<rparr>)
      = (Inr 1, heap1, p1) \<and> fst (ConnectionPool_Close True heap1 p1) 0 = Some relay_conn"
proof -
  let ?pc = "\<lparr>pc_conn = 0, pc_inUse = True, pc_lastUsed = 0, pc_createdAt = 0\<rparr>"
  let ?p = "(NewConnectionPool None)\<lparr>cpl_connections := [''r'' \<mapsto> ?pc]\<rparr>"
  obtain heap1 p1 where g: "ConnectionPool_Get loopback True 5 1 ''r'' (DefaultConfig ''r'') [0 \<mapsto> relay_conn] ?p = (Inr 1, heap1, p1)"
    by (simp add: ConnectionPool_Get_def pool_connect_def Connect_def loopback_def DefaultConfig_def tls_verifier_def
        verifyTorRelayCertificate_def Let_def)
  have "fst (ConnectionPool_Close True heap1 p1) 0 = Some relay_conn"
    using connection_pool_leaks [OF _ _ _ _ _ g, of ?pc relay_conn 0 True] by (simp split: if_splits)
  with g show ?thesis by blast
qed

end
