(* ===== verification/Protocol.thy ===== *)
theory Protocol
  imports Connection
begin

section \<open>pkg/protocol/protocol.go: the link handshake\<close>

text \<open>
  Version negotiation and NETINFO over a connection. Each receive is a select between the
  context, the timer and the goroutine that runs ReceiveCell: \<open>race\<close> says which came first.
  When the goroutine loses it stays behind; the model then leaves the connection alone.
\<close>

definition MinLinkProtocolVersion :: int where "MinLinkProtocolVersion = 3"
definition MaxLinkProtocolVersion :: int where "MaxLinkProtocolVersion = 5"
definition PreferredVersion :: int where "PreferredVersion = 4"
definition DefaultHandshakeTimeout :: duration where "DefaultHandshakeTimeout = 10 * Second"
definition MinHandshakeTimeout :: duration where "MinHandshakeTimeout = 5 * Second"
definition MaxHandshakeTimeout :: duration where "MaxHandshakeTimeout = 60 * Second"

lemmas protocol_consts [simp] = MinLinkProtocolVersion_def MaxLinkProtocolVersion_def PreferredVersion_def

record Handshake =
  hs_conn :: Connection
  hs_negotiatedVersion :: int
  hs_timeout :: duration

datatype race = CtxFirst | TimerFirst | CellFirst bool

datatype hs_error =
    TimeoutTooShort duration | TimeoutTooLong duration
  | SendError conn_error | RecvError conn_error | HsContextDone | HsTimeout
  | ExpectedVersions byte | InvalidVersionsLength nat | NoCompatibleVersion | ExpectedNetinfo byte

definition NewHandshake :: "Connection \<Rightarrow> Handshake" where
  "NewHandshake conn = \<lparr>hs_conn = conn, hs_negotiatedVersion = 0, hs_timeout = DefaultHandshakeTimeout\<rparr>"

definition SetTimeout :: "duration \<Rightarrow> Handshake \<Rightarrow> hs_error option \<times> Handshake" where
  "SetTimeout timeout h =
     (if timeout < MinHandshakeTimeout then (Some (TimeoutTooShort timeout), h)
      else if timeout > MaxHandshakeTimeout then (Some (TimeoutTooLong timeout), h)
      else (None, h\<lparr>hs_timeout := timeout\<rparr>))"

definition send_cell :: "cell \<Rightarrow> Handshake \<Rightarrow> hs_error option \<times> Handshake" where
  "send_cell x h =
     (case conn_SendCell x (hs_conn h) of
        (Some e, c) \<Rightarrow> (Some (SendError e), h\<lparr>hs_conn := c\<rparr>)
      | (None, c) \<Rightarrow> (None, h\<lparr>hs_conn := c\<rparr>))"

definition versions_payload :: "int list \<Rightarrow> bytes" where
  "versions_payload versions = concat (map (\<lambda>v. be16 (word_of_int v)) versions)"

definition sendVersions :: "Handshake \<Rightarrow> hs_error option \<times> Handshake" where
  "sendVersions h =
     send_cell ((NewCell 0 CmdVersions)\<lparr>Payload :=
       versions_payload [MinLinkProtocolVersion, PreferredVersion, MaxLinkProtocolVersion]\<rparr>) h"

fun parse_versions :: "bytes \<Rightarrow> int list" where
  "parse_versions (a # b # rest) = uint (u16_at [a, b] 0) # parse_versions rest"
| "parse_versions _ = []"

text \<open>selectVersion counts down from the highest version.\<close>

definition selectVersion :: "int list \<Rightarrow> int" where
  "selectVersion remoteVersions =
     (case filter (\<lambda>v. v \<in> set remoteVersions) (rev [MinLinkProtocolVersion..MaxLinkProtocolVersion]) of
        [] \<Rightarrow> 0
      | v # _ \<Rightarrow> v)"

definition receive_cell :: "race \<Rightarrow> Handshake \<Rightarrow> (hs_error + cell) \<times> Handshake" where
  "receive_cell r h =
     (case r of
        CtxFirst \<Rightarrow> (Inl HsContextDone, h)
      | TimerFirst \<Rightarrow> (Inl HsTimeout, h)
      | CellFirst close_ok \<Rightarrow>
          (case ReceiveCell close_ok (hs_conn h) of
             (Inl e, c) \<Rightarrow> (Inl (RecvError e), h\<lparr>hs_conn := c\<rparr>)
           | (Inr x, c) \<Rightarrow> (Inr x, h\<lparr>hs_conn := c\<rparr>)))"

text \<open>What receiveVersions does with the cell it got.\<close>

definition negotiate :: "cell \<Rightarrow> Handshake \<Rightarrow> hs_error option \<times> Handshake" where
  "negotiate x h =
     (if Command x \<noteq> CmdVersions then (Some (ExpectedVersions (Command x)), h)
      else if length (Payload x) mod 2 \<noteq> 0 then (Some (InvalidVersionsLength (length (Payload x))), h)
      else let h1 = h\<lparr>hs_negotiatedVersion := selectVersion (parse_versions (Payload x))\<rparr>
           in (if hs_negotiatedVersion h1 = 0 then Some NoCompatibleVersion else None, h1))"

definition receiveVersions :: "race \<Rightarrow> Handshake \<Rightarrow> hs_error option \<times> Handshake" where
  "receiveVersions r h =
     (case receive_cell r h of
        (Inl e, h1) \<Rightarrow> (Some e, h1)
      | (Inr x, h1) \<Rightarrow> negotiate x h1)"

definition netinfo_payload :: "u32 \<Rightarrow> bytes" where
  "netinfo_payload timestamp = be32 timestamp @ [4, 4] @ zeros 4 @ [0]"

definition sendNetinfo :: "time \<Rightarrow> Handshake \<Rightarrow> hs_error option \<times> Handshake" where
  "sendNetinfo now h =
     (let timestamp = (case SafeUnixToUint32 now of Inl _ \<Rightarrow> 0 | Inr t \<Rightarrow> t)
      in send_cell ((NewCell 0 CmdNetinfo)\<lparr>Payload := netinfo_payload timestamp\<rparr>) h)"

definition receiveNetinfo :: "race \<Rightarrow> Handshake \<Rightarrow> hs_error option \<times> Handshake" where
  "receiveNetinfo r h =
     (case receive_cell r h of
        (Inl e, h1) \<Rightarrow> (Some e, h1)
      | (Inr x, h1) \<Rightarrow> (if Command x \<noteq> CmdNetinfo then Some (ExpectedNetinfo (Command x)) else None, h1))"

definition PerformHandshake :: "race \<Rightarrow> race \<Rightarrow> time \<Rightarrow> Handshake \<Rightarrow> hs_error option \<times> Handshake" where
  "PerformHandshake r1 r2 now h =
     (case sendVersions h of
        (Some e, h1) \<Rightarrow> (Some e, h1)
      | (None, h1) \<Rightarrow>
     (case receiveVersions r1 h1 of
        (Some e, h2) \<Rightarrow> (Some e, h2)
      | (None, h2) \<Rightarrow>
     (case sendNetinfo now h2 of
        (Some e, h3) \<Rightarrow> (Some e, h3)
      | (None, h3) \<Rightarrow> receiveNetinfo r2 h3)))"

subsection \<open>What is sent\<close>

lemma parse_versions_payload:
  "(\<And>v. v \<in> set vs \<Longrightarrow> 0 \<le> v \<and> v < 65536) \<Longrightarrow> parse_versions (versions_payload vs) = vs"
proof (induction vs)
  case Nil
  then show ?case by (simp add: versions_payload_def)
next
  case (Cons v vs)
  obtain a b where ab: "be16 (word_of_int v) = [a, b]"
    by (simp add: be16_def)
  have "u16_at [a, b] 0 = (word_of_int v :: u16)"
    using u16_at_be16_nil [of "word_of_int v"] by (simp add: ab)
  moreover have "uint (word_of_int v :: u16) = v"
    using Cons.prems [of v] by (intro uint_word_of_int_eq) auto
  moreover have "versions_payload (v # vs) = a # b # versions_payload vs"
    by (simp add: versions_payload_def ab)
  ultimately show ?case
    using Cons by simp
qed

text \<open>The timeout stays inside its bounds from NewHandshake on.\<close>

lemma SetTimeout_bounds:
  assumes "MinHandshakeTimeout \<le> hs_timeout h \<and> hs_timeout h \<le> MaxHandshakeTimeout"
  shows "MinHandshakeTimeout \<le> hs_timeout (snd (SetTimeout t h)) \<and> hs_timeout (snd (SetTimeout t h)) \<le> MaxHandshakeTimeout"
  using assms by (simp add: SetTimeout_def)

interpretation handshake_timeout: op_system "\<lambda>t h. snd (SetTimeout t h)"
    "\<lambda>h. MinHandshakeTimeout \<le> hs_timeout h \<and> hs_timeout h \<le> MaxHandshakeTimeout"
  by unfold_locales (rule SetTimeout_bounds)

text \<open>
  Version selection is sound and optimal: on the payload a peer sends for a list of
  versions, negotiation fails exactly when no version from 3 to 5 is offered, and otherwise
  settles on the highest offered one among them.
\<close>

lemma negotiate_highest_mutual:
  assumes "\<And>v. v \<in> set vs \<Longrightarrow> 0 \<le> v \<and> v < 65536"
  shows "case negotiate \<lparr>CircID = cid, Command = CmdVersions, Payload = versions_payload vs\<rparr> h of
      (None, h') \<Rightarrow> hs_negotiatedVersion h' = Max (set vs \<inter> {3..5}) \<and> set vs \<inter> {3..5} \<noteq> {}
    | (Some e, h') \<Rightarrow> e = NoCompatibleVersion \<and> set vs \<inter> {3..5} = {}"
proof -
  have even: "even (length (versions_payload vs))"
    by (induction vs) (auto simp: versions_payload_def)
  have list: "rev [3..5] = [5, 4, 3 :: int]"
    by (simp add: upto.simps)
  have range: "{3..5} = {3, 4, 5 :: int}"
    by auto
  have sel: "selectVersion vs = (if 5 \<in> set vs then 5 else if 4 \<in> set vs then 4 else if 3 \<in> set vs then 3 else 0)"
    by (simp add: selectVersion_def list)
  have max: "Max (set vs \<inter> {3..5}) = selectVersion vs" if "set vs \<inter> {3..5} \<noteq> {}"
    using that unfolding sel by (intro Max_eqI) (auto simp: range)
  have none: "selectVersion vs = 0 \<longleftrightarrow> set vs \<inter> {3..5} = {}"
    by (auto simp: sel range)
  show ?thesis
    using max none even
    by (simp add: negotiate_def parse_versions_payload [OF assms] Let_def even_iff_mod_2_eq_zero)
qed

lemma negotiate_highest_mutual_example:
  "hs_negotiatedVersion (snd (negotiate \<lparr>CircID = 0, Command = CmdVersions, Payload = versions_payload [1, 4, 3]\<rparr>
     (NewHandshake relay_conn))) = 4"
proof -
  have i: "set [1, 4, 3] \<inter> {3..5} = {3, 4 :: int}"
    by auto
  have bound: "0 \<le> v \<and> v < 65536" if "v \<in> set [1, 4, 3 :: int]" for v
    using that by auto
  show ?thesis
    using negotiate_highest_mutual [of "[1, 4, 3]" 0 "NewHandshake relay_conn", OF bound] unfolding i
    by (simp split: prod.splits option.splits)
qed

text \<open>
  C36: The handshake never completes. DecodeCell gives every VERSIONS cell a payload of 509
  bytes, the fixed size, and receiveVersions refuses an odd length: whatever the peer sends
  and however the races end, PerformHandshake returns an error.
\<close>

theorem handshake_never_completes:
  "fst (PerformHandshake r1 r2 now h) \<noteq> None"
proof -
  have payload: "length (Payload x) = 509" if "DecodeCell bs = Inr (x, rest)" "Command x = CmdVersions" for bs x rest
    using that by (auto simp: DecodeCell_def IsVariableLength_def Let_def read_full_Inr word_le_nat_alt
        split: sum.splits if_splits prod.splits)
  have "fst (receiveVersions r h1) \<noteq> None" for r h1
    using payload
    by (auto simp: receiveVersions_def receive_cell_def negotiate_def ReceiveCell_def Let_def
        split: race.splits sum.splits prod.splits if_splits)
  then show ?thesis
    by (auto simp: PerformHandshake_def split: prod.splits option.splits) (metis fst_conv option.distinct(1))
qed

end
