(* ===== verification/BaseEncoding.thy ===== *)
theory BaseEncoding
  imports Isolation
begin

section \<open>encoding/base32 and encoding/base64 as the onion code uses them\<close>

text \<open>
  The two text encodings of the standard library behind .onion addresses and descriptors:
  base32.StdEncoding.WithPadding(NoPadding) and base64.StdEncoding. Both decoders skip
  carriage returns and newlines. The round trips and the exactness lemmas of a full group are
  what the onion theories rest on.
\<close>

definition strip_newlines :: "string \<Rightarrow> string" where
  "strip_newlines s = filter (\<lambda>c. (of_char c :: nat) \<notin> {10, 13}) s"

lemma strip_newlines_append [simp]: "strip_newlines (s @ t) = strip_newlines s @ strip_newlines t"
  by (simp add: strip_newlines_def)

lemma strip_newlines_length: "length (strip_newlines s) \<le> length s"
  by (simp add: strip_newlines_def)

subsection \<open>Base 32\<close>

text \<open>The alphabet A-Z2-7.\<close>

definition b32_char :: "byte \<Rightarrow> char" where
  "b32_char q = char_of (if unat q < 26 then 65 + unat q else 24 + unat q)"

definition b32_val :: "char \<Rightarrow> byte option" where
  "b32_val c =
     (let n = (of_char c :: nat) in
      if 65 \<le> n \<and> n \<le> 90 then Some (of_nat (n - 65))
      else if 50 \<le> n \<and> n \<le> 55 then Some (of_nat (n - 24))
      else None)"

text \<open>The eight 5-bit blocks of five bytes, and back.\<close>

definition b32_blocks :: "byte \<Rightarrow> byte \<Rightarrow> byte \<Rightarrow> byte \<Rightarrow> byte \<Rightarrow> byte list" where
  "b32_blocks a b c d e =
     [take_bit 5 (drop_bit 3 a), take_bit 5 (push_bit 2 a OR drop_bit 6 b), take_bit 5 (drop_bit 1 b),
      take_bit 5 (push_bit 4 b OR drop_bit 4 c), take_bit 5 (push_bit 1 c OR drop_bit 7 d),
      take_bit 5 (drop_bit 2 d), take_bit 5 (push_bit 3 d OR drop_bit 5 e), take_bit 5 e]"

fun b32_pack :: "byte list \<Rightarrow> bytes" where
  "b32_pack [p, q, r, s, t, u, v, w] =
     [push_bit 3 p OR drop_bit 2 q, push_bit 6 q OR push_bit 1 r OR drop_bit 4 s,
      push_bit 4 s OR drop_bit 1 t, push_bit 7 t OR push_bit 2 u OR drop_bit 3 v, push_bit 5 v OR w]"
| "b32_pack [p, q, r, s, t, u, v] =
     [push_bit 3 p OR drop_bit 2 q, push_bit 6 q OR push_bit 1 r OR drop_bit 4 s,
      push_bit 4 s OR drop_bit 1 t, push_bit 7 t OR push_bit 2 u OR drop_bit 3 v]"
| "b32_pack [p, q, r, s, t] =
     [push_bit 3 p OR drop_bit 2 q, push_bit 6 q OR push_bit 1 r OR drop_bit 4 s,
      push_bit 4 s OR drop_bit 1 t]"
| "b32_pack [p, q, r, s] = [push_bit 3 p OR drop_bit 2 q, push_bit 6 q OR push_bit 1 r OR drop_bit 4 s]"
| "b32_pack [p, q] = [push_bit 3 p OR drop_bit 2 q]"
| "b32_pack _ = []"

fun b32_encode :: "bytes \<Rightarrow> string" where
  "b32_encode (a # b # c # d # e # rest) = map b32_char (b32_blocks a b c d e) @ b32_encode rest"
| "b32_encode [a, b, c, d] = map b32_char (take 7 (b32_blocks a b c d 0))"
| "b32_encode [a, b, c] = map b32_char (take 5 (b32_blocks a b c 0 0))"
| "b32_encode [a, b] = map b32_char (take 4 (b32_blocks a b 0 0 0))"
| "b32_encode [a] = map b32_char (take 2 (b32_blocks a 0 0 0 0))"
| "b32_encode [] = []"

text \<open>\<open>all_some\<close> collects the results of a table look-up that may fail.\<close>

fun all_some :: "('a \<Rightarrow> 'b option) \<Rightarrow> 'a list \<Rightarrow> 'b list option" where
  "all_some f [] = Some []"
| "all_some f (x # xs) =
     (case f x of None \<Rightarrow> None | Some y \<Rightarrow> (case all_some f xs of None \<Rightarrow> None | Some ys \<Rightarrow> Some (y # ys)))"

function b32_groups :: "byte list \<Rightarrow> bytes" where
  "b32_groups qs = (if qs = [] then [] else b32_pack (take 8 qs) @ b32_groups (drop 8 qs))"
  by pat_completeness auto

termination
  by (relation "measure length") auto

declare b32_groups.simps [simp del]

definition b32_decode :: "string \<Rightarrow> bytes option" where
  "b32_decode s = map_option b32_groups (all_some b32_val (strip_newlines s))"

lemma all_some_append:
  "all_some f (xs @ ys) =
     (case all_some f xs of None \<Rightarrow> None
      | Some us \<Rightarrow> (case all_some f ys of None \<Rightarrow> None | Some vs \<Rightarrow> Some (us @ vs)))"
  by (induction xs) (auto split: option.splits)

lemma all_some_length: "all_some f xs = Some ys \<Longrightarrow> length ys = length xs"
  by (induction xs arbitrary: ys) (auto split: option.splits)

lemma all_some_map: "(\<And>y. y \<in> set ys \<Longrightarrow> f (g y) = Some y) \<Longrightarrow> all_some f (map g ys) = Some ys"
  by (induction ys) auto

lemma all_some_inv:
  "all_some f xs = Some ys \<Longrightarrow> (\<And>x y. f x = Some y \<Longrightarrow> g y = x) \<Longrightarrow> map g ys = xs"
  by (induction xs arbitrary: ys) (auto split: option.splits)

lemma all_some_all: "all_some f xs = Some ys \<Longrightarrow> y \<in> set ys \<Longrightarrow> \<exists>x. f x = Some y"
  by (induction xs arbitrary: ys) (auto split: option.splits)

lemma b32_val_char: "unat q < 32 \<Longrightarrow> b32_val (b32_char q) = Some q"
  by (auto simp: b32_val_def b32_char_def Let_def)

lemma unat_of_nat_byte: "n < 256 \<Longrightarrow> unat (of_nat n :: byte) = n"
  unfolding unat_of_nat by (rule mod_less) simp

lemma b32_val_Some: "b32_val c = Some q \<Longrightarrow> unat q < 32 \<and> b32_char q = c"
  by (auto simp: b32_val_def b32_char_def Let_def unat_of_nat_byte simp del: of_nat_diff split: if_splits)

lemma byte_bit_high: "8 \<le> n \<Longrightarrow> \<not> bit (w :: byte) n"
  by (auto dest: bit_imp_le_length)

lemma byte_eq_iff:
  "x = (y :: byte) \<longleftrightarrow> bit x 0 = bit y 0 \<and> bit x 1 = bit y 1 \<and> bit x 2 = bit y 2 \<and> bit x 3 = bit y 3
     \<and> bit x 4 = bit y 4 \<and> bit x 5 = bit y 5 \<and> bit x 6 = bit y 6 \<and> bit x 7 = bit y 7"
proof
  assume *: "bit x 0 = bit y 0 \<and> bit x 1 = bit y 1 \<and> bit x 2 = bit y 2 \<and> bit x 3 = bit y 3
     \<and> bit x 4 = bit y 4 \<and> bit x 5 = bit y 5 \<and> bit x 6 = bit y 6 \<and> bit x 7 = bit y 7"
  show "x = y"
  proof (rule bit_word_eqI)
    fix n
    assume "n < LENGTH(8)"
    then have "n = 0 \<or> n = 1 \<or> n = 2 \<or> n = 3 \<or> n = 4 \<or> n = 5 \<or> n = 6 \<or> n = 7" by auto
    with * show "bit x n = bit y n" by auto
  qed
qed simp

lemma bit_byte_push: "bit (push_bit m w :: byte) n \<longleftrightarrow> m \<le> n \<and> n < 8 \<and> bit w (n - m)"
  by (simp add: bit_push_bit_iff possible_bit_word)

lemmas byte_bits = byte_eq_iff byte_bit_high bit_byte_push bit_drop_bit_eq bit_take_bit_iff bit_or_iff comp_apply

lemma unat_less_pow: "k \<le> 8 \<Longrightarrow> unat q < 2 ^ k \<longleftrightarrow> take_bit k q = (q :: byte)"
  by (metis take_bit_nat_eq_self_iff unsigned_take_bit_eq word_unat_eq_iff)

lemma unat_less_32: "unat q < 32 \<longleftrightarrow> take_bit 5 q = (q :: byte)"
  using unat_less_pow [of 5 q] by simp

lemma b32_pack_blocks: "b32_pack (b32_blocks a b c d e) = [a, b, c, d, e]"
  unfolding b32_blocks_def b32_pack.simps list.inject
  by (intro conjI refl) (simp_all only: byte_bits, simp_all, (simp_all add: numeral_2_eq_2 numeral_3_eq_3)?)

lemma b32_blocks_pack:
  assumes "take_bit 5 p = p" "take_bit 5 q = q" "take_bit 5 r = r" "take_bit 5 s = s" "take_bit 5 t = t"
    "take_bit 5 u = u" "take_bit 5 v = v" "take_bit 5 w = w"
  shows "b32_blocks (push_bit 3 p OR drop_bit 2 q) (push_bit 6 q OR push_bit 1 r OR drop_bit 4 s)
      (push_bit 4 s OR drop_bit 1 t) (push_bit 7 t OR push_bit 2 u OR drop_bit 3 v) (push_bit 5 v OR w)
    = [p, q, r, s, t, u, v, w]"
  using assms
  unfolding b32_blocks_def list.inject
  by (intro conjI refl) (simp_all only: byte_bits, simp_all, (simp_all add: numeral_2_eq_2 numeral_3_eq_3)?)

lemma b32_groups_nil [simp]: "b32_groups [] = []"
  by (simp add: b32_groups.simps)

lemma b32_groups_append: "length qs = 8 \<Longrightarrow> b32_groups (qs @ rest) = b32_pack qs @ b32_groups rest"
  by (cases "qs = []") (simp_all add: b32_groups.simps [of "qs @ rest"])

lemma length_b32_blocks [simp]: "length (b32_blocks a b c d e) = 8"
  by (simp add: b32_blocks_def)

lemma b32_blocks_small: "q \<in> set (b32_blocks a b c d e) \<Longrightarrow> unat q < 32"
  by (auto simp: b32_blocks_def unat_less_32)

lemma b32_char_not_newline: "unat q < 32 \<Longrightarrow> (of_char (b32_char q) :: nat) \<notin> {10, 13}"
  by (auto simp: b32_char_def)

lemma strip_newlines_id: "(\<And>c. c \<in> set s \<Longrightarrow> (of_char c :: nat) \<notin> {10, 13}) \<Longrightarrow> strip_newlines s = s"
  unfolding strip_newlines_def by (rule filter_True) blast

text \<open>Whole groups: decoding what was encoded, and the converse.\<close>

lemma b32_encode_group:
  "length g = 5 \<Longrightarrow> \<exists>qs. length qs = 8 \<and> (\<forall>q\<in>set qs. unat q < 32) \<and> b32_pack qs = g
     \<and> (\<forall>rest. b32_encode (g @ rest) = map b32_char qs @ b32_encode rest)"
proof -
  assume "length g = 5"
  then obtain a b c d e where g: "g = [a, b, c, d, e]"
    by (auto simp: numeral_eq_Suc length_Suc_conv)
  show ?thesis
    by (rule exI [of _ "b32_blocks a b c d e"])
       (simp add: g b32_pack_blocks ball_conj_distrib b32_blocks_small)
qed

lemma b32_encode_groups:
  "5 dvd length bs \<Longrightarrow>
     \<exists>qs. b32_encode bs = map b32_char qs \<and> (\<forall>q\<in>set qs. unat q < 32) \<and> b32_groups qs = bs
       \<and> 5 * length qs = 8 * length bs"
proof (induction bs rule: length_induct)
  case (1 bs)
  show ?case
  proof (cases "bs = []")
    case True
    then show ?thesis by simp
  next
    case False
    with "1.prems" have len: "5 \<le> length bs" by (simp add: dvd_imp_le)
    then have "5 dvd length (drop 5 bs)" "length (drop 5 bs) < length bs"
      using "1.prems" False by (auto simp: dvd_diff_nat)
    with "1.IH" obtain qs where qs: "b32_encode (drop 5 bs) = map b32_char qs" "\<forall>q\<in>set qs. unat q < 32"
      "b32_groups qs = drop 5 bs" "5 * length qs = 8 * length (drop 5 bs)" by blast
    from len obtain ps where ps: "length ps = 8" "\<forall>q\<in>set ps. unat q < 32" "b32_pack ps = take 5 bs"
      "\<forall>rest. b32_encode (take 5 bs @ rest) = map b32_char ps @ b32_encode rest"
      using b32_encode_group [of "take 5 bs"] by auto
    have "b32_encode bs = map b32_char (ps @ qs)"
      using ps(4) qs(1) by (metis append_take_drop_id map_append)
    moreover have "b32_groups (ps @ qs) = bs"
      by (simp add: b32_groups_append ps qs)
    moreover have "5 * length (ps @ qs) = 8 * length bs"
      using len ps(1) qs(4) by simp
    ultimately show ?thesis
      using ps(2) qs(2) by (metis Un_iff set_append)
  qed
qed

lemma b32_decode_encode: "5 dvd length bs \<Longrightarrow> b32_decode (b32_encode bs) = Some bs"
proof -
  assume "5 dvd length bs"
  then obtain qs where qs: "b32_encode bs = map b32_char qs" "\<forall>q\<in>set qs. unat q < 32" "b32_groups qs = bs"
    using b32_encode_groups by blast
  have "strip_newlines (map b32_char qs) = map b32_char qs"
    using qs(2) b32_char_not_newline by (intro strip_newlines_id) auto
  moreover have "all_some b32_val (map b32_char qs) = Some qs"
    using qs(2) by (intro all_some_map b32_val_char) blast
  ultimately show ?thesis by (simp add: b32_decode_def qs)
qed

lemma length_b32_encode: "5 dvd length bs \<Longrightarrow> 5 * length (b32_encode bs) = 8 * length bs"
  using b32_encode_groups [of bs] by auto

lemma b32_encode_pack:
  assumes "length qs = 8" "\<forall>q\<in>set qs. unat q < 32"
  shows "length (b32_pack qs) = 5 \<and> (\<forall>rest. b32_encode (b32_pack qs @ rest) = map b32_char qs @ b32_encode rest)"
proof -
  from assms(1) obtain p q r s t u v w where qs: "qs = [p, q, r, s, t, u, v, w]"
    by (auto simp: numeral_eq_Suc length_Suc_conv)
  with assms(2) have "take_bit 5 p = p" "take_bit 5 q = q" "take_bit 5 r = r" "take_bit 5 s = s"
    "take_bit 5 t = t" "take_bit 5 u = u" "take_bit 5 v = v" "take_bit 5 w = w"
    by (simp_all add: unat_less_32)
  from b32_blocks_pack [OF this] show ?thesis
    unfolding qs b32_pack.simps append.simps b32_encode.simps by (simp only: list.map append.simps list.size) simp
qed

lemma b32_encode_groups_inv:
  "8 dvd length qs \<Longrightarrow> \<forall>q\<in>set qs. unat q < 32 \<Longrightarrow> b32_encode (b32_groups qs) = map b32_char qs"
proof (induction qs rule: b32_groups.induct)
  case (1 qs)
  show ?case
  proof (cases "qs = []")
    case True
    then show ?thesis by simp
  next
    case False
    with "1.prems"(1) have len: "8 \<le> length qs" by (simp add: dvd_imp_le)
    have "b32_encode (b32_groups (drop 8 qs)) = map b32_char (drop 8 qs)"
    proof (rule "1.IH" [OF False])
      show "8 dvd length (drop 8 qs)" using "1.prems"(1) by (simp add: dvd_diff_nat)
      show "\<forall>q\<in>set (drop 8 qs). unat q < 32" using "1.prems"(2) by (meson in_set_dropD)
    qed
    moreover have "\<forall>rest. b32_encode (b32_pack (take 8 qs) @ rest) = map b32_char (take 8 qs) @ b32_encode rest"
      using b32_encode_pack [of "take 8 qs"] len "1.prems"(2) by (auto dest: in_set_takeD)
    ultimately show ?thesis
      using False by (metis append_take_drop_id b32_groups.simps map_append)
  qed
qed

lemma b32_pack_length: "length (b32_pack qs) \<le> 5 \<and> (length (b32_pack qs) = 5 \<longrightarrow> length qs = 8)"
  by (rule b32_pack.cases [of qs]) simp_all

lemma length_b32_groups: "8 * length (b32_groups qs) \<le> 5 * length qs"
proof (induction qs rule: b32_groups.induct)
  case (1 qs)
  have "8 * length (b32_pack (take 8 qs)) \<le> 5 * length (take 8 qs)"
    by (rule b32_pack.cases [of "take 8 qs"]) simp_all
  with 1 show ?case
    by (cases "qs = []") (auto simp: b32_groups.simps [of qs])
qed

text \<open>A decoded 56-character string of 35 bytes had no line breaks, and is the encoding of its bytes.\<close>

lemma b32_decode_full:
  assumes "b32_decode s = Some bs" and "5 * length s = 8 * length bs"
  shows "b32_encode bs = s"
proof -
  from assms(1) obtain qs where qs: "all_some b32_val (strip_newlines s) = Some qs" "bs = b32_groups qs"
    by (auto simp: b32_decode_def)
  have len: "length qs = length (strip_newlines s)" using qs(1) by (rule all_some_length)
  with length_b32_groups [of qs] qs(2) assms(2) strip_newlines_length [of s]
  have eq: "length (strip_newlines s) = length s" "5 * length qs = 8 * length bs" by auto
  have strip: "strip_newlines s = s"
    using eq(1) unfolding strip_newlines_def by (metis filter_True length_filter_less less_irrefl)
  have "8 dvd 5 * length qs" by (simp add: eq(2))
  then have "8 dvd length qs" by presburger
  moreover have "\<forall>q\<in>set qs. unat q < 32" using qs(1) b32_val_Some all_some_all by metis
  ultimately have "b32_encode bs = map b32_char qs" by (simp add: qs(2) b32_encode_groups_inv)
  also have "\<dots> = s" using qs(1) b32_val_Some unfolding strip by (intro all_some_inv) blast+
  finally show ?thesis .
qed

subsection \<open>Base 64\<close>

definition b64_char :: "byte \<Rightarrow> char" where
  "b64_char q = char_of
     (let n = unat q in
      if n < 26 then 65 + n else if n < 52 then 71 + n else if n < 62 then n - 4
      else if n = 62 then 43 else 47)"

definition b64_val :: "char \<Rightarrow> byte option" where
  "b64_val c =
     (let n = (of_char c :: nat) in
      if 65 \<le> n \<and> n \<le> 90 then Some (of_nat (n - 65))
      else if 97 \<le> n \<and> n \<le> 122 then Some (of_nat (n - 71))
      else if 48 \<le> n \<and> n \<le> 57 then Some (of_nat (n + 4))
      else if n = 43 then Some 62
      else if n = 47 then Some 63
      else None)"

definition b64_blocks :: "byte \<Rightarrow> byte \<Rightarrow> byte \<Rightarrow> byte list" where
  "b64_blocks a b c =
     [drop_bit 2 a, take_bit 6 (push_bit 4 a OR drop_bit 4 b), take_bit 6 (push_bit 2 b OR drop_bit 6 c),
      take_bit 6 c]"

fun b64_encode :: "bytes \<Rightarrow> string" where
  "b64_encode (a # b # c # rest) = map b64_char (b64_blocks a b c) @ b64_encode rest"
| "b64_encode [a, b] = map b64_char (take 3 (b64_blocks a b 0)) @ ''=''"
| "b64_encode [a] = map b64_char (take 2 (b64_blocks a 0 0)) @ ''==''"
| "b64_encode [] = []"

text \<open>
  DecodeString: quanta of four characters, with one or two padding characters allowed in the
  last one and nothing after them; any other character is an error.
\<close>

fun b64_quanta :: "string \<Rightarrow> bytes option" where
  "b64_quanta [] = Some []"
| "b64_quanta (c1 # c2 # c3 # c4 # rest) =
     (case (b64_val c1, b64_val c2) of
        (Some p, Some q) \<Rightarrow>
          (if c3 = CHR ''='' then
             (if c4 = CHR ''='' \<and> rest = [] then Some [push_bit 2 p OR drop_bit 4 q] else None)
           else
             (case b64_val c3 of
                None \<Rightarrow> None
              | Some r \<Rightarrow>
                  (if c4 = CHR ''='' then
                     (if rest = [] then Some [push_bit 2 p OR drop_bit 4 q, push_bit 4 q OR drop_bit 2 r] else None)
                   else
                     (case (b64_val c4, b64_quanta rest) of
                        (Some s, Some bs) \<Rightarrow>
                          Some ([push_bit 2 p OR drop_bit 4 q, push_bit 4 q OR drop_bit 2 r, push_bit 6 r OR s] @ bs)
                      | _ \<Rightarrow> None))))
      | _ \<Rightarrow> None)"
| "b64_quanta _ = None"

definition b64_decode :: "string \<Rightarrow> bytes option" where
  "b64_decode s = b64_quanta (strip_newlines s)"

lemma b64_val_char: "unat q < 64 \<Longrightarrow> b64_val (b64_char q) = Some q"
proof -
  have code: "(of_char (b64_char q) :: nat) = k" if "k < 256" "b64_char q = char_of k" for k
    using that by simp
  assume "unat q < 64"
  then consider "unat q < 26" | "26 \<le> unat q" "unat q < 52" | "52 \<le> unat q" "unat q < 62"
    | "unat q = 62" | "unat q = 63" by linarith
  then show ?thesis
  proof cases
    case 1
    with code [of "65 + unat q"] show ?thesis by (simp add: b64_val_def b64_char_def)
  next
    case 2
    then have "(of_char (b64_char q) :: nat) = 71 + unat q" by (intro code) (simp_all add: b64_char_def)
    with 2 show ?thesis by (simp add: b64_val_def Let_def)
  next
    case 3
    then have "(of_char (b64_char q) :: nat) = unat q - 4" by (intro code) (simp_all add: b64_char_def)
    with 3 have "(of_char (b64_char q) :: nat) + 4 = unat q" "48 \<le> (of_char (b64_char q) :: nat)"
      "(of_char (b64_char q) :: nat) \<le> 57" by linarith+
    then show ?thesis by (simp add: b64_val_def Let_def del: of_nat_add)
  next
    case 4
    then have "q = 62" by (simp add: word_unat_eq_iff)
    then show ?thesis by (simp add: b64_val_def b64_char_def)
  next
    case 5
    then have "q = 63" by (simp add: word_unat_eq_iff)
    then show ?thesis by (simp add: b64_val_def b64_char_def)
  qed
qed

lemma unat_less_64: "unat q < 64 \<longleftrightarrow> take_bit 6 q = (q :: byte)"
  using unat_less_pow [of 6 q] by simp

lemma take_drop_bit_byte: "take_bit 6 (drop_bit 2 a) = (drop_bit 2 a :: byte)"
  by (simp only: byte_bits, simp)

lemma b64_blocks_small: "q \<in> set (b64_blocks a b c) \<Longrightarrow> unat q < 64"
proof -
  have tt: "take_bit 6 (take_bit 6 (x :: byte)) = take_bit 6 x" for x
    by simp
  assume "q \<in> set (b64_blocks a b c)"
  then have "take_bit 6 q = q"
    unfolding b64_blocks_def list.set insert_iff empty_iff
    by (elim disjE) (simp_all only: take_drop_bit_byte tt)
  then show "unat q < 64"
    by (simp only: unat_less_64)
qed

lemma b64_pack_blocks:
  "b64_blocks a b c = [p, q, r, s] \<Longrightarrow>
     push_bit 2 p OR drop_bit 4 q = a \<and> push_bit 4 q OR drop_bit 2 r = b \<and> push_bit 6 r OR s = c"
  unfolding b64_blocks_def list.inject
  by (elim conjE, hypsubst, intro conjI)
     (simp_all only: byte_bits, simp_all, (simp_all add: numeral_2_eq_2 numeral_3_eq_3)?)

text \<open>Every character of an encoding is printable: no space, no line break, no dash.\<close>

definition b64_text :: "char \<Rightarrow> bool" where
  "b64_text c \<longleftrightarrow> (of_char c :: nat) \<in> {43, 47, 61} \<or> 48 \<le> (of_char c :: nat) \<and> (of_char c :: nat) \<le> 122"

lemma b64_char_text: "unat q < 64 \<Longrightarrow> b64_text (b64_char q) \<and> b64_char q \<noteq> CHR ''=''"
  using b64_val_char [of q] by (auto simp: b64_val_def b64_text_def Let_def split: if_splits)

lemma b64_block_text: "q \<in> set (b64_blocks a b c) \<Longrightarrow> b64_text (b64_char q)"
  using b64_blocks_small b64_char_text by blast

lemma b64_encode_text: "c \<in> set (b64_encode bs) \<Longrightarrow> b64_text c"
proof (induction bs rule: b64_encode.induct)
  case (1 a b d rest)
  then show ?case using b64_block_text by auto
next
  case (2 a b)
  moreover have "b64_text CHR ''=''" by (simp add: b64_text_def)
  ultimately show ?case by (auto dest!: in_set_takeD dest: b64_block_text)
next
  case (3 a)
  moreover have "b64_text CHR ''=''" by (simp add: b64_text_def)
  ultimately show ?case by (auto dest!: in_set_takeD dest: b64_block_text)
qed simp

lemma b64_quanta_encode: "b64_quanta (b64_encode bs) = Some bs"
proof (induction bs rule: b64_encode.induct)
  case (1 a b c rest)
  obtain p q r s where q: "b64_blocks a b c = [p, q, r, s]" by (simp add: b64_blocks_def)
  then have "unat p < 64" "unat q < 64" "unat r < 64" "unat s < 64"
    using b64_blocks_small [of _ a b c] by simp_all
  with 1 q b64_pack_blocks [OF q] show ?case
    by (simp add: b64_val_char b64_char_text)
next
  case (2 a b)
  obtain p q r s where q: "b64_blocks a b 0 = [p, q, r, s]" by (simp add: b64_blocks_def)
  then have "unat p < 64" "unat q < 64" "unat r < 64"
    using b64_blocks_small [of _ a b 0] by simp_all
  with q b64_pack_blocks [OF q] show ?case
    by (simp add: b64_val_char b64_char_text numeral_3_eq_3)
next
  case (3 a)
  obtain p q r s where q: "b64_blocks a 0 0 = [p, q, r, s]" by (simp add: b64_blocks_def)
  then have "unat p < 64" "unat q < 64"
    using b64_blocks_small [of _ a 0 0] by simp_all
  with q b64_pack_blocks [OF q] show ?case
    by (simp add: b64_val_char b64_char_text numeral_2_eq_2)
qed simp

lemma b64_decode_encode [simp]: "b64_decode (b64_encode bs) = Some bs"
proof -
  have "strip_newlines (b64_encode bs) = b64_encode bs"
    by (rule strip_newlines_id) (auto dest!: b64_encode_text simp: b64_text_def)
  then show ?thesis by (simp add: b64_decode_def b64_quanta_encode)
qed

lemma b64_encode_nil [simp]: "b64_encode bs = [] \<longleftrightarrow> bs = []"
  by (cases bs rule: b64_encode.cases) (auto simp: b64_blocks_def)

end
