(* ===== verification/OnionAddress.thy ===== *)
theory OnionAddress
  imports BaseEncoding
begin

section \<open>pkg/onion/onion.go: .onion addresses\<close>

text \<open>
  Parsing and printing of version 3 addresses. SHA3-256 (crypto/sha3) is the parameter
  \<open>sha3\<close>. Go's AddressVersion is an int, of which only the value 3 is named.
\<close>

definition V3AddressLength :: nat where "V3AddressLength = 56"
definition V3Suffix :: string where "V3Suffix = ''.onion''"
definition V3Version :: byte where "V3Version = 3"
definition V3ChecksumLen :: nat where "V3ChecksumLen = 2"
definition V3PubkeyLen :: nat where "V3PubkeyLen = 32"

definition AddressVersion_V3 :: int where "AddressVersion_V3 = 3"

record address =
  ad_Version :: int
  ad_Pubkey :: bytes
  ad_Raw :: string

datatype address_error =
    UnsupportedAddressFormat
  | InvalidBase32
  | InvalidAddressLength nat
  | InvalidVersionByte byte
  | InvalidChecksum

definition has_suffix :: "string \<Rightarrow> string \<Rightarrow> bool" where
  "has_suffix suf s \<longleftrightarrow> length suf \<le> length s \<and> drop (length s - length suf) s = suf"

definition trim_suffix :: "string \<Rightarrow> string \<Rightarrow> string" where
  "trim_suffix suf s = (if has_suffix suf s then take (length s - length suf) s else s)"

definition upper_char :: "char \<Rightarrow> char" where
  "upper_char c = (if 97 \<le> (of_char c :: nat) \<and> (of_char c :: nat) \<le> 122 then char_of (of_char c - 32 :: nat) else c)"

text \<open>
  hash[:2] of the digest of the prefix, the key and the version byte; a SHA3-256 digest has 32
  bytes, so the slice is always there.
\<close>

definition computeV3Checksum :: "(bytes \<Rightarrow> bytes) \<Rightarrow> bytes \<Rightarrow> byte \<Rightarrow> bytes" where
  "computeV3Checksum sha3 pubkey version =
     take 2 (sha3 (bytes_of_string ''.onion checksum'' @ pubkey @ [version]))"

definition parseV3Address :: "(bytes \<Rightarrow> bytes) \<Rightarrow> string \<Rightarrow> address_error + address" where
  "parseV3Address sha3 addr =
     (case b32_decode (map upper_char addr) of
        None \<Rightarrow> Inl InvalidBase32
      | Some decoded \<Rightarrow>
          if length decoded \<noteq> V3PubkeyLen + V3ChecksumLen + 1 then Inl (InvalidAddressLength (length decoded))
          else
            let pubkey = take V3PubkeyLen decoded;
                checksum = take V3ChecksumLen (drop V3PubkeyLen decoded);
                version = decoded ! (V3PubkeyLen + V3ChecksumLen) in
            if version \<noteq> V3Version then Inl (InvalidVersionByte version)
            else
              let expected = computeV3Checksum sha3 pubkey version in
              if checksum ! 0 \<noteq> expected ! 0 \<or> checksum ! 1 \<noteq> expected ! 1 then Inl InvalidChecksum
              else Inr \<lparr>ad_Version = AddressVersion_V3, ad_Pubkey = pubkey, ad_Raw = addr @ V3Suffix\<rparr>)"

definition ParseAddress :: "(bytes \<Rightarrow> bytes) \<Rightarrow> string \<Rightarrow> address_error + address" where
  "ParseAddress sha3 addr0 =
     (let addr = trim_suffix V3Suffix addr0 in
      if length addr = V3AddressLength then parseV3Address sha3 addr else Inl UnsupportedAddressFormat)"

definition Address_Encode :: "(bytes \<Rightarrow> bytes) \<Rightarrow> address \<Rightarrow> string" where
  "Address_Encode sha3 a =
     (if ad_Version a \<noteq> AddressVersion_V3 then []
      else
        let checksum = computeV3Checksum sha3 (ad_Pubkey a) V3Version in
        to_lower (b32_encode (ad_Pubkey a @ checksum @ [V3Version])) @ V3Suffix)"

definition Address_String :: "(bytes \<Rightarrow> bytes) \<Rightarrow> address \<Rightarrow> string" where
  "Address_String sha3 a = (if ad_Raw a \<noteq> [] then ad_Raw a else Address_Encode sha3 a)"

definition IsOnionAddress :: "string \<Rightarrow> bool" where
  "IsOnionAddress addr = has_suffix V3Suffix addr"

lemmas address_consts = V3AddressLength_def V3Suffix_def V3Version_def V3ChecksumLen_def V3PubkeyLen_def
  AddressVersion_V3_def

subsection \<open>Case and suffix\<close>

lemma trim_suffix_append [simp]: "trim_suffix suf (s @ suf) = s"
  by (simp add: trim_suffix_def has_suffix_def)

lemma has_suffix_append [simp]: "has_suffix suf (s @ suf)"
  by (simp add: has_suffix_def)

lemma has_suffix_iff: "has_suffix suf s \<longleftrightarrow> (\<exists>p. s = p @ suf)"
proof
  assume "has_suffix suf s"
  then have "s = take (length s - length suf) s @ suf"
    unfolding has_suffix_def by (metis append_take_drop_id)
  then show "\<exists>p. s = p @ suf" by blast
qed auto

lemma to_lower_char_iff: "to_lower_char (upper_char c) = to_lower_char c"
proof -
  have "(of_char c - 32) mod 256 = (of_char c - 32 :: nat)" if "(of_char c :: nat) \<le> 122"
    using that by simp
  moreover have "of_char c - 32 + 32 = (of_char c :: nat)" if "97 \<le> (of_char c :: nat)"
    using that by simp
  ultimately show ?thesis
    by (auto simp: to_lower_char_def upper_char_def)
qed

lemma upper_lower_b32: "unat q < 32 \<Longrightarrow> upper_char (to_lower_char (b32_char q)) = b32_char q"
  by (auto simp: upper_char_def to_lower_char_def b32_char_def)

lemma map_upper_lower_encode:
  "5 dvd length bs \<Longrightarrow> map upper_char (to_lower (b32_encode bs)) = b32_encode bs"
  using b32_encode_groups [of bs] by (auto simp: to_lower_def upper_lower_b32)

lemma upper_eq_lower: "map upper_char s = b32_encode bs \<Longrightarrow> to_lower s = to_lower (b32_encode bs)"
  by (drule sym) (simp add: to_lower_def to_lower_char_iff)

lemma lower_eq_upper: "5 dvd length bs \<Longrightarrow> to_lower s = to_lower (b32_encode bs) \<Longrightarrow> map upper_char s = b32_encode bs"
proof -
  assume "5 dvd length bs" and eq: "to_lower s = to_lower (b32_encode bs)"
  then have *: "map upper_char (to_lower s) = b32_encode bs" by (simp add: map_upper_lower_encode)
  have "upper_char (to_lower_char c) = upper_char c" for c
    by (auto simp: upper_char_def to_lower_char_def)
  with * show ?thesis by (simp add: to_lower_def comp_def)
qed

lemma checksum_length: "(\<And>x. length (sha3 x) = 32) \<Longrightarrow> length (computeV3Checksum sha3 pk v) = 2"
  by (simp add: computeV3Checksum_def)

lemma pair_list: "length xs = 2 \<Longrightarrow> length ys = 2 \<Longrightarrow> xs = ys \<longleftrightarrow> xs ! 0 = ys ! 0 \<and> xs ! 1 = ys ! 1"
  by (auto simp: numeral_2_eq_2 length_Suc_conv)

subsection \<open>Parsing is exact\<close>

lemma parseV3Address_iff:
  assumes sha3: "\<And>x. length (sha3 x) = 32" and len: "length addr = 56"
  shows "parseV3Address sha3 addr = Inr a \<longleftrightarrow>
     (\<exists>pk. length pk = 32 \<and> a = \<lparr>ad_Version = 3, ad_Pubkey = pk, ad_Raw = addr @ V3Suffix\<rparr>
        \<and> Address_Encode sha3 a = to_lower addr @ V3Suffix)" (is "_ \<longleftrightarrow> ?rhs")
proof
  assume p: "parseV3Address sha3 addr = Inr a"
  then obtain bs where bs: "b32_decode (map upper_char addr) = Some bs"
    by (auto simp: parseV3Address_def split: option.splits)
  define pk where "pk = take 32 bs"
  let ?cs = "computeV3Checksum sha3 pk 3"
  from p bs have l: "length bs = 35"
    by (auto simp: parseV3Address_def address_consts split: if_splits)
  with p bs have v: "bs ! 34 = 3"
    and eq: "take 2 (drop 32 bs) ! 0 = ?cs ! 0" "take 2 (drop 32 bs) ! 1 = ?cs ! 1"
    and a: "a = \<lparr>ad_Version = 3, ad_Pubkey = pk, ad_Raw = addr @ V3Suffix\<rparr>"
    by (auto simp: parseV3Address_def address_consts Let_def pk_def split: if_splits option.splits)
  have "length ?cs = 2" using sha3 by (rule checksum_length)
  with l eq have "take 2 (drop 32 bs) = ?cs" by (subst pair_list) simp_all
  moreover have "bs = take 32 bs @ take 2 (drop 32 bs) @ [bs ! 34]"
  proof (rule nth_equalityI)
    fix i
    assume "i < length bs"
    with l have "i < 32 \<or> i = 32 \<or> i = 33 \<or> i = 34" by auto
    with l show "bs ! i = (take 32 bs @ take 2 (drop 32 bs) @ [bs ! 34]) ! i"
      by (auto simp: nth_append)
  qed (simp add: l)
  ultimately have bs_eq: "bs = pk @ ?cs @ [3]" using v by (simp add: pk_def)
  have "b32_encode bs = map upper_char addr"
    by (rule b32_decode_full [OF bs]) (simp add: l len)
  then have "to_lower (b32_encode bs) = to_lower addr" by (metis upper_eq_lower)
  with bs_eq a l show ?rhs
    by (intro exI [of _ pk]) (simp add: Address_Encode_def address_consts pk_def)
next
  assume ?rhs
  then obtain pk where pk: "length pk = 32" and a: "a = \<lparr>ad_Version = 3, ad_Pubkey = pk, ad_Raw = addr @ V3Suffix\<rparr>"
    and enc: "to_lower (b32_encode (pk @ computeV3Checksum sha3 pk 3 @ [3])) = to_lower addr"
    by (auto simp: Address_Encode_def address_consts)
  let ?cs = "computeV3Checksum sha3 pk 3"
  have l: "length ?cs = 2" using sha3 by (rule checksum_length)
  then have d: "5 dvd length (pk @ ?cs @ [3])" using pk by simp
  with enc have "map upper_char addr = b32_encode (pk @ ?cs @ [3])" by (simp add: lower_eq_upper)
  with d have "b32_decode (map upper_char addr) = Some (pk @ ?cs @ [3])" by (simp add: b32_decode_encode)
  moreover have "(pk @ ?cs @ [3]) ! 34 = 3" using pk l by (simp add: nth_append)
  ultimately show "parseV3Address sha3 addr = Inr a"
    using pk l a by (simp add: parseV3Address_def address_consts Let_def)
qed

lemma length_address_encode:
  assumes "\<And>x. length (sha3 x) = 32" and "ad_Version a = 3" and "length (ad_Pubkey a) = 32"
  shows "\<exists>e. Address_Encode sha3 a = e @ V3Suffix \<and> length e = 56 \<and> to_lower e = e"
proof -
  let ?bs = "ad_Pubkey a @ computeV3Checksum sha3 (ad_Pubkey a) 3 @ [3]"
  have "length ?bs = 35" using assms by (simp add: checksum_length)
  with length_b32_encode [of ?bs] have "length (b32_encode ?bs) = 56" by simp
  moreover have "to_lower_char (to_lower_char c) = to_lower_char c" for c
    by (auto simp: to_lower_char_def)
  ultimately show ?thesis
    by (intro exI [of _ "to_lower (b32_encode ?bs)"])
       (simp add: to_lower_def Address_Encode_def address_consts assms(2))
qed

text \<open>
  C15: Parsing accepts exactly the addresses of 32-byte keys: a string parses to a key if and
  only if the key has 32 bytes and the string without its optional .onion suffix, in any
  mixture of cases, is the encoding of that key.
\<close>

theorem parse_address_exact:
  assumes sha3: "\<And>x. length (sha3 x) = 32"
  shows "(\<exists>a. ParseAddress sha3 s = Inr a \<and> ad_Pubkey a = pk) \<longleftrightarrow>
     length pk = 32 \<and>
     Address_Encode sha3 \<lparr>ad_Version = 3, ad_Pubkey = pk, ad_Raw = raw\<rparr>
       = to_lower (trim_suffix ''.onion'' s) @ ''.onion''"
proof -
  let ?t = "trim_suffix ''.onion'' s"
  have enc: "Address_Encode sha3 \<lparr>ad_Version = 3, ad_Pubkey = pk, ad_Raw = raw\<rparr>
      = Address_Encode sha3 \<lparr>ad_Version = 3, ad_Pubkey = pk, ad_Raw = r\<rparr>" for r
    by (simp add: Address_Encode_def)
  show ?thesis
  proof (cases "length ?t = 56")
    case True
    then have parse: "ParseAddress sha3 s = parseV3Address sha3 ?t"
      by (simp add: ParseAddress_def address_consts)
    show ?thesis
      unfolding parse parseV3Address_iff [OF sha3 True] using enc [of "?t @ ''.onion''"] by (auto simp: V3Suffix_def)
  next
    case False
    then have "\<not> (\<exists>a. ParseAddress sha3 s = Inr a)" by (simp add: ParseAddress_def address_consts)
    moreover have "length ?t = 56" if "length pk = 32"
      "Address_Encode sha3 \<lparr>ad_Version = 3, ad_Pubkey = pk, ad_Raw = raw\<rparr> = to_lower ?t @ ''.onion''"
      using length_address_encode [of sha3 "\<lparr>ad_Version = 3, ad_Pubkey = pk, ad_Raw = raw\<rparr>", OF sha3] that
      by (auto simp: to_lower_def V3Suffix_def)
    ultimately show ?thesis using False by blast
  qed
qed

theorem parse_address_exact_witness:
  "\<exists>a. ParseAddress (\<lambda>x. zeros 32) (replicate 55 CHR ''a'' @ ''D.onion'') = Inr a \<and> ad_Pubkey a = zeros 32"
  using parse_address_exact [of "\<lambda>x. zeros 32" "replicate 55 CHR ''a'' @ ''D.onion''" "zeros 32" "[]"]
  by (rule iffD2) (simp, code_simp)

text \<open>
  Printing the address of a 32-byte key and parsing the result gives the key back, the
  parsed address prints as the same 62 characters, and they are recognised as an onion address.
\<close>

lemma address_roundtrip:
  assumes sha3: "\<And>x. length (sha3 x) = 32" and pk: "length pk = 32"
    and s: "s = Address_Encode sha3 \<lparr>ad_Version = 3, ad_Pubkey = pk, ad_Raw = []\<rparr>"
  shows "ParseAddress sha3 s = Inr \<lparr>ad_Version = 3, ad_Pubkey = pk, ad_Raw = s\<rparr>
     \<and> Address_String sha3 \<lparr>ad_Version = 3, ad_Pubkey = pk, ad_Raw = s\<rparr> = s
     \<and> IsOnionAddress s \<and> length s = 62"
proof -
  have enc: "Address_Encode sha3 \<lparr>ad_Version = 3, ad_Pubkey = pk, ad_Raw = r\<rparr> = s" for r
    by (simp add: Address_Encode_def s)
  from length_address_encode [of sha3 "\<lparr>ad_Version = 3, ad_Pubkey = pk, ad_Raw = []\<rparr>", OF sha3] pk
  obtain e where e: "s = e @ V3Suffix" "length e = 56" "to_lower e = e"
    unfolding enc by auto
  have "parseV3Address sha3 e = Inr \<lparr>ad_Version = 3, ad_Pubkey = pk, ad_Raw = s\<rparr>"
    unfolding parseV3Address_iff [OF sha3 e(2)] using enc pk e by (intro exI [of _ pk]) simp
  with e show ?thesis
    by (simp add: ParseAddress_def Address_String_def IsOnionAddress_def V3AddressLength_def V3Suffix_def)
qed

lemma address_roundtrip_example:
  "let s = Address_Encode (\<lambda>x. zeros 32) \<lparr>ad_Version = 3, ad_Pubkey = zeros 32, ad_Raw = []\<rparr> in
     ParseAddress (\<lambda>x. zeros 32) s = Inr \<lparr>ad_Version = 3, ad_Pubkey = zeros 32, ad_Raw = s\<rparr>
     \<and> Address_String (\<lambda>x. zeros 32) \<lparr>ad_Version = 3, ad_Pubkey = zeros 32, ad_Raw = s\<rparr> = s
     \<and> IsOnionAddress s \<and> length s = 62"
  unfolding Let_def by (rule address_roundtrip) simp_all

text \<open>
  The address keeps the spelling it was parsed from: two spellings of one key give addresses
  that differ in \<open>ad_Raw\<close>, which is what String returns and what the descriptor cache uses as
  its key.
\<close>

lemma parsed_raw:
  assumes "\<And>x. length (sha3 x) = 32" and "ParseAddress sha3 s = Inr a"
  shows "length (ad_Pubkey a) = 32 \<and> ad_Version a = 3 \<and> Address_String sha3 a = trim_suffix V3Suffix s @ V3Suffix"
proof -
  from assms(2) have "length (trim_suffix V3Suffix s) = 56" "parseV3Address sha3 (trim_suffix V3Suffix s) = Inr a"
    by (auto simp: ParseAddress_def V3AddressLength_def Let_def split: if_splits)
  then show ?thesis by (auto simp: parseV3Address_iff [of sha3, OF assms(1)] Address_String_def)
qed

end
