(* ===== verification/OnionDescriptor.thy ===== *)
theory OnionDescriptor
  imports OnionAddress Directory Conversion
begin

section \<open>pkg/onion/onion.go: descriptors, their identifiers and the descriptor cache\<close>

text \<open>
  The descriptor record, the time period and the identifiers derived from it, and the cache of
  fetched descriptors: a map from the text of an address to a descriptor with its expiry
  time. Loggers and mutexes are left out; each method is one atomic step. A nil slice and an
  empty slice are both the empty list. \<open>sha3\<close> is SHA3-256.
\<close>

definition Minute :: duration where "Minute = 60 * Second"
definition Hour :: duration where "Hour = 60 * Minute"

record LinkSpecifier =
  ls_Type :: byte
  ls_Data :: bytes

record IntroductionPoint =
  ip_LinkSpecifiers :: "LinkSpecifier list"
  ip_OnionKey :: bytes
  ip_AuthKey :: bytes
  ip_EncKey :: bytes
  ip_EncKeyCert :: bytes
  ip_LegacyKeyID :: bytes

record Descriptor =
  de_Version :: int
  de_Address :: "address option"
  de_IntroPoints :: "IntroductionPoint list"
  de_DescriptorID :: bytes
  de_BlindedPubkey :: bytes
  de_RevisionCounter :: u64
  de_Signature :: bytes
  de_DescriptorSigningKeyCert :: bytes
  de_RawDescriptor :: bytes
  de_CreatedAt :: time
  de_Lifetime :: duration

subsection \<open>Time periods and identifiers\<close>

definition be64 :: "u64 \<Rightarrow> bytes" where
  "be64 w = be32 (ucast (drop_bit 32 w)) @ be32 (ucast w)"

lemma length_be64 [simp]: "length (be64 w) = 8"
  by (simp add: be64_def)

definition GetTimePeriod :: "time \<Rightarrow> u64" where
  "GetTimePeriod now =
     (let unixTime = unix_seconds now in
      if unixTime < 0 then 0
      else
        let timePeriod = (unixTime + 12 * 60 * 60) div (24 * 60 * 60) in
        if timePeriod < 0 then 0 else word_of_int timePeriod)"

definition ComputeBlindedPubkey :: "(bytes \<Rightarrow> bytes) \<Rightarrow> bytes \<Rightarrow> u64 \<Rightarrow> bytes" where
  "ComputeBlindedPubkey sha3 pubkey timePeriod =
     sha3 (bytes_of_string ''Derive temporary signing key'' @ pubkey @ be64 timePeriod)"

definition computeDescriptorID :: "(bytes \<Rightarrow> bytes) \<Rightarrow> bytes \<Rightarrow> bytes" where
  "computeDescriptorID sha3 blindedPubkey = sha3 blindedPubkey"

definition createMockDescriptor :: "(bytes \<Rightarrow> bytes) \<Rightarrow> time \<Rightarrow> address \<Rightarrow> Descriptor" where
  "createMockDescriptor sha3 now addr =
     (let timePeriod = GetTimePeriod now;
          blindedPubkey = ComputeBlindedPubkey sha3 (ad_Pubkey addr) timePeriod;
          descriptorID = computeDescriptorID sha3 blindedPubkey;
          revisionCounter = (case SafeUnixToUint64 now of Inl _ \<Rightarrow> 0 | Inr r \<Rightarrow> r)
      in \<lparr>de_Version = 3, de_Address = Some addr, de_IntroPoints = [], de_DescriptorID = descriptorID,
          de_BlindedPubkey = blindedPubkey, de_RevisionCounter = revisionCounter, de_Signature = [],
          de_DescriptorSigningKeyCert = [], de_RawDescriptor = [], de_CreatedAt = now,
          de_Lifetime = 3 * Hour\<rparr>)"

text \<open>The period changes exactly at noon UTC, once a day.\<close>

lemma time_period_bounds:
  assumes "0 \<le> t" and "t < 2 ^ 63 * Second"
  shows "uint (GetTimePeriod t) = (unix_seconds t + 43200) div 86400"
proof -
  have u: "0 \<le> unix_seconds t" "unix_seconds t < 2 ^ 63"
    using assms by (simp_all add: unix_seconds_def Second_def)
  then have "0 \<le> (unix_seconds t + 43200) div 86400" "(unix_seconds t + 43200) div 86400 < 2 ^ 64"
    by (auto simp: div_less_iff_less_mult)
  with u show ?thesis
    by (simp add: GetTimePeriod_def Let_def not_less uint_word_of_int_eq take_bit_int_eq_self)
qed

text \<open>
  Two moments of the same noon-to-noon day give the same time period, hence the same
  blinded key and descriptor identifier, and the period after it is one more.
\<close>

lemma time_period_rotation:
  assumes "0 \<le> day" and "day < 2 ^ 40" and "0 \<le> s" and "s < 86400 * Second"
  shows "uint (GetTimePeriod (day * 86400 * Second + 43200 * Second + s)) = day + 1
    \<and> ComputeBlindedPubkey sha3 pk (GetTimePeriod (day * 86400 * Second + 43200 * Second + s))
        = ComputeBlindedPubkey sha3 pk (GetTimePeriod (day * 86400 * Second + 43200 * Second))"
proof -
  have unix: "unix_seconds (day * 86400 * Second + 43200 * Second + r) = day * 86400 + 43200 + r div Second" for r
  proof -
    have "day * 86400 * Second + 43200 * Second + r = r + (day * 86400 + 43200) * Second"
      by (simp add: algebra_simps)
    then show ?thesis by (simp add: unix_seconds_def Second_def)
  qed
  have period: "uint (GetTimePeriod (day * 86400 * Second + 43200 * Second + r)) = day + 1"
    if "0 \<le> r" "r < 86400 * Second" for r
  proof -
    have q: "0 \<le> r div Second" "r div Second < 86400"
      using that by (simp_all add: Second_def)
    have "uint (GetTimePeriod (day * 86400 * Second + 43200 * Second + r))
        = (unix_seconds (day * 86400 * Second + 43200 * Second + r) + 43200) div 86400"
      using assms(1,2) that by (intro time_period_bounds) (simp_all add: Second_def)
    also have "\<dots> = (day * 86400 + 86400 + r div Second) div 86400"
      unfolding unix by simp
    also have "\<dots> = day + 1" using q by simp
    finally show ?thesis .
  qed
  have "GetTimePeriod (day * 86400 * Second + 43200 * Second + s) = GetTimePeriod (day * 86400 * Second + 43200 * Second + 0)"
    using period [OF assms(3,4)] period [of 0] by (simp add: Second_def word_uint_eq_iff)
  with period [OF assms(3,4)] show ?thesis by simp
qed

lemma time_period_rotation_example:
  "uint (GetTimePeriod (20000 * 86400 * Second + 43200 * Second + 3600 * Second)) = 20000 + 1
    \<and> ComputeBlindedPubkey (\<lambda>x. zeros 32) [7] (GetTimePeriod (20000 * 86400 * Second + 43200 * Second + 3600 * Second))
        = ComputeBlindedPubkey (\<lambda>x. zeros 32) [7] (GetTimePeriod (20000 * 86400 * Second + 43200 * Second))"
  by (rule time_period_rotation) (simp_all add: Second_def)

subsection \<open>The descriptor cache\<close>

record CachedDescriptor =
  cd_Descriptor :: Descriptor
  cd_FetchedAt :: time
  cd_ExpiresAt :: time

type_synonym DescriptorCache = "string \<rightharpoonup> CachedDescriptor"

definition NewDescriptorCache :: DescriptorCache where
  "NewDescriptorCache = Map.empty"

definition DescriptorCache_Get :: "(bytes \<Rightarrow> bytes) \<Rightarrow> time \<Rightarrow> address \<Rightarrow> DescriptorCache \<Rightarrow> Descriptor option" where
  "DescriptorCache_Get sha3 now addr c =
     (case c (Address_String sha3 addr) of
        None \<Rightarrow> None
      | Some cached \<Rightarrow> if now > cd_ExpiresAt cached then None else Some (cd_Descriptor cached))"

definition DescriptorCache_Put ::
  "(bytes \<Rightarrow> bytes) \<Rightarrow> time \<Rightarrow> address \<Rightarrow> Descriptor \<Rightarrow> DescriptorCache \<Rightarrow> DescriptorCache" where
  "DescriptorCache_Put sha3 now addr desc c =
     c(Address_String sha3 addr \<mapsto> \<lparr>cd_Descriptor = desc, cd_FetchedAt = now, cd_ExpiresAt = now + de_Lifetime desc\<rparr>)"

definition DescriptorCache_Remove :: "(bytes \<Rightarrow> bytes) \<Rightarrow> address \<Rightarrow> DescriptorCache \<Rightarrow> DescriptorCache" where
  "DescriptorCache_Remove sha3 addr c = c(Address_String sha3 addr := None)"

definition DescriptorCache_Clear :: "DescriptorCache \<Rightarrow> DescriptorCache" where
  "DescriptorCache_Clear c = Map.empty"

definition DescriptorCache_Size :: "DescriptorCache \<Rightarrow> nat" where
  "DescriptorCache_Size c = card (dom c)"

definition expired_keys :: "time \<Rightarrow> DescriptorCache \<Rightarrow> string set" where
  "expired_keys now c = {k. \<exists>cached. c k = Some cached \<and> now > cd_ExpiresAt cached}"

definition DescriptorCache_CleanExpired :: "time \<Rightarrow> DescriptorCache \<Rightarrow> nat \<times> DescriptorCache" where
  "DescriptorCache_CleanExpired now c =
     (card (expired_keys now c),
      (\<lambda>k. case c k of None \<Rightarrow> None | Some cached \<Rightarrow> if now > cd_ExpiresAt cached then None else Some cached))"

text \<open>Sequences of operations on one cache; each carries the time the clock shows.\<close>

datatype cache_op =
    OpPut time address Descriptor
  | OpRemove address
  | OpClear
  | OpClean time

fun cache_step :: "(bytes \<Rightarrow> bytes) \<Rightarrow> cache_op \<Rightarrow> DescriptorCache \<Rightarrow> DescriptorCache" where
  "cache_step sha3 (OpPut now addr desc) c = DescriptorCache_Put sha3 now addr desc c"
| "cache_step sha3 (OpRemove addr) c = DescriptorCache_Remove sha3 addr c"
| "cache_step sha3 OpClear c = DescriptorCache_Clear c"
| "cache_step sha3 (OpClean now) c = snd (DescriptorCache_CleanExpired now c)"

text \<open>
  The specification: what the last relevant operation of a history left for a key. Cleaning
  does not appear in it.
\<close>

fun last_put :: "(bytes \<Rightarrow> bytes) \<Rightarrow> string \<Rightarrow> cache_op list \<Rightarrow> (time \<times> Descriptor) option" where
  "last_put sha3 k [] = None"
| "last_put sha3 k (OpPut now addr desc # older) =
     (if Address_String sha3 addr = k then Some (now, desc) else last_put sha3 k older)"
| "last_put sha3 k (OpRemove addr # older) = (if Address_String sha3 addr = k then None else last_put sha3 k older)"
| "last_put sha3 k (OpClear # older) = None"
| "last_put sha3 k (OpClean now # older) = last_put sha3 k older"

fun cache_op_time :: "cache_op \<Rightarrow> time option" where
  "cache_op_time (OpPut now addr desc) = Some now"
| "cache_op_time (OpRemove addr) = None"
| "cache_op_time OpClear = None"
| "cache_op_time (OpClean now) = Some now"

definition not_after :: "time \<Rightarrow> cache_op \<Rightarrow> bool" where
  "not_after now x = (case cache_op_time x of None \<Rightarrow> True | Some t \<Rightarrow> t \<le> now)"

lemma cache_run_spec:
  assumes "list_all (not_after now) ops"
  shows "case last_put sha3 k ops of
       None \<Rightarrow> foldr (cache_step sha3) ops NewDescriptorCache k = None
     | Some (t, desc) \<Rightarrow>
         foldr (cache_step sha3) ops NewDescriptorCache k
             = Some \<lparr>cd_Descriptor = desc, cd_FetchedAt = t, cd_ExpiresAt = t + de_Lifetime desc\<rparr>
         \<or> now > t + de_Lifetime desc \<and> foldr (cache_step sha3) ops NewDescriptorCache k = None"
  using assms
proof (induction ops)
  case Nil
  then show ?case by (simp add: NewDescriptorCache_def)
next
  case (Cons x ops)
  then have IH: "case last_put sha3 k ops of
       None \<Rightarrow> foldr (cache_step sha3) ops NewDescriptorCache k = None
     | Some (t, desc) \<Rightarrow>
         foldr (cache_step sha3) ops NewDescriptorCache k
             = Some \<lparr>cd_Descriptor = desc, cd_FetchedAt = t, cd_ExpiresAt = t + de_Lifetime desc\<rparr>
         \<or> now > t + de_Lifetime desc \<and> foldr (cache_step sha3) ops NewDescriptorCache k = None"
    by simp
  show ?case
  proof (cases x)
    case (OpPut t addr desc)
    with IH show ?thesis by (auto simp: DescriptorCache_Put_def split: option.splits)
  next
    case (OpRemove addr)
    with IH show ?thesis by (auto simp: DescriptorCache_Remove_def split: option.splits)
  next
    case OpClear
    then show ?thesis by (simp add: DescriptorCache_Clear_def)
  next
    case (OpClean t)
    then have "t \<le> now" using Cons.prems by (simp add: not_after_def)
    with IH OpClean show ?thesis
      by (auto simp: DescriptorCache_CleanExpired_def split: option.splits)
  qed
qed

text \<open>
  C16: After any sequence of Put, Remove, Clear and CleanExpired on a new cache (newest
  operation first), whose clock readings do not lie in the future, Get returns exactly the
  descriptor of the last Put of that address that no Remove or Clear followed, as long as its
  lifetime has not passed: cleaning is invisible to the reader.
\<close>

theorem cache_refines_last_put:
  assumes "list_all (not_after now) ops"
  shows "DescriptorCache_Get sha3 now addr (foldr (cache_step sha3) ops NewDescriptorCache) =
    (case last_put sha3 (Address_String sha3 addr) ops of
       None \<Rightarrow> None
     | Some (t, desc) \<Rightarrow> if now \<le> t + de_Lifetime desc then Some desc else None)"
  using cache_run_spec [OF assms, of sha3 "Address_String sha3 addr"]
  by (fastforce simp: DescriptorCache_Get_def split: option.splits)

theorem cache_refines_last_put_witness:
  "let a = \<lparr>ad_Version = 3, ad_Pubkey = [1], ad_Raw = ''a.onion''\<rparr>;
       d = createMockDescriptor (\<lambda>x. zeros 32) (5 * Second) a;
       ops = [OpClean (9 * Second), OpPut (6 * Second) a d, OpClear] in
   DescriptorCache_Get (\<lambda>x. zeros 32) (10 * Second) a (foldr (cache_step (\<lambda>x. zeros 32)) ops NewDescriptorCache) =
    (case last_put (\<lambda>x. zeros 32) (Address_String (\<lambda>x. zeros 32) a) ops of
       None \<Rightarrow> None
     | Some (t, desc) \<Rightarrow> if 10 * Second \<le> t + de_Lifetime desc then Some desc else None)"
  unfolding Let_def by (rule cache_refines_last_put) (simp_all add: Second_def not_after_def)

text \<open>CleanExpired reports how many entries it removed, and nothing expired stays.\<close>

lemma clean_expired_exact:
  assumes "finite (dom c)"
  shows "fst (DescriptorCache_CleanExpired now c) + DescriptorCache_Size (snd (DescriptorCache_CleanExpired now c))
      = DescriptorCache_Size c
    \<and> expired_keys now (snd (DescriptorCache_CleanExpired now c)) = {}"
proof -
  let ?c = "snd (DescriptorCache_CleanExpired now c)"
  have "dom ?c = dom c - expired_keys now c"
    by (auto simp: DescriptorCache_CleanExpired_def expired_keys_def split: option.splits if_splits)
  moreover have "expired_keys now c \<subseteq> dom c" by (auto simp: expired_keys_def)
  ultimately have "card (dom ?c) + card (expired_keys now c) = card (dom c)"
    using assms by (metis card_Diff_subset card_mono finite_subset le_add_diff_inverse2)
  then show ?thesis
    by (auto simp: DescriptorCache_Size_def DescriptorCache_CleanExpired_def expired_keys_def split: option.splits if_splits)
qed

text \<open>
  Two spellings of one address are two keys of the cache: what was stored under one is not
  found under the other.
\<close>

lemma cache_misses_other_spelling:
  assumes "ad_Raw a \<noteq> []" and "ad_Raw b \<noteq> []" and "ad_Raw a \<noteq> ad_Raw b"
  shows "DescriptorCache_Get sha3 now b (DescriptorCache_Put sha3 now a desc NewDescriptorCache) = None"
  using assms by (simp add: DescriptorCache_Get_def DescriptorCache_Put_def NewDescriptorCache_def Address_String_def)

end
