(* ===== verification/OnionParser.thy ===== *)
theory OnionParser
  imports OnionDescriptor
begin

section \<open>pkg/onion/onion.go: the descriptor text format\<close>

text \<open>
  ParseDescriptor and EncodeDescriptor. Bytes and characters are the same thing to Go; the
  text functions work on \<^typ>\<open>string\<close>. bytes.TrimSpace, strings.Fields and the scanner of
  fmt.Sscanf are modelled for ASCII white space. time.Now() is the argument \<open>now\<close>.
\<close>

definition string_of_bytes :: "bytes \<Rightarrow> string" where
  "string_of_bytes bs = map (\<lambda>b. char_of (unat b)) bs"

lemma string_of_bytes_of_string [simp]: "string_of_bytes (bytes_of_string s) = s"
proof -
  have "unat (of_nat (of_char c) :: byte) = (of_char c :: nat)" for c :: char
    by (rule unat_of_nat_byte) simp
  then show ?thesis
    by (simp add: string_of_bytes_def bytes_of_string_def comp_def)
qed

subsection \<open>Text helpers of the standard library\<close>

abbreviation newline :: char where "newline \<equiv> CHR 0x0A"

text \<open>bytes.Split at newlines; bytes.TrimSpace; bytes.SplitN at the first space into two.\<close>

fun split_lines :: "string \<Rightarrow> string list" where
  "split_lines [] = [[]]"
| "split_lines (c # cs) =
     (if c = newline then [] # split_lines cs
      else (case split_lines cs of [] \<Rightarrow> [[c]] | l # ls \<Rightarrow> (c # l) # ls))"

definition trim_space :: "string \<Rightarrow> string" where
  "trim_space s = rev (dropWhile is_space (rev (dropWhile is_space s)))"

definition split_keyword :: "string \<Rightarrow> string \<times> string" where
  "split_keyword s = (takeWhile (\<lambda>c. c \<noteq> CHR '' '') s, drop 1 (dropWhile (\<lambda>c. c \<noteq> CHR '' '') s))"

text \<open>Sscanf with the verb d into an int (leading spaces are skipped), and into a uint64.\<close>

definition sscan_int :: "string \<Rightarrow> int option" where
  "sscan_int s = sscanf_d (dropWhile is_space s)"

definition sscan_uint64 :: "string \<Rightarrow> u64 option" where
  "sscan_uint64 s =
     (let tok = takeWhile is_digit (dropWhile is_space s) in
      if tok = [] then None
      else if dec_value tok < 2 ^ 64 then Some (of_nat (dec_value tok)) else None)"

text \<open>Go's int64 arithmetic wraps around.\<close>

definition wrap_int64 :: "int \<Rightarrow> int" where
  "wrap_int64 x = (x + 2 ^ 63) mod 2 ^ 64 - 2 ^ 63"

lemma wrap_int64_id: "- (2 ^ 63) \<le> x \<Longrightarrow> x < 2 ^ 63 \<Longrightarrow> wrap_int64 x = x"
  by (simp add: wrap_int64_def)

subsection \<open>ParseDescriptor\<close>

datatype descriptor_error =
    EmptyDescriptor
  | UnsupportedDescriptorVersion string
  | InvalidLifetime nat
  | InvalidRevisionCounter nat
  | NilDescriptor

record descriptor_parser =
  dp_desc :: Descriptor
  dp_currentIntroPoint :: "IntroductionPoint option"
  dp_inIntroPointBlock :: bool

definition empty_intro_point :: IntroductionPoint where
  "empty_intro_point = \<lparr>ip_LinkSpecifiers = [], ip_OnionKey = [], ip_AuthKey = [], ip_EncKey = [],
                        ip_EncKeyCert = [], ip_LegacyKeyID = []\<rparr>"

definition new_descriptor :: "time \<Rightarrow> bytes \<Rightarrow> Descriptor" where
  "new_descriptor now raw =
     \<lparr>de_Version = 3, de_Address = None, de_IntroPoints = [], de_DescriptorID = [], de_BlindedPubkey = [],
      de_RevisionCounter = 0, de_Signature = [], de_DescriptorSigningKeyCert = [], de_RawDescriptor = raw,
      de_CreatedAt = now, de_Lifetime = 3 * Hour\<rparr>"

text \<open>The lines between the next BEGIN and END markers after the certificate keyword.\<close>

fun certificate_lines :: "bool \<Rightarrow> string list \<Rightarrow> string list" where
  "certificate_lines inCert [] = []"
| "certificate_lines inCert (l # ls) =
     (let line = trim_space l in
      if has_prefix ''-----BEGIN'' line then certificate_lines True ls
      else if has_prefix ''-----END'' line then []
      else if inCert \<and> line \<noteq> [] then line # certificate_lines inCert ls
      else certificate_lines inCert ls)"

definition parse_certificate_block :: "string list \<Rightarrow> Descriptor \<Rightarrow> Descriptor" where
  "parse_certificate_block rest desc =
     (let certLines = certificate_lines False rest in
      if length certLines > 0 then
        (case b64_decode (concat certLines) of
           None \<Rightarrow> desc
         | Some certData \<Rightarrow> desc\<lparr>de_DescriptorSigningKeyCert := certData\<rparr>)
      else desc)"

text \<open>The keys of an introduction point are only taken inside a block.\<close>

definition on_intro_point :: "(IntroductionPoint \<Rightarrow> IntroductionPoint) \<Rightarrow> descriptor_parser \<Rightarrow> descriptor_parser" where
  "on_intro_point f st =
     (case dp_currentIntroPoint st of
        None \<Rightarrow> st
      | Some ip \<Rightarrow> if dp_inIntroPointBlock st then st\<lparr>dp_currentIntroPoint := Some (f ip)\<rparr> else st)"

definition parse_onion_key :: "string list \<Rightarrow> IntroductionPoint \<Rightarrow> IntroductionPoint" where
  "parse_onion_key rest ip =
     (case rest of
        [] \<Rightarrow> ip
      | l # ls \<Rightarrow>
          let keyType = trim_space l in
          if has_prefix ''ntor '' keyType then
            (case b64_decode (drop 5 keyType) of None \<Rightarrow> ip | Some decoded \<Rightarrow> ip\<lparr>ip_OnionKey := decoded\<rparr>)
          else ip)"

definition parse_auth_key :: "string list \<Rightarrow> IntroductionPoint \<Rightarrow> IntroductionPoint" where
  "parse_auth_key rest ip =
     (case rest of
        [] \<Rightarrow> ip
      | l # ls \<Rightarrow> (case b64_decode (trim_space l) of None \<Rightarrow> ip | Some decoded \<Rightarrow> ip\<lparr>ip_AuthKey := decoded\<rparr>))"

definition parse_enc_key :: "string \<Rightarrow> IntroductionPoint \<Rightarrow> IntroductionPoint" where
  "parse_enc_key args ip =
     (let keyParts = str_fields args in
      if length keyParts \<ge> 2 \<and> keyParts ! 0 = ''ntor'' then
        (case b64_decode (keyParts ! 1) of None \<Rightarrow> ip | Some decoded \<Rightarrow> ip\<lparr>ip_EncKey := decoded\<rparr>)
      else ip)"

definition parse_legacy_key :: "string \<Rightarrow> IntroductionPoint \<Rightarrow> IntroductionPoint" where
  "parse_legacy_key args ip =
     (case b64_decode args of None \<Rightarrow> ip | Some decoded \<Rightarrow> ip\<lparr>ip_LegacyKeyID := decoded\<rparr>)"

definition flush_intro_point :: "Descriptor \<Rightarrow> descriptor_parser \<Rightarrow> Descriptor" where
  "flush_intro_point desc st =
     (case dp_currentIntroPoint st of
        Some ip \<Rightarrow> if dp_inIntroPointBlock st then desc\<lparr>de_IntroPoints := de_IntroPoints desc @ [ip]\<rparr> else desc
      | None \<Rightarrow> desc)"

definition parse_signature :: "string \<Rightarrow> descriptor_parser \<Rightarrow> descriptor_parser" where
  "parse_signature args st =
     (let desc = (case b64_decode args of None \<Rightarrow> dp_desc st | Some decoded \<Rightarrow> (dp_desc st)\<lparr>de_Signature := decoded\<rparr>);
          closing = dp_inIntroPointBlock st \<and> dp_currentIntroPoint st \<noteq> None
      in \<lparr>dp_desc = flush_intro_point desc st,
          dp_currentIntroPoint = (if closing then None else dp_currentIntroPoint st),
          dp_inIntroPointBlock = (if closing then False else dp_inIntroPointBlock st)\<rparr>)"

definition parse_keyword ::
  "nat \<Rightarrow> string \<Rightarrow> string \<Rightarrow> string list \<Rightarrow> descriptor_parser \<Rightarrow> descriptor_error + descriptor_parser" where
  "parse_keyword i keyword args rest st =
     (let desc = dp_desc st in
      if keyword = ''hs-descriptor'' then
        (if args \<noteq> ''3'' then Inl (UnsupportedDescriptorVersion args) else Inr (st\<lparr>dp_desc := desc\<lparr>de_Version := 3\<rparr>\<rparr>))
      else if keyword = ''descriptor-lifetime'' then
        (case sscan_int args of
           None \<Rightarrow> Inl (InvalidLifetime (i + 1))
         | Some m \<Rightarrow> Inr (st\<lparr>dp_desc := desc\<lparr>de_Lifetime := wrap_int64 (m * Minute)\<rparr>\<rparr>))
      else if keyword = ''descriptor-signing-key-cert'' then
        Inr (st\<lparr>dp_desc := parse_certificate_block rest desc\<rparr>)
      else if keyword = ''revision-counter'' then
        (case sscan_uint64 args of
           None \<Rightarrow> Inl (InvalidRevisionCounter (i + 1))
         | Some r \<Rightarrow> Inr (st\<lparr>dp_desc := desc\<lparr>de_RevisionCounter := r\<rparr>\<rparr>))
      else if keyword = ''superencrypted'' then Inr st
      else if keyword = ''introduction-point'' then
        Inr (st\<lparr>dp_inIntroPointBlock := True, dp_currentIntroPoint := Some empty_intro_point\<rparr>)
      else if keyword = ''onion-key'' then Inr (on_intro_point (parse_onion_key rest) st)
      else if keyword = ''auth-key'' then Inr (on_intro_point (parse_auth_key rest) st)
      else if keyword = ''enc-key'' then Inr (on_intro_point (parse_enc_key args) st)
      else if keyword = ''legacy-key'' then Inr (on_intro_point (parse_legacy_key args) st)
      else if keyword = ''signature'' then Inr (parse_signature args st)
      else Inr st)"

definition parse_descriptor_line ::
  "nat \<Rightarrow> string \<Rightarrow> string list \<Rightarrow> descriptor_parser \<Rightarrow> descriptor_error + descriptor_parser" where
  "parse_descriptor_line i line0 rest st =
     (let line = trim_space line0; (keyword, args) = split_keyword line in
      if line = [] then Inr st else parse_keyword i keyword args rest st)"

fun parse_descriptor_lines ::
  "nat \<Rightarrow> string list \<Rightarrow> descriptor_parser \<Rightarrow> descriptor_error + descriptor_parser" where
  "parse_descriptor_lines i [] st = Inr st"
| "parse_descriptor_lines i (line # rest) st =
     (case parse_descriptor_line i line rest st of
        Inl e \<Rightarrow> Inl e
      | Inr st' \<Rightarrow> parse_descriptor_lines (Suc i) rest st')"

definition ParseDescriptor :: "time \<Rightarrow> bytes \<Rightarrow> descriptor_error + Descriptor" where
  "ParseDescriptor now raw =
     (if length raw = 0 then Inl EmptyDescriptor
      else
        (case parse_descriptor_lines 0 (split_lines (string_of_bytes raw))
                \<lparr>dp_desc = new_descriptor now raw, dp_currentIntroPoint = None, dp_inIntroPointBlock = False\<rparr> of
           Inl e \<Rightarrow> Inl e
         | Inr st \<Rightarrow> Inr (flush_intro_point (dp_desc st) st)))"

subsection \<open>EncodeDescriptor\<close>

function chunk64 :: "string \<Rightarrow> string list" where
  "chunk64 s = (if s = [] then [] else take 64 s # chunk64 (drop 64 s))"
  by pat_completeness auto

termination
  by (relation "measure length") auto

declare chunk64.simps [simp del]

definition link_specifier_line :: "LinkSpecifier \<Rightarrow> string" where
  "link_specifier_line ls =
     ''link-specifier '' @ b64_encode ([ls_Type ls, of_nat (length (ls_Data ls))] @ ls_Data ls)"

definition intro_point_lines :: "nat \<Rightarrow> IntroductionPoint \<Rightarrow> string list" where
  "intro_point_lines i intro =
     [''introduction-point '' @ dec_of_nat i]
     @ map link_specifier_line (ip_LinkSpecifiers intro)
     @ (if length (ip_OnionKey intro) > 0 then [''onion-key ntor '' @ b64_encode (ip_OnionKey intro)] else [])
     @ (if length (ip_AuthKey intro) > 0 then [''auth-key'', b64_encode (ip_AuthKey intro)] else [])
     @ (if length (ip_EncKey intro) > 0 then [''enc-key ntor '' @ b64_encode (ip_EncKey intro)] else [])
     @ (if length (ip_EncKeyCert intro) > 0
        then [''enc-key-cert'', ''-----BEGIN ED25519 CERT-----''] @ chunk64 (b64_encode (ip_EncKeyCert intro))
             @ [''-----END ED25519 CERT-----'']
        else [])
     @ (if length (ip_LegacyKeyID intro) > 0 then [''legacy-key '' @ b64_encode (ip_LegacyKeyID intro)] else [])"

fun all_intro_lines :: "nat \<Rightarrow> IntroductionPoint list \<Rightarrow> string list" where
  "all_intro_lines i [] = []"
| "all_intro_lines i (ip # ips) = intro_point_lines i ip @ all_intro_lines (Suc i) ips"

text \<open>
  int(Lifetime.Minutes()) drops the fraction; the float64 in between is exact for the lifetimes
  a descriptor can have (below 2^17 minutes, or whole minutes).
\<close>

definition lifetime_minutes :: "duration \<Rightarrow> int" where
  "lifetime_minutes d = (let m = d div Minute in if m \<le> 0 then 180 else m)"

definition descriptor_lines :: "Descriptor \<Rightarrow> string list" where
  "descriptor_lines desc =
     [''hs-descriptor '' @ dec_of_int (de_Version desc),
      ''descriptor-lifetime '' @ dec_of_int (lifetime_minutes (de_Lifetime desc)),
      ''revision-counter '' @ dec_of_nat (unat (de_RevisionCounter desc)),
      ''superencrypted'', ''-----BEGIN MESSAGE-----'']
     @ all_intro_lines 0 (de_IntroPoints desc)
     @ [''-----END MESSAGE-----'']
     @ (if length (de_Signature desc) > 0 then [''signature '' @ b64_encode (de_Signature desc)] else [])"

definition unlines :: "string list \<Rightarrow> string" where
  "unlines ls = concat (map (\<lambda>l. l @ [newline]) ls)"

definition EncodeDescriptor :: "Descriptor option \<Rightarrow> descriptor_error + bytes" where
  "EncodeDescriptor d =
     (case d of None \<Rightarrow> Inl NilDescriptor
      | Some desc \<Rightarrow> Inr (bytes_of_string (unlines (descriptor_lines desc))))"

subsection \<open>Lines the encoder writes\<close>

lemma trim_space_id: "s \<noteq> [] \<Longrightarrow> \<not> is_space (hd s) \<Longrightarrow> \<not> is_space (last s) \<Longrightarrow> trim_space s = s"
proof -
  assume s: "s \<noteq> []" "\<not> is_space (hd s)" "\<not> is_space (last s)"
  then have "dropWhile is_space s = s" by (cases s) simp_all
  moreover from s have "dropWhile is_space (rev s) = rev s"
    by (cases "rev s") (simp_all add: hd_rev [symmetric])
  ultimately show ?thesis by (simp add: trim_space_def)
qed

definition word_text :: "string \<Rightarrow> bool" where
  "word_text s \<longleftrightarrow> s \<noteq> [] \<and> list_all (\<lambda>c. \<not> is_space c) s"

lemma word_text_ends: "word_text s \<Longrightarrow> s \<noteq> [] \<and> \<not> is_space (hd s) \<and> \<not> is_space (last s)"
  by (auto simp: word_text_def list_all_iff)

lemma word_text_no_blank: "word_text s \<Longrightarrow> CHR '' '' \<notin> set s"
  by (auto simp: word_text_def list_all_iff is_space_def)

lemma parse_line_word:
  "word_text l \<Longrightarrow> parse_descriptor_line i l rest st = parse_keyword i l [] rest st"
proof -
  assume l: "word_text l"
  have "takeWhile (\<lambda>c. c \<noteq> CHR '' '') l = l" "dropWhile (\<lambda>c. c \<noteq> CHR '' '') l = []"
    using word_text_no_blank [OF l] by (auto simp: takeWhile_eq_all_conv)
  note split = this
  show ?thesis
    using word_text_ends [OF l] by (simp add: parse_descriptor_line_def trim_space_id split_keyword_def split)
qed

lemma parse_line_args:
  assumes "word_text kw" and "args \<noteq> []" and "\<not> is_space (last args)"
  shows "parse_descriptor_line i (kw @ CHR '' '' # args) rest st = parse_keyword i kw args rest st"
proof -
  have "takeWhile (\<lambda>c. c \<noteq> CHR '' '') (kw @ CHR '' '' # args) = kw"
    "dropWhile (\<lambda>c. c \<noteq> CHR '' '') (kw @ CHR '' '' # args) = CHR '' '' # args"
    using word_text_no_blank [OF assms(1)] by (simp_all add: takeWhile_append dropWhile_append)
  moreover have "trim_space (kw @ CHR '' '' # args) = kw @ CHR '' '' # args"
    using assms word_text_ends [OF assms(1)] by (intro trim_space_id) simp_all
  ultimately show ?thesis
    by (simp add: parse_descriptor_line_def split_keyword_def)
qed

text \<open>Decimal numbers and base64 are words.\<close>

lemma dec_of_nat_nonempty [simp]: "dec_of_nat n \<noteq> []"
  by (simp add: dec_of_nat.simps [of n])

lemma digit_chars: "c \<in> set (dec_of_nat n) \<Longrightarrow> is_digit c \<and> \<not> is_space c"
  by (drule dec_of_nat_digits) (auto simp: is_digit_def is_space_def)

lemma word_dec: "word_text (dec_of_nat n)"
  by (simp add: word_text_def list_all_iff digit_chars)

lemma word_b64: "bs \<noteq> [] \<Longrightarrow> word_text (b64_encode bs)"
  by (auto simp: word_text_def list_all_iff is_space_def b64_text_def dest!: b64_encode_text)

lemma b64_mod4: "length (b64_encode bs) mod 4 = 0"
proof (induction bs rule: b64_encode.induct)
  case (1 a b c rest)
  then show ?case by (simp add: b64_blocks_def)
qed (simp_all add: b64_blocks_def)

lemma chunk64_sound:
  "\<forall>l\<in>set (chunk64 s). l \<noteq> [] \<and> set l \<subseteq> set s \<and> (length s mod 4 = 0 \<longrightarrow> length l mod 4 = 0)"
proof (induction s rule: chunk64.induct)
  case (1 s)
  show ?case
  proof (cases "s = []")
    case True
    then show ?thesis by (simp add: chunk64.simps)
  next
    case False
    have m: "length (drop 64 s) mod 4 = 0" "length (take 64 s) mod 4 = 0" if "length s mod 4 = 0"
      using that by (auto simp: min_def dvd_diff_nat)
    from 1 [OF False] m show ?thesis
      using False unfolding chunk64.simps [of s]
      by (auto dest: in_set_takeD in_set_dropD)
  qed
qed

definition silent :: "string \<Rightarrow> bool" where
  "silent kw \<longleftrightarrow> (\<forall>i args rest st. parse_keyword i kw args rest st = Inr st)"

lemma silent_iff:
  "kw \<notin> {''hs-descriptor'', ''descriptor-lifetime'', ''descriptor-signing-key-cert'', ''revision-counter'',
      ''introduction-point'', ''onion-key'', ''auth-key'', ''enc-key'', ''legacy-key'', ''signature''} \<Longrightarrow> silent kw"
  by (simp add: silent_def parse_keyword_def Let_def)

lemma silent_b64: "list_all b64_text l \<Longrightarrow> length l mod 4 = 0 \<Longrightarrow> silent l"
  by (rule silent_iff) (auto simp: b64_text_def mod_eq_0_iff_dvd [symmetric] simp del: mod_0_imp_dvd dvd_imp_mod_0)

lemma silent_chunk: "l \<in> set (chunk64 (b64_encode bs)) \<Longrightarrow> silent l \<and> word_text l"
proof -
  assume "l \<in> set (chunk64 (b64_encode bs))"
  with chunk64_sound [of "b64_encode bs"]
  have "l \<noteq> [] \<and> set l \<subseteq> set (b64_encode bs) \<and> (length (b64_encode bs) mod 4 = 0 \<longrightarrow> length l mod 4 = 0)"
    by (rule bspec)
  then have l: "l \<noteq> []" "set l \<subseteq> set (b64_encode bs)" "length l mod 4 = 0"
    using b64_mod4 [of bs] by (simp_all only: simp_thms)
  then have t: "list_all b64_text l" using b64_encode_text by (auto simp: list_all_iff)
  then have "word_text l"
    using l(1) by (auto simp: word_text_def list_all_iff is_space_def b64_text_def)
  with silent_b64 [OF t l(3)] show ?thesis by simp
qed

lemma digits_take: "takeWhile is_digit (dec_of_nat n) = dec_of_nat n"
  using digit_chars by (auto simp: takeWhile_eq_all_conv)

lemma digits_drop: "dropWhile is_space (dec_of_nat n) = dec_of_nat n"
  using word_text_ends [OF word_dec [of n]] by (cases "dec_of_nat n") auto

lemma sscan_uint64_dec: "n < 2 ^ 64 \<Longrightarrow> sscan_uint64 (dec_of_nat n) = Some (of_nat n)"
  by (simp add: sscan_uint64_def digits_drop digits_take dec_value_dec_of_nat)

lemma sscan_int_dec: "n < 2 ^ 63 \<Longrightarrow> sscan_int (dec_of_nat n) = Some (int n)"
proof -
  assume n: "n < 2 ^ 63"
  obtain c cs where d: "dec_of_nat n = c # cs" by (cases "dec_of_nat n") simp_all
  then have "is_digit c" "\<not> is_space c" using digit_chars [of c n] by simp_all
  then have sign: "c \<noteq> CHR ''-''" "c \<noteq> CHR ''+''" by (auto simp: is_digit_def)
  have "int n < 2 ^ 63" using n by simp
  then show ?thesis
    using sign \<open>\<not> is_space c\<close> digits_take [of n] dec_value_dec_of_nat [of n]
    unfolding sscan_int_def digits_drop sscanf_d_def d by (simp add: Let_def)
qed

lemma str_fields_from_word:
  "list_all (\<lambda>c. \<not> is_space c) w \<Longrightarrow> str_fields_from acc (w @ rest) = str_fields_from (acc @ w) rest"
  by (induction w arbitrary: acc) simp_all

lemma str_fields_ntor: "word_text w \<Longrightarrow> str_fields (''ntor '' @ w) = [''ntor'', w]"
proof -
  assume "word_text w"
  then have "w \<noteq> []" "str_fields_from [] w = str_fields_from w []"
    using str_fields_from_word [of w "[]" "[]"] by (simp_all add: word_text_def)
  then show ?thesis by (simp add: str_fields_def is_space_def)
qed

text \<open>
  \<open>parses ls rest st st'\<close>: with the lines \<open>rest\<close> still to come, the lines \<open>ls\<close> take the parser
  from one state to the other.
\<close>

definition parses :: "string list \<Rightarrow> string list \<Rightarrow> descriptor_parser \<Rightarrow> descriptor_parser \<Rightarrow> bool" where
  "parses ls rest st st' \<longleftrightarrow>
     (\<forall>i. parse_descriptor_lines i (ls @ rest) st = parse_descriptor_lines (i + length ls) rest st')"

lemma parses_Nil [simp]: "parses [] rest st st' \<longleftrightarrow> (\<forall>i. parse_descriptor_lines i rest st = parse_descriptor_lines i rest st')"
  by (simp add: parses_def)

lemma parses_append: "parses ls (ls' @ rest) st st1 \<Longrightarrow> parses ls' rest st1 st2 \<Longrightarrow> parses (ls @ ls') rest st st2"
  by (simp add: parses_def add.assoc)

lemma parses_one:
  "(\<And>i. parse_descriptor_line i l (ls @ rest) st = Inr st1) \<Longrightarrow> parses ls rest st1 st2 \<Longrightarrow> parses (l # ls) rest st st2"
  by (simp add: parses_def)

lemma parses_single: "(\<And>i. parse_descriptor_line i l rest st = Inr st1) \<Longrightarrow> parses [l] rest st st1"
  by (simp add: parses_def)

lemma parses_silent_words: "\<forall>l\<in>set ls. silent l \<and> word_text l \<Longrightarrow> parses ls rest st st"
  by (induction ls) (auto intro!: parses_one simp: parse_line_word silent_def)

lemma parse_line_keyword:
  "word_text kw \<Longrightarrow> word_text (a # w) \<Longrightarrow> parse_descriptor_line i (kw @ CHR '' '' # a # w) rest st = parse_keyword i kw (a # w) rest st"
  using parse_line_args word_text_ends by blast

lemma parse_line_b64:
  "word_text kw \<Longrightarrow> bs \<noteq> [] \<Longrightarrow>
     parse_descriptor_line i (kw @ CHR '' '' # pre @ b64_encode bs) rest st = parse_keyword i kw (pre @ b64_encode bs) rest st"
  using word_b64 [of bs] word_text_ends by (intro parse_line_args) auto

text \<open>The parser state inside an introduction point block, and what becomes of a point.\<close>

definition in_block :: "descriptor_parser \<Rightarrow> IntroductionPoint \<Rightarrow> descriptor_parser" where
  "in_block st ip = st\<lparr>dp_inIntroPointBlock := True, dp_currentIntroPoint := Some ip\<rparr>"

definition reparsed_intro_point :: "IntroductionPoint \<Rightarrow> IntroductionPoint" where
  "reparsed_intro_point ip =
     empty_intro_point\<lparr>ip_AuthKey := ip_AuthKey ip, ip_EncKey := ip_EncKey ip, ip_LegacyKeyID := ip_LegacyKeyID ip\<rparr>"

lemma on_intro_point_block: "on_intro_point f (in_block st ip) = in_block st (f ip)"
  by (simp add: on_intro_point_def in_block_def)

lemma in_block_again: "in_block (in_block st ip) ip' = in_block st ip'"
  by (simp add: in_block_def)

lemma parses_head: "parses [''introduction-point '' @ dec_of_nat k] rest st (in_block st empty_intro_point)"
proof (rule parses_single)
  fix i
  have "word_text ''introduction-point''" by (simp add: word_text_def is_space_def)
  from parse_line_args [OF this, of "dec_of_nat k"] word_text_ends [OF word_dec [of k]]
  show "parse_descriptor_line i (''introduction-point '' @ dec_of_nat k) rest st = Inr (in_block st empty_intro_point)"
    by (simp add: parse_keyword_def in_block_def Let_def)
qed

lemma parses_link_specifiers: "parses (map link_specifier_line lss) rest st st"
proof (induction lss)
  case (Cons ls lss)
  have "word_text ''link-specifier''" by (simp add: word_text_def is_space_def)
  from parse_line_b64 [OF this, where pre = "[]"]
  have "parse_descriptor_line i (link_specifier_line ls) r st = Inr st" for i r
    by (simp add: link_specifier_line_def parse_keyword_def Let_def)
  with Cons show ?case by (auto intro: parses_one)
qed simp

definition no_ntor :: "string list \<Rightarrow> bool" where
  "no_ntor rest \<longleftrightarrow> (case rest of [] \<Rightarrow> True | l # ls \<Rightarrow> \<not> has_prefix ''ntor '' (trim_space l))"

lemma parses_onion_key:
  assumes "no_ntor rest"
  shows "parses (if length k > 0 then [''onion-key ntor '' @ b64_encode k] else []) rest (in_block st ip) (in_block st ip)"
proof -
  have ign: "parse_onion_key rest ip = ip"
    using assms by (simp add: parse_onion_key_def no_ntor_def Let_def split: list.splits)
  have "word_text ''onion-key''" by (simp add: word_text_def is_space_def)
  from parse_line_b64 [OF this, where pre = "''ntor ''" and bs = k]
  have "parse_descriptor_line i (''onion-key ntor '' @ b64_encode k) rest (in_block st ip) = Inr (in_block st ip)"
    if "k \<noteq> []" for i
    using that by (simp add: parse_keyword_def on_intro_point_block ign Let_def)
  then show ?thesis by (auto intro: parses_single)
qed

lemma parses_auth_key:
  assumes "ip_AuthKey ip = []"
  shows "parses (if length k > 0 then [''auth-key'', b64_encode k] else []) rest (in_block st ip) (in_block st (ip\<lparr>ip_AuthKey := k\<rparr>))"
proof (cases "k = []")
  case True
  moreover have "ip\<lparr>ip_AuthKey := []\<rparr> = ip" using assms by (cases ip) simp
  ultimately show ?thesis by simp
next
  case False
  note w = word_b64 [OF False]
  have "word_text ''auth-key''" by (simp add: word_text_def is_space_def)
  from parse_line_word [OF this]
  have "parse_descriptor_line i ''auth-key'' ([b64_encode k] @ rest) (in_block st ip) = Inr (in_block st (ip\<lparr>ip_AuthKey := k\<rparr>))" for i
    using word_text_ends [OF w]
    by (simp add: parse_keyword_def on_intro_point_block parse_auth_key_def trim_space_id Let_def)
  moreover have "silent (b64_encode k)"
    using b64_encode_text b64_mod4 by (intro silent_b64) (auto simp only: list_all_iff)
  ultimately show ?thesis
    using False w by (auto intro!: parses_one simp: parse_line_word silent_def)
qed

lemma parses_enc_key:
  assumes "ip_EncKey ip = []"
  shows "parses (if length k > 0 then [''enc-key ntor '' @ b64_encode k] else []) rest (in_block st ip) (in_block st (ip\<lparr>ip_EncKey := k\<rparr>))"
proof (cases "k = []")
  case True
  moreover have "ip\<lparr>ip_EncKey := []\<rparr> = ip" using assms by (cases ip) simp
  ultimately show ?thesis by simp
next
  case False
  have "word_text ''enc-key''" by (simp add: word_text_def is_space_def)
  from parse_line_b64 [OF this False, where pre = "''ntor ''"]
  have "parse_descriptor_line i (''enc-key ntor '' @ b64_encode k) rest (in_block st ip) = Inr (in_block st (ip\<lparr>ip_EncKey := k\<rparr>))" for i
    using str_fields_ntor [OF word_b64 [OF False]]
    by (simp add: parse_keyword_def on_intro_point_block parse_enc_key_def Let_def)
  with False show ?thesis by (auto intro: parses_single)
qed

lemma parses_enc_key_cert:
  "parses (if length k > 0 then [''enc-key-cert'', ''-----BEGIN ED25519 CERT-----''] @ chunk64 (b64_encode k)
             @ [''-----END ED25519 CERT-----''] else []) rest st st"
proof -
  have "silent ''enc-key-cert''" "word_text ''enc-key-cert''" "silent ''-----BEGIN''" "word_text ''-----BEGIN''"
    "silent ''-----END''" "word_text ''-----END''"
    by (auto intro!: silent_iff simp: word_text_def is_space_def)
  note kw = this
  have "parse_descriptor_line i ''enc-key-cert'' r st = Inr st" for i r
    using kw by (simp add: parse_line_word silent_def)
  moreover have "parse_descriptor_line i ''-----BEGIN ED25519 CERT-----'' r st = Inr st" for i r
    using parse_line_args [OF kw(4), of "''ED25519 CERT-----''"] kw(3) by (simp add: silent_def is_space_def)
  moreover have "parse_descriptor_line i ''-----END ED25519 CERT-----'' r st = Inr st" for i r
    using parse_line_args [OF kw(6), of "''ED25519 CERT-----''"] kw(5) by (simp add: silent_def is_space_def)
  moreover have "parses (chunk64 (b64_encode k)) r st st" for r
    using silent_chunk by (intro parses_silent_words) blast
  ultimately show ?thesis
    by (auto intro!: parses_one parses_append parses_single simp del: append.simps append_Cons)
qed

lemma parses_legacy_key:
  assumes "ip_LegacyKeyID ip = []"
  shows "parses (if length k > 0 then [''legacy-key '' @ b64_encode k] else []) rest (in_block st ip) (in_block st (ip\<lparr>ip_LegacyKeyID := k\<rparr>))"
proof (cases "k = []")
  case True
  moreover have "ip\<lparr>ip_LegacyKeyID := []\<rparr> = ip" using assms by (cases ip) simp
  ultimately show ?thesis by simp
next
  case False
  have "word_text ''legacy-key''" by (simp add: word_text_def is_space_def)
  from parse_line_b64 [OF this False, where pre = "[]"]
  have "parse_descriptor_line i (''legacy-key '' @ b64_encode k) rest (in_block st ip) = Inr (in_block st (ip\<lparr>ip_LegacyKeyID := k\<rparr>))" for i
    by (simp add: parse_keyword_def on_intro_point_block parse_legacy_key_def Let_def)
  with False show ?thesis by (auto intro: parses_single)
qed

lemma trim_space_Cons: "\<not> is_space c \<Longrightarrow> \<exists>t. trim_space (c # l) = c # t"
proof -
  assume c: "\<not> is_space c"
  then have "trim_space (c # l) = rev (dropWhile is_space (rev l @ [c]))" by (simp add: trim_space_def)
  moreover have "\<exists>t. dropWhile is_space (xs @ [c]) = t @ [c]" for xs
    using c by (induction xs) auto
  ultimately show ?thesis by (metis rev_eq_Cons_iff rev_rev_ident)
qed

lemma no_ntor_Cons: "\<not> is_space c \<Longrightarrow> c \<noteq> CHR ''n'' \<Longrightarrow> no_ntor ((c # l) # ls)"
  using trim_space_Cons [of c l] by (auto simp: no_ntor_def has_prefix_def)

lemma parses_intro_point:
  assumes "no_ntor rest"
  shows "parses (intro_point_lines k ip) rest st (in_block st (reparsed_intro_point ip))"
proof -
  let ?auth = "if length (ip_AuthKey ip) > 0 then [''auth-key'', b64_encode (ip_AuthKey ip)] else []"
  let ?enc = "if length (ip_EncKey ip) > 0 then [''enc-key ntor '' @ b64_encode (ip_EncKey ip)] else []"
  let ?cert = "if length (ip_EncKeyCert ip) > 0
        then [''enc-key-cert'', ''-----BEGIN ED25519 CERT-----''] @ chunk64 (b64_encode (ip_EncKeyCert ip))
             @ [''-----END ED25519 CERT-----''] else []"
  let ?leg = "if length (ip_LegacyKeyID ip) > 0 then [''legacy-key '' @ b64_encode (ip_LegacyKeyID ip)] else []"
  let ?p0 = empty_intro_point
  let ?p1 = "?p0\<lparr>ip_AuthKey := ip_AuthKey ip\<rparr>"
  let ?p2 = "?p1\<lparr>ip_EncKey := ip_EncKey ip\<rparr>"
  let ?p3 = "?p2\<lparr>ip_LegacyKeyID := ip_LegacyKeyID ip\<rparr>"
  have n: "no_ntor ((?auth @ ?enc @ ?cert @ ?leg) @ rest)"
    using assms by (simp add: no_ntor_Cons is_space_def)
  have e: "ip_AuthKey ?p0 = []" "ip_EncKey ?p1 = []" "ip_LegacyKeyID ?p2 = []"
    by (simp_all add: empty_intro_point_def)
  have "parses (intro_point_lines k ip) rest st (in_block st ?p3)"
    unfolding intro_point_lines_def
    by (rule parses_append [OF parses_head], rule parses_append [OF parses_link_specifiers],
        rule parses_append [OF parses_onion_key [OF n]], rule parses_append [OF parses_auth_key [OF e(1)]],
        rule parses_append [OF parses_enc_key [OF e(2)]], rule parses_append [OF parses_enc_key_cert],
        rule parses_legacy_key [OF e(3)])
  then show ?thesis by (simp add: reparsed_intro_point_def)
qed

lemma no_ntor_intro: "no_ntor (intro_point_lines k ip @ rest)"
  by (simp add: intro_point_lines_def no_ntor_Cons is_space_def)

lemma parses_all_intro_points:
  assumes "no_ntor rest"
  shows "parses (all_intro_lines k ips) rest st
    (if ips = [] then st else in_block st (reparsed_intro_point (last ips)))"
  using assms
proof (induction ips arbitrary: k st)
  case (Cons ip ips)
  have "no_ntor (all_intro_lines (Suc k) ips @ rest)"
    using Cons.prems by (cases ips) (simp_all add: no_ntor_intro)
  then have "parses (intro_point_lines k ip) (all_intro_lines (Suc k) ips @ rest) st (in_block st (reparsed_intro_point ip))"
    by (rule parses_intro_point)
  from parses_append [OF this Cons.IH [OF Cons.prems]] show ?case
    by (simp add: in_block_again split: if_splits)
qed simp

lemma split_lines_nonempty: "split_lines s \<noteq> []"
  by (cases s) (auto split: list.splits)

lemma split_lines_line: "newline \<notin> set l \<Longrightarrow> split_lines (l @ newline # s) = l # split_lines s"
  by (induction l) auto

lemma split_unlines: "list_all (\<lambda>l. newline \<notin> set l) ls \<Longrightarrow> split_lines (unlines ls) = ls @ [[]]"
  by (induction ls) (simp_all add: unlines_def split_lines_line)

lemma no_newline_b64: "newline \<notin> set (b64_encode bs)"
  by (auto dest!: b64_encode_text simp: b64_text_def)

lemma no_newline_dec: "newline \<notin> set (dec_of_nat n)"
  by (auto dest!: digit_chars simp: is_digit_def)

lemma no_newline_chunk: "l \<in> set (chunk64 (b64_encode bs)) \<Longrightarrow> newline \<notin> set l"
  using chunk64_sound [of "b64_encode bs"] no_newline_b64 [of bs] by blast

lemma no_newline_intro: "list_all (\<lambda>l. newline \<notin> set l) (all_intro_lines k ips)"
proof (induction ips arbitrary: k)
  case (Cons ip ips)
  have "list_all (\<lambda>l. newline \<notin> set l) (map link_specifier_line (ip_LinkSpecifiers ip))"
    by (auto simp: list_all_iff link_specifier_line_def no_newline_b64 simp del: b64_encode.simps)
  moreover have "list_all (\<lambda>l. newline \<notin> set l) (chunk64 (b64_encode (ip_EncKeyCert ip)))"
    using no_newline_chunk by (auto simp: list_all_iff)
  ultimately have "list_all (\<lambda>l. newline \<notin> set l) (intro_point_lines k ip)"
    by (simp add: intro_point_lines_def no_newline_b64 no_newline_dec)
  with Cons show ?case by simp
qed simp

definition reparsed_descriptor :: "time \<Rightarrow> bytes \<Rightarrow> Descriptor \<Rightarrow> Descriptor" where
  "reparsed_descriptor now raw d =
     (new_descriptor now raw)
       \<lparr>de_Lifetime := lifetime_minutes (de_Lifetime d) * Minute,
        de_RevisionCounter := de_RevisionCounter d,
        de_Signature := de_Signature d,
        de_IntroPoints := (if de_IntroPoints d = [] then [] else [reparsed_intro_point (last (de_IntroPoints d))])\<rparr>"

lemma lifetime_minutes_range:
  "d < 2 ^ 63 \<Longrightarrow> 0 < lifetime_minutes d \<and> lifetime_minutes d < 2 ^ 62 \<and> lifetime_minutes d * Minute < 2 ^ 63"
proof -
  assume d: "d < 2 ^ 63"
  have "d div Minute * Minute \<le> d" by (simp add: Minute_def Second_def)
  with d show ?thesis
    by (auto simp: lifetime_minutes_def Let_def Minute_def Second_def)
qed

lemma dec_3: "dec_of_int 3 = ''3''"
  by code_simp

lemma parse_header_lines:
  assumes "de_Version d = 3" and "de_Lifetime d < 2 ^ 63"
  shows "parses [''hs-descriptor '' @ dec_of_int (de_Version d),
      ''descriptor-lifetime '' @ dec_of_int (lifetime_minutes (de_Lifetime d)),
      ''revision-counter '' @ dec_of_nat (unat (de_RevisionCounter d)),
      ''superencrypted'', ''-----BEGIN MESSAGE-----''] rest st
    (st\<lparr>dp_desc := (dp_desc st)\<lparr>de_Version := 3, de_Lifetime := lifetime_minutes (de_Lifetime d) * Minute,
       de_RevisionCounter := de_RevisionCounter d\<rparr>\<rparr>)"
proof -
  have w: "word_text ''hs-descriptor''" "word_text ''descriptor-lifetime''" "word_text ''revision-counter''"
    "word_text ''superencrypted''" "word_text ''-----BEGIN''"
    by (simp_all add: word_text_def is_space_def)
  have three: "dec_of_int (de_Version d) = ''3''"
    by (simp add: assms dec_3)
  define m where "m = nat (lifetime_minutes (de_Lifetime d))"
  have m: "dec_of_int (lifetime_minutes (de_Lifetime d)) = dec_of_nat m" "lifetime_minutes (de_Lifetime d) = int m"
    "m < 2 ^ 63" "wrap_int64 (int m * Minute) = int m * Minute"
    using lifetime_minutes_range [OF assms(2)]
    by (auto simp: dec_of_int_def m_def wrap_int64_def Minute_def Second_def)
  have r: "unat (de_RevisionCounter d) < 2 ^ 64"
    using unsigned_less [of "de_RevisionCounter d"] by simp
  have l1: "parse_descriptor_line i (''hs-descriptor '' @ dec_of_int (de_Version d)) rs s
      = Inr (s\<lparr>dp_desc := (dp_desc s)\<lparr>de_Version := 3\<rparr>\<rparr>)" for i rs s
    using parse_line_args [OF w(1), of "''3''"] by (simp add: three parse_keyword_def Let_def is_space_def)
  have l2: "parse_descriptor_line i (''descriptor-lifetime '' @ dec_of_nat m) rs s
      = Inr (s\<lparr>dp_desc := (dp_desc s)\<lparr>de_Lifetime := int m * Minute\<rparr>\<rparr>)" for i rs s
    using parse_line_args [OF w(2), of "dec_of_nat m"] word_text_ends [OF word_dec [of m]]
    by (simp add: parse_keyword_def Let_def sscan_int_dec [OF m(3)] m(4))
  have l3: "parse_descriptor_line i (''revision-counter '' @ dec_of_nat (unat (de_RevisionCounter d))) rs s
      = Inr (s\<lparr>dp_desc := (dp_desc s)\<lparr>de_RevisionCounter := de_RevisionCounter d\<rparr>\<rparr>)" for i rs s
    using parse_line_args [OF w(3), of "dec_of_nat (unat (de_RevisionCounter d))"] word_text_ends [OF word_dec]
    by (simp add: parse_keyword_def Let_def sscan_uint64_dec [OF r])
  have l4: "parse_descriptor_line i ''superencrypted'' rs s = Inr s" for i rs s
    using parse_line_word [OF w(4)] by (simp add: parse_keyword_def Let_def)
  have l5: "parse_descriptor_line i ''-----BEGIN MESSAGE-----'' rs s = Inr s" for i rs s
    using parse_line_args [OF w(5), of "''MESSAGE-----''"] by (simp add: parse_keyword_def Let_def is_space_def)
  show ?thesis
    unfolding m(1)
    using parses_one [OF l1 parses_one [OF l2 parses_one [OF l3 parses_one [OF l4 parses_single [OF l5]]]], of rest st]
    by (simp add: m(2) del: append_Cons append.simps append_Nil)
qed

lemma parse_descriptor_lines_of:
  assumes v: "de_Version d = 3" and l: "de_Lifetime d < 2 ^ 63" and raw': "raw = bytes_of_string (unlines (descriptor_lines d))"
  shows "ParseDescriptor now raw = Inr (reparsed_descriptor now raw d)"
proof -
  define s0 where "s0 = \<lparr>dp_desc = new_descriptor now raw, dp_currentIntroPoint = None, dp_inIntroPointBlock = False\<rparr>"
  define s1 where "s1 = s0\<lparr>dp_desc := (dp_desc s0)\<lparr>de_Version := 3,
      de_Lifetime := lifetime_minutes (de_Lifetime d) * Minute, de_RevisionCounter := de_RevisionCounter d\<rparr>\<rparr>"
  define s2 where "s2 = (if de_IntroPoints d = [] then s1 else in_block s1 (reparsed_intro_point (last (de_IntroPoints d))))"
  define sig where "sig = (if length (de_Signature d) > 0 then [''signature '' @ b64_encode (de_Signature d)] else [])"
  have w: "word_text ''-----END''" "word_text ''signature''" by (simp_all add: word_text_def is_space_def)
  have three: "dec_of_int (de_Version d) = ''3''"
    by (simp add: v dec_3)
  have "dec_of_int (lifetime_minutes (de_Lifetime d)) = dec_of_nat (nat (lifetime_minutes (de_Lifetime d)))"
    using lifetime_minutes_range [OF l] by (simp add: dec_of_int_def)
  then have "list_all (\<lambda>l. newline \<notin> set l) (descriptor_lines d)"
    using no_newline_intro
    by (simp add: descriptor_lines_def three no_newline_dec no_newline_b64)
  then have lines: "split_lines (string_of_bytes raw) = descriptor_lines d @ [[]]"
    by (simp add: raw' split_unlines)
  have end_line: "parse_descriptor_line i ''-----END MESSAGE-----'' rs s = Inr s" for i rs s
    using parse_line_args [OF w(1), of "''MESSAGE-----''"] by (simp add: parse_keyword_def Let_def is_space_def)
  have "no_ntor (([''-----END MESSAGE-----''] @ sig) @ [[]])"
    by (simp add: no_ntor_Cons is_space_def)
  from parses_append [OF parse_header_lines [OF v l, of _ s0] parses_all_intro_points [OF this, of 0 "de_IntroPoints d"]]
  obtain j where body: "parse_descriptor_lines 0 (descriptor_lines d @ [[]]) s0
      = parse_descriptor_lines j ([''-----END MESSAGE-----''] @ sig @ [[]]) s2"
    unfolding parses_def descriptor_lines_def sig_def [symmetric] s1_def [symmetric] s2_def [symmetric] append_assoc
    by blast
  have empty_line: "parse_descriptor_line i [] rs s = Inr s" for i rs s
    by (simp add: parse_descriptor_line_def trim_space_def split_keyword_def)
  define s3 where "s3 = (if de_Signature d = [] then s2 else parse_signature (b64_encode (de_Signature d)) s2)"
  have sig_line: "parse_descriptor_line i (''signature '' @ b64_encode (de_Signature d)) rs s
      = Inr (parse_signature (b64_encode (de_Signature d)) s)" if "de_Signature d \<noteq> []" for i rs s
    using parse_line_b64 [OF w(2) that, where pre = "[]"] by (simp add: parse_keyword_def Let_def)
  have tail: "parse_descriptor_lines j ([''-----END MESSAGE-----''] @ sig @ [[]]) s2 = Inr s3" for j
    using end_line [simplified] sig_line [simplified]
    by (simp add: empty_line sig_def s3_def)
  have "flush_intro_point (dp_desc s3) s3 = reparsed_descriptor now raw d"
    by (cases "de_IntroPoints d = []"; cases "de_Signature d = []")
       (simp_all add: s3_def s2_def s1_def s0_def in_block_def parse_signature_def flush_intro_point_def
          reparsed_descriptor_def new_descriptor_def Let_def)
  moreover have "raw \<noteq> []"
    by (simp add: raw' descriptor_lines_def unlines_def bytes_of_string_def)
  ultimately show ?thesis
    using body tail by (simp add: ParseDescriptor_def lines flip: s0_def)
qed

text \<open>
  What ParseDescriptor reads from the text EncodeDescriptor writes for a version 3
  descriptor: the revision counter, the signature and the lifetime in whole minutes (180 when
  it was below one) come back, but of the introduction points only the last one does, and of
  that one the onion key, the link specifiers and the cross-certificate are lost.
\<close>

lemma descriptor_reparse:
  assumes "de_Version d = 3" and "de_Lifetime d < 2 ^ 63" and "EncodeDescriptor (Some d) = Inr raw"
  shows "ParseDescriptor now raw = Inr (reparsed_descriptor now raw d)"
  using assms by (intro parse_descriptor_lines_of) (simp_all add: EncodeDescriptor_def)

lemma descriptor_reparse_example:
  "let k = \<lambda>b. \<lparr>ip_LinkSpecifiers = [\<lparr>ls_Type = 0, ls_Data = [10, 0, 0, 1, 35, 41]\<rparr>], ip_OnionKey = [b, 1],
                 ip_AuthKey = [b, 2], ip_EncKey = [b, 3], ip_EncKeyCert = [b, 4], ip_LegacyKeyID = []\<rparr>;
       d = (new_descriptor 0 [])\<lparr>de_IntroPoints := [k 1, k 2], de_RevisionCounter := 7, de_Signature := [9]\<rparr>;
       raw = bytes_of_string (unlines (descriptor_lines d))
   in ParseDescriptor 5 raw = Inr (reparsed_descriptor 5 raw d)
      \<and> de_IntroPoints (reparsed_descriptor 5 raw d) = [empty_intro_point\<lparr>ip_AuthKey := [2, 2], ip_EncKey := [2, 3]\<rparr>]"
  unfolding Let_def
  by (rule conjI, rule descriptor_reparse)
     (simp_all add: new_descriptor_def Hour_def Minute_def Second_def EncodeDescriptor_def
        reparsed_descriptor_def reparsed_intro_point_def empty_intro_point_def)

end
