(* ===== verification/OnionCert.thy ===== *)
theory OnionCert
  imports OnionParser
begin

section \<open>pkg/onion/onion.go: certificates and descriptor signatures\<close>

text \<open>
  The certificate parser and the verification of a descriptor's signature chain. ed25519.Verify
  is the parameter \<open>verify\<close> (public key, message, signature); time.Now() is \<open>now\<close>. Every
  slice expression of the parser lies behind its length check, so the model writes it as
  \<^const>\<open>take\<close> and \<^const>\<open>drop\<close>.
\<close>

subsection \<open>Certificates\<close>

record Certificate =
  ce_Version :: byte
  ce_CertType :: byte
  ce_ExpiresAt :: time
  ce_SigningKey :: bytes
  ce_Signature :: bytes
  ce_SignedData :: bytes

datatype cert_error =
    CertTooShort nat
  | CertVersion byte
  | CertTruncatedExpiration
  | CertTruncatedKeyType
  | CertKeyType byte
  | CertTruncatedKey
  | CertTruncatedExtensions
  | CertTruncatedExtension nat
  | CertTruncatedExtensionData nat
  | CertTruncatedSignature

fun skip_extensions :: "nat \<Rightarrow> nat \<Rightarrow> bytes \<Rightarrow> nat \<Rightarrow> cert_error + nat" where
  "skip_extensions 0 i certData offset = Inr offset"
| "skip_extensions (Suc n) i certData offset =
     (if offset + 2 > length certData then Inl (CertTruncatedExtension i)
      else
        let extLen = unat (u16_at certData offset); offset1 = offset + 2 in
        if offset1 + 2 + extLen > length certData then Inl (CertTruncatedExtensionData i)
        else skip_extensions n (Suc i) certData (offset1 + (2 + extLen)))"

definition parseCertificate :: "bytes \<Rightarrow> cert_error + Certificate" where
  "parseCertificate certData =
     (if length certData < 40 then Inl (CertTooShort (length certData))
      else if certData ! 0 \<noteq> 1 then Inl (CertVersion (certData ! 0))
      else
        let certType = certData ! 1; offset = 2 in
        if offset + 4 > length certData then Inl CertTruncatedExpiration
        else
          let expiryHours = u32_at certData offset; offset = offset + 4 in
          if offset \<ge> length certData then Inl CertTruncatedKeyType
          else
            let keyType = certData ! offset; offset = offset + 1 in
            if keyType \<noteq> 1 then Inl (CertKeyType keyType)
            else if offset + 32 > length certData then Inl CertTruncatedKey
            else
              let signingKey = take 32 (drop offset certData); offset = offset + 32 in
              if offset \<ge> length certData then Inl CertTruncatedExtensions
              else
                let nExtensions = certData ! offset; offset = offset + 1 in
                (case skip_extensions (unat nExtensions) 0 certData offset of
                   Inl e \<Rightarrow> Inl e
                 | Inr offset \<Rightarrow>
                     if offset + 64 > length certData then Inl CertTruncatedSignature
                     else Inr \<lparr>ce_Version = 1, ce_CertType = certType,
                               ce_ExpiresAt = int (unat expiryHours) * 3600 * Second,
                               ce_SigningKey = signingKey,
                               ce_Signature = take 64 (drop offset certData),
                               ce_SignedData = take offset certData\<rparr>))"

text \<open>The layout: an extension is its length, a type, flags and the data.\<close>

record cert_extension =
  ex_Type :: byte
  ex_Flags :: byte
  ex_Data :: bytes

definition extension_bytes :: "cert_extension \<Rightarrow> bytes" where
  "extension_bytes x = be16 (of_nat (length (ex_Data x))) @ [ex_Type x, ex_Flags x] @ ex_Data x"

definition wf_extension :: "cert_extension \<Rightarrow> bool" where
  "wf_extension x \<longleftrightarrow> length (ex_Data x) < 65536"

definition certificate_bytes :: "byte \<Rightarrow> u32 \<Rightarrow> bytes \<Rightarrow> cert_extension list \<Rightarrow> bytes" where
  "certificate_bytes certType hours key exts =
     [1, certType] @ be32 hours @ [1] @ key @ [of_nat (length exts)] @ concat (map extension_bytes exts)"

lemma unat_u16_of_nat: "n < 65536 \<Longrightarrow> unat (of_nat n :: u16) = n"
  unfolding unat_of_nat by (rule mod_less) simp

lemma skip_extensions_layout:
  assumes "list_all wf_extension exts"
  shows "skip_extensions (length exts) i (pre @ concat (map extension_bytes exts) @ post) (length pre)
    = Inr (length (pre @ concat (map extension_bytes exts)))"
  using assms
proof (induction exts arbitrary: pre i)
  case (Cons x exts)
  let ?r = "concat (map extension_bytes exts)"
  have len: "unat (of_nat (length (ex_Data x)) :: u16) = length (ex_Data x)"
    using Cons.prems by (simp add: wf_extension_def unat_u16_of_nat)
  have "u16_at (pre @ extension_bytes x @ ?r @ post) (length pre) = of_nat (length (ex_Data x))"
    by (simp add: u16_at_append extension_bytes_def u16_at_be16)
  moreover have "length (extension_bytes x) = 4 + length (ex_Data x)" by (simp add: extension_bytes_def)
  moreover have "skip_extensions (length exts) (Suc i) ((pre @ extension_bytes x) @ ?r @ post) (length (pre @ extension_bytes x))
    = Inr (length ((pre @ extension_bytes x) @ ?r))"
    using Cons.prems by (intro Cons.IH) simp
  ultimately show ?case using len by (simp add: Let_def eval_nat_numeral)
qed simp

lemma skip_extensions_sound:
  "skip_extensions n i data off = Inr off' \<Longrightarrow> off \<le> length data \<Longrightarrow>
     \<exists>exts. length exts = n \<and> list_all wf_extension exts \<and> off' \<le> length data
       \<and> take off' data = take off data @ concat (map extension_bytes exts)"
proof (induction n i data off rule: skip_extensions.induct)
  case (2 n i data off)
  let ?len = "unat (u16_at data off)"
  from "2.prems" have bounds: "off + 2 \<le> length data" "off + 2 + 2 + ?len \<le> length data"
    and rec: "skip_extensions n (Suc i) data (off + 2 + (2 + ?len)) = Inr off'"
    by (auto simp: Let_def not_less split: if_splits)
  from "2.IH" [OF _ refl refl _ rec] bounds
  obtain exts where exts: "length exts = n" "list_all wf_extension exts" "off' \<le> length data"
    "take off' data = take (off + 2 + (2 + ?len)) data @ concat (map extension_bytes exts)"
    by (auto simp: not_less)
  define x where "x = \<lparr>ex_Type = data ! (off + 2), ex_Flags = data ! (off + 3), ex_Data = take ?len (drop (off + 4) data)\<rparr>"
  have l: "length (ex_Data x) = ?len" using bounds by (simp add: x_def)
  have "be16 (of_nat ?len) = [data ! off, data ! Suc off]"
    using be16_u16_at [of "data ! off" "data ! Suc off"] by (simp add: u16_at_def)
  then have "extension_bytes x = take 4 (drop off data) @ take ?len (drop (off + 4) data)"
    using bounds unfolding extension_bytes_def l
    by (simp add: x_def Cons_nth_drop_Suc [symmetric] numeral_eq_Suc)
  also have "\<dots> = take (4 + ?len) (drop off data)"
    by (simp add: take_add add.commute)
  finally have "take (off + 2 + (2 + ?len)) data = take off data @ extension_bytes x"
    by (simp add: take_add [symmetric] add.assoc eval_nat_numeral)
  moreover have "wf_extension x" using l by (simp add: wf_extension_def unat_u16_less)
  ultimately show ?case using exts
    by (intro exI [of _ "x # exts"]) simp
qed simp

lemma u32_at_Cons: "u32_at (x # xs) (Suc n) = u32_at xs n"
  by (simp add: u32_at_def add.commute [of _ 3] add.commute [of _ 2])

lemma take_one: "n < length xs \<Longrightarrow> take 1 (drop n xs) = [xs ! n]"
  by (simp add: Cons_nth_drop_Suc [symmetric])

lemma take_two: "2 \<le> length xs \<Longrightarrow> take 2 xs = [xs ! 0, xs ! 1]"
  by (cases xs rule: list.exhaust; cases "tl xs") auto

lemma u32_split:
  fixes a b c d :: byte
  defines "w \<equiv> push_bit 24 (ucast a) OR push_bit 16 (ucast b) OR push_bit 8 (ucast c) OR ucast d :: u32"
  shows "ucast (drop_bit 24 w) = a" "ucast (drop_bit 16 w) = b" "ucast (drop_bit 8 w) = c" "ucast w = d"
  unfolding w_def by (rule bit_word_eqI; auto simp: bit_simps dest: bit_imp_le_length)+

lemma be32_u32_at: "n + 4 \<le> length xs \<Longrightarrow> be32 (u32_at xs n) = take 4 (drop n xs)"
proof -
  assume n: "n + 4 \<le> length xs"
  then have "take 4 (drop n xs) = [xs ! n, xs ! (n + 1), xs ! (n + 2), xs ! (n + 3)]"
    by (simp add: Cons_nth_drop_Suc [symmetric] eval_nat_numeral)
  then show ?thesis
    by (simp only: be32_def u32_at_def u32_split)
qed

text \<open>
  The certificate parser accepts exactly the layout of cert-spec: version 1, the type,
  the expiry in hours, key type 1, a 32-byte key, the counted extensions, a 64-byte signature,
  and possibly bytes after it. It returns the fields of that layout, and as the signed data
  everything before the signature.
\<close>

lemma certificate_parse_layout:
  "parseCertificate data = Inr c \<longleftrightarrow>
    (\<exists>certType hours key exts sig trailing.
       length key = 32 \<and> length sig = 64 \<and> length exts < 256 \<and> list_all wf_extension exts
       \<and> data = certificate_bytes certType hours key exts @ sig @ trailing
       \<and> c = \<lparr>ce_Version = 1, ce_CertType = certType, ce_ExpiresAt = int (unat hours) * 3600 * Second,
             ce_SigningKey = key, ce_Signature = sig, ce_SignedData = certificate_bytes certType hours key exts\<rparr>)"
  (is "?lhs \<longleftrightarrow> ?rhs")
proof
  assume ?lhs
  then have len: "40 \<le> length data" and v: "data ! 0 = 1" and kt: "data ! 6 = 1"
    by (auto simp: parseCertificate_def Let_def not_less split: if_splits)
  with \<open>?lhs\<close> obtain off where skip: "skip_extensions (unat (data ! 39)) 0 data 40 = Inr off"
    and off: "off + 64 \<le> length data"
    and c: "c = \<lparr>ce_Version = 1, ce_CertType = data ! 1, ce_ExpiresAt = int (unat (u32_at data 2)) * 3600 * Second,
                 ce_SigningKey = take 32 (drop 7 data), ce_Signature = take 64 (drop off data),
                 ce_SignedData = take off data\<rparr>"
    by (auto simp: parseCertificate_def Let_def not_less split: if_splits sum.splits)
  obtain exts where exts: "length exts = unat (data ! 39)" "list_all wf_extension exts"
    "take off data = take 40 data @ concat (map extension_bytes exts)"
    using skip_extensions_sound [OF skip len] by blast
  have "take 40 data = take 2 data @ take 4 (drop 2 data) @ take 1 (drop 6 data) @ take 32 (drop 7 data) @ take 1 (drop 39 data)"
    using take_add [of 2 38 data] take_add [of 4 34 "drop 2 data"] take_add [of 1 33 "drop 6 data"]
      take_add [of 32 1 "drop 7 data"] by simp
  then have "take 40 data = [1, data ! 1] @ be32 (u32_at data 2) @ [1] @ take 32 (drop 7 data) @ [data ! 39]"
    using len v kt be32_u32_at [of 2 data] take_one [of 6 data] take_one [of 39 data] take_two [of data] by simp
  moreover have "of_nat (unat (data ! 39)) = data ! 39" by simp
  ultimately have "take off data = certificate_bytes (data ! 1) (u32_at data 2) (take 32 (drop 7 data)) exts"
    by (simp add: exts certificate_bytes_def)
  moreover have "data = take off data @ take 64 (drop off data) @ drop (off + 64) data"
    by (metis append_take_drop_id drop_drop add.commute)
  moreover have "length (take 32 (drop 7 data)) = 32" "length (take 64 (drop off data)) = 64"
    using len off by simp_all
  moreover have "length exts < 256" using exts(1) unat_byte_less by simp
  ultimately show ?rhs using c exts(2) by metis
next
  assume ?rhs
  then obtain certType hours key exts sig trailing where
    l: "length key = 32" "length sig = 64" "length exts < 256" "list_all wf_extension exts"
    and data: "data = certificate_bytes certType hours key exts @ sig @ trailing"
    and c: "c = \<lparr>ce_Version = 1, ce_CertType = certType, ce_ExpiresAt = int (unat hours) * 3600 * Second,
             ce_SigningKey = key, ce_Signature = sig, ce_SignedData = certificate_bytes certType hours key exts\<rparr>"
    by blast
  let ?pre = "[1, certType] @ be32 hours @ [1] @ key @ [of_nat (length exts)]"
  have "skip_extensions (length exts) 0 (?pre @ concat (map extension_bytes exts) @ sig @ trailing) (length ?pre)
      = Inr (length (?pre @ concat (map extension_bytes exts)))"
    by (rule skip_extensions_layout) (rule l)
  then have skip: "skip_extensions (length exts) 0 data 40 = Inr (length (certificate_bytes certType hours key exts))"
    using l by (simp add: data certificate_bytes_def)
  have idx: "data ! 0 = 1" "data ! 1 = certType" "data ! 6 = 1" "u32_at data 2 = hours" "take 32 (drop 7 data) = key"
    "data ! 39 = of_nat (length exts)"
  proof -
    show "data ! 39 = of_nat (length exts)"
      using nth_append_length [of "[1, certType] @ be32 hours @ [1] @ key" "of_nat (length exts)"
          "concat (map extension_bytes exts) @ sig @ trailing"] l(1)
      by (simp add: data certificate_bytes_def)
    show "u32_at data 2 = hours"
      by (simp add: data certificate_bytes_def u32_at_Cons numeral_2_eq_2 u32_at_be32)
    show "data ! 0 = 1" "data ! 1 = certType" "data ! 6 = 1"
      by (simp_all add: data certificate_bytes_def be32_def)
    show "take 32 (drop 7 data) = key"
      using l(1) by (simp add: data certificate_bytes_def be32_def)
  qed
  have "unat (data ! 39) = length exts" unfolding idx using l(3) by (rule unat_of_nat_byte)
  moreover have "40 \<le> length (certificate_bytes certType hours key exts)"
    using l(1) by (simp add: certificate_bytes_def)
  ultimately show ?lhs
    using skip idx l(2) by (simp add: parseCertificate_def Let_def c data)
qed

subsection \<open>Verification of a descriptor\<close>

text \<open>bytes.Index: the position of the first occurrence.\<close>

fun find_sub :: "string \<Rightarrow> string \<Rightarrow> nat option" where
  "find_sub pat [] = (if pat = [] then Some 0 else None)"
| "find_sub pat (c # cs) = (if has_prefix pat (c # cs) then Some 0 else map_option Suc (find_sub pat cs))"

datatype verify_error =
    VerifyNilDescriptor
  | VerifyNilAddress
  | InvalidPubkeyLength nat
  | NoSignature
  | InvalidSignatureLength nat
  | NoRawData
  | SignatureLineNotFound
  | NoSigningKeyCert
  | BadCertificate cert_error
  | InvalidCertType byte
  | CertificateExpired time
  | CertSignatureInvalid
  | SigningKeyLength nat
  | DescriptorSignatureInvalid

definition VerifyDescriptorSignature ::
  "(bytes \<Rightarrow> bytes \<Rightarrow> bytes \<Rightarrow> bool) \<Rightarrow> time \<Rightarrow> Descriptor option \<Rightarrow> address option \<Rightarrow> verify_error + unit" where
  "VerifyDescriptorSignature verify now descriptor address =
     (case descriptor of None \<Rightarrow> Inl VerifyNilDescriptor | Some d \<Rightarrow>
     (case address of None \<Rightarrow> Inl VerifyNilAddress | Some a \<Rightarrow>
      if length (ad_Pubkey a) \<noteq> 32 then Inl (InvalidPubkeyLength (length (ad_Pubkey a)))
      else if length (de_Signature d) = 0 then Inl NoSignature
      else if length (de_Signature d) \<noteq> 64 then Inl (InvalidSignatureLength (length (de_Signature d)))
      else if length (de_RawDescriptor d) = 0 then Inl NoRawData
      else
        (case find_sub ''signature '' (string_of_bytes (de_RawDescriptor d)) of
           None \<Rightarrow> Inl SignatureLineNotFound
         | Some signatureIdx \<Rightarrow>
             let signedMessage = take signatureIdx (de_RawDescriptor d) in
             if length (de_DescriptorSigningKeyCert d) = 0 then Inl NoSigningKeyCert
             else
               (case parseCertificate (de_DescriptorSigningKeyCert d) of
                  Inl e \<Rightarrow> Inl (BadCertificate e)
                | Inr cert \<Rightarrow>
                    if ce_CertType cert \<noteq> 4 then Inl (InvalidCertType (ce_CertType cert))
                    else if now > ce_ExpiresAt cert then Inl (CertificateExpired (ce_ExpiresAt cert))
                    else if \<not> verify (ad_Pubkey a) (ce_SignedData cert) (ce_Signature cert) then Inl CertSignatureInvalid
                    else if length (ce_SigningKey cert) \<noteq> 32 then Inl (SigningKeyLength (length (ce_SigningKey cert)))
                    else if \<not> verify (ce_SigningKey cert) signedMessage (de_Signature d) then Inl DescriptorSignatureInvalid
                    else Inr ()))))"

definition VerifyDescriptorSignatureWithCertChain ::
  "(bytes \<Rightarrow> bytes \<Rightarrow> bytes \<Rightarrow> bool) \<Rightarrow> time \<Rightarrow> Descriptor option \<Rightarrow> address option \<Rightarrow> verify_error + unit" where
  "VerifyDescriptorSignatureWithCertChain verify now descriptor address =
     VerifyDescriptorSignature verify now descriptor address"

datatype parse_verify_error = ParsingFailed descriptor_error | VerificationFailed verify_error

text \<open>The clock is read once by the parser and once, later, by the verification.\<close>

definition ParseDescriptorWithVerification ::
  "(bytes \<Rightarrow> bytes \<Rightarrow> bytes \<Rightarrow> bool) \<Rightarrow> time \<Rightarrow> time \<Rightarrow> bytes \<Rightarrow> address option \<Rightarrow> parse_verify_error + Descriptor" where
  "ParseDescriptorWithVerification verify now later raw address =
     (case ParseDescriptor now raw of
        Inl e \<Rightarrow> Inl (ParsingFailed e)
      | Inr desc \<Rightarrow>
          (case VerifyDescriptorSignature verify later (Some desc) address of
             Inl e \<Rightarrow> Inl (VerificationFailed e)
           | Inr u \<Rightarrow> Inr desc))"

text \<open>
  C13: An accepted descriptor is backed by the whole chain: with \<open>signed_by key message\<close> standing
  for what the owner of a key ever signed, and ed25519 accepting only such messages, the owner
  of the address signed a type 4 certificate for some key that had not expired, and the owner
  of that key signed the text before the first signature keyword.
\<close>

theorem accepted_descriptor_authentic:
  assumes ed25519: "\<And>key m s. verify key m s \<Longrightarrow> signed_by key m"
    and ok: "ParseDescriptorWithVerification verify now later raw (Some a) = Inr d"
  shows "\<exists>hours key exts idx. length key = 32
     \<and> signed_by (ad_Pubkey a) (certificate_bytes 4 hours key exts)
     \<and> later \<le> int (unat hours) * 3600 * Second
     \<and> find_sub ''signature '' (string_of_bytes (de_RawDescriptor d)) = Some idx
     \<and> signed_by key (take idx (de_RawDescriptor d))"
proof -
  from ok have "VerifyDescriptorSignature verify later (Some d) (Some a) = Inr ()"
    by (auto simp: ParseDescriptorWithVerification_def split: sum.splits)
  then obtain idx c where idx: "find_sub ''signature '' (string_of_bytes (de_RawDescriptor d)) = Some idx"
    and c: "parseCertificate (de_DescriptorSigningKeyCert d) = Inr c"
    and chk: "ce_CertType c = 4" "later \<le> ce_ExpiresAt c" "verify (ad_Pubkey a) (ce_SignedData c) (ce_Signature c)"
      "verify (ce_SigningKey c) (take idx (de_RawDescriptor d)) (de_Signature d)"
    by (auto simp: VerifyDescriptorSignature_def Let_def not_less split: option.splits if_splits sum.splits)
  from c obtain certType hours key exts sig where
    "length key = 32" "c = \<lparr>ce_Version = 1, ce_CertType = certType, ce_ExpiresAt = int (unat hours) * 3600 * Second,
        ce_SigningKey = key, ce_Signature = sig, ce_SignedData = certificate_bytes certType hours key exts\<rparr>"
    unfolding certificate_parse_layout by blast
  with idx chk ed25519 show ?thesis
    by (intro exI [of _ hours] exI [of _ key] exI [of _ exts] exI [of _ idx]) auto
qed

subsection \<open>What the signature does not cover\<close>

lemma has_prefix_append: "has_prefix p s \<Longrightarrow> has_prefix p (s @ t)"
proof -
  assume *: "has_prefix p s"
  then have "length p \<le> length s" by (metis has_prefix_def length_take min.absorb_iff2 nat_le_linear take_all)
  with * show ?thesis by (simp add: has_prefix_def)
qed

lemma has_prefix_append_iff: "length p \<le> length s \<Longrightarrow> has_prefix p (s @ t) = has_prefix p s"
  by (simp add: has_prefix_def)

lemma find_sub_bound: "find_sub pat s = Some i \<Longrightarrow> i + length pat \<le> length s"
proof (induction s arbitrary: i)
  case (Cons c s)
  then show ?case
    by (auto simp: has_prefix_def split: if_splits dest: arg_cong [where f = length])
qed (simp split: if_splits)

lemma find_sub_append: "find_sub pat s = Some i \<Longrightarrow> find_sub pat (s @ t) = Some i"
proof (induction s arbitrary: i)
  case Nil
  then show ?case by (cases t) (auto simp: has_prefix_def split: if_splits)
next
  case (Cons c s)
  show ?case
  proof (cases "has_prefix pat (c # s)")
    case True
    with Cons.prems has_prefix_append [OF True, of t] show ?thesis by simp
  next
    case False
    with Cons.prems obtain j where j: "find_sub pat s = Some j" "i = Suc j" by auto
    then have "\<not> has_prefix pat (c # s @ t)"
      using find_sub_bound [OF j(1)] False has_prefix_append_iff [of pat "c # s" t] by simp
    with Cons.IH [OF j(1)] j(2) show ?thesis by simp
  qed
qed

lemma string_of_bytes_append: "string_of_bytes (xs @ ys) = string_of_bytes xs @ string_of_bytes ys"
  by (simp add: string_of_bytes_def)

text \<open>The verdict depends on neither what follows the signature keyword nor the introduction points.\<close>

lemma verify_ignores_tail:
  assumes "VerifyDescriptorSignature verify now (Some d) address = Inr ()"
    and "de_RawDescriptor d' = de_RawDescriptor d @ tail" and "de_Signature d' = de_Signature d"
    and "de_DescriptorSigningKeyCert d' = de_DescriptorSigningKeyCert d"
  shows "VerifyDescriptorSignature verify now (Some d') address = Inr ()"
proof -
  obtain a where a: "address = Some a"
    using assms(1) by (cases address) (simp_all add: VerifyDescriptorSignature_def)
  from assms(1) obtain idx where idx: "find_sub ''signature '' (string_of_bytes (de_RawDescriptor d)) = Some idx"
    by (auto simp: VerifyDescriptorSignature_def a split: option.splits if_splits)
  then have "find_sub ''signature '' (string_of_bytes (de_RawDescriptor d')) = Some idx"
    using find_sub_append by (simp add: assms(2) string_of_bytes_append)
  moreover have "take idx (de_RawDescriptor d') = take idx (de_RawDescriptor d)"
    using find_sub_bound [OF idx] by (simp add: assms(2) string_of_bytes_def)
  moreover have "de_RawDescriptor d \<noteq> []"
    using idx by (auto simp: string_of_bytes_def)
  then have "de_RawDescriptor d' \<noteq> []" by (simp add: assms(2))
  ultimately have "VerifyDescriptorSignature verify now (Some d') address = VerifyDescriptorSignature verify now (Some d) address"
    using \<open>de_RawDescriptor d \<noteq> []\<close> idx
    unfolding VerifyDescriptorSignature_def a option.case assms(3,4) by simp
  with assms(1) show ?thesis by simp
qed

text \<open>A minimal signed descriptor: header, certificate, revision counter, signature.\<close>

definition signed_lines :: "bytes \<Rightarrow> u64 \<Rightarrow> bytes \<Rightarrow> string list" where
  "signed_lines cert r sig =
     [''hs-descriptor 3'', ''descriptor-signing-key-cert'', ''-----BEGIN ED25519 CERT-----''] @ chunk64 (b64_encode cert)
     @ [''-----END ED25519 CERT-----'', ''revision-counter '' @ dec_of_nat (unat r), ''signature '' @ b64_encode sig]"

lemma concat_chunk64: "concat (chunk64 s) = s"
  by (induction s rule: chunk64.induct) (simp add: chunk64.simps)

lemma certificate_lines_words:
  assumes "\<forall>l\<in>set ls. word_text l \<and> hd l \<noteq> CHR ''-''" and "has_prefix ''-----END'' (trim_space e)"
    and "\<not> has_prefix ''-----BEGIN'' (trim_space e)"
  shows "certificate_lines True (ls @ e # rest) = ls"
  using assms(1)
proof (induction ls)
  case Nil
  then show ?case using assms(2,3) by (simp add: Let_def)
next
  case (Cons l ls)
  then have l: "word_text l" "hd l \<noteq> CHR ''-''" by simp_all
  then have t: "trim_space l = l" using word_text_ends trim_space_id by blast
  have "l \<noteq> []" using l(1) by (simp add: word_text_def)
  with l(2) have "\<not> has_prefix ''-----BEGIN'' l" "\<not> has_prefix ''-----END'' l"
    by (cases l; simp add: has_prefix_def)+
  with Cons t \<open>l \<noteq> []\<close> show ?case by (simp add: Let_def)
qed

lemma parse_signed_certificate:
  assumes "cert \<noteq> []"
  shows "parse_certificate_block
      ([''-----BEGIN ED25519 CERT-----''] @ chunk64 (b64_encode cert) @ ''-----END ED25519 CERT-----'' # rest) desc
    = desc\<lparr>de_DescriptorSigningKeyCert := cert\<rparr>"
proof -
  have "word_text l \<and> hd l \<noteq> CHR ''-''" if "l \<in> set (chunk64 (b64_encode cert))" for l
  proof -
    from that have w: "word_text l" using silent_chunk by blast
    then have "hd l \<in> set l" by (simp add: word_text_def)
    with that have "b64_text (hd l)"
      using chunk64_sound [of "b64_encode cert"] b64_encode_text [of "hd l" cert] by blast
    then have "hd l \<noteq> CHR ''-''" by (auto simp: b64_text_def)
    with w show ?thesis by simp
  qed
  moreover have t: "trim_space ''-----END ED25519 CERT-----'' = ''-----END ED25519 CERT-----''"
    "trim_space ''-----BEGIN ED25519 CERT-----'' = ''-----BEGIN ED25519 CERT-----''"
    by (simp_all add: trim_space_def is_space_def)
  ultimately have "certificate_lines True (chunk64 (b64_encode cert) @ ''-----END ED25519 CERT-----'' # rest)
      = chunk64 (b64_encode cert)"
    by (intro certificate_lines_words) (simp_all add: has_prefix_def)
  then have "certificate_lines False ([''-----BEGIN ED25519 CERT-----''] @ chunk64 (b64_encode cert) @ ''-----END ED25519 CERT-----'' # rest)
      = chunk64 (b64_encode cert)"
    by (simp add: t has_prefix_def Let_def)
  moreover have "chunk64 (b64_encode cert) \<noteq> []"
    using assms by (simp add: chunk64.simps [of "b64_encode cert"])
  ultimately show ?thesis by (simp add: parse_certificate_block_def concat_chunk64)
qed

lemma parses_signed_lines:
  assumes "cert \<noteq> []" and "sig \<noteq> []" and "dp_currentIntroPoint st = None"
  shows "parses (signed_lines cert r sig) rest st
    (st\<lparr>dp_desc := (dp_desc st)\<lparr>de_Version := 3, de_DescriptorSigningKeyCert := cert, de_RevisionCounter := r,
       de_Signature := sig\<rparr>\<rparr>)"
proof -
  let ?st1 = "st\<lparr>dp_desc := (dp_desc st)\<lparr>de_Version := 3\<rparr>\<rparr>"
  let ?st2 = "st\<lparr>dp_desc := (dp_desc st)\<lparr>de_Version := 3, de_DescriptorSigningKeyCert := cert\<rparr>\<rparr>"
  let ?st3 = "st\<lparr>dp_desc := (dp_desc st)\<lparr>de_Version := 3, de_DescriptorSigningKeyCert := cert, de_RevisionCounter := r\<rparr>\<rparr>"
  let ?st4 = "st\<lparr>dp_desc := (dp_desc st)\<lparr>de_Version := 3, de_DescriptorSigningKeyCert := cert, de_RevisionCounter := r,
       de_Signature := sig\<rparr>\<rparr>"
  have w: "word_text ''hs-descriptor''" "word_text ''descriptor-signing-key-cert''" "word_text ''-----BEGIN''"
    "word_text ''-----END''" "word_text ''revision-counter''" "word_text ''signature''"
    by (simp_all add: word_text_def is_space_def)
  have l1: "parse_descriptor_line i ''hs-descriptor 3'' rs st = Inr ?st1" for i rs
    using parse_line_args [OF w(1), of "''3''"] by (simp add: parse_keyword_def Let_def is_space_def)
  have l2: "parse_descriptor_line i ''descriptor-signing-key-cert''
      ([''-----BEGIN ED25519 CERT-----''] @ chunk64 (b64_encode cert) @ ''-----END ED25519 CERT-----'' # rs) ?st1 = Inr ?st2" for i rs
    using parse_line_word [OF w(2)] parse_signed_certificate [OF assms(1)] by (simp add: parse_keyword_def Let_def)
  have l3: "parse_descriptor_line i ''-----BEGIN ED25519 CERT-----'' rs ?st2 = Inr ?st2" for i rs
    using parse_line_args [OF w(3), of "''ED25519 CERT-----''"] by (simp add: parse_keyword_def Let_def is_space_def)
  have l4: "parse_descriptor_line i ''-----END ED25519 CERT-----'' rs ?st2 = Inr ?st2" for i rs
    using parse_line_args [OF w(4), of "''ED25519 CERT-----''"] by (simp add: parse_keyword_def Let_def is_space_def)
  have r: "unat r < 2 ^ 64"
    using unsigned_less [of r] by simp
  have l5: "parse_descriptor_line i (''revision-counter '' @ dec_of_nat (unat r)) rs ?st2 = Inr ?st3" for i rs
    using parse_line_args [OF w(5), of "dec_of_nat (unat r)"] word_text_ends [OF word_dec]
    by (simp add: parse_keyword_def Let_def sscan_uint64_dec [OF r])
  have l6: "parse_descriptor_line i (''signature '' @ b64_encode sig) rs ?st3 = Inr ?st4" for i rs
    using parse_line_b64 [OF w(6) assms(2), where pre = "[]"] assms(3)
    by (simp add: parse_keyword_def Let_def parse_signature_def flush_intro_point_def)
  have chunks: "parses (chunk64 (b64_encode cert)) rs ?st2 ?st2" for rs
    using silent_chunk by (intro parses_silent_words) blast
  have tail: "parses [''-----END ED25519 CERT-----'', ''revision-counter '' @ dec_of_nat (unat r), ''signature '' @ b64_encode sig] rest ?st2 ?st4"
    by (rule parses_one [OF l4], rule parses_one [OF l5], rule parses_single [OF l6])
  have "parses ([''-----BEGIN ED25519 CERT-----''] @ chunk64 (b64_encode cert)
     @ [''-----END ED25519 CERT-----'', ''revision-counter '' @ dec_of_nat (unat r), ''signature '' @ b64_encode sig]) rest ?st2 ?st4"
    by (rule parses_append [OF parses_single [OF l3] parses_append [OF chunks tail]])
  then have "parses (''descriptor-signing-key-cert'' # [''-----BEGIN ED25519 CERT-----''] @ chunk64 (b64_encode cert)
     @ [''-----END ED25519 CERT-----'', ''revision-counter '' @ dec_of_nat (unat r), ''signature '' @ b64_encode sig]) rest ?st1 ?st4"
    by (rule parses_one [rotated])
       (use l2 [of _ "[''revision-counter '' @ dec_of_nat (unat r), ''signature '' @ b64_encode sig] @ rest"] in simp)
  then have "parses (''hs-descriptor 3'' # ''descriptor-signing-key-cert'' # [''-----BEGIN ED25519 CERT-----''] @ chunk64 (b64_encode cert)
     @ [''-----END ED25519 CERT-----'', ''revision-counter '' @ dec_of_nat (unat r), ''signature '' @ b64_encode sig]) rest st ?st4"
    by (rule parses_one [OF l1])
  then show ?thesis
    by (simp add: signed_lines_def)
qed

lemma parse_of_lines:
  assumes "list_all (\<lambda>l. newline \<notin> set l) ls" and "ls \<noteq> []"
    and "parses ls [[]] \<lparr>dp_desc = new_descriptor now (bytes_of_string (unlines ls)), dp_currentIntroPoint = None,
           dp_inIntroPointBlock = False\<rparr> st"
  shows "ParseDescriptor now (bytes_of_string (unlines ls)) = Inr (flush_intro_point (dp_desc st) st)"
proof -
  have "parse_descriptor_line i [] rs s = Inr s" for i rs s
    by (simp add: parse_descriptor_line_def trim_space_def split_keyword_def)
  moreover have "unlines ls \<noteq> []" using assms(2) by (cases ls) (simp_all add: unlines_def)
  ultimately show ?thesis
    using assms(3) by (simp add: ParseDescriptor_def split_unlines [OF assms(1)] parses_def bytes_of_string_def
      string_of_bytes_of_string [unfolded bytes_of_string_def])
qed

lemma no_newline_signed: "list_all (\<lambda>l. newline \<notin> set l) (signed_lines cert r sig)"
proof -
  have "list_all (\<lambda>l. newline \<notin> set l) (chunk64 (b64_encode cert))"
    using no_newline_chunk by (auto simp: list_all_iff)
  then show ?thesis by (simp add: signed_lines_def no_newline_dec no_newline_b64)
qed

lemma unlines_append: "unlines (xs @ ys) = unlines xs @ unlines ys"
  by (simp add: unlines_def)

lemma bytes_of_string_append: "bytes_of_string (s @ t) = bytes_of_string s @ bytes_of_string t"
  by (simp add: bytes_of_string_def)

text \<open>
  Text after the signature line is parsed but not covered by the signature: whoever
  relays a signed descriptor that passes verification can append an introduction point with
  keys of their own, and the longer descriptor still passes, now with that point in it.
\<close>

lemma appended_intro_point_accepted:
  assumes cert: "cert \<noteq> []" and sig: "sig \<noteq> []"
    and raw: "raw = bytes_of_string (unlines (signed_lines cert r sig))"
    and ok: "ParseDescriptorWithVerification verify now later raw address = Inr d"
  shows "de_IntroPoints d = [] \<and>
    (\<exists>d'. ParseDescriptorWithVerification verify now later
            (raw @ bytes_of_string (unlines (intro_point_lines 0 ip))) address = Inr d'
        \<and> de_IntroPoints d' = [reparsed_intro_point ip])"
proof -
  let ?tail = "bytes_of_string (unlines (intro_point_lines 0 ip))"
  let ?s = "\<lambda>w. \<lparr>dp_desc = new_descriptor now w, dp_currentIntroPoint = None, dp_inIntroPointBlock = False\<rparr>"
  let ?f = "\<lambda>w. (new_descriptor now w)\<lparr>de_Version := 3, de_DescriptorSigningKeyCert := cert, de_RevisionCounter := r,
       de_Signature := sig\<rparr>"
  have step: "parses (signed_lines cert r sig) rest (?s w) (?s w\<lparr>dp_desc := ?f w\<rparr>)" for rest w
    using parses_signed_lines [OF cert sig, of "?s w" r rest] by simp
  have nonempty: "signed_lines cert r sig \<noteq> []" by (simp add: signed_lines_def)
  have p: "ParseDescriptor now raw = Inr (?f raw)"
    using parse_of_lines [OF no_newline_signed nonempty step] by (simp add: raw flush_intro_point_def)
  then have d: "d = ?f raw" and v: "VerifyDescriptorSignature verify later (Some d) address = Inr ()"
    using ok by (auto simp: ParseDescriptorWithVerification_def split: sum.splits)
  have raw': "raw @ ?tail = bytes_of_string (unlines (signed_lines cert r sig @ intro_point_lines 0 ip))"
    by (simp add: raw unlines_append bytes_of_string_append)
  have "list_all (\<lambda>l. newline \<notin> set l) (signed_lines cert r sig @ intro_point_lines 0 ip)"
    using no_newline_signed no_newline_intro [of 0 "[ip]"] by simp
  moreover have "no_ntor [[]]" by (simp add: no_ntor_def trim_space_def has_prefix_def)
  from parses_append [OF step parses_intro_point [OF this]]
  have "parses (signed_lines cert r sig @ intro_point_lines 0 ip) [[]] (?s (raw @ ?tail))
      (in_block (?s (raw @ ?tail)\<lparr>dp_desc := ?f (raw @ ?tail)\<rparr>) (reparsed_intro_point ip))" .
  ultimately have p': "ParseDescriptor now (raw @ ?tail)
      = Inr (?f (raw @ ?tail)\<lparr>de_IntroPoints := [reparsed_intro_point ip]\<rparr>)"
    using parse_of_lines [of "signed_lines cert r sig @ intro_point_lines 0 ip" now] nonempty
    by (simp add: raw' [symmetric] flush_intro_point_def in_block_def new_descriptor_def)
  have "VerifyDescriptorSignature verify later (Some (?f (raw @ ?tail)\<lparr>de_IntroPoints := [reparsed_intro_point ip]\<rparr>)) address = Inr ()"
    by (rule verify_ignores_tail [OF v]) (simp_all add: d new_descriptor_def)
  with p' d show ?thesis
    by (simp add: ParseDescriptorWithVerification_def new_descriptor_def)
qed

text \<open>A certificate and a signature that an accept-all verifier takes, for the examples.\<close>

definition example_cert :: bytes where
  "example_cert = certificate_bytes 4 500000 (zeros 32) [] @ zeros 64"

lemma example_cert_parse:
  "parseCertificate example_cert = Inr \<lparr>ce_Version = 1, ce_CertType = 4, ce_ExpiresAt = 500000 * 3600 * Second,
     ce_SigningKey = zeros 32, ce_Signature = zeros 64, ce_SignedData = certificate_bytes 4 500000 (zeros 32) []\<rparr>"
proof -
  have "example_cert = certificate_bytes 4 500000 (zeros 32) [] @ zeros 64 @ []"
    by (simp add: example_cert_def)
  then have "parseCertificate example_cert = Inr \<lparr>ce_Version = 1, ce_CertType = 4, ce_ExpiresAt = int (unat (500000 :: u32)) * 3600 * Second,
     ce_SigningKey = zeros 32, ce_Signature = zeros 64, ce_SignedData = certificate_bytes 4 500000 (zeros 32) []\<rparr>"
    unfolding certificate_parse_layout
    by (intro exI [of _ 4] exI [of _ "500000 :: u32"] exI [of _ "zeros 32"] exI [of _ "zeros 64"] exI [of _ "[]"]) simp
  then show ?thesis by simp
qed

lemma unlines_single: "unlines [l] = l @ [newline]"
  by (simp add: unlines_def)

lemma find_sub_occurs: "find_sub pat (p @ pat @ q) \<noteq> None"
proof (induction p)
  case Nil
  have "has_prefix pat (pat @ q)" by (simp add: has_prefix_def)
  then show ?case by (cases "pat @ q") simp_all
qed auto

lemma example_signed_ok:
  defines "raw \<equiv> bytes_of_string (unlines (signed_lines example_cert 1 (zeros 64)))"
  shows "ParseDescriptorWithVerification (\<lambda>k m s. True) 0 0 raw (Some \<lparr>ad_Version = 3, ad_Pubkey = zeros 32, ad_Raw = []\<rparr>)
    = Inr ((new_descriptor 0 raw)\<lparr>de_Version := 3, de_DescriptorSigningKeyCert := example_cert, de_RevisionCounter := 1,
             de_Signature := zeros 64\<rparr>)"
proof -
  let ?d = "(new_descriptor 0 raw)\<lparr>de_Version := 3, de_DescriptorSigningKeyCert := example_cert, de_RevisionCounter := 1,
             de_Signature := zeros 64\<rparr>"
  have ne: "example_cert \<noteq> []" "zeros 64 \<noteq> ([] :: bytes)" "raw \<noteq> []" "signed_lines example_cert 1 (zeros 64) \<noteq> []"
    by (simp_all add: example_cert_def raw_def signed_lines_def unlines_def bytes_of_string_def)
  have "ParseDescriptor 0 raw = Inr ?d"
    unfolding raw_def
    using parse_of_lines [OF no_newline_signed ne(4) parses_signed_lines [OF ne(1,2)]]
    by (simp add: flush_intro_point_def)
  moreover have "last (signed_lines example_cert 1 (zeros 64)) = ''signature '' @ b64_encode (zeros 64)"
    by (simp add: signed_lines_def)
  then have "signed_lines example_cert 1 (zeros 64)
      = butlast (signed_lines example_cert 1 (zeros 64)) @ [''signature '' @ b64_encode (zeros 64)]"
    using append_butlast_last_id [OF ne(4)] by simp
  then have "string_of_bytes raw = unlines (butlast (signed_lines example_cert 1 (zeros 64)))
      @ ''signature '' @ (b64_encode (zeros 64) @ [newline])"
    unfolding raw_def string_of_bytes_of_string by (metis append.assoc unlines_append unlines_single)
  then obtain i where "find_sub ''signature '' (string_of_bytes raw) = Some i"
    using find_sub_occurs by (metis option.exhaust)
  ultimately show ?thesis
    using ne by (simp add: ParseDescriptorWithVerification_def VerifyDescriptorSignature_def new_descriptor_def
      example_cert_parse Second_def)
qed

theorem accepted_descriptor_authentic_witness:
  "let raw = bytes_of_string (unlines (signed_lines example_cert 1 (zeros 64)));
       d = (new_descriptor 0 raw)\<lparr>de_Version := 3, de_DescriptorSigningKeyCert := example_cert, de_RevisionCounter := 1,
             de_Signature := zeros 64\<rparr>
   in \<exists>hours key exts idx. length key = 32
     \<and> length (certificate_bytes 4 hours key exts) \<ge> 40
     \<and> 0 \<le> int (unat hours) * 3600 * Second
     \<and> find_sub ''signature '' (string_of_bytes (de_RawDescriptor d)) = Some idx"
proof -
  define raw where "raw = bytes_of_string (unlines (signed_lines example_cert 1 (zeros 64)))"
  define d where "d = (new_descriptor 0 raw)\<lparr>de_Version := 3, de_DescriptorSigningKeyCert := example_cert,
      de_RevisionCounter := 1, de_Signature := zeros 64\<rparr>"
  have "ParseDescriptorWithVerification (\<lambda>k m s. True) 0 0 raw (Some \<lparr>ad_Version = 3, ad_Pubkey = zeros 32, ad_Raw = []\<rparr>) = Inr d"
    unfolding raw_def d_def by (rule example_signed_ok)
  note ok = this
  have "\<exists>(hours :: u32) (key :: bytes) (exts :: cert_extension list) idx. length key = 32 \<and> True \<and> 0 \<le> int (unat hours) * 3600 * Second
     \<and> find_sub ''signature '' (string_of_bytes (de_RawDescriptor d)) = Some idx \<and> True"
    using accepted_descriptor_authentic [where signed_by = "\<lambda>k m. True", OF _ ok] by simp
  then obtain hours :: u32 and key :: bytes and idx and exts :: "cert_extension list" where *: "length key = 32" "0 \<le> int (unat hours) * 3600 * Second"
    "find_sub ''signature '' (string_of_bytes (de_RawDescriptor d)) = Some idx" by blast
  moreover from *(1) have "length (certificate_bytes 4 hours key exts) \<ge> 40" by (simp add: certificate_bytes_def)
  ultimately show ?thesis unfolding Let_def raw_def [symmetric] d_def [symmetric] by blast
qed

lemma appended_intro_point_accepted_example:
  "let raw = bytes_of_string (unlines (signed_lines example_cert 1 (zeros 64)));
       a = \<lparr>ad_Version = 3, ad_Pubkey = zeros 32, ad_Raw = []\<rparr>;
       ip = empty_intro_point\<lparr>ip_EncKey := replicate 32 66\<rparr>
   in \<exists>d'. ParseDescriptorWithVerification (\<lambda>k m s. True) 0 0
            (raw @ bytes_of_string (unlines (intro_point_lines 0 ip))) (Some a) = Inr d'
        \<and> de_IntroPoints d' = [reparsed_intro_point ip]"
  unfolding Let_def
  by (rule conjunct2, rule appended_intro_point_accepted [OF _ _ refl example_signed_ok])
     (simp_all add: example_cert_def)

end
