(* ===== verification/ExchangeSort.thy ===== *)
theory ExchangeSort
  imports Main "HOL-Library.Multiset"
begin

section \<open>The exchange sort of the code\<close>

text \<open>
  Two packages sort with the same pair of loops: pkg/onion the directories by distance, pkg/metrics
  the observed durations. The interface is the conditional exchange of the inner loop; its client
  is the pair of loops, which sorts by the key and keeps the elements.
\<close>

locale exchange_sort =
  fixes key :: "'a \<Rightarrow> 'b::linorder" and exch :: "nat \<Rightarrow> 'a list \<Rightarrow> nat \<Rightarrow> 'a list"
  assumes exch: "i < j \<Longrightarrow> j < length xs \<Longrightarrow>
      exch i xs j = (if key (xs ! j) < key (xs ! i) then xs[i := xs ! j, j := xs ! i] else xs)"
    and exch_length [simp]: "length (exch i xs j) = length xs"
begin

lemma inner_length [simp]: "length (foldl (exch i) ds js) = length ds"
  by (induction js arbitrary: ds) simp_all

lemma exch_props:
  assumes "i < j" and "j < length ds"
  shows "take i (exch i ds j) = take i ds" and "mset (drop i (exch i ds j)) = mset (drop i ds)"
    and "key (exch i ds j ! i) \<le> key (exch i ds j ! j)"
    and "key (exch i ds j ! i) \<le> key (ds ! i)"
    and "k \<noteq> i \<Longrightarrow> k \<noteq> j \<Longrightarrow> exch i ds j ! k = ds ! k"
proof -
  note c = exch [OF assms]
  have "drop i (ds[i := ds ! j, j := ds ! i]) = (drop i ds)[0 := drop i ds ! (j - i), j - i := drop i ds ! 0]"
    using assms by (simp add: drop_update_swap)
  moreover have "mset ((drop i ds)[0 := drop i ds ! (j - i), j - i := drop i ds ! 0]) = mset (drop i ds)"
    using assms by (intro mset_swap) simp_all
  ultimately show "mset (drop i (exch i ds j)) = mset (drop i ds)"
    by (simp add: c)
  show "take i (exch i ds j) = take i ds"
    using assms by (simp add: c)
  show "key (exch i ds j ! i) \<le> key (exch i ds j ! j)"
    using assms by (auto simp: c)
  show "key (exch i ds j ! i) \<le> key (ds ! i)"
    using assms by (auto simp: c)
  show "k \<noteq> i \<Longrightarrow> k \<noteq> j \<Longrightarrow> exch i ds j ! k = ds ! k"
    by (simp add: c)
qed

lemma inner_loop:
  assumes "i < m" and "m \<le> length ds"
  defines "r \<equiv> foldl (exch i) ds [i + 1..<m]"
  shows "take i r = take i ds \<and> mset (drop i r) = mset (drop i ds) \<and> (\<forall>k. i < k \<and> k < m \<longrightarrow> key (r ! i) \<le> key (r ! k))"
  using assms(1,2) unfolding r_def
proof (induction m)
  case (Suc m)
  show ?case
  proof (cases "i = m")
    case True
    then show ?thesis by auto
  next
    case False
    with Suc.prems have i: "i < m" "m < length ds" by simp_all
    let ?r = "foldl (exch i) ds [i + 1..<m]"
    from Suc.IH i have IH: "take i ?r = take i ds" "mset (drop i ?r) = mset (drop i ds)"
      "\<And>k. i < k \<Longrightarrow> k < m \<Longrightarrow> key (?r ! i) \<le> key (?r ! k)" by simp_all
    have m: "m < length ?r" using i by simp
    note p = exch_props [OF i(1) m]
    have "key (exch i ?r m ! i) \<le> key (exch i ?r m ! k)" if "i < k" "k < Suc m" for k
    proof (cases "k = m")
      case True
      then show ?thesis using p(3) by simp
    next
      case False
      with that have "exch i ?r m ! k = ?r ! k" using p(5) by simp
      with IH(3) [of k] p(4) that False show ?thesis by auto
    qed
    with IH p(1,2) i show ?thesis by simp
  qed
qed simp

lemma selection_step:
  fixes r s :: "'a list"
  assumes len: "length s = length r" and n: "n < length r" and pre: "take n s = take n r"
    and ms: "mset (drop n s) = mset (drop n r)" and min_n: "\<And>k. n < k \<Longrightarrow> k < length r \<Longrightarrow> key (s ! n) \<le> key (s ! k)"
    and sorted: "sorted (map key (take n r))"
    and low: "\<And>a b. a \<in> set (take n r) \<Longrightarrow> b \<in> set (drop n r) \<Longrightarrow> key a \<le> key b"
  shows "mset s = mset r \<and> sorted (map key (take (Suc n) s))
    \<and> (\<forall>a\<in>set (take (Suc n) s). \<forall>b\<in>set (drop (Suc n) s). key a \<le> key b)"
proof -
  have "mset s = mset (take n s) + mset (drop n s)" by (metis append_take_drop_id mset_append)
  also have "\<dots> = mset r" unfolding pre ms by (metis append_take_drop_id mset_append)
  finally have mset: "mset s = mset r" .
  have split: "take (Suc n) s = take n s @ [s ! n]" "drop n s = s ! n # drop (Suc n) s"
    using n len by (simp_all add: take_Suc_conv_app_nth Cons_nth_drop_Suc)
  have least: "key (s ! n) \<le> key b" if b: "b \<in> set (drop (Suc n) s)" for b
  proof -
    obtain k where k: "k < length (drop (Suc n) s)" "drop (Suc n) s ! k = b"
      using b unfolding in_set_conv_nth by blast
    then show ?thesis using min_n [of "Suc n + k"] len n by simp
  qed
  have "set (drop n s) = set (drop n r)" using ms by (metis set_mset_mset)
  with low pre have below: "key a \<le> key b" if "a \<in> set (take n s)" "b \<in> set (drop n s)" for a b
    using that by metis
  have "sorted (map key (take (Suc n) s))"
    using sorted below unfolding split(1) pre [symmetric] by (auto simp: sorted_append split(2))
  moreover have "\<forall>a\<in>set (take (Suc n) s). \<forall>b\<in>set (drop (Suc n) s). key a \<le> key b"
    using below least by (auto simp: split)
  ultimately show ?thesis using mset by simp
qed

lemma outer_loop:
  assumes "n \<le> length ds"
  defines "r \<equiv> foldl (\<lambda>ds i. foldl (exch i) ds [i + 1..<length ds]) ds [0..<n]"
  shows "length r = length ds \<and> mset r = mset ds \<and> sorted (map key (take n r))
    \<and> (\<forall>a\<in>set (take n r). \<forall>b\<in>set (drop n r). key a \<le> key b)"
  using assms(1) unfolding r_def
proof (induction n)
  case (Suc n)
  define r where "r = foldl (\<lambda>ds i. foldl (exch i) ds [i + 1..<length ds]) ds [0..<n]"
  define s where "s = foldl (exch n) r [n + 1..<length r]"
  have n: "n < length ds" using Suc.prems by simp
  with Suc have IH: "length r = length ds" "mset r = mset ds" "sorted (map key (take n r))"
    "\<And>a b. a \<in> set (take n r) \<Longrightarrow> b \<in> set (drop n r) \<Longrightarrow> key a \<le> key b"
    unfolding r_def [symmetric] by auto
  then have nr: "n < length r" using n by simp
  note inner = inner_loop [OF nr order_refl, folded s_def]
  have len: "length s = length r" by (simp add: s_def)
  have "mset s = mset r \<and> sorted (map key (take (Suc n) s))
    \<and> (\<forall>a\<in>set (take (Suc n) s). \<forall>b\<in>set (drop (Suc n) s). key a \<le> key b)"
    using inner by (intro selection_step [OF len nr _ _ _ IH(3,4)]) auto
  moreover have "foldl (\<lambda>ds i. foldl (exch i) ds [i + 1..<length ds]) ds [0..<Suc n] = s"
    by (simp add: s_def r_def)
  ultimately show ?case using len IH(1,2) by simp
qed simp

text \<open>The last pass of the outer loop has nothing to do: a code may run it or not.\<close>

lemma loops_sort:
  assumes "length ds - 1 \<le> n" "n \<le> length ds"
  shows "mset (foldl (\<lambda>ds i. foldl (exch i) ds [i + 1..<length ds]) ds [0..<n]) = mset ds
    \<and> sorted (map key (foldl (\<lambda>ds i. foldl (exch i) ds [i + 1..<length ds]) ds [0..<n]))"
proof -
  define r where "r = foldl (\<lambda>ds i. foldl (exch i) ds [i + 1..<length ds]) ds [0..<n]"
  have o: "length r = length ds" "mset r = mset ds" "sorted (map key (take n r))"
    "\<forall>a\<in>set (take n r). \<forall>b\<in>set (drop n r). key a \<le> key b"
    using outer_loop [OF assms(2)] unfolding r_def by auto
  have "map key r = map key (take n r) @ map key (drop n r)"
    by (metis append_take_drop_id map_append)
  moreover have "length (map key (drop n r)) \<le> 1" using o(1) assms by simp
  then have "sorted (map key (drop n r))" by (cases "map key (drop n r)") simp_all
  ultimately have "sorted (map key r)" using o(3,4) by (simp add: sorted_append)
  with o(2) show ?thesis by (simp add: r_def)
qed

end

end
