(* ===== verification/HSDir.thy ===== *)
theory HSDir
  imports OnionCert ExchangeSort "HOL-Library.List_Lexorder"
begin

section \<open>pkg/onion/onion.go: hidden service directories\<close>

text \<open>
  Choosing the directories responsible for a descriptor, and fetching the descriptor from them.
  The HTTP client (net/http) is the parameter \<open>http\<close>: what the n-th request of a fetch, to a
  URL, comes back with; \<open>cancelled k\<close> says whether the context ends during the k-th wait, and
  \<open>clock n\<close> is the time the n-th answer is parsed at. \<open>sha3\<close> is SHA3-256.
\<close>

record HSDirectory =
  hs_Fingerprint :: string
  hs_Address :: string
  hs_ORPort :: int
  hs_DirPort :: int
  hs_HSDir :: bool

subsection \<open>Distances\<close>

definition ComputeReplicaDescriptorID :: "(bytes \<Rightarrow> bytes) \<Rightarrow> bytes \<Rightarrow> int \<Rightarrow> bytes" where
  "ComputeReplicaDescriptorID sha3 baseDescriptorID replica = sha3 (baseDescriptorID @ [word_of_int replica])"

definition computeXORDistance :: "bytes \<Rightarrow> bytes \<Rightarrow> bytes" where
  "computeXORDistance a b =
     (let minLen = (if length b < length a then length b else length a) in
      map (\<lambda>i. a ! i XOR b ! i) [0..<minLen])"

fun compare_prefix :: "bytes \<Rightarrow> bytes \<Rightarrow> int" where
  "compare_prefix (x # xs) (y # ys) = (if x < y then -1 else if x > y then 1 else compare_prefix xs ys)"
| "compare_prefix _ _ = 0"

definition compareBytes :: "bytes \<Rightarrow> bytes \<Rightarrow> int" where
  "compareBytes a b =
     (let c = compare_prefix a b in
      if c \<noteq> 0 then c
      else if length a < length b then -1
      else if length a > length b then 1
      else 0)"

text \<open>
  compareBytes is the three-way comparison of the lexicographic order; the XOR distance is
  symmetric, and taking it twice gives back the common prefix.
\<close>

lemma compareBytes_Cons:
  "compareBytes (x # xs) (y # ys) = (if x < y then -1 else if x > y then 1 else compareBytes xs ys)"
  by (simp add: compareBytes_def Let_def)

lemma compareBytes_lex: "compareBytes a b = (if a < b then -1 else if a = b then 0 else 1)"
proof (induction a arbitrary: b)
  case Nil
  then show ?case by (cases b) (simp_all add: compareBytes_def)
next
  case (Cons x xs)
  show ?case
  proof (cases b)
    case Nil
    then show ?thesis by (simp add: compareBytes_def)
  next
    case (Cons y ys)
    with Cons.IH show ?thesis by (auto simp: compareBytes_Cons)
  qed
qed

lemma computeXORDistance_props:
  "length (computeXORDistance a b) = min (length a) (length b)"
  "computeXORDistance a b = computeXORDistance b a"
  "computeXORDistance (computeXORDistance a b) b = take (length b) a"
proof -
  show l: "length (computeXORDistance a b) = min (length a) (length b)" for a b
    by (simp add: computeXORDistance_def min_def)
  have n: "computeXORDistance a b ! i = a ! i XOR b ! i" if "i < length a" "i < length b" for a b i
    using that by (simp add: computeXORDistance_def Let_def)
  show "computeXORDistance a b = computeXORDistance b a"
    by (rule nth_equalityI) (simp_all add: l n xor.commute)
  show "computeXORDistance (computeXORDistance a b) b = take (length b) a"
    by (rule nth_equalityI) (simp_all add: l n xor.assoc)
qed

subsection \<open>Selection\<close>

type_synonym hsdirDistance = "HSDirectory \<times> bytes"

definition swap_closer :: "nat \<Rightarrow> hsdirDistance list \<Rightarrow> nat \<Rightarrow> hsdirDistance list" where
  "swap_closer i ds j = (if compareBytes (snd (ds ! i)) (snd (ds ! j)) > 0 then ds[i := ds ! j, j := ds ! i] else ds)"

definition sort_distances :: "hsdirDistance list \<Rightarrow> hsdirDistance list" where
  "sort_distances ds =
     foldl (\<lambda>ds i. foldl (swap_closer i) ds [i + 1..<length ds]) ds [0..<length ds - 1]"

definition SelectHSDirs :: "(bytes \<Rightarrow> bytes) \<Rightarrow> bytes \<Rightarrow> HSDirectory list \<Rightarrow> int \<Rightarrow> HSDirectory list" where
  "SelectHSDirs sha3 descriptorID hsdirs replica =
     (if length hsdirs = 0 then []
      else
        let numHSDirs = (if length hsdirs < 3 then length hsdirs else 3);
            replicaDescID = ComputeReplicaDescriptorID sha3 descriptorID replica;
            distances = map (\<lambda>h. (h, computeXORDistance (bytes_of_string (hs_Fingerprint h)) replicaDescID)) hsdirs
        in map fst (take numHSDirs (sort_distances distances)))"

lemma swap_closer_length [simp]: "length (swap_closer i ds j) = length ds"
  by (simp add: swap_closer_def)

interpretation hsdir_sort: exchange_sort snd swap_closer
proof
  show "swap_closer i ds j = (if snd (ds ! j) < snd (ds ! i) then ds[i := ds ! j, j := ds ! i] else ds)" for i j ds
    by (auto simp: swap_closer_def compareBytes_lex)
qed simp

definition hsdir_distance :: "(bytes \<Rightarrow> bytes) \<Rightarrow> bytes \<Rightarrow> int \<Rightarrow> HSDirectory \<Rightarrow> bytes" where
  "hsdir_distance sha3 descriptorID replica h =
     computeXORDistance (bytes_of_string (hs_Fingerprint h)) (ComputeReplicaDescriptorID sha3 descriptorID replica)"

lemma sort_distances_sorted: "mset (sort_distances ds) = mset ds \<and> sorted (map snd (sort_distances ds))"
  unfolding sort_distances_def by (rule hsdir_sort.loops_sort) simp_all

lemma prefix_of_sorted:
  assumes "mset r = mset (map (\<lambda>h. (h, dist h)) hs)" and "sorted (map snd r)"
  shows "sorted (map dist (map fst (take k r))) \<and>
    (\<exists>left. mset hs = mset (map fst (take k r)) + mset left
       \<and> (\<forall>a\<in>set (map fst (take k r)). \<forall>b\<in>set left. dist a \<le> dist b))"
proof -
  have d: "snd x = dist (fst x)" if "x \<in> set r" for x
    using that assms(1) by (metis (no_types, lifting) fst_conv imageE list.set_map set_mset_mset snd_conv)
  have "map dist (map fst (take k r)) = map snd (take k r)" using d by (auto dest: in_set_takeD)
  moreover have "sorted (map snd (take k r))"
    using assms(2) by (simp add: take_map [symmetric] sorted_wrt_take)
  ultimately have s: "sorted (map dist (map fst (take k r)))" by (simp only:)
  have "map fst (map (\<lambda>h. (h, dist h)) hs) = hs" by (simp add: comp_def)
  then have "image_mset fst (mset r) = mset hs" unfolding assms(1) mset_map [symmetric] by (simp only:)
  then have "mset hs = mset (map fst (take k r)) + mset (map fst (drop k r))"
    by (metis append_take_drop_id image_mset_union mset_append mset_map)
  moreover have "dist (fst a) \<le> dist (fst b)" if "a \<in> set (take k r)" "b \<in> set (drop k r)" for a b
  proof -
    have "sorted (map snd (take k r) @ map snd (drop k r))"
      using assms(2) by (metis append_take_drop_id map_append)
    with that have "snd a \<le> snd b" by (auto simp: sorted_append)
    with that d show ?thesis by (metis in_set_dropD in_set_takeD)
  qed
  ultimately show ?thesis using s by (intro conjI exI [of _ "map fst (drop k r)"]) auto
qed

text \<open>
  C14: SelectHSDirs returns the closest directories: min(3, n) of the given ones, in order of
  their distance, and no directory that was left out is closer than one that was chosen.
\<close>

theorem select_hsdirs_closest:
  "let chosen = SelectHSDirs sha3 descriptorID hsdirs replica; dist = hsdir_distance sha3 descriptorID replica in
   length chosen = min 3 (length hsdirs)
   \<and> sorted (map dist chosen)
   \<and> (\<exists>left. mset hsdirs = mset chosen + mset left \<and> (\<forall>a\<in>set chosen. \<forall>b\<in>set left. dist a \<le> dist b))"
proof (cases "hsdirs = []")
  case True
  then show ?thesis by (simp add: SelectHSDirs_def)
next
  case False
  define dist where "dist = hsdir_distance sha3 descriptorID replica"
  define r where "r = sort_distances (map (\<lambda>h. (h, dist h)) hsdirs)"
  define k where "k = min 3 (length hsdirs)"
  have chosen: "SelectHSDirs sha3 descriptorID hsdirs replica = map fst (take k r)"
    using False by (simp add: SelectHSDirs_def Let_def r_def dist_def hsdir_distance_def k_def min_def)
  have r: "mset r = mset (map (\<lambda>h. (h, dist h)) hsdirs)" "sorted (map snd r)"
    using sort_distances_sorted unfolding r_def by auto
  from mset_eq_length [OF r(1)] prefix_of_sorted [OF r, of k] show ?thesis
    unfolding dist_def [symmetric] chosen Let_def by (simp add: k_def)
qed

lemma select_hsdirs_closest_length: "length (SelectHSDirs sha3 descriptorID hsdirs replica) = min 3 (length hsdirs)"
proof (cases "hsdirs = []")
  case False
  have "length (sort_distances ds) = length ds" for ds
    using sort_distances_sorted [of ds] by (metis size_mset)
  with False show ?thesis by (simp add: SelectHSDirs_def Let_def)
qed (simp add: SelectHSDirs_def)

text \<open>
  The distance uses the characters of the fingerprint, which is hexadecimal text in a
  consensus, and not the fingerprint they spell.
\<close>

lemma distance_of_hex_text:
  "i < 32 \<Longrightarrow> length (hs_Fingerprint h) = 40 \<Longrightarrow> length (sha3 (descriptorID @ [word_of_int replica])) = 32 \<Longrightarrow>
     hsdir_distance sha3 descriptorID replica h ! i
       = of_nat (of_char (hs_Fingerprint h ! i)) XOR ComputeReplicaDescriptorID sha3 descriptorID replica ! i"
  by (simp add: hsdir_distance_def computeXORDistance_def ComputeReplicaDescriptorID_def bytes_of_string_def)

definition example_hsdirs :: "HSDirectory list" where
  "example_hsdirs = map (\<lambda>f. \<lparr>hs_Fingerprint = f, hs_Address = [], hs_ORPort = 0, hs_DirPort = 0, hs_HSDir = True\<rparr>)
     [''D'', ''B'', ''C'', ''A'']"

theorem select_hsdirs_closest_witness:
  "let chosen = SelectHSDirs (\<lambda>x. [0, 0]) [9] example_hsdirs 0; dist = hsdir_distance (\<lambda>x. [0, 0]) [9] 0 in
   map hs_Fingerprint chosen = [''A'', ''B'', ''C''] \<and> length chosen = min 3 (length example_hsdirs)
   \<and> sorted (map dist chosen)
   \<and> (\<exists>left. mset example_hsdirs = mset chosen + mset left \<and> (\<forall>a\<in>set chosen. \<forall>b\<in>set left. dist a \<le> dist b))"
proof -
  have "map hs_Fingerprint (SelectHSDirs (\<lambda>x. [0, 0]) [9] example_hsdirs 0) = [''A'', ''B'', ''C'']" by code_simp
  with select_hsdirs_closest [of "\<lambda>x. [0, 0]" "[9]" example_hsdirs 0] show ?thesis unfolding Let_def by blast
qed

subsection \<open>Fetching\<close>

text \<open>Without padding and with the URL alphabet: base64.RawURLEncoding.\<close>

definition b64url_encode :: "bytes \<Rightarrow> string" where
  "b64url_encode bs =
     map (\<lambda>c. if c = CHR ''+'' then CHR ''-'' else if c = CHR ''/'' then CHR ''_'' else c)
       (filter (\<lambda>c. c \<noteq> CHR ''='') (b64_encode bs))"

datatype http_outcome = HttpError | HttpResponse int "bytes option"

datatype fetch_error =
    FetchRequestFailed
  | FetchStatus int
  | FetchReadFailed
  | FetchParseFailed descriptor_error

definition hsdir_url :: "HSDirectory \<Rightarrow> bytes \<Rightarrow> string" where
  "hsdir_url h descriptorID =
     ''http://'' @ hs_Address h @ '':'' @ dec_of_int (hs_DirPort h) @ ''/tor/hs/3/'' @ b64url_encode descriptorID"

definition fetchFromHSDir ::
  "(string \<Rightarrow> http_outcome) \<Rightarrow> time \<Rightarrow> HSDirectory \<Rightarrow> bytes \<Rightarrow> int \<Rightarrow> fetch_error + Descriptor" where
  "fetchFromHSDir http now h descriptorID replica =
     (case http (hsdir_url h descriptorID) of
        HttpError \<Rightarrow> Inl FetchRequestFailed
      | HttpResponse status body \<Rightarrow>
          if status \<noteq> 200 then Inl (FetchStatus status)
          else
            (case body of
               None \<Rightarrow> Inl FetchReadFailed
             | Some raw \<Rightarrow>
                 (case ParseDescriptor now raw of
                    Inl e \<Rightarrow> Inl (FetchParseFailed e)
                  | Inr desc \<Rightarrow> Inr (desc\<lparr>de_DescriptorID := descriptorID\<rparr>))))"

datatype fetch_failure =
    NoHSDirsAvailable
  | CancelledDuringBackoff
  | FetchFailedAfterRetries fetch_error
  | FetchFailedAny

text \<open>The requests made so far with their replica, the waits in milliseconds, and the last error.\<close>

record fetch_state =
  ft_requests :: "(int \<times> HSDirectory) list"
  ft_waits :: "nat list"
  ft_lastErr :: "fetch_error option"

type_synonym http_oracle = "nat \<Rightarrow> string \<Rightarrow> http_outcome"

fun try_hsdirs ::
  "http_oracle \<Rightarrow> (nat \<Rightarrow> time) \<Rightarrow> bytes \<Rightarrow> int \<Rightarrow> HSDirectory list \<Rightarrow> fetch_state \<Rightarrow> Descriptor option \<times> fetch_state" where
  "try_hsdirs http clock descriptorID replica [] s = (None, s)"
| "try_hsdirs http clock descriptorID replica (h # hs) s =
     (let n = length (ft_requests s); s' = s\<lparr>ft_requests := ft_requests s @ [(replica, h)]\<rparr> in
      case fetchFromHSDir (http n) (clock n) h descriptorID replica of
        Inl e \<Rightarrow> try_hsdirs http clock descriptorID replica hs (s'\<lparr>ft_lastErr := Some e\<rparr>)
      | Inr desc \<Rightarrow> (Some desc, s'))"

text \<open>The attempts of one replica: \<open>Inl\<close> is the early return of a cancelled context.\<close>

fun try_attempts ::
  "http_oracle \<Rightarrow> (nat \<Rightarrow> time) \<Rightarrow> (nat \<Rightarrow> bool) \<Rightarrow> bytes \<Rightarrow> int \<Rightarrow> HSDirectory list \<Rightarrow> nat list \<Rightarrow> fetch_state
     \<Rightarrow> (fetch_failure + Descriptor option) \<times> fetch_state" where
  "try_attempts http clock cancelled descriptorID replica selected [] s = (Inr None, s)"
| "try_attempts http clock cancelled descriptorID replica selected (attempt # attempts) s =
     (let s1 = (if attempt > 0 then s\<lparr>ft_waits := ft_waits s @ [100 * 2 ^ (attempt - 1)]\<rparr> else s) in
      if attempt > 0 \<and> cancelled (length (ft_waits s)) then (Inl CancelledDuringBackoff, s1)
      else
        (case try_hsdirs http clock descriptorID replica selected s1 of
           (Some desc, s2) \<Rightarrow> (Inr (Some desc), s2)
         | (None, s2) \<Rightarrow> try_attempts http clock cancelled descriptorID replica selected attempts s2))"

fun try_replicas ::
  "(bytes \<Rightarrow> bytes) \<Rightarrow> http_oracle \<Rightarrow> (nat \<Rightarrow> time) \<Rightarrow> (nat \<Rightarrow> bool) \<Rightarrow> bytes \<Rightarrow> HSDirectory list \<Rightarrow> int list \<Rightarrow> fetch_state
     \<Rightarrow> (fetch_failure + Descriptor option) \<times> fetch_state" where
  "try_replicas sha3 http clock cancelled descriptorID hsdirs [] s = (Inr None, s)"
| "try_replicas sha3 http clock cancelled descriptorID hsdirs (replica # replicas) s =
     (let selected = SelectHSDirs sha3 descriptorID hsdirs replica in
      case try_attempts http clock cancelled descriptorID replica selected [0, 1, 2] s of
        (Inr None, s') \<Rightarrow> try_replicas sha3 http clock cancelled descriptorID hsdirs replicas s'
      | (r, s') \<Rightarrow> (r, s'))"

definition new_fetch :: fetch_state where
  "new_fetch = \<lparr>ft_requests = [], ft_waits = [], ft_lastErr = None\<rparr>"

definition FetchDescriptor ::
  "(bytes \<Rightarrow> bytes) \<Rightarrow> http_oracle \<Rightarrow> (nat \<Rightarrow> time) \<Rightarrow> (nat \<Rightarrow> bool) \<Rightarrow> time \<Rightarrow> address \<Rightarrow> HSDirectory list
     \<Rightarrow> (fetch_failure + Descriptor) \<times> fetch_state" where
  "FetchDescriptor sha3 http clock cancelled now addr hsdirs =
     (if length hsdirs = 0 then (Inl NoHSDirsAvailable, new_fetch)
      else
        let timePeriod = GetTimePeriod now;
            blindedPubkey = ComputeBlindedPubkey sha3 (ad_Pubkey addr) timePeriod;
            descriptorID = computeDescriptorID sha3 blindedPubkey in
        case try_replicas sha3 http clock cancelled descriptorID hsdirs [0, 1] new_fetch of
          (Inl e, s) \<Rightarrow> (Inl e, s)
        | (Inr (Some desc), s) \<Rightarrow>
            (Inr (desc\<lparr>de_Address := Some addr, de_BlindedPubkey := blindedPubkey, de_DescriptorID := descriptorID\<rparr>), s)
        | (Inr None, s) \<Rightarrow>
            (case ft_lastErr s of
               Some e \<Rightarrow> (Inl (FetchFailedAfterRetries e), s)
             | None \<Rightarrow> (Inl FetchFailedAny, s)))"

definition HSDir_createMockDescriptor :: "time \<Rightarrow> bytes \<Rightarrow> Descriptor" where
  "HSDir_createMockDescriptor now descriptorID =
     (new_descriptor now [])
       \<lparr>de_DescriptorID := descriptorID,
        de_RevisionCounter := (case SafeUnixToUint64 now of Inl _ \<Rightarrow> 0 | Inr r \<Rightarrow> r)\<rparr>"

subsection \<open>The order of the requests\<close>

text \<open>
  The plan of a fetch: three rounds over the directories of the first replica, then three over
  those of the second. \<open>plan_outcome i\<close> is what its i-th request comes back with.
\<close>

definition fetch_plan :: "(bytes \<Rightarrow> bytes) \<Rightarrow> bytes \<Rightarrow> HSDirectory list \<Rightarrow> (int \<times> HSDirectory) list" where
  "fetch_plan sha3 descriptorID hsdirs =
     concat (map (\<lambda>r. concat (replicate 3 (map (Pair r) (SelectHSDirs sha3 descriptorID hsdirs r)))) [0, 1])"

definition plan_outcome ::
  "http_oracle \<Rightarrow> (nat \<Rightarrow> time) \<Rightarrow> bytes \<Rightarrow> (int \<times> HSDirectory) list \<Rightarrow> nat \<Rightarrow> fetch_error + Descriptor" where
  "plan_outcome http clock descriptorID plan i =
     fetchFromHSDir (http i) (clock i) (snd (plan ! i)) descriptorID (fst (plan ! i))"

lemma fetch_plan_length: "length (fetch_plan sha3 did hsdirs) = 6 * min 3 (length hsdirs)"
  by (simp add: fetch_plan_def length_concat sum_list_replicate select_hsdirs_closest_length)

text \<open>The first k requests of the plan were made and failed; or the last one made succeeded.\<close>

definition all_failed ::
  "http_oracle \<Rightarrow> (nat \<Rightarrow> time) \<Rightarrow> bytes \<Rightarrow> (int \<times> HSDirectory) list \<Rightarrow> nat \<Rightarrow> fetch_state \<Rightarrow> bool" where
  "all_failed http clock descriptorID plan k s \<longleftrightarrow>
     k \<le> length plan \<and> ft_requests s = take k plan
     \<and> (\<forall>i<k. isl (plan_outcome http clock descriptorID plan i))
     \<and> ft_lastErr s = (if k = 0 then None else Some (projl (plan_outcome http clock descriptorID plan (k - 1))))"

definition first_hit ::
  "http_oracle \<Rightarrow> (nat \<Rightarrow> time) \<Rightarrow> bytes \<Rightarrow> (int \<times> HSDirectory) list \<Rightarrow> Descriptor \<Rightarrow> fetch_state \<Rightarrow> bool" where
  "first_hit http clock descriptorID plan desc s \<longleftrightarrow>
     (\<exists>k<length plan. ft_requests s = take (Suc k) plan
        \<and> (\<forall>i<k. isl (plan_outcome http clock descriptorID plan i))
        \<and> plan_outcome http clock descriptorID plan k = Inr desc)"

lemma try_hsdirs_plan:
  assumes "plan = p @ map (Pair r) hs @ q" and "all_failed http clock did plan (length p) s"
  shows "case try_hsdirs http clock did r hs s of
       (None, s') \<Rightarrow> all_failed http clock did plan (length p + length hs) s'
     | (Some d, s') \<Rightarrow> first_hit http clock did plan d s'"
  using assms
proof (induction hs arbitrary: p s)
  case Nil
  then show ?case by simp
next
  case (Cons h hs)
  let ?s' = "s\<lparr>ft_requests := ft_requests s @ [(r, h)]\<rparr>"
  have n: "length (ft_requests s) = length p" "length p < length plan" "plan ! length p = (r, h)"
    "ft_requests s @ [(r, h)] = take (Suc (length p)) plan"
    using Cons.prems by (auto simp: all_failed_def take_Suc_conv_app_nth)
  show ?case
  proof (cases "fetchFromHSDir (http (length p)) (clock (length p)) h did r")
    case (Inl e)
    then have "plan_outcome http clock did plan (length p) = Inl e"
      using n by (simp add: plan_outcome_def)
    then have "all_failed http clock did plan (length (p @ [(r, h)])) (?s'\<lparr>ft_lastErr := Some e\<rparr>)"
      using Cons.prems n by (auto simp: all_failed_def less_Suc_eq)
    from Cons.IH [OF _ this] Cons.prems(1)
    have "case try_hsdirs http clock did r hs (?s'\<lparr>ft_lastErr := Some e\<rparr>) of
       (None, s') \<Rightarrow> all_failed http clock did plan (length (p @ [(r, h)]) + length hs) s'
     | (Some d, s') \<Rightarrow> first_hit http clock did plan d s'" by simp
    moreover have "length (p @ [(r, h)]) + length hs = length p + length (h # hs)" by simp
    ultimately show ?thesis using Inl n(1) by (simp only: try_hsdirs.simps Let_def sum.case)
  next
    case (Inr d)
    then have "plan_outcome http clock did plan (length p) = Inr d"
      using n by (simp add: plan_outcome_def)
    moreover have "\<forall>i<length p. isl (plan_outcome http clock did plan i)"
      using Cons.prems(2) by (simp add: all_failed_def)
    ultimately have "first_hit http clock did plan d ?s'"
      unfolding first_hit_def using n(2,4) by (intro exI [of _ "length p"]) simp
    with Inr n(1) show ?thesis by simp
  qed
qed

lemma all_failed_waits [simp]: "all_failed http clock did plan k (s\<lparr>ft_waits := w\<rparr>) = all_failed http clock did plan k s"
  by (simp add: all_failed_def)

lemma try_attempts_plan:
  assumes "plan = p @ concat (replicate (length attempts) (map (Pair r) hs)) @ q"
    and "all_failed http clock did plan (length p) s"
  shows "case try_attempts http clock cancelled did r hs attempts s of
       (Inl e, s') \<Rightarrow> e = CancelledDuringBackoff \<and> (\<exists>k. all_failed http clock did plan k s' \<and> cancelled (length (ft_waits s') - 1))
     | (Inr None, s') \<Rightarrow> all_failed http clock did plan (length p + length attempts * length hs) s'
     | (Inr (Some d), s') \<Rightarrow> first_hit http clock did plan d s'"
  using assms
proof (induction attempts arbitrary: p s)
  case Nil
  then show ?case by simp
next
  case (Cons a attempts)
  let ?s1 = "if a > 0 then s\<lparr>ft_waits := ft_waits s @ [100 * 2 ^ (a - 1)]\<rparr> else s"
  have s1: "all_failed http clock did plan (length p) ?s1" using Cons.prems(2) by simp
  show ?case
  proof (cases "a > 0 \<and> cancelled (length (ft_waits s))")
    case True
    then show ?thesis using Cons.prems(2) by auto
  next
    case False
    let ?q = "concat (replicate (length attempts) (map (Pair r) hs)) @ q"
    have "plan = p @ map (Pair r) hs @ ?q" using Cons.prems(1) by simp
    note t = try_hsdirs_plan [OF this s1]
    show ?thesis
    proof (cases "try_hsdirs http clock did r hs ?s1")
      case (Pair res s2)
      show ?thesis
      proof (cases res)
        case None
        with t Pair have "all_failed http clock did plan (length (p @ map (Pair r) hs)) s2" by simp
        from Cons.IH [OF _ this] Cons.prems(1)
        have "case try_attempts http clock cancelled did r hs attempts s2 of
            (Inl e, s') \<Rightarrow> e = CancelledDuringBackoff \<and> (\<exists>k. all_failed http clock did plan k s' \<and> cancelled (length (ft_waits s') - 1))
          | (Inr None, s') \<Rightarrow> all_failed http clock did plan (length (p @ map (Pair r) hs) + length attempts * length hs) s'
          | (Inr (Some d), s') \<Rightarrow> first_hit http clock did plan d s'" by simp
        moreover have "length (p @ map (Pair r) hs) + length attempts * length hs = length p + length (a # attempts) * length hs"
          by simp
        moreover have "try_attempts http clock cancelled did r hs (a # attempts) s
            = try_attempts http clock cancelled did r hs attempts s2"
          using False Pair None by (auto simp: Let_def)
        ultimately show ?thesis by (simp only:)
      next
        case (Some d)
        with t Pair False show ?thesis by (auto simp: Let_def)
      qed
    qed
  qed
qed

lemma try_replicas_plan:
  assumes nc: "\<And>k. \<not> cancelled k"
    and "plan = p @ concat (map (\<lambda>r. concat (replicate 3 (map (Pair r) (SelectHSDirs sha3 did hsdirs r)))) rs)"
    and "all_failed http clock did plan (length p) s"
  shows "case try_replicas sha3 http clock cancelled did hsdirs rs s of
       (Inl e, s') \<Rightarrow> False
     | (Inr None, s') \<Rightarrow> all_failed http clock did plan (length plan) s'
     | (Inr (Some d), s') \<Rightarrow> first_hit http clock did plan d s'"
  using assms(2,3)
proof (induction rs arbitrary: p s)
  case Nil
  then show ?case by simp
next
  case (Cons r rs)
  let ?sel = "SelectHSDirs sha3 did hsdirs r"
  let ?b = "concat (replicate (length [0, 1, 2 :: nat]) (map (Pair r) ?sel))"
  have split: "plan = p @ ?b @ concat (map (\<lambda>r. concat (replicate 3 (map (Pair r) (SelectHSDirs sha3 did hsdirs r)))) rs)"
    using Cons.prems(1) by (simp add: numeral_3_eq_3)
  note t = try_attempts_plan [OF split Cons.prems(2), of cancelled]
  have l: "length p + length [0, 1, 2 :: nat] * length ?sel = length (p @ ?b)"
    by (simp add: length_concat sum_list_replicate)
  show ?case
  proof (cases "try_attempts http clock cancelled did r ?sel [0, 1, 2] s")
    case res: (Pair res s1)
    consider e where "res = Inl e" | d where "res = Inr (Some d)" | "res = Inr None"
      by (cases res; cases "projr res") auto
    then show ?thesis
    proof cases
      case 1
      with t res nc show ?thesis by (simp del: try_attempts.simps)
    next
      case 2
      with t res show ?thesis by (simp del: try_attempts.simps)
    next
      case 3
      with t res have "all_failed http clock did plan (length (p @ ?b)) s1"
        unfolding l by (simp del: try_attempts.simps)
      from Cons.IH [OF _ this] split 3 res show ?thesis by (simp del: try_attempts.simps)
    qed
  qed
qed

text \<open>
  C26: A fetch whose context is not cancelled makes its requests in the planned order, stops at
  the first directory that answers with a descriptor, and returns that descriptor with the
  address and the identifiers filled in; it fails only after all requests of the plan failed,
  with the last error. The plan has three attempts for each of the two replicas at each of the at
  most three chosen directories.
\<close>

theorem fetch_follows_plan:
  assumes ne: "hsdirs \<noteq> []" and nc: "\<And>k. \<not> cancelled k"
    and bp: "bp = ComputeBlindedPubkey sha3 (ad_Pubkey addr) (GetTimePeriod now)"
    and did: "did = computeDescriptorID sha3 bp" and plan: "plan = fetch_plan sha3 did hsdirs"
  shows "length plan = 6 * min 3 (length hsdirs) \<and>
    (case FetchDescriptor sha3 http clock cancelled now addr hsdirs of
      (Inr d, s) \<Rightarrow>
        (\<exists>d0. first_hit http clock did plan d0 s
          \<and> d = d0\<lparr>de_Address := Some addr, de_BlindedPubkey := bp, de_DescriptorID := did\<rparr>)
    | (Inl e, s) \<Rightarrow>
        all_failed http clock did plan (length plan) s
        \<and> e = FetchFailedAfterRetries (projl (plan_outcome http clock did plan (length plan - 1))))"
proof -
  have len: "length plan = 6 * min 3 (length hsdirs)" by (simp add: plan fetch_plan_length)
  with ne have pos: "length plan > 0" by simp
  have "plan = [] @ concat (map (\<lambda>r. concat (replicate 3 (map (Pair r) (SelectHSDirs sha3 did hsdirs r)))) [0, 1])"
    by (simp add: plan fetch_plan_def)
  from try_replicas_plan [OF nc this, of http clock new_fetch]
  have t: "case try_replicas sha3 http clock cancelled did hsdirs [0, 1] new_fetch of
       (Inl e, s') \<Rightarrow> False
     | (Inr None, s') \<Rightarrow> all_failed http clock did plan (length plan) s'
     | (Inr (Some d), s') \<Rightarrow> first_hit http clock did plan d s'"
    by (simp add: all_failed_def new_fetch_def del: try_replicas.simps)
  have last: "all_failed http clock did plan (length plan) s \<Longrightarrow>
      ft_lastErr s = Some (projl (plan_outcome http clock did plan (length plan - 1)))" for s
    using pos by (simp add: all_failed_def)
  show ?thesis
    using t ne len
    by (auto simp: FetchDescriptor_def Let_def last simp del: try_replicas.simps simp flip: bp did
             split: prod.splits sum.splits option.splits)
qed

theorem fetch_follows_plan_witness:
  "let sha3 = (\<lambda>x. zeros 32); addr = \<lparr>ad_Version = 3, ad_Pubkey = zeros 32, ad_Raw = ''a.onion''\<rparr>;
       hsdirs = [\<lparr>hs_Fingerprint = ''AB'', hs_Address = ''10.0.0.1'', hs_ORPort = 9001, hs_DirPort = 9030, hs_HSDir = True\<rparr>];
       http = (\<lambda>n url. HttpResponse 404 None); clock = (\<lambda>n. 0);
       bp = ComputeBlindedPubkey sha3 (ad_Pubkey addr) (GetTimePeriod (5 * Second));
       did = computeDescriptorID sha3 bp; plan = fetch_plan sha3 did hsdirs in
   length plan = 6 * min 3 (length hsdirs) \<and>
   (case FetchDescriptor sha3 http clock (\<lambda>k. False) (5 * Second) addr hsdirs of
      (Inr d, s) \<Rightarrow>
        (\<exists>d0. first_hit http clock did plan d0 s
          \<and> d = d0\<lparr>de_Address := Some addr, de_BlindedPubkey := bp, de_DescriptorID := did\<rparr>)
    | (Inl e, s) \<Rightarrow>
        all_failed http clock did plan (length plan) s
        \<and> e = FetchFailedAfterRetries (projl (plan_outcome http clock did plan (length plan - 1))))"
  unfolding Let_def by (rule fetch_follows_plan) simp_all

text \<open>The replica number does not reach the request: both replicas are asked for the same path.\<close>

lemma fetch_same_path: "fetchFromHSDir http now h did replica = fetchFromHSDir http now h did replica'"
  by (simp add: fetchFromHSDir_def)

end
