(* ===== verification/Rendezvous.thy ===== *)
theory Rendezvous
  imports HSDir Crypto
begin

section \<open>pkg/onion/onion.go: the introduction and rendezvous protocols of the client\<close>

text \<open>
  The onion client: its cache, the directories it knows, the rendezvous states it keeps per
  circuit, and the interfaces to the circuit layer. CircuitBuilder and CellSender are Go
  interfaces; a value of either is what it answers when called after n earlier calls. The
  calls that leave the client are recorded in a log. Randomness, Curve25519, HKDF-SHA256,
  AES-CTR, SHA3-256, HTTP and the clock are fields of an environment. HKDF answers None where
  it fails: HKDF-SHA256 gives at most 8160 bytes, and the client asks for 16, 32 and 64.
\<close>

type_synonym circuit_builder = "nat \<Rightarrow> HSDirectory \<Rightarrow> u32 option"

record cell_sender =
  cs_SendRelayCell :: "nat \<Rightarrow> u32 \<Rightarrow> byte \<Rightarrow> bytes \<Rightarrow> bool"
  cs_ReceiveRelayCell :: "nat \<Rightarrow> u32 \<Rightarrow> bytes option"

datatype onion_event =
    BuildCircuitToRelay HSDirectory
  | SendRelayCell u32 byte bytes
  | ReceiveRelayCell u32

record onion_env =
  oe_sha3 :: "bytes \<Rightarrow> bytes"
  oe_hkdf :: "bytes \<Rightarrow> bytes \<Rightarrow> nat \<Rightarrow> bytes option"
  oe_ScalarMult :: "bytes \<Rightarrow> bytes \<Rightarrow> bytes"
  oe_aes_ctr :: "bytes \<Rightarrow> bytes \<Rightarrow> nat \<Rightarrow> byte"
  oe_http :: http_oracle
  oe_clock :: "nat \<Rightarrow> time"
  oe_cancelled :: "nat \<Rightarrow> bool"
  oe_now :: time
  oe_cookie :: "bytes option"
  oe_index :: "bytes option"
  oe_onionKey :: "bytes option"
  oe_ephemeral :: "bytes option"

datatype onion_error =
    DescriptorNil
  | NoIntroPoints
  | TooManyIntroPoints nat
  | RandomFailed
  | IntroPointNil
  | RequestNil
  | InvalidCookieLength nat
  | AuthKeyTooLarge conv_error
  | IntroKeyLength nat
  | KeyDerivationFailed
  | CipherFailed crypto_error
  | BuildCircuitFailed
  | EmptyIntroduce1
  | SendIntroduce1Failed
  | NoRendezvousRelays
  | RendezvousPointNil
  | EmptyEstablishData
  | SendEstablishFailed
  | EmptyRendezvous2
  | ReceiveRendezvous2Failed
  | NoHSDirsInConsensus
  | DescriptorFetchFailed fetch_failure
  | GetDescriptorFailed onion_error

subsection \<open>The client and its rendezvous states\<close>

record RendezvousState =
  rs_EphemeralPrivate :: bytes
  rs_EphemeralPublic :: bytes
  rs_OnionKey :: bytes
  rs_CircuitID :: u32

record OnionClient =
  oc_cache :: DescriptorCache
  oc_consensus :: "HSDirectory list"
  oc_circuitBuilder :: "circuit_builder option"
  oc_cellSender :: "cell_sender option"
  oc_rendezvousState :: "u32 \<rightharpoonup> RendezvousState"

definition NewOnionClient :: OnionClient where
  "NewOnionClient = \<lparr>oc_cache = NewDescriptorCache, oc_consensus = [], oc_circuitBuilder = None,
                     oc_cellSender = None, oc_rendezvousState = Map.empty\<rparr>"

definition SetCircuitBuilder :: "circuit_builder option \<Rightarrow> OnionClient \<Rightarrow> OnionClient" where
  "SetCircuitBuilder b c = c\<lparr>oc_circuitBuilder := b\<rparr>"

definition SetCellSender :: "cell_sender option \<Rightarrow> OnionClient \<Rightarrow> OnionClient" where
  "SetCellSender s c = c\<lparr>oc_cellSender := s\<rparr>"

definition UpdateHSDirs :: "HSDirectory list \<Rightarrow> OnionClient \<Rightarrow> OnionClient" where
  "UpdateHSDirs relays c = c\<lparr>oc_consensus := relays\<rparr>"

definition StoreRendezvousState :: "u32 \<Rightarrow> RendezvousState \<Rightarrow> OnionClient \<Rightarrow> OnionClient" where
  "StoreRendezvousState circuitID st c = c\<lparr>oc_rendezvousState := (oc_rendezvousState c)(circuitID \<mapsto> st)\<rparr>"

definition GetRendezvousState :: "u32 \<Rightarrow> OnionClient \<Rightarrow> RendezvousState option" where
  "GetRendezvousState circuitID c = oc_rendezvousState c circuitID"

text \<open>The removed state is shared with whoever looked it up: its private key is zeroed.\<close>

definition RemoveRendezvousState :: "u32 \<Rightarrow> OnionClient \<Rightarrow> RendezvousState option \<times> OnionClient" where
  "RemoveRendezvousState circuitID c =
     (case oc_rendezvousState c circuitID of
        Some st \<Rightarrow> (Some (st\<lparr>rs_EphemeralPrivate := zeros (length (rs_EphemeralPrivate st))\<rparr>),
                    c\<lparr>oc_rendezvousState := (oc_rendezvousState c)(circuitID := None)\<rparr>)
      | None \<Rightarrow> (None, c))"

definition CacheDescriptor :: "onion_env \<Rightarrow> address \<Rightarrow> Descriptor \<Rightarrow> OnionClient \<Rightarrow> OnionClient" where
  "CacheDescriptor env addr desc c = c\<lparr>oc_cache := DescriptorCache_Put (oe_sha3 env) (oe_now env) addr desc (oc_cache c)\<rparr>"

definition fetchDescriptor :: "onion_env \<Rightarrow> address \<Rightarrow> OnionClient \<Rightarrow> onion_error + Descriptor" where
  "fetchDescriptor env addr c =
     (if length (oc_consensus c) = 0 then Inl NoHSDirsInConsensus
      else
        (case fst (FetchDescriptor (oe_sha3 env) (oe_http env) (oe_clock env) (oe_cancelled env) (oe_now env) addr (oc_consensus c)) of
           Inl e \<Rightarrow> Inl (DescriptorFetchFailed e)
         | Inr desc \<Rightarrow> Inr desc))"

definition GetDescriptor :: "onion_env \<Rightarrow> address \<Rightarrow> OnionClient \<Rightarrow> (onion_error + Descriptor) \<times> OnionClient" where
  "GetDescriptor env addr c =
     (case DescriptorCache_Get (oe_sha3 env) (oe_now env) addr (oc_cache c) of
        Some desc \<Rightarrow> (Inr desc, c)
      | None \<Rightarrow>
          (case fetchDescriptor env addr c of
             Inl e \<Rightarrow> (Inl (GetDescriptorFailed e), c)
           | Inr desc \<Rightarrow>
               (Inr desc, c\<lparr>oc_cache := DescriptorCache_Put (oe_sha3 env) (oe_now env) addr desc (oc_cache c)\<rparr>)))"

subsection \<open>Introduction\<close>

definition SelectIntroductionPoint :: "bytes option \<Rightarrow> Descriptor option \<Rightarrow> onion_error + IntroductionPoint" where
  "SelectIntroductionPoint random d =
     (case d of None \<Rightarrow> Inl DescriptorNil
      | Some desc \<Rightarrow>
          let numIntroPoints = length (de_IntroPoints desc) in
          if numIntroPoints = 0 then Inl NoIntroPoints
          else if numIntroPoints > 4294967295 then Inl (TooManyIntroPoints numIntroPoints)
          else
            (case random of
               None \<Rightarrow> Inl RandomFailed
             | Some randomBytes \<Rightarrow>
                 let randomValue = u32_at randomBytes 0;
                     selectedIndex = unat (randomValue mod of_nat numIntroPoints)
                 in Inr (de_IntroPoints desc ! selectedIndex)))"

record IntroduceRequest =
  ir_IntroPoint :: "IntroductionPoint option"
  ir_RendezvousCookie :: bytes
  ir_RendezvousPoint :: string
  ir_RendezvousCircuitID :: u32
  ir_OnionKey :: bytes
  ir_EphemeralPrivate :: bytes
  ir_EphemeralPublic :: bytes

definition deriveKey :: "onion_env \<Rightarrow> bytes \<Rightarrow> bytes \<Rightarrow> nat \<Rightarrow> onion_error + bytes" where
  "deriveKey env secret info len =
     (case oe_hkdf env secret info len of None \<Rightarrow> Inl KeyDerivationFailed | Some key \<Rightarrow> Inr key)"

definition basePoint :: bytes where "basePoint = 9 # zeros 31"

text \<open>Returns the ciphertext, the ephemeral public key and the ephemeral private key.\<close>

definition encryptIntroduce1Data :: "onion_env \<Rightarrow> bytes \<Rightarrow> bytes \<Rightarrow> onion_error + bytes \<times> bytes \<times> bytes" where
  "encryptIntroduce1Data env plaintext introPointPubKey =
     (if length introPointPubKey \<noteq> 32 then Inl (IntroKeyLength (length introPointPubKey))
      else
        (case oe_ephemeral env of
           None \<Rightarrow> Inl RandomFailed
         | Some clientPrivate \<Rightarrow>
             let clientPublic = oe_ScalarMult env clientPrivate basePoint;
                 sharedSecret = oe_ScalarMult env clientPrivate introPointPubKey in
             (case deriveKey env sharedSecret (bytes_of_string ''tor-hs-intro-encryption'') 32 of
                Inl e \<Rightarrow> Inl e
              | Inr encryptionKey \<Rightarrow>
                  (case deriveKey env sharedSecret (bytes_of_string ''tor-hs-intro-iv'') 16 of
                     Inl e \<Rightarrow> Inl e
                   | Inr iv \<Rightarrow>
                       (case NewAESCTRCipher (oe_aes_ctr env) encryptionKey iv of
                          Inl e \<Rightarrow> Inl (CipherFailed e)
                        | Inr stream \<Rightarrow>
                            Inr (fst (XORKeyStream plaintext stream), clientPublic, clientPrivate))))))"

definition introduce1_plaintext :: "IntroduceRequest \<Rightarrow> bytes" where
  "introduce1_plaintext req =
     ir_RendezvousCookie req @ (if length (ir_OnionKey req) > 0 then ir_OnionKey req else zeros 32) @ [0]"

definition buildEncryptedData :: "onion_env \<Rightarrow> IntroduceRequest \<Rightarrow> bytes \<times> IntroduceRequest" where
  "buildEncryptedData env req =
     (let plaintextData = introduce1_plaintext req in
      case ir_IntroPoint req of
        None \<Rightarrow> (plaintextData, req)
      | Some ip \<Rightarrow>
          if length (ip_EncKey ip) \<noteq> 32 then (plaintextData, req)
          else
            (case encryptIntroduce1Data env plaintextData (ip_EncKey ip) of
               Inl e \<Rightarrow> (plaintextData, req)
             | Inr (encryptedData, clientPubKey, clientPrivKey) \<Rightarrow>
                 (clientPubKey @ encryptedData,
                  if ir_RendezvousCircuitID req > 0 \<and> length clientPrivKey = 32
                  then req\<lparr>ir_EphemeralPrivate := go_copy (ir_EphemeralPrivate req) clientPrivKey,
                           ir_EphemeralPublic := go_copy (ir_EphemeralPublic req) clientPubKey\<rparr>
                  else req)))"

text \<open>
  The two bytes the code first writes past the end of the buffer land in its spare capacity
  and are overwritten: the length field is appended once.
\<close>

definition BuildIntroduce1Cell :: "onion_env \<Rightarrow> IntroduceRequest option \<Rightarrow> (onion_error + bytes) \<times> IntroduceRequest option" where
  "BuildIntroduce1Cell env r =
     (case r of None \<Rightarrow> (Inl RequestNil, r)
      | Some req \<Rightarrow>
     (case ir_IntroPoint req of None \<Rightarrow> (Inl IntroPointNil, r)
      | Some ip \<Rightarrow>
          if length (ir_RendezvousCookie req) \<noteq> 20 then (Inl (InvalidCookieLength (length (ir_RendezvousCookie req))), r)
          else
            (case (if length (ip_AuthKey ip) > 0 then SafeLenToUint16 (ip_AuthKey ip) else Inr 32) of
               Inl e \<Rightarrow> (Inl (AuthKeyTooLarge e), r)
             | Inr authKeyLen \<Rightarrow>
                 let authKey = (if length (ip_AuthKey ip) > 0 then ip_AuthKey ip else zeros 32);
                     (encryptedData, req') = buildEncryptedData env req
                 in (Inr (zeros 20 @ [2] @ be16 authKeyLen @ authKey @ [0] @ encryptedData), Some req'))))"

text \<open>The relay handed to the builder is blank: nothing is taken from the introduction point.\<close>

definition blank_relay :: HSDirectory where
  "blank_relay = \<lparr>hs_Fingerprint = [], hs_Address = [], hs_ORPort = 0, hs_DirPort = 0, hs_HSDir = False\<rparr>"

definition CreateIntroductionCircuit ::
  "circuit_builder option \<Rightarrow> IntroductionPoint option \<Rightarrow> onion_event list \<Rightarrow> (onion_error + u32) \<times> onion_event list" where
  "CreateIntroductionCircuit builder introPoint log =
     (case introPoint of None \<Rightarrow> (Inl IntroPointNil, log)
      | Some ip \<Rightarrow>
          (case builder of
             Some b \<Rightarrow>
               (case b (length log) blank_relay of
                  None \<Rightarrow> (Inl BuildCircuitFailed, log @ [BuildCircuitToRelay blank_relay])
                | Some circuitID \<Rightarrow> (Inr circuitID, log @ [BuildCircuitToRelay blank_relay]))
           | None \<Rightarrow> (Inr 1000, log)))"

definition SendIntroduce1 ::
  "cell_sender option \<Rightarrow> u32 \<Rightarrow> bytes \<Rightarrow> onion_event list \<Rightarrow> (onion_error + unit) \<times> onion_event list" where
  "SendIntroduce1 sender circuitID introduce1Data log =
     (if length introduce1Data = 0 then (Inl EmptyIntroduce1, log)
      else
        (case sender of
           Some s \<Rightarrow>
             (if cs_SendRelayCell s (length log) circuitID 0x22 introduce1Data
              then (Inr (), log @ [SendRelayCell circuitID 0x22 introduce1Data])
              else (Inl SendIntroduce1Failed, log @ [SendRelayCell circuitID 0x22 introduce1Data]))
         | None \<Rightarrow> (Inr (), log)))"

subsection \<open>Rendezvous\<close>

definition SelectRendezvousPoint :: "HSDirectory list \<Rightarrow> onion_error + HSDirectory" where
  "SelectRendezvousPoint relays = (if length relays = 0 then Inl NoRendezvousRelays else Inr (relays ! 0))"

text \<open>The request has one field; None is a nil request.\<close>

definition BuildEstablishRendezvousCell :: "bytes option \<Rightarrow> onion_error + bytes" where
  "BuildEstablishRendezvousCell req =
     (case req of None \<Rightarrow> Inl RequestNil
      | Some cookie \<Rightarrow>
          if length cookie \<noteq> 20 then Inl (InvalidCookieLength (length cookie))
          else Inr (go_copy (zeros 20) cookie))"

definition CreateRendezvousCircuit ::
  "circuit_builder option \<Rightarrow> HSDirectory option \<Rightarrow> onion_event list \<Rightarrow> (onion_error + u32) \<times> onion_event list" where
  "CreateRendezvousCircuit builder rendezvousPoint log =
     (case rendezvousPoint of None \<Rightarrow> (Inl RendezvousPointNil, log)
      | Some rp \<Rightarrow>
          (case builder of
             Some b \<Rightarrow>
               (case b (length log) rp of
                  None \<Rightarrow> (Inl BuildCircuitFailed, log @ [BuildCircuitToRelay rp])
                | Some circuitID \<Rightarrow> (Inr circuitID, log @ [BuildCircuitToRelay rp]))
           | None \<Rightarrow> (Inr 2000, log)))"

text \<open>A missing acknowledgement is only logged.\<close>

definition SendEstablishRendezvous ::
  "cell_sender option \<Rightarrow> u32 \<Rightarrow> bytes \<Rightarrow> onion_event list \<Rightarrow> (onion_error + unit) \<times> onion_event list" where
  "SendEstablishRendezvous sender circuitID establishData log =
     (if length establishData = 0 then (Inl EmptyEstablishData, log)
      else
        (case sender of
           Some s \<Rightarrow>
             let log1 = log @ [SendRelayCell circuitID 0x21 establishData] in
             if \<not> cs_SendRelayCell s (length log) circuitID 0x21 establishData then (Inl SendEstablishFailed, log1)
             else (Inr (), log1 @ [ReceiveRelayCell circuitID])
         | None \<Rightarrow> (Inr (), log)))"

definition BuildRendezvous1Cell :: "(bytes \<times> bytes) option \<Rightarrow> onion_error + bytes" where
  "BuildRendezvous1Cell req =
     (case req of None \<Rightarrow> Inl RequestNil
      | Some (cookie, handshakeData) \<Rightarrow>
          if length cookie \<noteq> 20 then Inl (InvalidCookieLength (length cookie))
          else Inr (cookie @ handshakeData))"

definition ParseRendezvous2Cell :: "bytes \<Rightarrow> onion_error + bytes" where
  "ParseRendezvous2Cell data =
     (if length data = 0 then Inl EmptyRendezvous2 else Inr (go_copy (zeros (length data)) data))"

definition WaitForRendezvous2 ::
  "cell_sender option \<Rightarrow> u32 \<Rightarrow> onion_event list \<Rightarrow> (onion_error + bytes) \<times> onion_event list" where
  "WaitForRendezvous2 sender circuitID log =
     (case sender of
        Some s \<Rightarrow>
          (case cs_ReceiveRelayCell s (length log) circuitID of
             None \<Rightarrow> (Inl ReceiveRendezvous2Failed, log @ [ReceiveRelayCell circuitID])
           | Some handshakeData \<Rightarrow> (ParseRendezvous2Cell handshakeData, log @ [ReceiveRelayCell circuitID]))
      | None \<Rightarrow> (Inr (zeros 32), log))"

definition EstablishRendezvousPoint ::
  "OnionClient \<Rightarrow> bytes \<Rightarrow> HSDirectory list \<Rightarrow> onion_event list \<Rightarrow> (onion_error + u32 \<times> HSDirectory) \<times> onion_event list" where
  "EstablishRendezvousPoint c rendezvousCookie relays log =
     (case SelectRendezvousPoint relays of
        Inl e \<Rightarrow> (Inl e, log)
      | Inr rendezvousPoint \<Rightarrow>
     (case CreateRendezvousCircuit (oc_circuitBuilder c) (Some rendezvousPoint) log of
        (Inl e, log) \<Rightarrow> (Inl e, log)
      | (Inr circuitID, log) \<Rightarrow>
     (case BuildEstablishRendezvousCell (Some rendezvousCookie) of
        Inl e \<Rightarrow> (Inl e, log)
      | Inr establishData \<Rightarrow>
     (case SendEstablishRendezvous (oc_cellSender c) circuitID establishData log of
        (Inl e, log) \<Rightarrow> (Inl e, log)
      | (Inr u, log) \<Rightarrow> (Inr (circuitID, rendezvousPoint), log)))))"

definition CompleteRendezvous ::
  "onion_env \<Rightarrow> u32 \<Rightarrow> OnionClient \<Rightarrow> onion_event list \<Rightarrow> (onion_error + unit) \<times> OnionClient \<times> onion_event list" where
  "CompleteRendezvous env rendezvousCircuitID c log =
     (let state = GetRendezvousState rendezvousCircuitID c in
      case WaitForRendezvous2 (oc_cellSender c) rendezvousCircuitID log of
        (Inl e, log) \<Rightarrow> (Inl e, c, log)
      | (Inr handshakeData, log) \<Rightarrow>
          (case state of
             Some st \<Rightarrow>
               (if length handshakeData \<ge> 32 then
                  let servicePublic = take 32 handshakeData;
                      sharedSecret = oe_ScalarMult env (rs_EphemeralPrivate st) servicePublic;
                      c' = snd (RemoveRendezvousState rendezvousCircuitID c) in
                  (case deriveKey env sharedSecret (bytes_of_string ''tor-hs-rendezvous-keys'') 64 of
                     Inl e \<Rightarrow> (Inl e, c', log)
                   | Inr sessionKeys \<Rightarrow> (Inr (), c', log))
                else (Inr (), c, log))
           | None \<Rightarrow> (Inr (), c, log)))"

definition ConnectToOnionService ::
  "onion_env \<Rightarrow> address \<Rightarrow> OnionClient \<Rightarrow> onion_event list \<Rightarrow> (onion_error + u32) \<times> OnionClient \<times> onion_event list" where
  "ConnectToOnionService env addr c log =
     (case GetDescriptor env addr c of
        (Inl e, c) \<Rightarrow> (Inl e, c, log)
      | (Inr desc, c) \<Rightarrow>
     (case oe_cookie env of
        None \<Rightarrow> (Inl RandomFailed, c, log)
      | Some rendezvousCookie \<Rightarrow>
     (case EstablishRendezvousPoint c rendezvousCookie (oc_consensus c) log of
        (Inl e, log) \<Rightarrow> (Inl e, c, log)
      | (Inr (rendezvousCircuitID, rendezvousPoint), log) \<Rightarrow>
     (case SelectIntroductionPoint (oe_index env) (Some desc) of
        Inl e \<Rightarrow> (Inl e, c, log)
      | Inr introPoint \<Rightarrow>
     (case CreateIntroductionCircuit (oc_circuitBuilder c) (Some introPoint) log of
        (Inl e, log) \<Rightarrow> (Inl e, c, log)
      | (Inr introCircuitID, log) \<Rightarrow>
     (case oe_onionKey env of
        None \<Rightarrow> (Inl RandomFailed, c, log)
      | Some onionKey \<Rightarrow>
     let req = \<lparr>ir_IntroPoint = Some introPoint, ir_RendezvousCookie = rendezvousCookie,
                ir_RendezvousPoint = hs_Fingerprint rendezvousPoint, ir_RendezvousCircuitID = 0,
                ir_OnionKey = onionKey, ir_EphemeralPrivate = zeros 32, ir_EphemeralPublic = zeros 32\<rparr> in
     (case BuildIntroduce1Cell env (Some req) of
        (Inl e, r) \<Rightarrow> (Inl e, c, log)
      | (Inr introduce1Data, r) \<Rightarrow>
     (case SendIntroduce1 (oc_cellSender c) introCircuitID introduce1Data log of
        (Inl e, log) \<Rightarrow> (Inl e, c, log)
      | (Inr u, log) \<Rightarrow>
     (case CompleteRendezvous env rendezvousCircuitID c log of
        (Inl e, c, log) \<Rightarrow> (Inl e, c, log)
      | (Inr u, c, log) \<Rightarrow> (Inr rendezvousCircuitID, c, log))))))))))"

subsection \<open>The INTRODUCE1 cell\<close>

text \<open>
  What the other end of the encryption computes: the owner of the private key \<open>b\<close> derives the
  keys from the client's public key and applies the same keystream.
\<close>

definition open_introduce1 :: "onion_env \<Rightarrow> bytes \<Rightarrow> bytes \<Rightarrow> bytes option" where
  "open_introduce1 env b payload =
     (let s = oe_ScalarMult env b (take 32 payload) in
      case (oe_hkdf env s (bytes_of_string ''tor-hs-intro-encryption'') 32, oe_hkdf env s (bytes_of_string ''tor-hs-intro-iv'') 16) of
        (Some key, Some iv) \<Rightarrow> Some (fst (XORKeyStream (drop 32 payload) \<lparr>sc_keystream = oe_aes_ctr env key iv, sc_pos = 0\<rparr>))
      | _ \<Rightarrow> None)"

text \<open>
  C17: The encrypted part of an INTRODUCE1 cell can be opened with the private key that
  belongs to the introduction point's encryption key and gives back the rendezvous cookie and
  the onion key; the fields before it are the zero legacy key, key type 2, the length of the
  authentication key, that key (32 zeros when there is none), and no extensions. The cookie has
  20 bytes, the onion key 32 and the authentication key fewer than 65536; the ephemeral key is
  drawn. Curve25519 commutes and returns 32 bytes, and HKDF-SHA256 returns the 32 and the 16
  bytes it is asked for here (it fails beyond 8160, which no caller asks for).
\<close>

theorem introduce1_opens:
  assumes dh: "\<And>x y. oe_ScalarMult env y (oe_ScalarMult env x basePoint) = oe_ScalarMult env x (oe_ScalarMult env y basePoint)"
    and mult: "\<And>x y. length (oe_ScalarMult env x y) = 32"
    and hkdf: "\<And>s i. \<exists>k. oe_hkdf env s i 32 = Some k \<and> length k = 32" "\<And>s i. \<exists>k. oe_hkdf env s i 16 = Some k \<and> length k = 16"
    and eph: "oe_ephemeral env = Some x"
    and ip: "ir_IntroPoint req = Some ip" and enc: "ip_EncKey ip = oe_ScalarMult env b basePoint"
    and cookie: "length (ir_RendezvousCookie req) = 20" and key: "length (ir_OnionKey req) = 32"
    and auth: "ak = (if ip_AuthKey ip = [] then zeros 32 else ip_AuthKey ip)" "length ak < 65536"
  shows "\<exists>payload. fst (BuildIntroduce1Cell env (Some req))
        = Inr (zeros 20 @ [2] @ be16 (of_nat (length ak)) @ ak @ [0] @ payload)
     \<and> open_introduce1 env b payload = Some (ir_RendezvousCookie req @ ir_OnionKey req @ [0])"
proof -
  define s where "s = oe_ScalarMult env x (ip_EncKey ip)"
  define X where "X = oe_ScalarMult env x basePoint"
  have s': "oe_ScalarMult env b X = s" by (simp add: s_def X_def enc dh)
  obtain k iv where k: "oe_hkdf env s (bytes_of_string ''tor-hs-intro-encryption'') 32 = Some k" "length k = 32"
    "oe_hkdf env s (bytes_of_string ''tor-hs-intro-iv'') 16 = Some iv" "length iv = 16"
    using hkdf(1) [of s "bytes_of_string ''tor-hs-intro-encryption''"] hkdf(2) [of s "bytes_of_string ''tor-hs-intro-iv''"] by blast
  let ?c = "\<lparr>sc_keystream = oe_aes_ctr env k iv, sc_pos = 0\<rparr>"
  let ?pt = "introduce1_plaintext req"
  have pt: "?pt = ir_RendezvousCookie req @ ir_OnionKey req @ [0]"
    using key by (auto simp: introduce1_plaintext_def)
  have len32: "length (ip_EncKey ip) = 32" "length X = 32" by (simp_all add: enc mult X_def)
  have keys: "deriveKey env s (bytes_of_string ''tor-hs-intro-encryption'') 32 = Inr k"
    "deriveKey env s (bytes_of_string ''tor-hs-intro-iv'') 16 = Inr iv"
    by (simp_all add: deriveKey_def k)
  have stream: "NewAESCTRCipher (oe_aes_ctr env) k iv = Inr ?c" by (simp add: NewAESCTRCipher_def k)
  have "encryptIntroduce1Data env ?pt (ip_EncKey ip) = Inr (fst (XORKeyStream ?pt ?c), X, x)"
    unfolding encryptIntroduce1Data_def eph option.case Let_def s_def [symmetric] X_def [symmetric]
    by (simp add: keys stream len32)
  then have "fst (buildEncryptedData env req) = X @ fst (XORKeyStream ?pt ?c)"
    by (simp add: buildEncryptedData_def ip len32(1) Let_def)
  moreover have "(if length (ip_AuthKey ip) > 0 then SafeLenToUint16 (ip_AuthKey ip) else Inr 32) = Inr (of_nat (length ak))"
      "(if length (ip_AuthKey ip) > 0 then ip_AuthKey ip else zeros 32) = ak"
    using auth by (auto simp: SafeLenToUint16_def SafeIntToUint16_def split: if_splits)
  ultimately have "fst (BuildIntroduce1Cell env (Some req))
        = Inr (zeros 20 @ [2] @ be16 (of_nat (length ak)) @ ak @ [0] @ X @ fst (XORKeyStream ?pt ?c))"
    using cookie by (auto simp: BuildIntroduce1Cell_def ip Let_def split: prod.split)
  moreover have "open_introduce1 env b (X @ fst (XORKeyStream ?pt ?c)) = Some ?pt"
    using k len32(2) by (simp add: open_introduce1_def s' Let_def)
  ultimately show ?thesis unfolding pt by blast
qed

text \<open>Without a 32-byte encryption key the cookie and the key go out in the clear.\<close>

lemma introduce1_in_clear:
  assumes "ir_IntroPoint req = Some ip" and "length (ip_EncKey ip) \<noteq> 32" and "length (ir_RendezvousCookie req) = 20"
    and "length (ip_AuthKey ip) < 65536"
  shows "\<exists>p. fst (BuildIntroduce1Cell env (Some req)) = Inr (p @ introduce1_plaintext req)"
proof -
  have "\<exists>l. (if length (ip_AuthKey ip) > 0 then SafeLenToUint16 (ip_AuthKey ip) else Inr 32) = Inr l"
    using assms(4) by (simp add: SafeLenToUint16_def SafeIntToUint16_def)
  then obtain l where l: "(if length (ip_AuthKey ip) > 0 then SafeLenToUint16 (ip_AuthKey ip) else Inr 32) = Inr l" ..
  let ?ak = "if length (ip_AuthKey ip) > 0 then ip_AuthKey ip else zeros 32"
  have "fst (BuildIntroduce1Cell env (Some req)) = Inr ((zeros 20 @ [2] @ be16 l @ ?ak @ [0]) @ introduce1_plaintext req)"
    unfolding BuildIntroduce1Cell_def option.case assms(1) l
    using assms by (simp add: buildEncryptedData_def Let_def)
  then show ?thesis by blast
qed

text \<open>An environment for the examples: the toy group has one element, the keystream is the counter.\<close>

definition example_env :: onion_env where
  "example_env = \<lparr>oe_sha3 = (\<lambda>x. zeros 32), oe_hkdf = (\<lambda>s i n. if n \<le> 8160 then Some (zeros n) else None), oe_ScalarMult = (\<lambda>x y. zeros 32),
     oe_aes_ctr = (\<lambda>k iv i. of_nat i), oe_http = (\<lambda>n u. HttpError), oe_clock = (\<lambda>n. 0), oe_cancelled = (\<lambda>n. False),
     oe_now = 0, oe_cookie = Some (replicate 20 7), oe_index = Some [0, 0, 0, 1], oe_onionKey = Some (replicate 32 8),
     oe_ephemeral = Some (replicate 32 5)\<rparr>"

definition example_intro_request :: IntroduceRequest where
  "example_intro_request =
     \<lparr>ir_IntroPoint = Some (empty_intro_point\<lparr>ip_AuthKey := replicate 32 1, ip_EncKey := zeros 32\<rparr>),
      ir_RendezvousCookie = replicate 20 7, ir_RendezvousPoint = [], ir_RendezvousCircuitID = 0,
      ir_OnionKey = replicate 32 8, ir_EphemeralPrivate = zeros 32, ir_EphemeralPublic = zeros 32\<rparr>"

theorem introduce1_opens_witness:
  "\<exists>payload. fst (BuildIntroduce1Cell example_env (Some example_intro_request))
        = Inr (zeros 20 @ [2] @ be16 32 @ replicate 32 1 @ [0] @ payload)
     \<and> open_introduce1 example_env (replicate 32 6) payload = Some (replicate 20 7 @ replicate 32 8 @ [0])"
  using introduce1_opens [of example_env "replicate 32 5" example_intro_request
      "empty_intro_point\<lparr>ip_AuthKey := replicate 32 1, ip_EncKey := zeros 32\<rparr>" "replicate 32 6" "replicate 32 1"]
  by (simp add: example_env_def example_intro_request_def)

subsection \<open>What completes a rendezvous\<close>

text \<open>
  CompleteRendezvous does not authenticate the service: with a cell sender it succeeds
  exactly when any non-empty cell arrives on the circuit, whatever its bytes and whether or not
  a handshake state was stored, and without one it always succeeds. HKDF can give 64 bytes.
\<close>

lemma complete_rendezvous_accepts_anything:
  assumes hkdf: "\<And>s i. oe_hkdf env s i 64 \<noteq> None"
  shows "fst (CompleteRendezvous env cid c log) = Inr () \<longleftrightarrow>
    (case oc_cellSender c of
       None \<Rightarrow> True
     | Some s \<Rightarrow> (\<exists>x xs. cs_ReceiveRelayCell s (length log) cid = Some (x # xs)))"
proof -
  have key: "\<exists>k. deriveKey env sec i 64 = Inr k" for sec i
    using hkdf [of sec i] by (auto simp: deriveKey_def)
  have ok: "fst (CompleteRendezvous env cid c log) = Inr ()" if "WaitForRendezvous2 (oc_cellSender c) cid log = (Inr d, l)" for d l
  proof (cases "GetRendezvousState cid c")
    case None
    with that show ?thesis by (simp add: CompleteRendezvous_def)
  next
    case (Some st)
    from key obtain k where "deriveKey env (oe_ScalarMult env (rs_EphemeralPrivate st) (take 32 d))
        (bytes_of_string ''tor-hs-rendezvous-keys'') 64 = Inr k" by blast
    with that Some show ?thesis by (simp add: CompleteRendezvous_def Let_def)
  qed
  have failed: "fst (CompleteRendezvous env cid c log) = Inl e" if "WaitForRendezvous2 (oc_cellSender c) cid log = (Inl e, l)" for e l
    using that by (simp add: CompleteRendezvous_def)
  show ?thesis
  proof (cases "oc_cellSender c")
    case None
    then show ?thesis using ok by (simp add: WaitForRendezvous2_def)
  next
    case (Some s)
    show ?thesis
    proof (cases "cs_ReceiveRelayCell s (length log) cid")
      case None
      with Some failed show ?thesis by (simp add: WaitForRendezvous2_def)
    next
      case data: (Some d)
      show ?thesis
      proof (cases d)
        case Nil
        with Some data failed show ?thesis by (simp add: WaitForRendezvous2_def ParseRendezvous2Cell_def)
      next
        case (Cons x xs)
        with Some data ok show ?thesis by (simp add: WaitForRendezvous2_def ParseRendezvous2Cell_def)
      qed
    qed
  qed
qed

lemma complete_rendezvous_accepts_anything_example:
  "let s = \<lparr>cs_SendRelayCell = (\<lambda>n c cmd d. True), cs_ReceiveRelayCell = (\<lambda>n c. Some [0])\<rparr>;
       c = SetCellSender (Some s) NewOnionClient in
   fst (CompleteRendezvous example_env 7 c []) = Inr () \<longleftrightarrow>
    (case oc_cellSender c of
       None \<Rightarrow> True
     | Some s \<Rightarrow> (\<exists>x xs. cs_ReceiveRelayCell s (length ([] :: onion_event list)) 7 = Some (x # xs)))"
  unfolding Let_def by (rule complete_rendezvous_accepts_anything) (simp add: example_env_def)

subsection \<open>The order of a connection\<close>

lemma establish_log:
  assumes "EstablishRendezvousPoint c cookie relays log = (Inr (rc, rp), log')"
    and "oc_circuitBuilder c = Some b" and "oc_cellSender c = Some s"
  shows "relays \<noteq> [] \<and> rp = relays ! 0 \<and> b (length log) rp = Some rc \<and> length cookie = 20
    \<and> log' = log @ [BuildCircuitToRelay rp, SendRelayCell rc 0x21 cookie, ReceiveRelayCell rc]"
  using assms
  by (auto simp: EstablishRendezvousPoint_def SelectRendezvousPoint_def CreateRendezvousCircuit_def
      BuildEstablishRendezvousCell_def SendEstablishRendezvous_def go_copy_same Let_def
      split: sum.splits prod.splits option.splits if_splits)

lemma get_descriptor_keeps:
  "GetDescriptor env addr c = (r, c') \<Longrightarrow>
     oc_circuitBuilder c' = oc_circuitBuilder c \<and> oc_cellSender c' = oc_cellSender c
     \<and> oc_consensus c' = oc_consensus c \<and> oc_rendezvousState c' = oc_rendezvousState c"
  by (auto simp: GetDescriptor_def split: option.splits sum.splits)

lemma complete_log:
  assumes "CompleteRendezvous env rc c log = (r, c', log')" and "oc_cellSender c = Some s"
  shows "log' = log @ [ReceiveRelayCell rc]"
  using assms
  by (auto simp: CompleteRendezvous_def WaitForRendezvous2_def Let_def
      split: sum.splits prod.splits option.splits if_splits)

lemma connect_success:
  assumes "ConnectToOnionService env addr c log = (Inr rc, c', log')"
  obtains desc c1 cookie rp log1 ip ic log2 key cell req r2 log3 where
    "GetDescriptor env addr c = (Inr desc, c1)" and "oe_cookie env = Some cookie"
    and "EstablishRendezvousPoint c1 cookie (oc_consensus c1) log = (Inr (rc, rp), log1)"
    and "SelectIntroductionPoint (oe_index env) (Some desc) = Inr ip"
    and "CreateIntroductionCircuit (oc_circuitBuilder c1) (Some ip) log1 = (Inr ic, log2)"
    and "oe_onionKey env = Some key"
    and "req = \<lparr>ir_IntroPoint = Some ip, ir_RendezvousCookie = cookie, ir_RendezvousPoint = hs_Fingerprint rp,
           ir_RendezvousCircuitID = 0, ir_OnionKey = key, ir_EphemeralPrivate = zeros 32, ir_EphemeralPublic = zeros 32\<rparr>"
    and "BuildIntroduce1Cell env (Some req) = (Inr cell, r2)"
    and "SendIntroduce1 (oc_cellSender c1) ic cell log2 = (Inr (), log3)"
    and "CompleteRendezvous env rc c1 log3 = (Inr (), c', log')"
  using assms unfolding ConnectToOnionService_def
  by (fastforce simp: Let_def split: sum.splits prod.splits option.splits)

text \<open>
  With a circuit builder and a cell sender, a connection that succeeds has done exactly
  this, in this order: a circuit to the first relay of the consensus, the cookie on it in
  ESTABLISH_RENDEZVOUS, a wait for the acknowledgement, a circuit to a blank relay (not the
  introduction point), INTRODUCE1 on that one, and a wait for the last cell on the first
  circuit, whose identifier it returns.
\<close>

lemma connect_event_order:
  assumes ok: "ConnectToOnionService env addr c log = (Inr rc, c', log')"
    and b: "oc_circuitBuilder c = Some b" and s: "oc_cellSender c = Some s"
  shows "\<exists>rp cookie ic cell. oc_consensus c \<noteq> [] \<and> rp = oc_consensus c ! 0 \<and> oe_cookie env = Some cookie
     \<and> b (length log) rp = Some rc \<and> b (length log + 3) blank_relay = Some ic
     \<and> log' = log @ [BuildCircuitToRelay rp, SendRelayCell rc 0x21 cookie, ReceiveRelayCell rc,
                     BuildCircuitToRelay blank_relay, SendRelayCell ic 0x22 cell, ReceiveRelayCell rc]"
proof -
  from ok obtain desc c1 cookie rp log1 ip ic log2 key cell req r2 log3 where
    get: "GetDescriptor env addr c = (Inr desc, c1)" and cookie: "oe_cookie env = Some cookie"
    and est: "EstablishRendezvousPoint c1 cookie (oc_consensus c1) log = (Inr (rc, rp), log1)"
    and circ: "CreateIntroductionCircuit (oc_circuitBuilder c1) (Some ip) log1 = (Inr ic, log2)"
    and send: "SendIntroduce1 (oc_cellSender c1) ic cell log2 = (Inr (), log3)"
    and compl: "CompleteRendezvous env rc c1 log3 = (Inr (), c', log')"
    by (rule connect_success) blast
  note keeps = get_descriptor_keeps [OF get]
  from establish_log [OF est] b s keeps
  have e: "oc_consensus c \<noteq> []" "rp = oc_consensus c ! 0" "b (length log) rp = Some rc"
    "log1 = log @ [BuildCircuitToRelay rp, SendRelayCell rc 0x21 cookie, ReceiveRelayCell rc]" by auto
  from circ b keeps have i: "b (length log1) blank_relay = Some ic" "log2 = log1 @ [BuildCircuitToRelay blank_relay]"
    by (auto simp: CreateIntroductionCircuit_def split: option.splits)
  from send s keeps have "log3 = log2 @ [SendRelayCell ic 0x22 cell]"
    by (auto simp: SendIntroduce1_def split: if_splits)
  moreover have "log' = log3 @ [ReceiveRelayCell rc]"
    using complete_log [OF compl] s keeps by simp
  ultimately show ?thesis
    using e i cookie
    by - (rule exI [of _ rp], rule exI [of _ cookie], rule exI [of _ ic], rule exI [of _ cell],
          simp add: numeral_3_eq_3)
qed

definition example_sender :: cell_sender where
  "example_sender = \<lparr>cs_SendRelayCell = (\<lambda>n c cmd d. True), cs_ReceiveRelayCell = (\<lambda>n c. Some [1])\<rparr>"

definition example_builder :: circuit_builder where
  "example_builder n h = Some (if n = 0 then 11 else 12)"

definition example_address :: address where
  "example_address = \<lparr>ad_Version = 3, ad_Pubkey = zeros 32, ad_Raw = ''a.onion''\<rparr>"

definition example_client :: OnionClient where
  "example_client =
     CacheDescriptor example_env example_address
       ((new_descriptor 0 [])\<lparr>de_IntroPoints := [empty_intro_point]\<rparr>)
       (UpdateHSDirs [blank_relay\<lparr>hs_Fingerprint := ''AB''\<rparr>]
         (SetCellSender (Some example_sender) (SetCircuitBuilder (Some example_builder) NewOnionClient)))"

lemma example_connect: "\<exists>c' log'. ConnectToOnionService example_env example_address example_client [] = (Inr 11, c', log')"
proof -
  have "GetDescriptor example_env example_address example_client
      = (Inr ((new_descriptor 0 [])\<lparr>de_IntroPoints := [empty_intro_point]\<rparr>), example_client)"
    by (simp add: GetDescriptor_def example_client_def CacheDescriptor_def DescriptorCache_Get_def
      DescriptorCache_Put_def example_env_def new_descriptor_def Hour_def Minute_def Second_def)
  moreover have "oc_circuitBuilder example_client = Some example_builder" "oc_cellSender example_client = Some example_sender"
    "oc_consensus example_client = [blank_relay\<lparr>hs_Fingerprint := ''AB''\<rparr>]" "oc_rendezvousState example_client = Map.empty"
    by (simp_all add: example_client_def CacheDescriptor_def UpdateHSDirs_def SetCellSender_def SetCircuitBuilder_def NewOnionClient_def)
  ultimately show ?thesis
    by (simp add: ConnectToOnionService_def EstablishRendezvousPoint_def SelectRendezvousPoint_def CreateRendezvousCircuit_def
      BuildEstablishRendezvousCell_def SendEstablishRendezvous_def SelectIntroductionPoint_def CreateIntroductionCircuit_def
      BuildIntroduce1Cell_def SendIntroduce1_def CompleteRendezvous_def WaitForRendezvous2_def ParseRendezvous2Cell_def
      GetRendezvousState_def example_env_def example_sender_def example_builder_def go_copy_def empty_intro_point_def
      new_descriptor_def u32_at_def buildEncryptedData_def Let_def)
qed

lemma connect_event_order_example:
  "\<exists>log' rp cookie ic cell. oc_consensus example_client \<noteq> [] \<and> rp = oc_consensus example_client ! 0
     \<and> oe_cookie example_env = Some cookie
     \<and> example_builder 0 rp = Some 11 \<and> example_builder 3 blank_relay = Some ic
     \<and> log' = [] @ [BuildCircuitToRelay rp, SendRelayCell 11 0x21 cookie, ReceiveRelayCell 11,
                     BuildCircuitToRelay blank_relay, SendRelayCell ic 0x22 cell, ReceiveRelayCell 11]"
proof -
  obtain c' log' where "ConnectToOnionService example_env example_address example_client [] = (Inr 11, c', log')"
    using example_connect by blast
  moreover have "oc_circuitBuilder example_client = Some example_builder" "oc_cellSender example_client = Some example_sender"
    by (simp_all add: example_client_def CacheDescriptor_def UpdateHSDirs_def SetCellSender_def SetCircuitBuilder_def NewOnionClient_def)
  ultimately show ?thesis
    using connect_event_order [of example_env example_address example_client "[]" 11 c' log' example_builder example_sender]
    by (simp only: list.size) auto
qed

subsection \<open>No handshake state is ever stored\<close>

text \<open>
  The clients the repository can produce: every exported operation apart from
  StoreRendezvousState, which nothing in the repository calls.
\<close>

inductive client_reach :: "OnionClient \<Rightarrow> bool" where
  reach_new: "client_reach NewOnionClient"
| reach_builder: "client_reach c \<Longrightarrow> client_reach (SetCircuitBuilder b c)"
| reach_sender: "client_reach c \<Longrightarrow> client_reach (SetCellSender s c)"
| reach_hsdirs: "client_reach c \<Longrightarrow> client_reach (UpdateHSDirs relays c)"
| reach_cache: "client_reach c \<Longrightarrow> client_reach (CacheDescriptor env addr desc c)"
| reach_get: "client_reach c \<Longrightarrow> GetDescriptor env addr c = (r, c') \<Longrightarrow> client_reach c'"
| reach_remove: "client_reach c \<Longrightarrow> RemoveRendezvousState cid c = (r, c') \<Longrightarrow> client_reach c'"
| reach_complete: "client_reach c \<Longrightarrow> CompleteRendezvous env cid c log = (u, c', log') \<Longrightarrow> client_reach c'"
| reach_connect: "client_reach c \<Longrightarrow> ConnectToOnionService env addr c log = (v, c', log') \<Longrightarrow> client_reach c'"

lemma remove_empty: "oc_rendezvousState c = Map.empty \<Longrightarrow> RemoveRendezvousState cid c = (None, c)"
  by (simp add: RemoveRendezvousState_def)

lemma complete_empty:
  "CompleteRendezvous env cid c log = (u, c', log') \<Longrightarrow> oc_rendezvousState c = Map.empty \<Longrightarrow> c' = c"
  by (auto simp: CompleteRendezvous_def GetRendezvousState_def split: sum.splits prod.splits)

lemma connect_empty:
  assumes "ConnectToOnionService env addr c log = (v, c', log')" and empty: "oc_rendezvousState c = Map.empty"
  shows "oc_rendezvousState c' = Map.empty"
proof -
  obtain r c1 where get: "GetDescriptor env addr c = (r, c1)" by fastforce
  with empty have c1: "oc_rendezvousState c1 = Map.empty" by (simp add: get_descriptor_keeps)
  have "c' = c1"
    using assms(1) c1 unfolding ConnectToOnionService_def get
    by (auto simp: Let_def dest!: complete_empty split: sum.splits prod.splits option.splits)
  with c1 show ?thesis by simp
qed

text \<open>
  No client the repository can produce holds a rendezvous state, so the handshake branch
  of CompleteRendezvous never runs: the key exchange with the service is never computed.
\<close>

lemma no_rendezvous_state:
  assumes "client_reach c"
  shows "GetRendezvousState cid c = None"
proof -
  from assms have "oc_rendezvousState c = Map.empty"
  proof (induction rule: client_reach.induct)
    case (reach_connect c env addr log v c' log')
    then show ?case by (blast intro: connect_empty)
  next
    case (reach_complete c env cid log u c' log')
    then show ?case using complete_empty by metis
  next
    case (reach_remove c cid r c')
    then show ?case by (simp add: remove_empty)
  qed (auto simp: NewOnionClient_def SetCircuitBuilder_def SetCellSender_def UpdateHSDirs_def CacheDescriptor_def
      dest: get_descriptor_keeps)
  then show ?thesis by (simp add: GetRendezvousState_def)
qed

lemma no_rendezvous_state_example: "GetRendezvousState 11 (UpdateHSDirs [blank_relay] NewOnionClient) = None"
  by (rule no_rendezvous_state) (intro client_reach.intros)

end
