(* ===== verification/OnionService.thy ===== *)
theory OnionService
  imports Rendezvous
begin

section \<open>pkg/onion/service.go: hosting an onion service\<close>

text \<open>
  The service object and its operations, and the client's view of what it publishes. Ed25519
  signing is the parameter \<open>sign\<close>, key generation and random bytes are arguments (None: the
  generator failed). uploadDescriptor only waits in the source; whether the context ends during
  the n-th wait is \<open>cancelled n\<close>. The Go private key ends with the public key.
\<close>

record ServiceConfig =
  sc_PrivateKey :: bytes
  sc_Ports :: "int \<rightharpoonup> string"
  sc_NumIntroPoints :: int
  sc_DescriptorLifetime :: duration
  sc_DataDirectory :: string

record ServiceIntroPoint =
  si_Relay :: HSDirectory
  si_CircuitID :: u32
  si_AuthKey :: bytes
  si_EncKey :: bytes
  si_Established :: bool
  si_CreatedAt :: time

record PendingIntro =
  pi_Cookie :: bytes
  pi_RendezvousPoint :: string
  pi_ClientOnionKey :: bytes
  pi_ReceivedAt :: time

record Service =
  sv_identityKey :: bytes
  sv_publicKey :: bytes
  sv_address :: address
  sv_config :: ServiceConfig
  sv_descriptor :: "Descriptor option"
  sv_introPoints :: "ServiceIntroPoint list"
  sv_publishedHSDirs :: "HSDirectory list"
  sv_lastPublish :: "time option"
  sv_running :: bool
  sv_cancelled :: bool
  sv_pendingIntros :: "string \<rightharpoonup> PendingIntro"

datatype service_error =
    ConfigRequired
  | InvalidPrivateKeySize nat
  | IdentityKeyGeneration
  | InvalidPublicKeyLength nat
  | AlreadyRunning
  | NotEnoughRelays int nat
  | RandomKeyFailed
  | CircuitIDFailed conv_error
  | NoIntroPointEstablished
  | SigningKeyGeneration
  | NoDescriptorToPublish
  | PublishedNowhere
  | Introduce2TooShort nat

definition addressFromPublicKey :: "(bytes \<Rightarrow> bytes) \<Rightarrow> bytes \<Rightarrow> service_error + address" where
  "addressFromPublicKey sha3 pubkey =
     (if length pubkey \<noteq> 32 then Inl (InvalidPublicKeyLength (length pubkey))
      else
        let checksum = computeV3Checksum sha3 pubkey V3Version;
            encoded = to_lower (b32_encode (pubkey @ checksum @ [V3Version])) in
        Inr \<lparr>ad_Version = AddressVersion_V3, ad_Pubkey = pubkey, ad_Raw = encoded @ V3Suffix\<rparr>)"

definition service_defaults :: "ServiceConfig \<Rightarrow> ServiceConfig" where
  "service_defaults c =
     (let n0 = sc_NumIntroPoints c;
          n1 = (if n0 = 0 then 3 else n0);
          n2 = (if n1 < 1 then 1 else n1);
          n3 = (if n2 > 10 then 10 else n2);
          l = (if sc_DescriptorLifetime c = 0 then 3 * Hour else sc_DescriptorLifetime c)
      in c\<lparr>sc_NumIntroPoints := n3, sc_DescriptorLifetime := l\<rparr>)"

definition NewService ::
  "(bytes \<Rightarrow> bytes) \<Rightarrow> (bytes \<times> bytes) option \<Rightarrow> ServiceConfig option \<Rightarrow> service_error + Service" where
  "NewService sha3 generated cfg =
     (case cfg of None \<Rightarrow> Inl ConfigRequired
      | Some config \<Rightarrow>
     (case (if length (sc_PrivateKey config) > 0 then
              (if length (sc_PrivateKey config) \<noteq> 64 then Inl (InvalidPrivateKeySize (length (sc_PrivateKey config)))
               else Inr (drop 32 (sc_PrivateKey config), sc_PrivateKey config))
            else (case generated of None \<Rightarrow> Inl IdentityKeyGeneration | Some k \<Rightarrow> Inr k)) of
        Inl e \<Rightarrow> Inl e
      | Inr (publicKey, privateKey) \<Rightarrow>
     (case addressFromPublicKey sha3 publicKey of
        Inl e \<Rightarrow> Inl e
      | Inr addr \<Rightarrow>
          Inr \<lparr>sv_identityKey = privateKey, sv_publicKey = publicKey, sv_address = addr,
               sv_config = service_defaults config, sv_descriptor = None, sv_introPoints = [],
               sv_publishedHSDirs = [], sv_lastPublish = None, sv_running = False, sv_cancelled = False,
               sv_pendingIntros = Map.empty\<rparr>)))"

definition Service_GetAddress :: "(bytes \<Rightarrow> bytes) \<Rightarrow> Service \<Rightarrow> string" where
  "Service_GetAddress sha3 s = Address_String sha3 (sv_address s)"

subsection \<open>Introduction points\<close>

text \<open>The two keys drawn for one point.\<close>

definition establishIntroductionPoint ::
  "bytes option \<times> bytes option \<Rightarrow> time \<Rightarrow> HSDirectory \<Rightarrow> Service \<Rightarrow> service_error + ServiceIntroPoint" where
  "establishIntroductionPoint keys now relay s =
     (case keys of
        (None, _) \<Rightarrow> Inl RandomKeyFailed
      | (Some authKey, None) \<Rightarrow> Inl RandomKeyFailed
      | (Some authKey, Some encKey) \<Rightarrow>
          (case SafeIntToUint32 (3000 + int (length (sv_introPoints s))) of
             Inl e \<Rightarrow> Inl (CircuitIDFailed e)
           | Inr circuitID \<Rightarrow>
               Inr \<lparr>si_Relay = relay, si_CircuitID = circuitID, si_AuthKey = authKey, si_EncKey = encKey,
                    si_Established = True, si_CreatedAt = now\<rparr>))"

fun establish_each ::
  "(nat \<Rightarrow> bytes option \<times> bytes option) \<Rightarrow> time \<Rightarrow> nat \<Rightarrow> HSDirectory list \<Rightarrow> Service \<Rightarrow> Service" where
  "establish_each rnd now i [] s = s"
| "establish_each rnd now i (relay # relays) s =
     (case establishIntroductionPoint (rnd i) now relay s of
        Inl e \<Rightarrow> establish_each rnd now (Suc i) relays s
      | Inr intro \<Rightarrow> establish_each rnd now (Suc i) relays (s\<lparr>sv_introPoints := sv_introPoints s @ [intro]\<rparr>))"

definition establishIntroductionPoints ::
  "(nat \<Rightarrow> bytes option \<times> bytes option) \<Rightarrow> time \<Rightarrow> HSDirectory list \<Rightarrow> Service \<Rightarrow> (service_error + unit) \<times> Service" where
  "establishIntroductionPoints rnd now hsdirs s =
     (let n = sc_NumIntroPoints (sv_config s) in
      if int (length hsdirs) < n then (Inl (NotEnoughRelays n (length hsdirs)), s)
      else
        let s' = establish_each rnd now 0 (take (nat n) hsdirs) s in
        if length (sv_introPoints s') = 0 then (Inl NoIntroPointEstablished, s') else (Inr (), s'))"

subsection \<open>The descriptor\<close>

text \<open>Go's integer division truncates towards zero.\<close>

definition go_quot :: "int \<Rightarrow> int \<Rightarrow> int" where
  "go_quot a b = (if 0 \<le> a then a div b else - ((- a) div b))"

definition signDescriptor ::
  "(bytes \<Rightarrow> bytes \<Rightarrow> bytes) \<Rightarrow> (bytes \<times> bytes) option \<Rightarrow> time \<Rightarrow> Service \<Rightarrow> Descriptor \<Rightarrow> service_error + Descriptor" where
  "signDescriptor sign signingKey now s desc =
     (case signingKey of
        None \<Rightarrow> Inl SigningKeyGeneration
      | Some (descriptorSigningPub, descriptorSigningPriv) \<Rightarrow>
          let expiresAt = now + de_Lifetime desc;
              expiryHours = word_of_int (go_quot (unix_seconds expiresAt) 3600) :: u32;
              certContent = [1, 4] @ be32 expiryHours @ [1] @ descriptorSigningPub @ [0];
              completeCert = certContent @ sign (sv_identityKey s) certContent;
              desc1 = desc\<lparr>de_DescriptorSigningKeyCert := completeCert\<rparr>;
              encoded1 = bytes_of_string (unlines (descriptor_lines desc1));
              desc2 = desc1\<lparr>de_Signature := sign descriptorSigningPriv encoded1\<rparr>;
              encoded2 = bytes_of_string (unlines (descriptor_lines desc2))
          in Inr (desc2\<lparr>de_RawDescriptor := encoded2\<rparr>))"

definition service_intro_point :: "ServiceIntroPoint \<Rightarrow> IntroductionPoint" where
  "service_intro_point si =
     \<lparr>ip_LinkSpecifiers = [], ip_OnionKey = zeros 32, ip_AuthKey = si_AuthKey si, ip_EncKey = si_EncKey si,
      ip_EncKeyCert = [], ip_LegacyKeyID = zeros 20\<rparr>"

definition unsigned_descriptor :: "(bytes \<Rightarrow> bytes) \<Rightarrow> time \<Rightarrow> Service \<Rightarrow> Descriptor" where
  "unsigned_descriptor sha3 now s =
     (let timePeriod = GetTimePeriod now;
          blindedPubkey = ComputeBlindedPubkey sha3 (sv_publicKey s) timePeriod;
          descriptorID = computeDescriptorID sha3 blindedPubkey;
          revisionCounter = (case SafeUnixToUint64 now of Inl _ \<Rightarrow> 0 | Inr r \<Rightarrow> r)
      in \<lparr>de_Version = 3, de_Address = Some (sv_address s),
          de_IntroPoints = map service_intro_point (sv_introPoints s), de_DescriptorID = descriptorID,
          de_BlindedPubkey = blindedPubkey, de_RevisionCounter = revisionCounter, de_Signature = [],
          de_DescriptorSigningKeyCert = [], de_RawDescriptor = [], de_CreatedAt = now,
          de_Lifetime = sc_DescriptorLifetime (sv_config s)\<rparr>)"

definition createDescriptor ::
  "(bytes \<Rightarrow> bytes) \<Rightarrow> (bytes \<Rightarrow> bytes \<Rightarrow> bytes) \<Rightarrow> (bytes \<times> bytes) option \<Rightarrow> time \<Rightarrow> Service
     \<Rightarrow> (service_error + unit) \<times> Service" where
  "createDescriptor sha3 sign signingKey now s =
     (case signDescriptor sign signingKey now s (unsigned_descriptor sha3 now s) of
        Inl e \<Rightarrow> (Inl e, s)
      | Inr desc \<Rightarrow> (Inr (), s\<lparr>sv_descriptor := Some desc\<rparr>))"

subsection \<open>Publication\<close>

definition uploadDescriptor :: "(nat \<Rightarrow> bool) \<Rightarrow> nat \<Rightarrow> bool" where
  "uploadDescriptor cancelled n = (\<not> cancelled n)"

definition publish_targets :: "(bytes \<Rightarrow> bytes) \<Rightarrow> Descriptor \<Rightarrow> HSDirectory list \<Rightarrow> HSDirectory list" where
  "publish_targets sha3 desc hsdirs =
     concat (map (\<lambda>replica. SelectHSDirs sha3 (de_DescriptorID desc) hsdirs replica) [0, 1])"

definition publishDescriptor ::
  "(bytes \<Rightarrow> bytes) \<Rightarrow> (nat \<Rightarrow> bool) \<Rightarrow> time \<Rightarrow> HSDirectory list \<Rightarrow> Service \<Rightarrow> (service_error + unit) \<times> Service" where
  "publishDescriptor sha3 cancelled now hsdirs s =
     (case sv_descriptor s of
        None \<Rightarrow> (Inl NoDescriptorToPublish, s)
      | Some desc \<Rightarrow>
          let published = length (filter (uploadDescriptor cancelled) [0..<length (publish_targets sha3 desc hsdirs)]) in
          if published = 0 then (Inl PublishedNowhere, s) else (Inr (), s\<lparr>sv_lastPublish := Some now\<rparr>))"

subsection \<open>Start, stop, maintenance\<close>

record service_inputs =
  in_rnd :: "nat \<Rightarrow> bytes option \<times> bytes option"
  in_signingKey :: "(bytes \<times> bytes) option"
  in_cancelled :: "nat \<Rightarrow> bool"
  in_now :: time

text \<open>A successful Start also leaves a maintenance loop running, see below.\<close>

definition Service_Start ::
  "(bytes \<Rightarrow> bytes) \<Rightarrow> (bytes \<Rightarrow> bytes \<Rightarrow> bytes) \<Rightarrow> service_inputs \<Rightarrow> HSDirectory list \<Rightarrow> Service
     \<Rightarrow> (service_error + unit) \<times> Service" where
  "Service_Start sha3 sign inp hsdirs s0 =
     (if sv_running s0 then (Inl AlreadyRunning, s0)
      else
        let s = s0\<lparr>sv_running := True\<rparr> in
        case establishIntroductionPoints (in_rnd inp) (in_now inp) hsdirs s of
          (Inl e, s) \<Rightarrow> (Inl e, s\<lparr>sv_running := False\<rparr>)
        | (Inr u, s) \<Rightarrow>
        (case createDescriptor sha3 sign (in_signingKey inp) (in_now inp) s of
          (Inl e, s) \<Rightarrow> (Inl e, s\<lparr>sv_running := False\<rparr>)
        | (Inr u, s) \<Rightarrow>
        (case publishDescriptor sha3 (in_cancelled inp) (in_now inp) hsdirs s of
          (Inl e, s) \<Rightarrow> (Inl e, s\<lparr>sv_running := False\<rparr>)
        | (Inr u, s) \<Rightarrow> (Inr (), s))))"

definition Service_Stop :: "Service \<Rightarrow> Service" where
  "Service_Stop s = (if \<not> sv_running s then s else s\<lparr>sv_cancelled := True, sv_running := False\<rparr>)"

text \<open>
  The ticker of the maintenance loop: two thirds of the lifetime in wrapping arithmetic, at
  most an hour; time.NewTicker panics (None) on an interval that is not positive.
\<close>

definition maintenance_interval :: "Service \<Rightarrow> duration option" where
  "maintenance_interval s =
     (let r = go_quot (wrap_int64 (sc_DescriptorLifetime (sv_config s) * 2)) 3;
          refreshInterval = (if r > Hour then Hour else r)
      in if refreshInterval \<le> 0 then None else Some refreshInterval)"

definition maintenance_tick ::
  "(bytes \<Rightarrow> bytes) \<Rightarrow> (bytes \<Rightarrow> bytes \<Rightarrow> bytes) \<Rightarrow> service_inputs \<Rightarrow> HSDirectory list \<Rightarrow> Service \<Rightarrow> Service" where
  "maintenance_tick sha3 sign inp hsdirs s =
     (case createDescriptor sha3 sign (in_signingKey inp) (in_now inp) s of
        (Inl e, s) \<Rightarrow> s
      | (Inr u, s) \<Rightarrow> snd (publishDescriptor sha3 (in_cancelled inp) (in_now inp) hsdirs s))"

subsection \<open>Introductions and statistics\<close>

definition HandleIntroduce2 :: "time \<Rightarrow> bytes \<Rightarrow> Service \<Rightarrow> (service_error + unit) \<times> Service" where
  "HandleIntroduce2 now introduce2Data s =
     (if length introduce2Data < 52 then (Inl (Introduce2TooShort (length introduce2Data)), s)
      else
        let rendezvousCookie = take 20 introduce2Data;
            clientOnionKey = take 32 (drop 20 introduce2Data);
            cookieStr = hex_encode rendezvousCookie
        in (Inr (), s\<lparr>sv_pendingIntros := (sv_pendingIntros s)(cookieStr \<mapsto>
              \<lparr>pi_Cookie = rendezvousCookie, pi_RendezvousPoint = [], pi_ClientOnionKey = clientOnionKey,
               pi_ReceivedAt = now\<rparr>)\<rparr>))"

record ServiceStats =
  st_Address :: string
  st_Running :: bool
  st_IntroPoints :: nat
  st_DescriptorAge :: duration
  st_PendingIntros :: nat
  st_PublishedHSDirs :: nat

text \<open>time.Since of the zero time saturates at the largest duration.\<close>

definition Service_GetStats :: "(bytes \<Rightarrow> bytes) \<Rightarrow> time \<Rightarrow> Service \<Rightarrow> ServiceStats" where
  "Service_GetStats sha3 now s =
     \<lparr>st_Address = Address_String sha3 (sv_address s), st_Running = sv_running s,
      st_IntroPoints = length (sv_introPoints s),
      st_DescriptorAge = (case sv_lastPublish s of None \<Rightarrow> 2 ^ 63 - 1 | Some t \<Rightarrow> now - t),
      st_PendingIntros = card (dom (sv_pendingIntros s)), st_PublishedHSDirs = length (sv_publishedHSDirs s)\<rparr>"

subsection \<open>The well-formed service\<close>

text \<open>
  What NewService sets up and every operation keeps: keys and address that fit together,
  between one and ten introduction points configured, a lifetime that is not zero, and
  circuit identifiers counted up from 3000.
\<close>

definition wf_service :: "(bytes \<Rightarrow> bytes) \<Rightarrow> Service \<Rightarrow> bool" where
  "wf_service sha3 s \<longleftrightarrow>
     length (sv_publicKey s) = 32
     \<and> addressFromPublicKey sha3 (sv_publicKey s) = Inr (sv_address s)
     \<and> 1 \<le> sc_NumIntroPoints (sv_config s) \<and> sc_NumIntroPoints (sv_config s) \<le> 10
     \<and> sc_DescriptorLifetime (sv_config s) \<noteq> 0
     \<and> map si_CircuitID (sv_introPoints s) = map (\<lambda>i. of_nat (3000 + i)) [0..<length (sv_introPoints s)]
     \<and> (\<forall>p\<in>set (sv_introPoints s). si_Established p)"

lemma wf_service_keeps:
  "wf_service sha3 s \<Longrightarrow> sv_publicKey s' = sv_publicKey s \<Longrightarrow> sv_address s' = sv_address s
     \<Longrightarrow> sv_config s' = sv_config s \<Longrightarrow> sv_introPoints s' = sv_introPoints s \<Longrightarrow> wf_service sha3 s'"
  by (simp add: wf_service_def)

lemma new_service_wf: "NewService sha3 generated cfg = Inr s \<Longrightarrow> wf_service sha3 s"
  by (auto simp: NewService_def wf_service_def service_defaults_def addressFromPublicKey_def Hour_def Minute_def Second_def Let_def
      split: option.splits sum.splits prod.splits if_splits)

lemma establish_point_wf:
  assumes "wf_service sha3 s" and "establishIntroductionPoint keys now relay s = Inr p"
  shows "wf_service sha3 (s\<lparr>sv_introPoints := sv_introPoints s @ [p]\<rparr>)"
proof -
  have "si_CircuitID p = of_nat (3000 + length (sv_introPoints s))" "si_Established p"
    using assms(2)
    by (auto simp: establishIntroductionPoint_def SafeIntToUint32_def split: prod.splits option.splits sum.splits if_splits)
  with assms(1) show ?thesis by (simp add: wf_service_def)
qed

lemma establish_each_wf: "wf_service sha3 s \<Longrightarrow> wf_service sha3 (establish_each rnd now i relays s)"
  by (induction rnd now i relays s rule: establish_each.induct)
     (auto dest: establish_point_wf split: sum.splits)

lemma establish_wf:
  "wf_service sha3 s \<Longrightarrow> establishIntroductionPoints rnd now hsdirs s = (r, s') \<Longrightarrow> wf_service sha3 s'"
  using establish_each_wf by (auto simp: establishIntroductionPoints_def Let_def split: if_splits)

lemma create_keeps:
  "createDescriptor sha3 sign key now s = (r, s') \<Longrightarrow>
     sv_publicKey s' = sv_publicKey s \<and> sv_address s' = sv_address s \<and> sv_config s' = sv_config s
     \<and> sv_introPoints s' = sv_introPoints s \<and> sv_running s' = sv_running s \<and> sv_identityKey s' = sv_identityKey s
     \<and> sv_cancelled s' = sv_cancelled s \<and> sv_lastPublish s' = sv_lastPublish s"
  by (auto simp: createDescriptor_def split: sum.splits)

lemma publish_keeps:
  "publishDescriptor sha3 c now hsdirs s = (r, s') \<Longrightarrow>
     sv_publicKey s' = sv_publicKey s \<and> sv_address s' = sv_address s \<and> sv_config s' = sv_config s
     \<and> sv_introPoints s' = sv_introPoints s \<and> sv_running s' = sv_running s \<and> sv_identityKey s' = sv_identityKey s
     \<and> sv_cancelled s' = sv_cancelled s \<and> sv_descriptor s' = sv_descriptor s"
  by (auto simp: publishDescriptor_def Let_def split: option.splits if_splits)

lemma start_cases:
  assumes "Service_Start sha3 sign inp hsdirs s = (r, s')"
  obtains (running) "sv_running s" "r = Inl AlreadyRunning" "s' = s"
    | (failed) e s1 where "\<not> sv_running s" "r = Inl e" "s' = s1\<lparr>sv_running := False\<rparr>"
        "sv_introPoints s1 = sv_introPoints (snd (establishIntroductionPoints (in_rnd inp) (in_now inp) hsdirs (s\<lparr>sv_running := True\<rparr>)))"
        "\<And>sha3. wf_service sha3 s \<Longrightarrow> wf_service sha3 s1"
    | (started) s1 s2 where "\<not> sv_running s" "r = Inr ()"
        "establishIntroductionPoints (in_rnd inp) (in_now inp) hsdirs (s\<lparr>sv_running := True\<rparr>) = (Inr (), s1)"
        "createDescriptor sha3 sign (in_signingKey inp) (in_now inp) s1 = (Inr (), s2)"
        "publishDescriptor sha3 (in_cancelled inp) (in_now inp) hsdirs s2 = (Inr (), s')"
proof (cases "sv_running s")
  case True
  then have "(r, s') = (Inl AlreadyRunning, s)" using assms by (simp add: Service_Start_def)
  then show ?thesis using True by (intro running) simp_all
next
  case False
  let ?s = "s\<lparr>sv_running := True\<rparr>"
  have wf: "wf_service sha3 ?s" if "wf_service sha3 s" for sha3 using that by (simp add: wf_service_def)
  obtain r1 s1 where e: "establishIntroductionPoints (in_rnd inp) (in_now inp) hsdirs ?s = (r1, s1)" by fastforce
  have wf1: "wf_service sha3 s1" if "wf_service sha3 s" for sha3 using establish_wf [OF wf [OF that] e] .
  obtain r2 s2 where c: "createDescriptor sha3 sign (in_signingKey inp) (in_now inp) s1 = (r2, s2)" by fastforce
  have wf2: "wf_service sha3 s2" if "wf_service sha3 s" for sha3
    using wf_service_keeps [OF wf1 [OF that]] create_keeps [OF c] by blast
  obtain r3 s3 where p: "publishDescriptor sha3 (in_cancelled inp) (in_now inp) hsdirs s2 = (r3, s3)" by fastforce
  have wf3: "wf_service sha3 s3" if "wf_service sha3 s" for sha3
    using wf_service_keeps [OF wf2 [OF that]] publish_keeps [OF p] by blast
  show ?thesis
  proof (cases r1)
    case (Inl x)
    then have "(r, s') = (Inl x, s1\<lparr>sv_running := False\<rparr>)" using assms False e by (simp add: Service_Start_def)
    then show ?thesis using False e wf1 by (intro failed [of x s1]) simp_all
  next
    case r1: (Inr u)
    show ?thesis
    proof (cases r2)
      case (Inl x)
      then have "(r, s') = (Inl x, s2\<lparr>sv_running := False\<rparr>)" using assms False e r1 c by (simp add: Service_Start_def)
      then show ?thesis using False e wf2 create_keeps [OF c] by (intro failed [of x s2]) simp_all
    next
      case r2: (Inr u)
      show ?thesis
      proof (cases r3)
        case (Inl x)
        then have "(r, s') = (Inl x, s3\<lparr>sv_running := False\<rparr>)" using assms False e r1 c r2 p by (simp add: Service_Start_def)
        then show ?thesis using False e wf3 create_keeps [OF c] publish_keeps [OF p] by (intro failed [of x s3]) simp_all
      next
        case (Inr u)
        then have "(r, s') = (Inr (), s3)" using assms False e r1 c r2 p by (simp add: Service_Start_def)
        then show ?thesis using False e r1 c r2 p Inr by (intro started [of s1 s2]) simp_all
      qed
    qed
  qed
qed

lemma start_wf: "wf_service sha3 s \<Longrightarrow> wf_service sha3 (snd (Service_Start sha3' sign inp hsdirs s))"
proof -
  assume wf: "wf_service sha3 s"
  obtain r s' where st: "Service_Start sha3' sign inp hsdirs s = (r, s')" by fastforce
  from st show ?thesis
  proof (cases rule: start_cases)
    case running
    with wf st show ?thesis by simp
  next
    case (failed e s1)
    then have "wf_service sha3 (s1\<lparr>sv_running := False\<rparr>)"
      using wf_service_keeps [OF failed(5) [OF wf]] by simp
    with st failed(3) show ?thesis by simp
  next
    case (started s1 s2)
    have "wf_service sha3 (s\<lparr>sv_running := True\<rparr>)" using wf by (simp add: wf_service_def)
    then have "wf_service sha3 s1" using started(3) by (rule establish_wf)
    then show ?thesis
      using wf_service_keeps create_keeps [OF started(4)] publish_keeps [OF started(5)] st by (metis snd_conv)
  qed
qed

datatype service_op =
    OpStart service_inputs "HSDirectory list"
  | OpStop
  | OpTick service_inputs "HSDirectory list"
  | OpIntroduce2 time bytes

fun service_step ::
  "(bytes \<Rightarrow> bytes) \<Rightarrow> (bytes \<Rightarrow> bytes \<Rightarrow> bytes) \<Rightarrow> service_op \<Rightarrow> Service \<Rightarrow> Service" where
  "service_step sha3 sign (OpStart inp hsdirs) s = snd (Service_Start sha3 sign inp hsdirs s)"
| "service_step sha3 sign OpStop s = Service_Stop s"
| "service_step sha3 sign (OpTick inp hsdirs) s = maintenance_tick sha3 sign inp hsdirs s"
| "service_step sha3 sign (OpIntroduce2 now dat) s = snd (HandleIntroduce2 now dat s)"

lemma tick_keeps:
  "sv_publicKey (maintenance_tick sha3 sign inp hsdirs s) = sv_publicKey s
   \<and> sv_address (maintenance_tick sha3 sign inp hsdirs s) = sv_address s
   \<and> sv_config (maintenance_tick sha3 sign inp hsdirs s) = sv_config s
   \<and> sv_introPoints (maintenance_tick sha3 sign inp hsdirs s) = sv_introPoints s
   \<and> sv_running (maintenance_tick sha3 sign inp hsdirs s) = sv_running s"
proof -
  obtain r s1 where c: "createDescriptor sha3 sign (in_signingKey inp) (in_now inp) s = (r, s1)" by fastforce
  obtain r2 s2 where p: "publishDescriptor sha3 (in_cancelled inp) (in_now inp) hsdirs s1 = (r2, s2)" by fastforce
  have "maintenance_tick sha3 sign inp hsdirs s = (if isl r then s1 else s2)"
    using c p by (simp add: maintenance_tick_def split: sum.splits)
  with create_keeps [OF c] publish_keeps [OF p] show ?thesis by simp
qed

interpretation service_ops: op_system "service_step sha3 sign" "wf_service sha3" for sha3 sign
proof
  fix s x
  assume wf: "wf_service sha3 s"
  show "wf_service sha3 (service_step sha3 sign x s)"
  proof (cases x)
    case (OpStart inp hsdirs)
    with wf start_wf show ?thesis by simp
  next
    case OpStop
    with wf show ?thesis by (simp add: Service_Stop_def wf_service_def)
  next
    case (OpTick inp hsdirs)
    with wf tick_keeps show ?thesis by (auto intro: wf_service_keeps)
  next
    case (OpIntroduce2 now dat)
    with wf show ?thesis by (simp add: HandleIntroduce2_def wf_service_def Let_def)
  qed
qed

text \<open>
  C23: Every service NewService returns is well formed, and stays so through any sequence of
  starts, stops, maintenance runs and INTRODUCE2 cells: a 32-byte key whose address it
  carries, 1 to 10 introduction points configured, a lifetime other than zero, and
  introduction circuits numbered from 3000 without gaps.
\<close>

theorem service_well_formed:
  assumes "NewService sha3 generated cfg = Inr s"
  shows "wf_service sha3 (fold (service_step sha3 sign) ops s)"
  using service_ops.run_inv [OF new_service_wf [OF assms]] .

definition example_config :: ServiceConfig where
  "example_config = \<lparr>sc_PrivateKey = zeros 64, sc_Ports = Map.empty, sc_NumIntroPoints = 0, sc_DescriptorLifetime = 0,
     sc_DataDirectory = []\<rparr>"

definition example_service :: Service where
  "example_service = \<lparr>sv_identityKey = zeros 64, sv_publicKey = zeros 32,
     sv_address = projr (addressFromPublicKey (\<lambda>x. zeros 32) (zeros 32)),
     sv_config = service_defaults example_config, sv_descriptor = None, sv_introPoints = [], sv_publishedHSDirs = [],
     sv_lastPublish = None, sv_running = False, sv_cancelled = False, sv_pendingIntros = Map.empty\<rparr>"

lemma example_new_service: "NewService (\<lambda>x. zeros 32) None (Some example_config) = Inr example_service"
  by (simp add: NewService_def example_config_def example_service_def addressFromPublicKey_def Let_def)

theorem service_well_formed_witness:
  "wf_service (\<lambda>x. zeros 32) (fold (service_step (\<lambda>x. zeros 32) (\<lambda>k m. zeros 64)) [OpStop, OpIntroduce2 5 (zeros 60)] example_service)"
  by (rule service_well_formed [OF example_new_service])

subsection \<open>The published descriptor\<close>

text \<open>
  The text before the signature line contains no earlier occurrence of the signature keyword:
  in no line does a space follow the letters r and e.
\<close>

fun re_free :: "string \<Rightarrow> bool" where
  "re_free (a # b # c # s) \<longleftrightarrow> \<not> (a = CHR ''r'' \<and> b = CHR ''e'' \<and> c = CHR '' '') \<and> re_free (b # c # s)"
| "re_free [] \<longleftrightarrow> True"
| "re_free [a] \<longleftrightarrow> True"
| "re_free [a, b] \<longleftrightarrow> True"

lemma re_free_no_blank: "CHR '' '' \<notin> set t \<Longrightarrow> re_free (s @ t) = re_free s"
proof (induction s rule: re_free.induct)
  case (1 a b c s)
  then show ?case by simp
next
  case 2
  have "CHR '' '' \<notin> set u \<Longrightarrow> re_free u" for u
    by (induction u rule: re_free.induct) auto
  with 2 show ?case by simp
next
  case (3 v)
  have *: "CHR '' '' \<notin> set u \<Longrightarrow> re_free u" for u
    by (induction u rule: re_free.induct) auto
  show ?case
  proof (cases t)
    case (Cons x xs)
    with 3 * [of t] show ?thesis by (cases xs) auto
  qed simp
next
  case (4 v va)
  have *: "CHR '' '' \<notin> set u \<Longrightarrow> re_free (v # u)" for u v
    by (induction u arbitrary: v rule: re_free.induct) auto
  show ?case
  proof (cases t)
    case (Cons x xs)
    with 4 * [of t va] show ?thesis by auto
  qed simp
qed

lemma re_free_line: "re_free (l @ newline # s) = (re_free l \<and> re_free s)"
proof (induction l rule: re_free.induct)
  case 2
  then show ?case by (cases s rule: re_free.cases) auto
next
  case (3 v)
  then show ?case by (cases s rule: re_free.cases) auto
next
  case (4 v va)
  then show ?case by (cases s rule: re_free.cases) auto
qed auto

lemma re_free_unlines: "re_free (unlines ls) = list_all re_free ls"
  by (induction ls) (simp_all add: unlines_def re_free_line)

lemma re_free_drop: "re_free s \<Longrightarrow> re_free (drop i s)"
proof (induction s arbitrary: i rule: re_free.induct)
  case (1 a b c s)
  then show ?case by (cases i) auto
next
  case (3 v)
  then show ?case by (cases i) auto
next
  case (4 v va)
  then show ?case by (cases i; cases "i - 1") auto
qed simp

lemma find_sub_first:
  assumes "\<And>i. i < length pre \<Longrightarrow> \<not> has_prefix pat (drop i (pre @ pat @ rest))"
  shows "find_sub pat (pre @ pat @ rest) = Some (length pre)"
  using assms
proof (induction pre)
  case Nil
  have "has_prefix pat (pat @ rest)" by (simp add: has_prefix_def)
  then show ?case by (cases "pat @ rest") simp_all
next
  case (Cons c pre)
  have "\<not> has_prefix pat (drop i (pre @ pat @ rest))" if "i < length pre" for i
    using Cons.prems [of "Suc i"] that by simp
  with Cons.IH Cons.prems [of 0] show ?case by simp
qed

lemma signature_index:
  assumes free: "re_free (unlines ls)"
  shows "find_sub ''signature '' (unlines ls @ ''signature '' @ rest) = Some (length (unlines ls))"
proof (rule find_sub_first)
  fix i
  assume i: "i < length (unlines ls)"
  let ?s = "unlines ls @ ''signature '' @ rest"
  show "\<not> has_prefix ''signature '' (drop i ?s)"
  proof
    assume p: "has_prefix ''signature '' (drop i ?s)"
    have nth: "?s ! (i + k) = ''signature '' ! k" if "k < 10" for k
    proof -
      have ten: "length ''signature '' = 10" by simp
      from p have "take 10 (drop i ?s) ! k = ''signature '' ! k" unfolding has_prefix_def ten by (simp only:)
      then show ?thesis using that i by (simp only: nth_take nth_drop length_append less_imp_le trans_less_add1)
    qed
    have last_nl: "unlines ls ! (length (unlines ls) - 1) = newline"
    proof -
      have "ls \<noteq> []" using i by (auto simp: unlines_def)
      then have "unlines ls = unlines (butlast ls) @ last ls @ [newline]"
        by (metis append_butlast_last_id unlines_append unlines_single)
      then show ?thesis by (metis append.assoc diff_Suc_1 length_append_singleton nth_append_length)
    qed
    show False
    proof (cases "i + 10 \<le> length (unlines ls)")
      case True
      then have in_ls: "unlines ls ! (i + k) = ''signature '' ! k" if "k < 10" for k
        using nth [OF that] that by (simp add: nth_append)
      have "drop (i + 7) (unlines ls) = unlines ls ! (i + 7) # unlines ls ! (i + 8) # unlines ls ! (i + 9) # drop (i + 10) (unlines ls)"
        using True by (simp add: Cons_nth_drop_Suc [symmetric] eval_nat_numeral)
      then have "\<not> re_free (drop (i + 7) (unlines ls))"
        using in_ls [of 7] in_ls [of 8] in_ls [of 9] by simp
      with free re_free_drop show False by blast
    next
      case False
      define k where "k = length (unlines ls) - 1 - i"
      have k: "k < 10" "i + k = length (unlines ls) - 1" using False i by (auto simp: k_def)
      then have "newline = ''signature '' ! k"
        using nth [OF k(1)] last_nl i by (auto simp: nth_append split: if_splits)
      moreover have "k \<in> {0, 1, 2, 3, 4, 5, 6, 7, 8, 9}" using k(1) by auto
      ultimately show False by auto
    qed
  qed
qed

lemma no_blank_b64: "CHR '' '' \<notin> set (b64_encode bs)"
  by (auto dest!: b64_encode_text simp: b64_text_def)

lemma no_blank_dec: "CHR '' '' \<notin> set (dec_of_nat n)"
  by (auto dest!: digit_chars simp: is_space_def)

lemma re_free_word: "CHR '' '' \<notin> set t \<Longrightarrow> re_free t"
  using re_free_no_blank [of t "[]"] by simp

lemma re_free_all_intro: "list_all re_free (all_intro_lines k ips)"
proof (induction ips arbitrary: k)
  case (Cons ip ips)
  have ls: "re_free (link_specifier_line l)" for l
    using re_free_no_blank [OF no_blank_b64, of "''link-specifier ''"]
    unfolding link_specifier_line_def by simp
  have chunks: "list_all re_free (chunk64 (b64_encode (ip_EncKeyCert ip)))"
    using chunk64_sound [of "b64_encode (ip_EncKeyCert ip)"] no_blank_b64
    by (auto simp: list_all_iff intro!: re_free_word)
  have "list_all re_free (intro_point_lines k ip)"
    using re_free_no_blank [OF no_blank_dec, of "''introduction-point ''" k]
      re_free_no_blank [OF no_blank_b64, of "''onion-key ntor ''" "ip_OnionKey ip"]
      re_free_no_blank [OF no_blank_b64, of "''enc-key ntor ''" "ip_EncKey ip"]
      re_free_no_blank [OF no_blank_b64, of "''legacy-key ''" "ip_LegacyKeyID ip"]
      re_free_word [OF no_blank_b64, of "ip_AuthKey ip"] chunks ls
    by (auto simp: intro_point_lines_def list_all_iff)
  with Cons show ?case by simp
qed simp

lemma re_free_descriptor:
  assumes "de_Version d = 3" and "de_Signature d = []" and "de_Lifetime d < 2 ^ 63"
  shows "re_free (unlines (descriptor_lines d))"
proof -
  have "dec_of_int (lifetime_minutes (de_Lifetime d)) = dec_of_nat (nat (lifetime_minutes (de_Lifetime d)))"
    using lifetime_minutes_range [OF assms(3)] by (simp add: dec_of_int_def)
  then show ?thesis
    using re_free_no_blank [OF no_blank_dec, of "''descriptor-lifetime ''" "nat (lifetime_minutes (de_Lifetime d))"]
      re_free_no_blank [OF no_blank_dec, of "''revision-counter ''" "unat (de_RevisionCounter d)"] re_free_all_intro
    by (simp add: re_free_unlines descriptor_lines_def assms dec_3)
qed

text \<open>What a successful signDescriptor leaves in the descriptor.\<close>

lemma sign_descriptor_fields:
  assumes "signDescriptor sign (Some (pub, priv)) now s d0 = Inr d" and "de_Signature d0 = []"
  defines "hours \<equiv> word_of_int (go_quot (unix_seconds (now + de_Lifetime d0)) 3600) :: u32"
  shows "de_DescriptorSigningKeyCert d = certificate_bytes 4 hours pub []
           @ sign (sv_identityKey s) (certificate_bytes 4 hours pub [])"
    and "de_Signature d = sign priv (bytes_of_string (unlines (descriptor_lines d0)))"
    and "de_RawDescriptor d = bytes_of_string (unlines (descriptor_lines d))"
    and "de_Version d = de_Version d0" "de_IntroPoints d = de_IntroPoints d0" "de_Lifetime d = de_Lifetime d0"
    and "de_Signature d \<noteq> [] \<Longrightarrow> unlines (descriptor_lines d)
           = unlines (descriptor_lines d0) @ ''signature '' @ (b64_encode (de_Signature d) @ [newline])"
proof -
  have cert: "[1, 4] @ be32 hours @ [1] @ pub @ [0] = certificate_bytes 4 hours pub []"
    by (simp add: certificate_bytes_def)
  let ?c = "certificate_bytes 4 hours pub []"
  let ?d1 = "d0\<lparr>de_DescriptorSigningKeyCert := ?c @ sign (sv_identityKey s) ?c\<rparr>"
  let ?d2 = "?d1\<lparr>de_Signature := sign priv (bytes_of_string (unlines (descriptor_lines ?d1)))\<rparr>"
  have l: "descriptor_lines ?d1 = descriptor_lines d0"
    by (simp add: descriptor_lines_def)
  have d: "d = ?d2\<lparr>de_RawDescriptor := bytes_of_string (unlines (descriptor_lines ?d2))\<rparr>"
    using assms(1) unfolding signDescriptor_def hours_def [symmetric] cert [symmetric]
    by (simp add: Let_def flip: hours_def)
  then show "de_DescriptorSigningKeyCert d = ?c @ sign (sv_identityKey s) ?c"
    "de_Signature d = sign priv (bytes_of_string (unlines (descriptor_lines d0)))"
    "de_Version d = de_Version d0" "de_IntroPoints d = de_IntroPoints d0" "de_Lifetime d = de_Lifetime d0"
    using l by simp_all
  show "de_RawDescriptor d = bytes_of_string (unlines (descriptor_lines d))"
    unfolding d by (simp add: descriptor_lines_def)
  show "unlines (descriptor_lines d)
      = unlines (descriptor_lines d0) @ ''signature '' @ (b64_encode (de_Signature d) @ [newline])" if "de_Signature d \<noteq> []"
    using that assms(2) unfolding d by (simp add: descriptor_lines_def unlines_def)
qed

text \<open>
  The descriptor a service has just created passes its own verification: the service's
  key signed the certificate, the certified key signed the text before the signature line, and
  the certificate has not expired. Ed25519 signatures have 64 bytes and verify under the
  matching keys; the lifetime is at least an hour and the clock within the certificate's range.
\<close>

lemma created_descriptor_verifies:
  assumes id_key: "\<And>m. verify (sv_publicKey s) m (sign (sv_identityKey s) m)"
    and sig_key: "\<And>m. verify pub m (sign priv m)" and siglen: "\<And>k m. length (sign k m) = 64" and pub: "length pub = 32"
    and addr: "ad_Pubkey (sv_address s) = sv_publicKey s" "length (sv_publicKey s) = 32"
    and now: "0 \<le> now" and life: "Hour \<le> sc_DescriptorLifetime (sv_config s)" "sc_DescriptorLifetime (sv_config s) < 2 ^ 63"
    and range: "now + sc_DescriptorLifetime (sv_config s) < 2 ^ 32 * Hour"
    and ok: "createDescriptor sha3 sign (Some (pub, priv)) now s = (Inr (), s')"
  shows "VerifyDescriptorSignature verify now (sv_descriptor s') (Some (sv_address s)) = Inr ()"
proof -
  let ?d0 = "unsigned_descriptor sha3 now s"
  obtain d where d: "signDescriptor sign (Some (pub, priv)) now s ?d0 = Inr d" "sv_descriptor s' = Some d"
    using ok by (auto simp: createDescriptor_def split: sum.splits)
  have d0: "de_Signature ?d0 = []" "de_Version ?d0 = 3" "de_Lifetime ?d0 = sc_DescriptorLifetime (sv_config s)"
    by (simp_all add: unsigned_descriptor_def Let_def)
  define e where "e = now + sc_DescriptorLifetime (sv_config s)"
  define hours where "hours = (word_of_int (go_quot (unix_seconds e) 3600) :: u32)"
  note f = sign_descriptor_fields [OF d(1) d0(1), unfolded d0(3), folded e_def, folded hours_def]
  have e: "0 \<le> e" "e < 2 ^ 32 * Hour" "now + Hour \<le> e" using now life range by (simp_all add: e_def Hour_def Minute_def Second_def)
  have q: "0 \<le> unix_seconds e" "unix_seconds e div 3600 < 2 ^ 32"
    using e(1,2) by (simp_all add: unix_seconds_def Hour_def Minute_def Second_def)
  then have "int (unat hours) = unix_seconds e div 3600"
    by (simp add: hours_def go_quot_def uint_word_of_int_eq take_bit_int_eq_self)
  moreover have "now \<le> unix_seconds e div 3600 * 3600 * Second"
  proof -
    have "unix_seconds e div 3600 = e div Hour"
      by (simp add: unix_seconds_def Hour_def Minute_def Second_def zdiv_zmult2_eq [symmetric])
    moreover have "e < (e div Hour + 1) * Hour" by (simp add: Hour_def Minute_def Second_def)
    ultimately show ?thesis using e(3) by (simp add: Hour_def Minute_def Second_def algebra_simps)
  qed
  ultimately have fresh: "now \<le> int (unat hours) * 3600 * Second" by simp
  let ?c = "certificate_bytes 4 hours pub []"
  have cert: "parseCertificate (de_DescriptorSigningKeyCert d) = Inr \<lparr>ce_Version = 1, ce_CertType = 4,
      ce_ExpiresAt = int (unat hours) * 3600 * Second, ce_SigningKey = pub, ce_Signature = sign (sv_identityKey s) ?c, ce_SignedData = ?c\<rparr>"
    unfolding certificate_parse_layout f(1) using pub siglen
    by (intro exI [of _ 4] exI [of _ hours] exI [of _ pub] exI [of _ "[]"] exI [of _ "sign (sv_identityKey s) ?c"]) simp
  have sig: "de_Signature d \<noteq> []" "length (de_Signature d) = 64" using f(2) siglen by (metis list.size(3) zero_neq_numeral) (simp add: f(2) siglen)
  have free: "re_free (unlines (descriptor_lines ?d0))"
    using d0 life by (intro re_free_descriptor) simp_all
  have raw: "string_of_bytes (de_RawDescriptor d)
      = unlines (descriptor_lines ?d0) @ ''signature '' @ (b64_encode (de_Signature d) @ [newline])"
    unfolding f(3) f(7) [OF sig(1), symmetric] by simp
  have idx: "find_sub ''signature '' (string_of_bytes (de_RawDescriptor d)) = Some (length (unlines (descriptor_lines ?d0)))"
    unfolding raw by (rule signature_index [OF free])
  have msg: "take (length (unlines (descriptor_lines ?d0))) (de_RawDescriptor d) = bytes_of_string (unlines (descriptor_lines ?d0))"
    unfolding f(3) f(7) [OF sig(1)] by (simp add: bytes_of_string_def)
  have ne: "de_RawDescriptor d \<noteq> []" "de_DescriptorSigningKeyCert d \<noteq> []"
    using raw by (auto simp: string_of_bytes_def f(1) certificate_bytes_def)
  show ?thesis
    unfolding d(2) VerifyDescriptorSignature_def option.case idx cert sum.case Let_def msg
    using addr sig ne fresh id_key [of ?c] sig_key [of "bytes_of_string (unlines (descriptor_lines ?d0))"] pub
    by (simp add: f(2))
qed

definition example_running :: Service where
  "example_running =
     example_service\<lparr>sv_introPoints := [\<lparr>si_Relay = blank_relay, si_CircuitID = 3000, si_AuthKey = replicate 32 1,
        si_EncKey = replicate 32 2, si_Established = True, si_CreatedAt = 0\<rparr>]\<rparr>"

lemma example_create:
  "createDescriptor (\<lambda>x. zeros 32) (\<lambda>k m. zeros 64) (Some (zeros 32, zeros 64)) (5 * Second) example_running
    = (Inr (), snd (createDescriptor (\<lambda>x. zeros 32) (\<lambda>k m. zeros 64) (Some (zeros 32, zeros 64)) (5 * Second) example_running))"
  by (simp add: createDescriptor_def signDescriptor_def Let_def)

lemma example_running_fields:
  "sc_DescriptorLifetime (sv_config example_running) = 3 * Hour"
  "ad_Pubkey (sv_address example_running) = zeros 32" "sv_publicKey example_running = zeros 32"
  by (simp_all add: example_running_def example_service_def service_defaults_def example_config_def
      addressFromPublicKey_def Let_def)

lemma created_descriptor_verifies_example:
  "VerifyDescriptorSignature (\<lambda>k m s. True) (5 * Second)
     (sv_descriptor (snd (createDescriptor (\<lambda>x. zeros 32) (\<lambda>k m. zeros 64) (Some (zeros 32, zeros 64)) (5 * Second) example_running)))
     (Some (sv_address example_running)) = Inr ()"
  by (rule created_descriptor_verifies [OF _ _ _ _ _ _ _ _ _ _ example_create])
     (simp_all add: example_running_fields Hour_def Minute_def Second_def)

text \<open>
  The text a service publishes cannot be verified by a client and hides all but one
  introduction point: reading it back yields the last point without its onion key, and no
  certificate, so ParseDescriptorWithVerification refuses it for every verifier.
\<close>

lemma published_descriptor_unverifiable:
  assumes siglen: "\<And>k m. length (sign k m) = 64" and life: "sc_DescriptorLifetime (sv_config s) < 2 ^ 63"
    and ips: "sv_introPoints s \<noteq> []" and key: "length (ad_Pubkey a) = 32"
    and ok: "createDescriptor sha3 sign (Some (pub, priv)) now s = (Inr (), s')" and d: "sv_descriptor s' = Some d"
  shows "(\<exists>d'. ParseDescriptor t (de_RawDescriptor d) = Inr d'
        \<and> map ip_EncKey (de_IntroPoints d') = [si_EncKey (last (sv_introPoints s))]
        \<and> map ip_OnionKey (de_IntroPoints d') = [[]])
     \<and> ParseDescriptorWithVerification verify t t' (de_RawDescriptor d) (Some a) = Inl (VerificationFailed NoSigningKeyCert)"
proof -
  let ?d0 = "unsigned_descriptor sha3 now s"
  have sd: "signDescriptor sign (Some (pub, priv)) now s ?d0 = Inr d"
    using ok d by (auto simp: createDescriptor_def split: sum.splits)
  have d0: "de_Signature ?d0 = []" "de_Version ?d0 = 3" "de_Lifetime ?d0 = sc_DescriptorLifetime (sv_config s)"
    "de_IntroPoints ?d0 = map service_intro_point (sv_introPoints s)"
    by (simp_all add: unsigned_descriptor_def Let_def)
  note f = sign_descriptor_fields [OF sd d0(1)]
  let ?r = "reparsed_descriptor t (de_RawDescriptor d) d"
  have p: "ParseDescriptor t (de_RawDescriptor d) = Inr ?r"
    by (rule parse_descriptor_lines_of) (use f life d0 in simp_all)
  have sig: "length (de_Signature d) = 64" by (simp add: f(2) siglen)
  then have "de_Signature d \<noteq> []" by auto
  from f(7) [OF this] have "string_of_bytes (de_RawDescriptor d)
      = unlines (descriptor_lines ?d0) @ ''signature '' @ (b64_encode (de_Signature d) @ [newline])"
    unfolding f(3) by simp
  then obtain i where i: "find_sub ''signature '' (string_of_bytes (de_RawDescriptor d)) = Some i"
    using find_sub_occurs by (metis option.exhaust)
  then have raw: "de_RawDescriptor d \<noteq> []" by (auto simp: string_of_bytes_def)
  have r: "de_Signature ?r = de_Signature d" "de_RawDescriptor ?r = de_RawDescriptor d" "de_DescriptorSigningKeyCert ?r = []"
    by (simp_all add: reparsed_descriptor_def new_descriptor_def)
  have "VerifyDescriptorSignature verify t' (Some ?r) (Some a) = Inl NoSigningKeyCert"
    using sig raw key i \<open>de_Signature d \<noteq> []\<close> by (simp add: VerifyDescriptorSignature_def r)
  moreover have "de_IntroPoints ?r = [reparsed_intro_point (service_intro_point (last (sv_introPoints s)))]"
    using ips by (simp add: reparsed_descriptor_def f(5) d0(4) last_map)
  ultimately show ?thesis
    using p by (simp add: ParseDescriptorWithVerification_def reparsed_intro_point_def service_intro_point_def empty_intro_point_def)
qed

lemma published_descriptor_unverifiable_example:
  "let d = the (sv_descriptor (snd (createDescriptor (\<lambda>x. zeros 32) (\<lambda>k m. zeros 64) (Some (zeros 32, zeros 64)) (5 * Second) example_running)))
   in (\<exists>d'. ParseDescriptor 0 (de_RawDescriptor d) = Inr d'
        \<and> map ip_EncKey (de_IntroPoints d') = [si_EncKey (last (sv_introPoints example_running))]
        \<and> map ip_OnionKey (de_IntroPoints d') = [[]])
     \<and> ParseDescriptorWithVerification (\<lambda>k m s. True) 0 0 (de_RawDescriptor d) (Some (sv_address example_running))
         = Inl (VerificationFailed NoSigningKeyCert)"
proof -
  obtain d where d: "sv_descriptor (snd (createDescriptor (\<lambda>x. zeros 32) (\<lambda>k m. zeros 64) (Some (zeros 32, zeros 64)) (5 * Second) example_running)) = Some d"
    by (simp add: createDescriptor_def signDescriptor_def Let_def)
  show ?thesis
    unfolding Let_def d option.sel
    by (rule published_descriptor_unverifiable [OF _ _ _ _ example_create d])
       (simp_all add: example_running_fields Hour_def Minute_def Second_def, simp add: example_running_def)
qed

subsection \<open>Starting, stopping and the maintenance loop\<close>

text \<open>
  A hosted service and the maintenance loops running for it, each with the context it watches:
  Start hands its own context to the loop, while Stop cancels the service's context. A loop
  ends only when the context it watches does.
\<close>

record hosted =
  ho_service :: Service
  ho_loops :: "nat list"

datatype hosted_label =
    LStart nat
  | LStartFailed
  | LStop
  | LTick nat
  | LContextDone nat
  | LIntroduce2

inductive hosted_step ::
  "(bytes \<Rightarrow> bytes) \<Rightarrow> (bytes \<Rightarrow> bytes \<Rightarrow> bytes) \<Rightarrow> hosted_label \<Rightarrow> hosted \<Rightarrow> hosted \<Rightarrow> bool" for sha3 sign where
  hosted_start:
    "Service_Start sha3 sign inp hsdirs (ho_service h) = (Inr (), s) \<Longrightarrow>
       hosted_step sha3 sign (LStart ctx) h \<lparr>ho_service = s, ho_loops = ctx # ho_loops h\<rparr>"
| hosted_start_failed:
    "Service_Start sha3 sign inp hsdirs (ho_service h) = (Inl e, s) \<Longrightarrow>
       hosted_step sha3 sign LStartFailed h (h\<lparr>ho_service := s\<rparr>)"
| hosted_stop: "hosted_step sha3 sign LStop h (h\<lparr>ho_service := Service_Stop (ho_service h)\<rparr>)"
| hosted_tick:
    "ctx \<in> set (ho_loops h) \<Longrightarrow>
       hosted_step sha3 sign (LTick ctx) h (h\<lparr>ho_service := maintenance_tick sha3 sign inp hsdirs (ho_service h)\<rparr>)"
| hosted_context_done:
    "hosted_step sha3 sign (LContextDone ctx) h (h\<lparr>ho_loops := filter (\<lambda>c. c \<noteq> ctx) (ho_loops h)\<rparr>)"
| hosted_introduce2:
    "HandleIntroduce2 now dat (ho_service h) = (r, s) \<Longrightarrow> hosted_step sha3 sign LIntroduce2 h (h\<lparr>ho_service := s\<rparr>)"

inductive_cases hosted_startE: "hosted_step sha3 sign (LStart ctx) h h'"
inductive_cases hosted_start_failedE: "hosted_step sha3 sign LStartFailed h h'"
inductive_cases hosted_stopE: "hosted_step sha3 sign LStop h h'"
inductive_cases hosted_tickE: "hosted_step sha3 sign (LTick ctx) h h'"
inductive_cases hosted_introduce2E: "hosted_step sha3 sign LIntroduce2 h h'"

inductive hosted_run ::
  "(bytes \<Rightarrow> bytes) \<Rightarrow> (bytes \<Rightarrow> bytes \<Rightarrow> bytes) \<Rightarrow> hosted_label list \<Rightarrow> hosted \<Rightarrow> hosted \<Rightarrow> bool" for sha3 sign where
  hosted_nil: "hosted_run sha3 sign [] h h"
| hosted_snoc: "hosted_run sha3 sign ls h h1 \<Longrightarrow> hosted_step sha3 sign l h1 h2 \<Longrightarrow> hosted_run sha3 sign (ls @ [l]) h h2"

lemma hosted_step_loops:
  assumes "hosted_step sha3 sign l h h'" and "\<forall>c. l \<noteq> LContextDone c"
  shows "ho_loops h' = (case l of LStart c \<Rightarrow> c # ho_loops h | _ \<Rightarrow> ho_loops h)"
  using assms
  by (cases l) (auto elim: hosted_startE hosted_start_failedE hosted_stopE hosted_tickE hosted_introduce2E)

text \<open>
  Stop does not stop the maintenance loop: whatever happens after a successful Start, as
  long as the context given to that Start lives, its loop is still there, once for every such
  Start, and may create and publish the next descriptor, also when the service was stopped.
\<close>

lemma stop_leaves_maintenance:
  assumes "hosted_run sha3 sign ls h h'" and "\<forall>c. LContextDone c \<notin> set ls" and "LStart ctx \<in> set ls"
  shows "count_list (ho_loops h') ctx = count_list (ho_loops h) ctx + count_list ls (LStart ctx)
    \<and> hosted_step sha3 sign (LTick ctx) h'
        (h'\<lparr>ho_service := maintenance_tick sha3 sign inp hsdirs (ho_service h')\<rparr>)"
proof -
  from assms(1,2) have *: "count_list (ho_loops h') ctx = count_list (ho_loops h) ctx + count_list ls (LStart ctx)"
  proof (induction rule: hosted_run.induct)
    case (hosted_snoc ls h h1 l h2)
    then have "\<forall>c. l \<noteq> LContextDone c" by auto
    from hosted_step_loops [OF hosted_snoc.hyps(2) this] hosted_snoc show ?case
      by (auto split: hosted_label.splits)
  qed simp
  moreover have "count_list ls (LStart ctx) > 0"
    using assms(3) by (metis count_list_0_iff neq0_conv)
  ultimately have "ctx \<in> set (ho_loops h')"
    by (metis add_is_0 count_notin neq0_conv)
  with * show ?thesis by (auto intro: hosted_tick)
qed

text \<open>A start, with twelve relays and everything succeeding, for the examples.\<close>

definition example_inputs :: service_inputs where
  "example_inputs = \<lparr>in_rnd = (\<lambda>i. (Some (replicate 32 1), Some (replicate 32 2))), in_signingKey = Some (zeros 32, zeros 64),
     in_cancelled = (\<lambda>n. False), in_now = 5 * Second\<rparr>"

lemma publish_targets_nonempty: "hsdirs \<noteq> [] \<Longrightarrow> publish_targets sha3 d hsdirs \<noteq> []"
  using select_hsdirs_closest_length [of sha3 "de_DescriptorID d" hsdirs 0]
  by (auto simp: publish_targets_def min_def split: if_splits)

lemma example_start:
  "\<exists>s. Service_Start (\<lambda>x. zeros 32) (\<lambda>k m. zeros 64) example_inputs (replicate 3 blank_relay) example_service = (Inr (), s)
     \<and> sv_running s"
proof -
  let ?sha = "\<lambda>x :: bytes. zeros 32" and ?sign = "\<lambda>(k :: bytes) (m :: bytes). zeros 64"
  let ?hs = "replicate 3 blank_relay"
  have n: "sc_NumIntroPoints (sv_config example_service) = 3"
    by (simp add: example_service_def service_defaults_def example_config_def Let_def)
  have none: "sv_introPoints example_service = []" by (simp add: example_service_def)
  obtain s1 where e: "establishIntroductionPoints (in_rnd example_inputs) (in_now example_inputs) ?hs
      (example_service\<lparr>sv_running := True\<rparr>) = (Inr (), s1)" "sv_running s1"
    by (simp add: establishIntroductionPoints_def n none Let_def numeral_3_eq_3 establishIntroductionPoint_def
        example_inputs_def SafeIntToUint32_def)
  obtain d where c: "createDescriptor ?sha ?sign (in_signingKey example_inputs) (in_now example_inputs) s1
      = (Inr (), s1\<lparr>sv_descriptor := Some d\<rparr>)"
    by (simp add: createDescriptor_def signDescriptor_def example_inputs_def Let_def)
  have "publishDescriptor ?sha (in_cancelled example_inputs) (in_now example_inputs) ?hs (s1\<lparr>sv_descriptor := Some d\<rparr>)
      = (Inr (), s1\<lparr>sv_descriptor := Some d, sv_lastPublish := Some (in_now example_inputs)\<rparr>)"
    using publish_targets_nonempty [of ?hs ?sha d]
    by (simp add: publishDescriptor_def uploadDescriptor_def example_inputs_def)
  with e c show ?thesis
    by (simp add: Service_Start_def) (simp add: example_service_def)
qed

lemma stop_leaves_maintenance_example:
  "\<exists>h'. hosted_run (\<lambda>x. zeros 32) (\<lambda>k m. zeros 64) [LStart 1, LStop] \<lparr>ho_service = example_service, ho_loops = []\<rparr> h'
     \<and> \<not> sv_running (ho_service h')
     \<and> hosted_step (\<lambda>x. zeros 32) (\<lambda>k m. zeros 64) (LTick 1) h'
        (h'\<lparr>ho_service := maintenance_tick (\<lambda>x. zeros 32) (\<lambda>k m. zeros 64) example_inputs [] (ho_service h')\<rparr>)"
proof -
  let ?sha = "\<lambda>x :: bytes. zeros 32" and ?sign = "\<lambda>(k :: bytes) (m :: bytes). zeros 64"
  let ?h = "\<lparr>ho_service = example_service, ho_loops = []\<rparr>"
  obtain s where s: "Service_Start ?sha ?sign example_inputs (replicate 3 blank_relay) example_service = (Inr (), s)" "sv_running s"
    using example_start by blast
  have "hosted_step ?sha ?sign (LStart 1) ?h \<lparr>ho_service = s, ho_loops = [1]\<rparr>"
    using hosted_start [of ?sha ?sign example_inputs "replicate 3 blank_relay" ?h s 1] s(1) by simp
  from hosted_snoc [OF hosted_nil this]
  have "hosted_run ?sha ?sign [LStart 1] ?h \<lparr>ho_service = s, ho_loops = [1]\<rparr>" by simp
  from hosted_snoc [OF this hosted_stop]
  have run: "hosted_run ?sha ?sign [LStart 1, LStop] ?h \<lparr>ho_service = Service_Stop s, ho_loops = [1]\<rparr>" by simp
  from stop_leaves_maintenance [OF this, of 1 example_inputs "[]"] run s(2) show ?thesis
    by (intro exI [of _ "\<lparr>ho_service = Service_Stop s, ho_loops = [1]\<rparr>"]) (simp add: Service_Stop_def)
qed

text \<open>A lifetime below zero passes NewService, and the maintenance loop of such a service panics.\<close>

lemma negative_lifetime_panics:
  "- (2 ^ 62) \<le> sc_DescriptorLifetime (sv_config s) \<Longrightarrow> sc_DescriptorLifetime (sv_config s) < 0 \<Longrightarrow> maintenance_interval s = None"
  by (auto simp: maintenance_interval_def go_quot_def wrap_int64_id Let_def)

text \<open>A second Start appends to the introduction points of the first.\<close>

lemma establish_each_appends:
  "\<exists>new. sv_introPoints (establish_each rnd now i relays s) = sv_introPoints s @ new"
proof (induction rnd now i relays s rule: establish_each.induct)
  case (2 rnd now i relay relays s)
  then show ?case by (cases "establishIntroductionPoint (rnd i) now relay s") auto
qed simp

lemma restart_appends:
  assumes "Service_Start sha3 sign inp hsdirs s = (Inr (), s')"
  shows "\<exists>new. sv_introPoints s' = sv_introPoints s @ new"
  using assms
proof (cases rule: start_cases)
  case (started s1 s2)
  let ?n = "nat (sc_NumIntroPoints (sv_config s))"
  from started(3) have "s1 = establish_each (in_rnd inp) (in_now inp) 0 (take ?n hsdirs) (s\<lparr>sv_running := True\<rparr>)"
    by (simp add: establishIntroductionPoints_def Let_def split: if_splits)
  with establish_each_appends [of "in_rnd inp" "in_now inp" 0 "take ?n hsdirs" "s\<lparr>sv_running := True\<rparr>"]
  have "\<exists>new. sv_introPoints s1 = sv_introPoints s @ new" by simp
  then show ?thesis using create_keeps [OF started(4)] publish_keeps [OF started(5)] by simp
qed simp_all

subsection \<open>Client and service together\<close>

text \<open>
  Client and service disagree on the introduction message: of an INTRODUCE1 cell the
  client built, handed on unchanged as an introduction point does, the service takes the zero
  legacy key for the rendezvous cookie. The real cookie is not recorded, and every client ends
  up under the same key of the pending introductions.
\<close>

lemma introduce2_reads_legacy_key:
  assumes "fst (BuildIntroduce1Cell env (Some req)) = Inr cell"
    and "length (ir_OnionKey req) = 32"
  shows "fst (HandleIntroduce2 now cell s) = Inr ()
    \<and> sv_pendingIntros (snd (HandleIntroduce2 now cell s))
      = (sv_pendingIntros s)(replicate 40 CHR ''0'' \<mapsto>
          \<lparr>pi_Cookie = zeros 20, pi_RendezvousPoint = [], pi_ClientOnionKey = take 32 (drop 20 cell), pi_ReceivedAt = now\<rparr>)"
proof -
  define enc where "enc = fst (buildEncryptedData env req)"
  from assms(1) obtain ip where req: "length (ir_RendezvousCookie req) = 20" "ir_IntroPoint req = Some ip"
    by (auto simp: BuildIntroduce1Cell_def Let_def split: option.splits if_splits)
  define ak where "ak = (if length (ip_AuthKey ip) > 0 then ip_AuthKey ip else zeros 32)"
  from assms(1) req obtain l where "(if length (ip_AuthKey ip) > 0 then SafeLenToUint16 (ip_AuthKey ip) else Inr 32) = Inr l"
    by (cases "if length (ip_AuthKey ip) > 0 then SafeLenToUint16 (ip_AuthKey ip) else Inr 32")
       (auto simp: BuildIntroduce1Cell_def)
  with assms(1) req have cell: "cell = zeros 20 @ [2] @ be16 l @ ak @ [0] @ enc"
    by (auto simp: BuildIntroduce1Cell_def enc_def ak_def Let_def split: prod.splits)
  have "length enc \<ge> 28"
    using req assms(2) by (auto simp: enc_def buildEncryptedData_def introduce1_plaintext_def encryptIntroduce1Data_def Let_def
      NewAESCTRCipher_def split: option.splits sum.splits prod.splits if_splits)
  then have len: "length cell \<ge> 52" by (simp add: cell)
  have cookie: "take 20 cell = zeros 20" by (simp add: cell)
  have "hex_encode (zeros 20) = replicate 40 CHR ''0''" by code_simp
  with len cookie show ?thesis by (simp add: HandleIntroduce2_def Let_def)
qed

lemma introduce2_reads_legacy_key_example:
  "let req = \<lparr>ir_IntroPoint = Some empty_intro_point, ir_RendezvousCookie = replicate 20 7, ir_RendezvousPoint = [],
        ir_RendezvousCircuitID = 0, ir_OnionKey = replicate 32 8, ir_EphemeralPrivate = zeros 32, ir_EphemeralPublic = zeros 32\<rparr>;
       cell = zeros 20 @ [2] @ be16 32 @ zeros 32 @ [0] @ introduce1_plaintext req in
   fst (HandleIntroduce2 9 cell example_service) = Inr ()
    \<and> sv_pendingIntros (snd (HandleIntroduce2 9 cell example_service))
      = (sv_pendingIntros example_service)(replicate 40 CHR ''0'' \<mapsto>
          \<lparr>pi_Cookie = zeros 20, pi_RendezvousPoint = [], pi_ClientOnionKey = take 32 (drop 20 cell), pi_ReceivedAt = 9\<rparr>)"
  unfolding Let_def
  by (rule introduce2_reads_legacy_key [where env = example_env and
        req = "\<lparr>ir_IntroPoint = Some empty_intro_point, ir_RendezvousCookie = replicate 20 7, ir_RendezvousPoint = [],
          ir_RendezvousCircuitID = 0, ir_OnionKey = replicate 32 8, ir_EphemeralPrivate = zeros 32, ir_EphemeralPublic = zeros 32\<rparr>"])
     (simp_all add: BuildIntroduce1Cell_def buildEncryptedData_def empty_intro_point_def Let_def)

end
