(* ===== verification/NetAddr.thy ===== *)
theory NetAddr
  imports OnionParser Dns
begin

section \<open>Addresses as package net prints and parses them\<close>

text \<open>
  The functions of the standard library the SOCKS server uses on addresses: the String method
  of net.IP, net.ParseIP, net.SplitHostPort, and the verb d of fmt.Sscanf into a uint16. The
  proofs show that printed IPv4 addresses parse back, and what SplitHostPort makes of a host
  that contains colons.
\<close>

subsection \<open>Printing\<close>

fun hex_of_nat :: "nat \<Rightarrow> string" where
  "hex_of_nat n = (if n < 16 then [hex_digit n] else hex_of_nat (n div 16) @ [hex_digit (n mod 16)])"

declare hex_of_nat.simps [simp del]

definition dotted :: "bytes \<Rightarrow> string" where
  "dotted bs = join ''.'' (map (\<lambda>b. dec_of_nat (unat b)) bs)"

definition v6_groups :: "bytes \<Rightarrow> u16 list" where
  "v6_groups ip = map (\<lambda>i. u16_at ip (2 * i)) [0..<8]"

text \<open>The first of the longest runs of at least two zero groups: where it starts, and its length.\<close>

definition zero_run :: "u16 list \<Rightarrow> nat \<times> nat" where
  "zero_run g =
     fold (\<lambda>i (start, len).
             let l = length (takeWhile (\<lambda>x. x = 0) (drop i g)) in
             if l \<ge> 2 \<and> l > len then (i, l) else (start, len))
       [0..<length g] (length g, 0)"

definition v6_string :: "u16 list \<Rightarrow> string" where
  "v6_string g =
     (let (start, len) = zero_run g; show = (\<lambda>gs. join '':'' (map (\<lambda>x. hex_of_nat (unat x)) gs)) in
      if len = 0 then show g else show (take start g) @ ''::'' @ show (drop (start + len) g))"

definition net_IP_String :: "bytes \<Rightarrow> string" where
  "net_IP_String ip =
     (if length ip = 0 then ''<nil>''
      else if length ip \<noteq> 4 \<and> length ip \<noteq> 16 then ''?'' @ hex_encode ip
      else (case To4 ip of Some v4 \<Rightarrow> dotted v4 | None \<Rightarrow> v6_string (v6_groups ip)))"

subsection \<open>Parsing\<close>

fun split_on :: "char \<Rightarrow> string \<Rightarrow> string list" where
  "split_on x [] = [[]]"
| "split_on x (c # cs) =
     (if c = x then [] # split_on x cs
      else (case split_on x cs of [] \<Rightarrow> [[c]] | l # ls \<Rightarrow> (c # l) # ls))"

definition parse_octet :: "string \<Rightarrow> byte option" where
  "parse_octet p =
     (if p = [] \<or> \<not> list_all is_digit p \<or> (hd p = CHR ''0'' \<and> length p > 1) \<or> dec_value p > 255 then None
      else Some (of_nat (dec_value p)))"

definition parse_IPv4 :: "string \<Rightarrow> bytes option" where
  "parse_IPv4 s =
     (let ps = split_on CHR ''.'' s in if length ps \<noteq> 4 then None else all_some parse_octet ps)"

definition hex_val :: "char \<Rightarrow> nat option" where
  "hex_val c =
     (let n = of_char c in
      if 48 \<le> n \<and> n \<le> 57 then Some (n - 48)
      else if 97 \<le> n \<and> n \<le> 102 then Some (n - 87)
      else if 65 \<le> n \<and> n \<le> 70 then Some (n - 55) else None)"

definition is_hex :: "char \<Rightarrow> bool" where
  "is_hex c \<longleftrightarrow> hex_val c \<noteq> None"

definition hex_value :: "string \<Rightarrow> nat" where
  "hex_value s = foldl (\<lambda>acc c. 16 * acc + the (hex_val c)) 0 s"

text \<open>
  The loop of netip's parser of IPv6 addresses: what is left of the text, the bytes so far, and
  where the ellipsis was.
\<close>

function parse_v6_groups :: "string \<Rightarrow> bytes \<Rightarrow> nat option \<Rightarrow> (string \<times> bytes \<times> nat option) option" where
  "parse_v6_groups s ip ellipsis =
     (if length ip \<ge> 16 then Some (s, ip, ellipsis)
      else
        let tok = takeWhile is_hex s; rest = dropWhile is_hex s in
        if tok = [] \<or> length tok > 4 then None
        else if rest \<noteq> [] \<and> hd rest = CHR ''.'' then
          (if ellipsis = None \<and> length ip \<noteq> 12 then None
           else if length ip + 4 > 16 then None
           else map_option (\<lambda>v4. ([], ip @ v4, ellipsis)) (parse_IPv4 s))
        else
          let ip = ip @ be16 (of_nat (hex_value tok)) in
          if rest = [] then Some ([], ip, ellipsis)
          else if hd rest \<noteq> CHR '':'' \<or> tl rest = [] then None
          else if hd (tl rest) = CHR '':'' then
            (if ellipsis \<noteq> None then None
             else if tl (tl rest) = [] then Some ([], ip, Some (length ip))
             else parse_v6_groups (tl (tl rest)) ip (Some (length ip)))
          else parse_v6_groups (tl rest) ip ellipsis)"
  by pat_completeness auto

termination
proof (relation "measure (\<lambda>(s, ip, ellipsis). length s)", goal_cases)
  case 1
  then show ?case by simp
next
  case (2 s ip ellipsis tok rest ip1)
  then show ?case using length_dropWhile_le [of is_hex s] by (cases "dropWhile is_hex s") auto
next
  case (3 s ip ellipsis tok rest ip1)
  then show ?case using length_dropWhile_le [of is_hex s] by (cases "dropWhile is_hex s") auto
qed

declare parse_v6_groups.simps [simp del]

definition parse_IPv6 :: "string \<Rightarrow> bytes option" where
  "parse_IPv6 s =
     (if CHR ''%'' \<in> set s then None
      else if s = ''::'' then Some (zeros 16)
      else
        (case (if has_prefix ''::'' s then parse_v6_groups (drop 2 s) [] (Some 0) else parse_v6_groups s [] None) of
           None \<Rightarrow> None
         | Some (rest, ip, ellipsis) \<Rightarrow>
             if rest \<noteq> [] then None
             else if length ip < 16 then
               (case ellipsis of
                  None \<Rightarrow> None
                | Some e \<Rightarrow> Some (take e ip @ zeros (16 - length ip) @ drop e ip))
             else if ellipsis \<noteq> None then None
             else Some ip))"

text \<open>The first of the characters period, colon and percent decides which form is parsed.\<close>

definition net_ParseIP :: "string \<Rightarrow> bytes option" where
  "net_ParseIP s =
     (case dropWhile (\<lambda>c. c \<notin> {CHR ''.'', CHR '':'', CHR ''%''}) s of
        [] \<Rightarrow> None
      | c # cs \<Rightarrow>
          if c = CHR ''.'' then map_option net_IPv4 (parse_IPv4 s)
          else if c = CHR '':'' then parse_IPv6 s
          else None)"

text \<open>The index of the last colon; what net.SplitHostPort returns without an error.\<close>

definition before_last_colon :: "string \<Rightarrow> (string \<times> string) option" where
  "before_last_colon s =
     (if CHR '':'' \<in> set s then
        Some (rev (drop 1 (dropWhile (\<lambda>c. c \<noteq> CHR '':'') (rev s))),
              rev (takeWhile (\<lambda>c. c \<noteq> CHR '':'') (rev s)))
      else None)"

definition SplitHostPort :: "string \<Rightarrow> (string \<times> string) option" where
  "SplitHostPort hostport =
     (case before_last_colon hostport of
        None \<Rightarrow> None
      | Some (before, port) \<Rightarrow>
          if hd hostport = CHR ''['' then
            (if CHR '']'' \<notin> set hostport then None
             else
               let host = takeWhile (\<lambda>c. c \<noteq> CHR '']'') (tl hostport);
                   after = drop (length host + 2) hostport in
               if length host + 2 \<noteq> length before then None
               else if CHR ''['' \<in> set (tl hostport) \<or> CHR '']'' \<in> set after then None
               else Some (host, port))
          else if CHR '':'' \<in> set before then None
          else if CHR ''['' \<in> set hostport \<or> CHR '']'' \<in> set hostport then None
          else Some (before, port))"

definition sscan_uint16 :: "string \<Rightarrow> u16 option" where
  "sscan_uint16 s =
     (let tok = takeWhile is_digit (dropWhile is_space s) in
      if tok = [] then None else if dec_value tok < 2 ^ 16 then Some (of_nat (dec_value tok)) else None)"

subsection \<open>Printed addresses parse back\<close>

lemma dec_of_nat_leading_zero: "hd (dec_of_nat n) = CHR ''0'' \<Longrightarrow> n = 0"
proof (induction n rule: dec_of_nat.induct)
  case (1 n)
  show ?case
  proof (cases "n < 10")
    case True
    have "n = 0" if "char_of (48 + n) = CHR ''0''"
    proof -
      from that have "(of_char (char_of (48 + n) :: char) :: nat) = of_char CHR ''0''" by simp
      with True show ?thesis by simp
    qed
    with True "1.prems" show ?thesis by (simp add: dec_of_nat.simps [of n])
  next
    case False
    with "1.prems" have "hd (dec_of_nat (n div 10)) = CHR ''0''" by (simp add: dec_of_nat.simps [of n])
    with "1.IH" False show ?thesis by simp
  qed
qed

lemma parse_octet_dec: "parse_octet (dec_of_nat (unat b)) = Some b"
proof -
  have "dec_of_nat 0 = ''0''" by code_simp
  then have "hd (dec_of_nat (unat b)) = CHR ''0'' \<Longrightarrow> length (dec_of_nat (unat b)) = 1"
    using dec_of_nat_leading_zero [of "unat b"] by auto
  moreover have "list_all is_digit (dec_of_nat (unat b))" using digit_chars by (auto simp: list_all_iff)
  moreover have "unat b \<le> 255" using unat_byte_less [of b] by simp
  ultimately show ?thesis by (auto simp: parse_octet_def dec_value_dec_of_nat)
qed

lemma split_on_free: "x \<notin> set p \<Longrightarrow> split_on x p = [p]"
  by (induction p) auto

lemma split_on_append: "x \<notin> set p \<Longrightarrow> split_on x (p @ x # s) = p # split_on x s"
  by (induction p) auto

lemma split_on_join: "ps \<noteq> [] \<Longrightarrow> \<forall>p\<in>set ps. x \<notin> set p \<Longrightarrow> split_on x (join [x] ps) = ps"
  by (induction ps rule: induct_list012) (simp_all add: split_on_free split_on_append)

lemma no_period_dec: "CHR ''.'' \<notin> set (dec_of_nat n)"
  by (auto dest!: digit_chars simp: is_digit_def)

lemma no_colon_dec: "CHR '':'' \<notin> set (dec_of_nat n)"
  by (auto dest!: digit_chars simp: is_digit_def)

lemma parse_dotted: "length bs = 4 \<Longrightarrow> parse_IPv4 (dotted bs) = Some bs"
proof -
  assume l: "length bs = 4"
  have "split_on CHR ''.'' (dotted bs) = map (\<lambda>b. dec_of_nat (unat b)) bs"
    using l unfolding dotted_def by (intro split_on_join) (auto simp: no_period_dec)
  with l show ?thesis by (simp add: parse_IPv4_def Let_def all_some_map parse_octet_dec)
qed

lemma join_chars: "set (join sep ps) \<subseteq> set sep \<union> (\<Union>p\<in>set ps. set p)"
  by (induction sep ps rule: join.induct) auto

lemma join_sep: "length ps \<ge> 2 \<Longrightarrow> set sep \<subseteq> set (join sep ps)"
  by (cases "(sep, ps)" rule: join.cases) auto

lemma dotted_chars: "c \<in> set (dotted bs) \<Longrightarrow> is_digit c \<or> c = CHR ''.''"
  using join_chars [of "''.''" "map (\<lambda>b. dec_of_nat (unat b)) bs"] digit_chars by (auto simp: dotted_def)

text \<open>An IPv4 address, in either of its forms, comes back as the 16-byte form.\<close>

lemma parse_printed_v4:
  assumes "To4 ip = Some v4"
  shows "net_IP_String ip = dotted v4 \<and> net_ParseIP (dotted v4) = Some (net_IPv4 v4)"
proof -
  from assms have l: "length v4 = 4" "length ip = 4 \<or> length ip = 16" by (auto simp: To4_def split: if_splits)
  have "CHR ''.'' \<in> set (dotted v4)" using join_sep [of "map (\<lambda>b. dec_of_nat (unat b)) v4" "''.''"] l(1) by (simp add: dotted_def)
  then obtain c cs where d: "dropWhile (\<lambda>c. c \<notin> {CHR ''.'', CHR '':'', CHR ''%''}) (dotted v4) = c # cs"
    by (cases "dropWhile (\<lambda>c. c \<notin> {CHR ''.'', CHR '':'', CHR ''%''}) (dotted v4)")
       (auto simp only: dropWhile_eq_Nil_conv insert_iff)
  then have "c \<in> {CHR ''.'', CHR '':'', CHR ''%''}" by (simp only: dropWhile_eq_Cons_conv not_not)
  moreover have "c \<in> set (dotted v4)" using d set_dropWhileD [of c _ "dotted v4"] by (metis list.set_intros(1))
  ultimately have "c = CHR ''.''" using dotted_chars [of c v4] by (auto simp: is_digit_def)
  with d parse_dotted [OF l(1)] have "net_ParseIP (dotted v4) = Some (net_IPv4 v4)"
    by (simp only: net_ParseIP_def list.case if_True option.map refl)
  with l assms show ?thesis by (auto simp: net_IP_String_def)
qed

subsection \<open>Host and port\<close>

lemma last_colon: "CHR '':'' \<notin> set p \<Longrightarrow> before_last_colon (h @ '':'' @ p) = Some (h, p)"
proof -
  assume "CHR '':'' \<notin> set p"
  then have "\<And>c. c \<in> set (rev p) \<Longrightarrow> c \<noteq> CHR '':''" by auto
  then have "takeWhile (\<lambda>c. c \<noteq> CHR '':'') (rev p @ CHR '':'' # rev h) = rev p"
    "dropWhile (\<lambda>c. c \<noteq> CHR '':'') (rev p @ CHR '':'' # rev h) = CHR '':'' # rev h"
    by (subst takeWhile_append2 dropWhile_append2, blast, simp)+
  then show ?thesis by (simp add: before_last_colon_def)
qed

lemma split_host_port:
  assumes "CHR '':'' \<notin> set h" "CHR ''['' \<notin> set h" "CHR '']'' \<notin> set h"
  shows "SplitHostPort (h @ '':'' @ dec_of_nat n) = Some (h, dec_of_nat n)"
proof -
  have "hd (h @ '':'' @ dec_of_nat n) \<noteq> CHR ''[''" using assms(2) by (cases h) auto
  moreover have "CHR ''['' \<notin> set (dec_of_nat n)" "CHR '']'' \<notin> set (dec_of_nat n)"
    by (auto dest!: digit_chars simp: is_digit_def)
  ultimately show ?thesis
    using assms last_colon [OF no_colon_dec, of h n] by (simp add: SplitHostPort_def)
qed

lemma split_bare_v6:
  assumes "CHR '':'' \<in> set h" "hd h \<noteq> CHR ''[''"
  shows "SplitHostPort (h @ '':'' @ dec_of_nat n) = None"
  using assms last_colon [OF no_colon_dec, of h n] by (cases h) (simp_all add: SplitHostPort_def)

lemma sscan_port: "sscan_uint16 (dec_of_nat (unat (p :: u16))) = Some p"
  using unat_u16_less [of p] by (simp add: sscan_uint16_def digits_drop digits_take dec_value_dec_of_nat)

text \<open>Every printed IPv6 address has a colon and does not start with a bracket.\<close>

lemma v6_string_colon: "length g \<ge> 2 \<Longrightarrow> CHR '':'' \<in> set (v6_string g)"
  using join_sep [of "map (\<lambda>x. hex_of_nat (unat x)) g" "'':''"]
  by (cases "zero_run g") (auto simp: v6_string_def)

lemma hex_digit_chars: "k < 16 \<Longrightarrow> hex_digit k \<in> set ''0123456789abcdef''"
proof -
  have "list_all (\<lambda>k. hex_digit k \<in> set ''0123456789abcdef'') [0..<16]" by code_simp
  then have "\<forall>k\<in>{0..<16}. hex_digit k \<in> set ''0123456789abcdef''" by (simp only: list_all_iff set_upt)
  moreover assume "k < 16"
  then have "k \<in> {0..<16}" by simp
  ultimately show ?thesis by blast
qed

lemma hex_of_nat_set: "set (hex_of_nat n) \<subseteq> set ''0123456789abcdef''"
proof (induction n rule: hex_of_nat.induct)
  case (1 n)
  show ?case
  proof (cases "n < 16")
    case True
    then show ?thesis unfolding hex_of_nat.simps [of n] using hex_digit_chars [OF True] by simp
  next
    case False
    have "hex_digit (n mod 16) \<in> set ''0123456789abcdef''" by (rule hex_digit_chars) simp
    with "1.IH" [OF False] False show ?thesis unfolding hex_of_nat.simps [of n] by simp
  qed
qed

lemma hex_of_nat_chars: "c \<in> set (hex_of_nat n) \<Longrightarrow> c \<noteq> CHR ''['' \<and> c \<noteq> CHR '']'' \<and> c \<noteq> CHR ''.'' \<and> c \<noteq> CHR ''%''"
  by (drule subsetD [OF hex_of_nat_set]) auto

lemma v6_string_chars:
  "c \<in> set (v6_string g) \<Longrightarrow> c \<noteq> CHR ''['' \<and> c \<noteq> CHR '']'' \<and> c \<noteq> CHR ''.'' \<and> c \<noteq> CHR ''%''"
proof -
  have j: "c \<in> set (join '':'' (map (\<lambda>x. hex_of_nat (unat x)) gs)) \<Longrightarrow>
      c \<noteq> CHR ''['' \<and> c \<noteq> CHR '']'' \<and> c \<noteq> CHR ''.'' \<and> c \<noteq> CHR ''%''" for gs :: "u16 list"
    using join_chars [of "'':''" "map (\<lambda>x. hex_of_nat (unat x)) gs"] hex_of_nat_chars by fastforce
  assume "c \<in> set (v6_string g)"
  with j show ?thesis by (auto simp: v6_string_def Let_def split: prod.splits if_splits)
qed

lemma split_v6: "length ip = 16 \<Longrightarrow> To4 ip = None \<Longrightarrow> SplitHostPort (net_IP_String ip @ '':'' @ dec_of_nat n) = None"
proof -
  assume ip: "length ip = 16" "To4 ip = None"
  then have s: "net_IP_String ip = v6_string (v6_groups ip)" by (simp add: net_IP_String_def)
  have c: "CHR '':'' \<in> set (v6_string (v6_groups ip))" by (rule v6_string_colon) (simp add: v6_groups_def)
  then have "hd (v6_string (v6_groups ip)) \<in> set (v6_string (v6_groups ip))" by (intro hd_in_set) auto
  with v6_string_chars have "hd (v6_string (v6_groups ip)) \<noteq> CHR ''[''" by blast
  with c show ?thesis unfolding s by (rule split_bare_v6)
qed

end
