(* ===== verification/Socks.thy ===== *)
theory Socks
  imports NetAddr
begin

section \<open>pkg/socks/socks.go: the SOCKS5 protocol of one connection\<close>

text \<open>
  Negotiation, username authentication, the request parser and the replies of the server. A
  connection holds the bytes the client will send, the writer its replies go to, and the
  answers of RemoteAddr, LocalAddr and SetReadDeadline. The two exactness theorems say which
  byte sequences the handshake and the request parser accept and what they leave unread.
\<close>

subsection \<open>The connection\<close>

record socks_conn =
  sk_in :: bytes
  sk_out :: writer
  sk_closed :: bool
  sk_deadline_ok :: bool
  sk_remotePort :: "int option"
  sk_localAddr :: string

definition sk_read :: "nat \<Rightarrow> socks_conn \<Rightarrow> (io_error + bytes) \<times> socks_conn" where
  "sk_read n c =
     (case read_full n (sk_in c) of
        Inl e \<Rightarrow> (Inl e, c\<lparr>sk_in := []\<rparr>)
      | Inr (bs, rest) \<Rightarrow> (Inr bs, c\<lparr>sk_in := rest\<rparr>))"

definition sk_write :: "bytes \<Rightarrow> socks_conn \<Rightarrow> bool \<times> socks_conn" where
  "sk_write bs c = (let (ok, w) = wr_write bs (sk_out c) in (ok, c\<lparr>sk_out := w\<rparr>))"

subsection \<open>Constants and configuration\<close>

definition socks5Version :: byte where "socks5Version = 5"
definition authNone :: byte where "authNone = 0"
definition authPassword :: byte where "authPassword = 2"
definition authNoAccept :: byte where "authNoAccept = 0xFF"
definition addrIPv4 :: byte where "addrIPv4 = 1"
definition addrDomain :: byte where "addrDomain = 3"
definition addrIPv6 :: byte where "addrIPv6 = 4"
definition cmdConnect :: byte where "cmdConnect = 1"
definition cmdBind :: byte where "cmdBind = 2"
definition cmdUDP :: byte where "cmdUDP = 3"
definition cmdResolve :: byte where "cmdResolve = 0xF0"
definition cmdResolvePTR :: byte where "cmdResolvePTR = 0xF1"
definition replySuccess :: byte where "replySuccess = 0"
definition replyGeneralFailure :: byte where "replyGeneralFailure = 1"
definition replyHostUnreachable :: byte where "replyHostUnreachable = 4"
definition replyCommandNotSupported :: byte where "replyCommandNotSupported = 7"
definition replyAddressNotSupported :: byte where "replyAddressNotSupported = 8"
definition defaultMaxConnections :: int where "defaultMaxConnections = 1000"

lemmas socks_consts = socks5Version_def authNone_def authPassword_def authNoAccept_def addrIPv4_def
  addrDomain_def addrIPv6_def cmdConnect_def cmdBind_def cmdUDP_def cmdResolve_def cmdResolvePTR_def
  replySuccess_def replyGeneralFailure_def replyHostUnreachable_def replyCommandNotSupported_def
  replyAddressNotSupported_def

record SocksConfig =
  so_MaxConnections :: int
  so_EnableDNSResolution :: bool
  so_DNSTimeout :: duration
  so_IsolationLevel :: IsolationLevel
  so_IsolateDestinations :: bool
  so_IsolateSOCKSAuth :: bool
  so_IsolateClientPort :: bool

definition Socks_DefaultConfig :: SocksConfig where
  "Socks_DefaultConfig =
     \<lparr>so_MaxConnections = defaultMaxConnections, so_EnableDNSResolution = True, so_DNSTimeout = 30 * Second,
      so_IsolationLevel = IsolationNone, so_IsolateDestinations = False, so_IsolateSOCKSAuth = False,
      so_IsolateClientPort = False\<rparr>"

record requestInfo =
  ri_cmd :: byte
  ri_targetAddr :: string

datatype socks_error =
    ReadFailed string io_error
  | WriteFailed string
  | UnsupportedSocksVersion byte
  | NoAcceptableMethods
  | UnsupportedAuthVersion byte
  | DNSResolutionDisabled byte
  | UnsupportedCommand byte
  | UnknownCommand byte
  | UnsupportedAddressType byte

subsection \<open>Negotiation\<close>

text \<open>authenticatePassword: the password is read and not looked at.\<close>

definition authenticatePassword :: "socks_conn \<Rightarrow> (socks_error + string) \<times> socks_conn" where
  "authenticatePassword conn =
     (case sk_read 1 conn of
        (Inl e, conn) \<Rightarrow> (Inl (ReadFailed ''auth version'' e), conn)
      | (Inr version, conn) \<Rightarrow>
     if version ! 0 \<noteq> 1 then (Inl (UnsupportedAuthVersion (version ! 0)), conn)
     else
     (case sk_read 1 conn of
        (Inl e, conn) \<Rightarrow> (Inl (ReadFailed ''username length'' e), conn)
      | (Inr ulenBuf, conn) \<Rightarrow>
     (case sk_read (unat (ulenBuf ! 0)) conn of
        (Inl e, conn) \<Rightarrow> (Inl (ReadFailed ''username'' e), conn)
      | (Inr username, conn) \<Rightarrow>
     (case sk_read 1 conn of
        (Inl e, conn) \<Rightarrow> (Inl (ReadFailed ''password length'' e), conn)
      | (Inr plenBuf, conn) \<Rightarrow>
     (case sk_read (unat (plenBuf ! 0)) conn of
        (Inl e, conn) \<Rightarrow> (Inl (ReadFailed ''password'' e), conn)
      | (Inr password, conn) \<Rightarrow>
     (case sk_write [1, 0] conn of
        (False, conn) \<Rightarrow> (Inl (WriteFailed ''auth response''), conn)
      | (True, conn) \<Rightarrow> (Inr (string_of_bytes username), conn)))))))"

definition handshake :: "socks_conn \<Rightarrow> (socks_error + string) \<times> socks_conn" where
  "handshake conn =
     (case sk_read 2 conn of
        (Inl e, conn) \<Rightarrow> (Inl (ReadFailed ''handshake header'' e), conn)
      | (Inr header, conn) \<Rightarrow>
     if header ! 0 \<noteq> socks5Version then (Inl (UnsupportedSocksVersion (header ! 0)), conn)
     else
     (case sk_read (unat (header ! 1)) conn of
        (Inl e, conn) \<Rightarrow> (Inl (ReadFailed ''methods'' e), conn)
      | (Inr methods, conn) \<Rightarrow>
     let supportsNoAuth = authNone \<in> set methods; supportsPassword = authPassword \<in> set methods in
     if \<not> supportsPassword \<and> \<not> supportsNoAuth then
       (case sk_write [socks5Version, authNoAccept] conn of
          (False, conn) \<Rightarrow> (Inl (WriteFailed ''auth rejection''), conn)
        | (True, conn) \<Rightarrow> (Inl NoAcceptableMethods, conn))
     else
       let selectedMethod = (if supportsPassword then authPassword else authNone) in
       (case sk_write [socks5Version, selectedMethod] conn of
          (False, conn) \<Rightarrow> (Inl (WriteFailed ''method selection''), conn)
        | (True, conn) \<Rightarrow>
            if selectedMethod = authPassword then authenticatePassword conn else (Inr [], conn))))"

subsection \<open>Replies\<close>

text \<open>The bytes of sendReply; None is a nil bind address.\<close>

definition reply_bytes :: "byte \<Rightarrow> string option \<Rightarrow> bytes" where
  "reply_bytes reply bindAddr =
     [socks5Version, reply, 0] @
     (case bindAddr of
        None \<Rightarrow> [addrIPv4] @ zeros 6
      | Some a \<Rightarrow>
          (case SplitHostPort a of
             None \<Rightarrow> [addrIPv4] @ zeros 6
           | Some (host, portStr) \<Rightarrow>
               (case net_ParseIP host of
                  None \<Rightarrow> [addrIPv4] @ zeros 4
                | Some ip \<Rightarrow> (case To4 ip of Some ip4 \<Rightarrow> [addrIPv4] @ ip4 | None \<Rightarrow> [addrIPv6] @ ip))
               @ be16 (case sscan_uint16 portStr of None \<Rightarrow> 0 | Some port \<Rightarrow> port)))"

definition sendReply :: "byte \<Rightarrow> string option \<Rightarrow> socks_conn \<Rightarrow> bool \<times> socks_conn" where
  "sendReply reply bindAddr conn = sk_write (reply_bytes reply bindAddr) conn"

definition dns_reply_bytes :: "byte \<Rightarrow> bytes list \<Rightarrow> u32 \<Rightarrow> bytes" where
  "dns_reply_bytes status addresses ttl =
     [socks5Version, status, 0] @
     (if status \<noteq> replySuccess \<or> length addresses = 0 then [addrIPv4] @ zeros 4 @ zeros 4
      else
        (case To4 (addresses ! 0) of
           Some ip4 \<Rightarrow> [addrIPv4] @ ip4
         | None \<Rightarrow> [addrIPv6] @ addresses ! 0) @ be32 ttl)"

definition sendDNSReply :: "byte \<Rightarrow> bytes list \<Rightarrow> u32 \<Rightarrow> socks_conn \<Rightarrow> bool \<times> socks_conn" where
  "sendDNSReply status addresses ttl conn = sk_write (dns_reply_bytes status addresses ttl) conn"

text \<open>A host name over 255 bytes is answered by a general failure, and the call reports an error.\<close>

definition sendDNSReplyHostname :: "byte \<Rightarrow> bytes \<Rightarrow> u32 \<Rightarrow> socks_conn \<Rightarrow> bool \<times> socks_conn" where
  "sendDNSReplyHostname status hostname ttl conn =
     (if status \<noteq> replySuccess \<or> hostname = [] then
        sk_write ([socks5Version, status, 0, addrDomain] @ [0] @ zeros 4) conn
      else if length hostname > 255 then
        (False, snd (sk_write ([socks5Version, replyGeneralFailure, 0, addrDomain] @ [0] @ zeros 4) conn))
      else
        sk_write ([socks5Version, status, 0, addrDomain] @ [of_nat (length hostname)] @ hostname @ be32 ttl) conn)"

subsection \<open>The request\<close>

text \<open>The refusals of readRequest: reply, then fail; the result of the reply is dropped.\<close>

definition refuse :: "byte \<Rightarrow> socks_error \<Rightarrow> socks_conn \<Rightarrow> (socks_error + 'a) \<times> socks_conn" where
  "refuse reply e conn = (Inl e, snd (sendReply reply None conn))"

definition check_command :: "SocksConfig \<Rightarrow> byte \<Rightarrow> socks_error option" where
  "check_command cfg cmd =
     (if cmd = cmdConnect then None
      else if cmd = cmdResolve \<or> cmd = cmdResolvePTR then
        (if \<not> so_EnableDNSResolution cfg then Some (DNSResolutionDisabled cmd) else None)
      else if cmd = cmdBind \<or> cmd = cmdUDP then Some (UnsupportedCommand cmd)
      else Some (UnknownCommand cmd))"

definition read_address :: "byte \<Rightarrow> socks_conn \<Rightarrow> (socks_error + string) \<times> socks_conn" where
  "read_address addrType conn =
     (if addrType = addrIPv4 then
        (case sk_read 4 conn of
           (Inl e, conn) \<Rightarrow> refuse replyGeneralFailure (ReadFailed ''IPv4 address'' e) conn
         | (Inr ip, conn) \<Rightarrow> (Inr (net_IP_String ip), conn))
      else if addrType = addrDomain then
        (case sk_read 1 conn of
           (Inl e, conn) \<Rightarrow> refuse replyGeneralFailure (ReadFailed ''domain length'' e) conn
         | (Inr domainLen, conn) \<Rightarrow>
             (case sk_read (unat (domainLen ! 0)) conn of
                (Inl e, conn) \<Rightarrow> refuse replyGeneralFailure (ReadFailed ''domain'' e) conn
              | (Inr domain, conn) \<Rightarrow> (Inr (string_of_bytes domain), conn)))
      else if addrType = addrIPv6 then
        (case sk_read 16 conn of
           (Inl e, conn) \<Rightarrow> refuse replyGeneralFailure (ReadFailed ''IPv6 address'' e) conn
         | (Inr ip, conn) \<Rightarrow> (Inr (net_IP_String ip), conn))
      else refuse replyAddressNotSupported (UnsupportedAddressType addrType) conn)"

definition target_address :: "byte \<Rightarrow> string \<Rightarrow> u16 \<Rightarrow> string" where
  "target_address cmd addr port =
     (if cmd = cmdResolve then addr
      else if cmd = cmdResolvePTR then addr
      else addr @ '':'' @ dec_of_nat (unat port))"

definition readRequest :: "SocksConfig \<Rightarrow> socks_conn \<Rightarrow> (socks_error + requestInfo) \<times> socks_conn" where
  "readRequest cfg conn =
     (case sk_read 4 conn of
        (Inl e, conn) \<Rightarrow> (Inl (ReadFailed ''request header'' e), conn)
      | (Inr header, conn) \<Rightarrow>
     let version = header ! 0; cmd = header ! 1; addrType = header ! 3 in
     if version \<noteq> socks5Version then refuse replyGeneralFailure (UnsupportedSocksVersion version) conn
     else
     (case check_command cfg cmd of
        Some e \<Rightarrow> refuse replyCommandNotSupported e conn
      | None \<Rightarrow>
     (case read_address addrType conn of
        (Inl e, conn) \<Rightarrow> (Inl e, conn)
      | (Inr addr, conn) \<Rightarrow>
     (case sk_read 2 conn of
        (Inl e, conn) \<Rightarrow> refuse replyGeneralFailure (ReadFailed ''port'' e) conn
      | (Inr portBytes, conn) \<Rightarrow>
          (Inr \<lparr>ri_cmd = cmd, ri_targetAddr = target_address cmd addr (u16_at portBytes 0)\<rparr>, conn)))))"

subsection \<open>What is accepted\<close>

lemma sk_read_Inr:
  "sk_read n c = (Inr bs, c') \<longleftrightarrow> (\<exists>rest. sk_in c = bs @ rest \<and> length bs = n \<and> c' = c\<lparr>sk_in := rest\<rparr>)"
proof (cases "read_full n (sk_in c)")
  case (Inl e)
  then have "sk_in c = xs @ ys \<Longrightarrow> length xs \<noteq> n" for xs ys
    using read_full_Inr [of n "sk_in c" xs ys] by auto
  with Inl show ?thesis by (auto simp: sk_read_def)
next
  case (Inr r)
  obtain xs ys where r: "r = (xs, ys)" by (cases r)
  with Inr have "sk_in c = xs @ ys" "length xs = n" using read_full_Inr by auto
  with Inr r show ?thesis by (auto simp: sk_read_def)
qed

lemma sk_read_one: "sk_read 1 c = (Inr bs, c') \<longleftrightarrow> (\<exists>b rest. bs = [b] \<and> sk_in c = b # rest \<and> c' = c\<lparr>sk_in := rest\<rparr>)"
  unfolding sk_read_Inr by (auto simp: length_Suc_conv)

lemma sk_read_append [simp]: "length bs = n \<Longrightarrow> sk_in c = bs @ rest \<Longrightarrow> sk_read n c = (Inr bs, c\<lparr>sk_in := rest\<rparr>)"
  by (auto simp: sk_read_Inr)

text \<open>How a successful exchange changes the connection: what is left to read, and what was written.\<close>

definition exchanged :: "bytes \<Rightarrow> bytes \<Rightarrow> socks_conn \<Rightarrow> socks_conn" where
  "exchanged rest out c = c\<lparr>sk_in := rest, sk_out := (sk_out c)\<lparr>wr_out := wr_out (sk_out c) @ out\<rparr>\<rparr>"

lemma exchanged_sel [simp]:
  "sk_in (exchanged rest out c) = rest" "wr_room (sk_out (exchanged rest out c)) = wr_room (sk_out c)"
  "exchanged rest' out' (exchanged rest out c) = exchanged rest' (out @ out') c"
  "exchanged rest out c\<lparr>sk_in := rest'\<rparr> = exchanged rest' out c"
  "sk_closed (exchanged rest out c) = sk_closed c" "sk_localAddr (exchanged rest out c) = sk_localAddr c"
  "sk_remotePort (exchanged rest out c) = sk_remotePort c" "wr_out (sk_out (exchanged rest out c)) = wr_out (sk_out c) @ out"
  by (simp_all add: exchanged_def)

lemma sk_write_ok [simp]: "wr_room (sk_out c) = None \<Longrightarrow> sk_write bs c = (True, exchanged (sk_in c) bs c)"
  by (simp add: sk_write_def wr_write_def exchanged_def)

lemma set_in_exchanged: "c\<lparr>sk_in := rest\<rparr> = exchanged rest [] c"
  by (simp add: exchanged_def)

text \<open>RFC 1929 and RFC 1928 messages of the client.\<close>

definition auth_message :: "bytes \<Rightarrow> bytes \<Rightarrow> bytes" where
  "auth_message user pass = [1, of_nat (length user)] @ user @ [of_nat (length pass)] @ pass"

definition greeting :: "bytes \<Rightarrow> bytes" where
  "greeting methods = [5, of_nat (length methods)] @ methods"

lemma of_nat_unat_len: "length bs = unat (b :: byte) \<longleftrightarrow> length bs < 256 \<and> b = of_nat (length bs)"
  using unat_byte_less [of b] by (auto simp: unat_of_nat_byte)

lemma authenticate_exact:
  assumes room: "wr_room (sk_out c) = None"
  shows "authenticatePassword c = (Inr name, c') \<longleftrightarrow>
    (\<exists>user pass rest. length user < 256 \<and> length pass < 256 \<and> sk_in c = auth_message user pass @ rest
       \<and> name = string_of_bytes user \<and> c' = exchanged rest [1, 0] c)" (is "?l \<longleftrightarrow> ?r")
proof
  assume ?r
  then show ?l
    using room by (auto simp: authenticatePassword_def auth_message_def unat_of_nat_byte sk_read_def read_full_def exchanged_def)
next
  assume l: ?l
  then obtain v c1 where 1: "sk_read 1 c = (Inr v, c1)" by (auto simp: authenticatePassword_def split: prod.splits sum.splits)
  obtain ul c2 where 2: "sk_read 1 c1 = (Inr ul, c2)" "v ! 0 = 1"
    using l 1 by (auto simp: authenticatePassword_def split: prod.splits sum.splits if_splits)
  obtain u c3 where 3: "sk_read (unat (ul ! 0)) c2 = (Inr u, c3)"
    using l 1 2 by (auto simp: authenticatePassword_def split: prod.splits sum.splits)
  obtain pl c4 where 4: "sk_read 1 c3 = (Inr pl, c4)"
    using l 1 2 3 by (auto simp: authenticatePassword_def split: prod.splits sum.splits)
  obtain p c5 where 5: "sk_read (unat (pl ! 0)) c4 = (Inr p, c5)"
    using l 1 2 3 4 by (auto simp: authenticatePassword_def split: prod.splits sum.splits)
  note reads = 1 2 3 4 5
  from reads [unfolded sk_read_Inr] obtain b d r where
    in_c: "sk_in c = 1 # b # u @ d # p @ r" "length u = unat b" "length p = unat d" "c5 = c\<lparr>sk_in := r\<rparr>"
    by (auto simp: length_Suc_conv)
  have "wr_room (sk_out c5) = None" using in_c(4) room by simp
  from sk_write_ok [OF this, of "[1, 0]"] l reads have "name = string_of_bytes u" "c' = exchanged (sk_in c5) [1, 0] c5"
    by (simp_all add: authenticatePassword_def)
  with in_c show ?r
    unfolding of_nat_unat_len by (intro exI [of _ u] exI [of _ p] exI [of _ r]) (auto simp: auth_message_def exchanged_def)
qed

lemma handshake_iff:
  assumes room: "wr_room (sk_out c) = None"
  shows "handshake c = (Inr name, c') \<longleftrightarrow>
    (\<exists>methods rest. length methods < 256 \<and>
      (if authPassword \<in> set methods
       then \<exists>user pass. length user < 256 \<and> length pass < 256
              \<and> sk_in c = greeting methods @ auth_message user pass @ rest
              \<and> name = string_of_bytes user \<and> c' = exchanged rest [5, 2, 1, 0] c
       else authNone \<in> set methods \<and> sk_in c = greeting methods @ rest \<and> name = [] \<and> c' = exchanged rest [5, 0] c))"
    (is "?l \<longleftrightarrow> ?r")
proof
  assume ?r
  then obtain methods rest where m: "length methods < 256" and
    r: "if authPassword \<in> set methods
       then \<exists>user pass. length user < 256 \<and> length pass < 256
              \<and> sk_in c = greeting methods @ auth_message user pass @ rest
              \<and> name = string_of_bytes user \<and> c' = exchanged rest [5, 2, 1, 0] c
       else authNone \<in> set methods \<and> sk_in c = greeting methods @ rest \<and> name = [] \<and> c' = exchanged rest [5, 0] c"
    by blast
  then obtain rest1 where i: "sk_in c = 5 # of_nat (length methods) # methods @ rest1" and
    some: "authPassword \<in> set methods \<or> authNone \<in> set methods"
    by (auto simp: greeting_def split: if_splits)
  have "handshake c =
      (if authPassword \<in> set methods then authenticatePassword (exchanged rest1 [5, 2] c)
       else (Inr [], exchanged rest1 [5, 0] c))"
    using i some m room
    by (auto simp: handshake_def sk_read_def read_full_def Let_def unat_of_nat_byte socks_consts set_in_exchanged)
  moreover have "authenticatePassword (exchanged rest1 [5, 2] c) = (Inr name, c')" if "authPassword \<in> set methods"
    using r that i room by (subst authenticate_exact) (auto simp: greeting_def)
  ultimately show ?l using r i by (auto simp: greeting_def)
next
  assume l: ?l
  then obtain h c1 where 1: "sk_read 2 c = (Inr h, c1)" by (auto simp: handshake_def split: prod.splits sum.splits)
  obtain ms c2 where 2: "sk_read (unat (h ! 1)) c1 = (Inr ms, c2)" "h ! 0 = 5"
    using l 1 by (auto simp: handshake_def socks_consts split: prod.splits sum.splits if_splits)
  from 1 2 obtain n r where h: "sk_in c = 5 # n # ms @ r" "length ms = unat n" "c2 = c\<lparr>sk_in := r\<rparr>"
    by (auto simp: sk_read_Inr length_Suc_conv numeral_2_eq_2)
  then have m: "length ms < 256" "sk_in c = greeting ms @ r" by (auto simp: of_nat_unat_len greeting_def)
  have room2: "wr_room (sk_out c2) = None" using h(3) room by simp
  have w: "exchanged (sk_in c2) bs c2 = exchanged r bs c" for bs using h(3) by (simp add: exchanged_def)
  show ?r
  proof (cases "authPassword \<in> set ms")
    case True
    with l 1 2 room2 have "authenticatePassword (exchanged r [5, 2] c) = (Inr name, c')"
      by (simp add: handshake_def Let_def w socks_consts)
    then obtain user pass rest where "length user < 256" "length pass < 256" "r = auth_message user pass @ rest"
        "name = string_of_bytes user" "c' = exchanged rest [5, 2, 1, 0] c"
      using room by (subst (asm) authenticate_exact) auto
    with True m show ?thesis by (intro exI [of _ ms] exI [of _ rest]) auto
  next
    case False
    with l 1 2 room2 have "authNone \<in> set ms" "name = []" "c' = exchanged r [5, 0] c"
      by (auto simp: handshake_def Let_def w socks_consts split: if_splits)
    with False m show ?thesis by (intro exI [of _ ms] exI [of _ r]) simp
  qed
qed

text \<open>
  C19: The handshake accepts exactly the greetings that offer username authentication or none.
  With username authentication among the methods it is chosen, an RFC 1929 message must follow
  and its username is returned, whatever the password; otherwise no name is returned. Exactly
  these messages are consumed, and the answers are the method selection and the status.
\<close>

theorem handshake_exact:
  assumes room: "wr_room (sk_out c) = None"
  shows "handshake c = (Inr name, c') \<longleftrightarrow>
    (\<exists>methods rest. length methods < 256 \<and>
      (if authPassword \<in> set methods
       then \<exists>user pass. length user < 256 \<and> length pass < 256
              \<and> sk_in c = greeting methods @ auth_message user pass @ rest
              \<and> name = string_of_bytes user \<and> c' = exchanged rest [5, 2, 1, 0] c
       else authNone \<in> set methods \<and> sk_in c = greeting methods @ rest \<and> name = [] \<and> c' = exchanged rest [5, 0] c))"
  using handshake_iff [OF room] .

theorem handshake_exact_witness:
  "let c = \<lparr>sk_in = greeting [0, 2] @ auth_message [97, 98] [] @ [7], sk_out = new_buffer, sk_closed = False,
            sk_deadline_ok = True, sk_remotePort = None, sk_localAddr = []\<rparr> in
   handshake c = (Inr ''ab'', exchanged [7] [5, 2, 1, 0] c)"
proof -
  let ?c = "\<lparr>sk_in = greeting [0, 2] @ auth_message [97, 98] [] @ [7], sk_out = new_buffer, sk_closed = False,
             sk_deadline_ok = True, sk_remotePort = None, sk_localAddr = []\<rparr>"
  have name: "''ab'' = string_of_bytes [97, 98]" by code_simp
  have "\<exists>user pass. length user < 256 \<and> length pass < 256
      \<and> sk_in ?c = greeting [0, 2] @ auth_message user pass @ [7]
      \<and> ''ab'' = string_of_bytes user \<and> exchanged [7] [5, 2, 1, 0] ?c = exchanged [7] [5, 2, 1, 0] ?c"
    by (rule exI [of _ "[97, 98]"], rule exI [of _ "[]"]) (simp add: name)
  then show ?thesis
    unfolding Let_def
    by (subst handshake_exact, simp add: new_buffer_def, intro exI [of _ "[0, 2]"] exI [of _ "[7]"])
       (simp add: authPassword_def)
qed

text \<open>The address of a request, its bytes, and how the server prints it.\<close>

datatype socks_addr = AddrV4 bytes | AddrDomain bytes | AddrV6 bytes

definition wf_socks_addr :: "socks_addr \<Rightarrow> bool" where
  "wf_socks_addr a = (case a of AddrV4 ip \<Rightarrow> length ip = 4 | AddrDomain d \<Rightarrow> length d < 256 | AddrV6 ip \<Rightarrow> length ip = 16)"

definition socks_addr_type :: "socks_addr \<Rightarrow> byte" where
  "socks_addr_type a = (case a of AddrV4 ip \<Rightarrow> 1 | AddrDomain d \<Rightarrow> 3 | AddrV6 ip \<Rightarrow> 4)"

definition socks_addr_bytes :: "socks_addr \<Rightarrow> bytes" where
  "socks_addr_bytes a = (case a of AddrV4 ip \<Rightarrow> ip | AddrDomain d \<Rightarrow> of_nat (length d) # d | AddrV6 ip \<Rightarrow> ip)"

definition socks_addr_text :: "socks_addr \<Rightarrow> string" where
  "socks_addr_text a = (case a of AddrV4 ip \<Rightarrow> net_IP_String ip | AddrDomain d \<Rightarrow> string_of_bytes d | AddrV6 ip \<Rightarrow> net_IP_String ip)"

definition socks_request :: "byte \<Rightarrow> byte \<Rightarrow> socks_addr \<Rightarrow> u16 \<Rightarrow> bytes" where
  "socks_request cmd rsv a port = [5, cmd, rsv, socks_addr_type a] @ socks_addr_bytes a @ be16 port"

lemma refuse_not_Inr [simp]: "refuse r e c \<noteq> (Inr x, c')"
  by (simp add: refuse_def)

lemma read_address_exact:
  "read_address t c = (Inr s, c') \<longleftrightarrow>
    (\<exists>a rest. wf_socks_addr a \<and> t = socks_addr_type a \<and> sk_in c = socks_addr_bytes a @ rest
      \<and> s = socks_addr_text a \<and> c' = c\<lparr>sk_in := rest\<rparr>)" (is "?l \<longleftrightarrow> ?r")
proof
  assume ?r
  then obtain a rest where "wf_socks_addr a" "t = socks_addr_type a" "sk_in c = socks_addr_bytes a @ rest"
      "s = socks_addr_text a" "c' = c\<lparr>sk_in := rest\<rparr>" by blast
  then show ?l
    by (cases a) (auto simp: read_address_def wf_socks_addr_def socks_addr_type_def socks_addr_bytes_def
        socks_addr_text_def socks_consts sk_read_def read_full_def unat_of_nat_byte)
next
  assume l: ?l
  then consider "t = 1" | "t = 3" | "t = 4" by (auto simp: read_address_def socks_consts split: if_splits)
  then show ?r
  proof cases
    case 1
    with l show ?thesis
      by (auto simp: read_address_def socks_consts sk_read_Inr wf_socks_addr_def socks_addr_type_def socks_addr_bytes_def
          socks_addr_text_def split: sum.splits prod.splits intro!: exI [of _ "AddrV4 (take 4 (sk_in c))"])
  next
    case 2
    with l obtain n c1 d where "sk_read 1 c = (Inr n, c1)" "sk_read (unat (n ! 0)) c1 = (Inr d, c')" "s = string_of_bytes d"
      by (auto simp: read_address_def socks_consts split: sum.splits prod.splits)
    with 2 show ?thesis
      by (auto simp: sk_read_Inr length_Suc_conv of_nat_unat_len wf_socks_addr_def socks_addr_type_def socks_addr_bytes_def
          socks_addr_text_def intro!: exI [of _ "AddrDomain d"])
  next
    case 3
    with l show ?thesis
      by (auto simp: read_address_def socks_consts sk_read_Inr wf_socks_addr_def socks_addr_type_def socks_addr_bytes_def
          socks_addr_text_def split: sum.splits prod.splits intro!: exI [of _ "AddrV6 (take 16 (sk_in c))"])
  qed
qed

lemma read_request_iff:
  "readRequest cfg c = (Inr info, c') \<longleftrightarrow>
    (\<exists>cmd rsv a port rest.
       (cmd = cmdConnect \<or> (cmd = cmdResolve \<or> cmd = cmdResolvePTR) \<and> so_EnableDNSResolution cfg)
       \<and> wf_socks_addr a \<and> sk_in c = socks_request cmd rsv a port @ rest
       \<and> info = \<lparr>ri_cmd = cmd, ri_targetAddr = (if cmd = cmdConnect then socks_addr_text a @ '':'' @ dec_of_nat (unat port)
                                                else socks_addr_text a)\<rparr>
       \<and> c' = c\<lparr>sk_in := rest\<rparr>)" (is "?l \<longleftrightarrow> ?r")
proof
  assume ?r
  then obtain cmd rsv a port rest where r: "wf_socks_addr a" "sk_in c = socks_request cmd rsv a port @ rest"
      "cmd = cmdConnect \<or> (cmd = cmdResolve \<or> cmd = cmdResolvePTR) \<and> so_EnableDNSResolution cfg"
      "info = \<lparr>ri_cmd = cmd, ri_targetAddr = (if cmd = cmdConnect then socks_addr_text a @ '':'' @ dec_of_nat (unat port)
                                              else socks_addr_text a)\<rparr>" "c' = c\<lparr>sk_in := rest\<rparr>" by blast
  have h: "sk_read 4 c = (Inr [5, cmd, rsv, socks_addr_type a], c\<lparr>sk_in := socks_addr_bytes a @ be16 port @ rest\<rparr>)"
    unfolding sk_read_Inr r(2) socks_request_def by simp
  have "read_address (socks_addr_type a) (c\<lparr>sk_in := socks_addr_bytes a @ be16 port @ rest\<rparr>)
      = (Inr (socks_addr_text a), c\<lparr>sk_in := be16 port @ rest\<rparr>)"
    unfolding read_address_exact using r(1) by auto
  moreover have "sk_read 2 (c\<lparr>sk_in := be16 port @ rest\<rparr>) = (Inr (be16 port), c\<lparr>sk_in := rest\<rparr>)"
    unfolding sk_read_Inr by simp
  moreover have "check_command cfg cmd = None" using r(3) by (auto simp: check_command_def socks_consts)
  ultimately show ?l
    using r(3,4,5) h
    by (auto simp: readRequest_def target_address_def numeral_3_eq_3 codec_simps socks_consts)
next
  assume l: ?l
  then obtain h c1 s c2 p where reads: "sk_read 4 c = (Inr h, c1)" "read_address (h ! 3) c1 = (Inr s, c2)" "sk_read 2 c2 = (Inr p, c')"
    and ok: "h ! 0 = 5" "check_command cfg (h ! 1) = None"
    and info: "info = \<lparr>ri_cmd = h ! 1, ri_targetAddr = target_address (h ! 1) s (u16_at p 0)\<rparr>"
    by (auto simp: readRequest_def Let_def socks_consts split: prod.splits sum.splits if_splits option.splits)
  from reads ok(1) obtain cmd rsv a rest where
    h: "h = [5, cmd, rsv, socks_addr_type a]" "wf_socks_addr a" "s = socks_addr_text a"
      "sk_in c = h @ socks_addr_bytes a @ p @ rest" "c' = c\<lparr>sk_in := rest\<rparr>" "length p = 2"
    unfolding read_address_exact by (auto simp: sk_read_Inr length_Suc_conv numeral_eq_Suc)
  then have "p = be16 (u16_at p 0)" by (auto simp: length_Suc_conv numeral_2_eq_2 be16_u16_at)
  with h info ok(2) show ?r
    by (intro exI [of _ cmd] exI [of _ rsv] exI [of _ a] exI [of _ "u16_at p 0"] exI [of _ rest])
       (auto simp: socks_request_def check_command_def target_address_def socks_consts split: if_splits)
qed

text \<open>
  C20: The request parser accepts exactly the requests of version 5 for CONNECT, or for
  RESOLVE and RESOLVE_PTR when resolution is enabled, with an IPv4, domain or IPv6 address of
  the right length and a port; it returns the printed address, with the port for CONNECT only,
  consumes precisely the request, whatever its reserved byte, and writes nothing.
\<close>

theorem read_request_exact:
  "readRequest cfg c = (Inr info, c') \<longleftrightarrow>
    (\<exists>cmd rsv a port rest.
       (cmd = cmdConnect \<or> (cmd = cmdResolve \<or> cmd = cmdResolvePTR) \<and> so_EnableDNSResolution cfg)
       \<and> wf_socks_addr a \<and> sk_in c = socks_request cmd rsv a port @ rest
       \<and> info = \<lparr>ri_cmd = cmd, ri_targetAddr = (if cmd = cmdConnect then socks_addr_text a @ '':'' @ dec_of_nat (unat port)
                                                else socks_addr_text a)\<rparr>
       \<and> c' = c\<lparr>sk_in := rest\<rparr>)"
  by (rule read_request_iff)

text \<open>
  What becomes of an IPv6 address in a CONNECT request: it is printed without brackets, so the
  target cannot be split into host and port again.
\<close>

lemma v6_target_unusable:
  "length ip = 16 \<Longrightarrow> To4 ip = None \<Longrightarrow> SplitHostPort (target_address cmdConnect (net_IP_String ip) port) = None"
  using split_v6 by (simp add: target_address_def socks_consts)

lemma v4_target:
  assumes "To4 ip = Some v4"
  shows "SplitHostPort (target_address cmdConnect (net_IP_String ip) port) = Some (dotted v4, dec_of_nat (unat port))"
proof -
  have "c \<in> set (dotted v4) \<Longrightarrow> c \<noteq> CHR '':'' \<and> c \<noteq> CHR ''['' \<and> c \<noteq> CHR '']''" for c
    using dotted_chars [of c v4] by (auto simp: is_digit_def)
  then have "SplitHostPort (dotted v4 @ '':'' @ dec_of_nat (unat port)) = Some (dotted v4, dec_of_nat (unat port))"
    by (intro split_host_port) blast+
  then show ?thesis using parse_printed_v4 [OF assms] by (simp add: target_address_def socks_consts)
qed

text \<open>The length of every answer to a DNS request of an address, and what a reply without an address is.\<close>

lemma dns_reply_length:
  "\<forall>ip\<in>set addresses. length ip = 4 \<or> length ip = 16 \<Longrightarrow> length (dns_reply_bytes status addresses ttl) \<in> {12, 24}"
  by (cases addresses) (auto simp: dns_reply_bytes_def To4_def split: if_splits)

end
