(* ===== verification/SocksServer.thy ===== *)
theory SocksServer
  imports Socks CircuitPool Stream Rendezvous
begin

section \<open>pkg/socks/socks.go: the server\<close>

text \<open>
  The accept loop with its connection limit, the handler of a connection, the relay loops and
  Shutdown, over the circuit pool, the stream manager, the circuits and the onion client. The
  handler is cut where other handlers can interfere: \<open>handle_take\<close> goes from the greeting to
  the pool's Get, \<open>handle_next\<close> creates the stream, opens it on the circuit, or resolves on the
  circuit, \<open>relay_up\<close> and \<open>relay_down\<close> are one round of the two relay goroutines, \<open>handle_end\<close>
  the deferred calls; \<open>handle_begin\<close> is the way to the relay loops of a handler that runs alone. The local variables it keeps meanwhile, the username of the connection and the
  command of its request among them, are the record \<open>socks_job\<close>. The pool
  is set before the server listens, so a handler puts back into the pool it took from.

  Each of these is one step. A step works on the handler's own connection, on the pool or on the
  stream manager under their locks, or on the circuit the handler holds; what other goroutines do
  to that circuit while OpenStream or a resolution waits for a cell is \<open>se_circuitEnv\<close>.
\<close>

subsection \<open>State\<close>

record 'conn Server =
  srv_address :: string
  srv_config :: SocksConfig
  srv_circuitPool :: "CircuitPool option"
  srv_circuits :: "'conn circuits"
  srv_streamMgr :: StreamManager
  srv_onionClient :: OnionClient
  srv_onionLog :: "onion_event list"
  srv_conns :: "nat \<rightharpoonup> socks_conn"
  srv_activeConns :: "nat set"
  srv_listening :: bool
  srv_shutdown :: bool

record 'conn socks_env =
  se_sha1 :: "bytes \<Rightarrow> bytes"
  se_sha256 :: "bytes \<Rightarrow> bytes"
  se_sendCell :: "'conn \<Rightarrow> (cell \<Rightarrow> bool \<times> 'conn) option"
  se_now :: time
  se_build :: "'conn circuits \<Rightarrow> nat option \<times> 'conn circuits"
  se_circuitEnv :: "'conn Circuit \<Rightarrow> 'conn Circuit"
  se_ready :: bool
  se_onionEnv :: onion_env

definition NewServerWithConfig :: "string \<Rightarrow> SocksConfig option \<Rightarrow> 'conn circuits \<Rightarrow> 'conn Server" where
  "NewServerWithConfig address cfg circuits =
     \<lparr>srv_address = address, srv_config = (case cfg of None \<Rightarrow> Socks_DefaultConfig | Some c \<Rightarrow> c),
      srv_circuitPool = None, srv_circuits = circuits, srv_streamMgr = NewStreamManager,
      srv_onionClient = NewOnionClient, srv_onionLog = [], srv_conns = Map.empty, srv_activeConns = {},
      srv_listening = False, srv_shutdown = False\<rparr>"

definition NewServer :: "string \<Rightarrow> 'conn circuits \<Rightarrow> 'conn Server" where
  "NewServer address circuits = NewServerWithConfig address None circuits"

definition SetCircuitPool :: "CircuitPool option \<Rightarrow> 'conn Server \<Rightarrow> 'conn Server" where
  "SetCircuitPool pool s = s\<lparr>srv_circuitPool := pool\<rparr>"

definition Socks_Address :: "'conn Server \<Rightarrow> string" where
  "Socks_Address s = srv_address s"

definition set_conn :: "nat \<Rightarrow> socks_conn \<Rightarrow> 'conn Server \<Rightarrow> 'conn Server" where
  "set_conn i c s = s\<lparr>srv_conns := (srv_conns s)(i \<mapsto> c)\<rparr>"

definition close_conn :: "nat \<Rightarrow> 'conn Server \<Rightarrow> 'conn Server" where
  "close_conn i s = s\<lparr>srv_conns := (srv_conns s)(i := map_option (sk_closed_update (\<lambda>_. True)) (srv_conns s i))\<rparr>"

text \<open>An operation of a circuit of the heap; None when the reference is to nothing.\<close>

definition on_circuit :: "nat \<Rightarrow> ('conn Circuit \<Rightarrow> 'a \<times> 'conn Circuit) \<Rightarrow> 'conn Server \<Rightarrow> 'a option \<times> 'conn Server" where
  "on_circuit r f s =
     (case srv_circuits s r of
        None \<Rightarrow> (None, s)
      | Some c \<Rightarrow> (case f c of (x, c') \<Rightarrow> (Some x, s\<lparr>srv_circuits := (srv_circuits s)(r \<mapsto> c')\<rparr>)))"

text \<open>What is left of a handler before its relay loops: a resolution, the stream, its opening.\<close>

datatype socks_todo =
    Idle
  | ToResolve string
  | ToResolvePTR bytes
  | ToCreate string string
  | ToOpen string u16 string

record socks_job =
  jb_circ :: "nat option"
  jb_username :: string
  jb_cmd :: byte
  jb_todo :: socks_todo
  jb_isolationKey :: "IsolationKey option"
  jb_strm :: "u16 option"
  jb_up :: bool
  jb_down :: bool

definition no_job :: socks_job where
  "no_job = \<lparr>jb_circ = None, jb_username = [], jb_cmd = 0, jb_todo = Idle, jb_isolationKey = None, jb_strm = None, jb_up = False, jb_down = False\<rparr>"

subsection \<open>The accept loop\<close>

text \<open>
  ListenAndServe up to the start of the accept loop, given whether net.Listen succeeds. It then
  waits for its context and calls Shutdown; a second call would close a closed channel.
\<close>

definition Socks_ListenAndServe :: "bool \<Rightarrow> 'conn Server \<Rightarrow> bool \<times> 'conn Server" where
  "Socks_ListenAndServe listens s = (if \<not> listens then (False, s) else (True, s\<lparr>srv_listening := True\<rparr>))"

text \<open>One accepted connection; the result tells whether a handler was started.\<close>

definition accept_conn :: "nat \<Rightarrow> socks_conn \<Rightarrow> 'conn Server \<Rightarrow> bool \<times> 'conn Server" where
  "accept_conn i conn s =
     (let maxConns = so_MaxConnections (srv_config s) in
      if maxConns > 0 \<and> int (card (srv_activeConns s)) \<ge> maxConns
      then (False, set_conn i (conn\<lparr>sk_closed := True\<rparr>) s)
      else (True, (set_conn i conn s)\<lparr>srv_activeConns := insert i (srv_activeConns s)\<rparr>))"

definition Socks_Shutdown :: "'conn Server \<Rightarrow> 'conn Server" where
  "Socks_Shutdown s =
     (if srv_shutdown s then s
      else s\<lparr>srv_shutdown := True, srv_listening := False,
             srv_conns := (\<lambda>i. if i \<in> srv_activeConns s then map_option (sk_closed_update (\<lambda>_. True)) (srv_conns s i)
                               else srv_conns s i)\<rparr>)"

text \<open>The end of the accept loop: a failed Accept after the shutdown; before it the loop goes on.\<close>

definition accept_failed :: "'conn Server \<Rightarrow> bool" where
  "accept_failed s = srv_shutdown s"

subsection \<open>The isolation key of a connection\<close>

definition connection_key :: "(bytes \<Rightarrow> bytes) \<Rightarrow> SocksConfig \<Rightarrow> string \<Rightarrow> string \<Rightarrow> int option \<Rightarrow> IsolationKey option" where
  "connection_key sha256 cfg targetAddr username remotePort =
     (if so_IsolationLevel cfg = IsolationNone then None
      else
        let key0 = NewIsolationKey (so_IsolationLevel cfg);
            key = (case so_IsolationLevel cfg of
                     IsolationDestination \<Rightarrow> if so_IsolateDestinations cfg then WithDestination targetAddr key0 else key0
                   | IsolationCredential \<Rightarrow>
                       if so_IsolateSOCKSAuth cfg \<and> username \<noteq> [] then WithCredentials sha256 username key0 else key0
                   | IsolationPort \<Rightarrow>
                       if so_IsolateClientPort cfg then
                         (case remotePort of None \<Rightarrow> key0 | Some p \<Rightarrow> WithSourcePort (word_of_int p) key0)
                       else key0
                   | _ \<Rightarrow> key0)
        in if IsolationKey_Validate (Some key) \<noteq> None then None else Some key)"

subsection \<open>Resolution\<close>

definition reply_conn :: "nat \<Rightarrow> (socks_conn \<Rightarrow> bool \<times> socks_conn) \<Rightarrow> 'conn Server \<Rightarrow> 'conn Server" where
  "reply_conn i f s = (case srv_conns s i of None \<Rightarrow> s | Some c \<Rightarrow> set_conn i (snd (f c)) s)"

definition take_circuit ::
  "'conn socks_env \<Rightarrow> IsolationKey option \<Rightarrow> CircuitPool \<Rightarrow> 'conn Server \<Rightarrow> nat option \<times> 'conn Server" where
  "take_circuit env key p s =
     (case GetWithIsolation (se_build env) key (srv_circuits s) p of
        (r, circuits, p') \<Rightarrow> (r, s\<lparr>srv_circuits := circuits, srv_circuitPool := Some p'\<rparr>))"

text \<open>
  The two resolutions are alike up to the circuit, which they take without a key; what they then
  do on the circuit is the second definition of each.
\<close>

definition resolve_circuit :: "'conn socks_env \<Rightarrow> nat \<Rightarrow> socks_todo \<Rightarrow> 'conn Server \<Rightarrow> socks_job \<times> 'conn Server" where
  "resolve_circuit env i todo s =
     (case srv_circuitPool s of
        None \<Rightarrow> (no_job, reply_conn i (sendDNSReply replyGeneralFailure [] 0) s)
      | Some p \<Rightarrow>
          (case take_circuit env None p s of
             (None, s) \<Rightarrow> (no_job, reply_conn i (sendDNSReply replyGeneralFailure [] 0) s)
           | (Some r, s) \<Rightarrow> (no_job\<lparr>jb_circ := Some r, jb_todo := todo\<rparr>, s)))"

definition handleResolve :: "'conn socks_env \<Rightarrow> nat \<Rightarrow> string \<Rightarrow> 'conn Server \<Rightarrow> socks_job \<times> 'conn Server" where
  "handleResolve env i hostname s = resolve_circuit env i (ToResolve hostname) s"

definition finishResolve :: "'conn socks_env \<Rightarrow> nat \<Rightarrow> string \<Rightarrow> nat \<Rightarrow> 'conn Server \<Rightarrow> 'conn Server" where
  "finishResolve env i hostname r s =
     (case on_circuit r (ResolveHostname (se_sha1 env) (se_sendCell env) (se_now env) (se_circuitEnv env) (se_ready env) hostname) s of
        (Some (Inr result), s) \<Rightarrow>
          if length (dr_Addresses result) = 0 then reply_conn i (sendDNSReply replyHostUnreachable [] 0) s
          else reply_conn i (sendDNSReply replySuccess (dr_Addresses result) (dr_TTL result)) s
      | (_, s) \<Rightarrow> reply_conn i (sendDNSReply replyHostUnreachable [] 0) s)"

definition handleResolvePTR :: "'conn socks_env \<Rightarrow> nat \<Rightarrow> string \<Rightarrow> 'conn Server \<Rightarrow> socks_job \<times> 'conn Server" where
  "handleResolvePTR env i ipAddr s =
     (case net_ParseIP ipAddr of
        None \<Rightarrow> (no_job, reply_conn i (sendDNSReply replyAddressNotSupported [] 0) s)
      | Some ip \<Rightarrow> resolve_circuit env i (ToResolvePTR ip) s)"

definition finishResolvePTR :: "'conn socks_env \<Rightarrow> nat \<Rightarrow> bytes \<Rightarrow> nat \<Rightarrow> 'conn Server \<Rightarrow> 'conn Server" where
  "finishResolvePTR env i ip r s =
     (case on_circuit r (ResolveIP (se_sha1 env) (se_sendCell env) (se_now env) (se_circuitEnv env) (se_ready env) (Some ip)) s of
        (Some (Inr result), s) \<Rightarrow>
          if dr_Hostname result = [] then reply_conn i (sendDNSReply replyHostUnreachable [] 0) s
          else reply_conn i (sendDNSReplyHostname replySuccess (dr_Hostname result) (dr_TTL result)) s
      | (_, s) \<Rightarrow> reply_conn i (sendDNSReply replyHostUnreachable [] 0) s)"

subsection \<open>CONNECT\<close>

definition host_of_target :: "string \<Rightarrow> string" where
  "host_of_target targetAddr = (case before_last_colon targetAddr of None \<Rightarrow> targetAddr | Some (host, port) \<Rightarrow> host)"

definition connect_onion :: "'conn socks_env \<Rightarrow> nat \<Rightarrow> socks_conn \<Rightarrow> string \<Rightarrow> 'conn Server \<Rightarrow> 'conn Server" where
  "connect_onion env i conn host s =
     (case ParseAddress (oe_sha3 (se_onionEnv env)) host of
        Inl e \<Rightarrow> reply_conn i (sendReply replyHostUnreachable None) s
      | Inr addr \<Rightarrow>
     (case ConnectToOnionService (se_onionEnv env) addr (srv_onionClient s) (srv_onionLog s) of
        (Inl e, c, log) \<Rightarrow>
          reply_conn i (sendReply replyHostUnreachable None) (s\<lparr>srv_onionClient := c, srv_onionLog := log\<rparr>)
      | (Inr circuitID, c, log) \<Rightarrow>
          reply_conn i (sendReply replySuccess (Some (sk_localAddr conn))) (s\<lparr>srv_onionClient := c, srv_onionLog := log\<rparr>)))"

definition set_stream_state :: "u16 \<Rightarrow> stream_state \<Rightarrow> 'conn Server \<Rightarrow> 'conn Server" where
  "set_stream_state sid st s =
     s\<lparr>srv_streamMgr := (srv_streamMgr s)\<lparr>sm_streams := (sm_streams (srv_streamMgr s))
        (sid := map_option (Stream_SetState st) (sm_streams (srv_streamMgr s) sid))\<rparr>\<rparr>"

text \<open>From the target to the stream, from the stream to the relay loops, on the circuit \<open>r\<close>.\<close>

definition create_stream ::
  "'conn socks_env \<Rightarrow> nat \<Rightarrow> string \<Rightarrow> string \<Rightarrow> nat \<Rightarrow> socks_job \<Rightarrow> 'conn Server \<Rightarrow> socks_job \<times> 'conn Server" where
  "create_stream env i targetAddr localAddr r job s =
     (case SplitHostPort targetAddr of
        None \<Rightarrow> (job, reply_conn i (sendReply replyGeneralFailure None) s)
      | Some (hostStr, portStr) \<Rightarrow>
     (case sscan_uint16 portStr of
        None \<Rightarrow> (job, reply_conn i (sendReply replyGeneralFailure None) s)
      | Some port \<Rightarrow>
     (case CreateStream (se_now env) (case srv_circuits s r of None \<Rightarrow> 0 | Some c \<Rightarrow> ci_ID c) hostStr port (srv_streamMgr s) of
        (None, m) \<Rightarrow> (job, reply_conn i (sendReply replyGeneralFailure None) (s\<lparr>srv_streamMgr := m\<rparr>))
      | (Some strm, m) \<Rightarrow>
          (job\<lparr>jb_strm := Some (st_ID strm), jb_todo := ToOpen hostStr port localAddr\<rparr>,
           set_stream_state (st_ID strm) StreamConnecting (s\<lparr>srv_streamMgr := m\<rparr>)))))"

definition open_stream ::
  "'conn socks_env \<Rightarrow> nat \<Rightarrow> string \<Rightarrow> u16 \<Rightarrow> string \<Rightarrow> nat \<Rightarrow> u16 \<Rightarrow> socks_job \<Rightarrow> 'conn Server \<Rightarrow> socks_job \<times> 'conn Server" where
  "open_stream env i hostStr port localAddr r sid job s =
     (case on_circuit r (OpenStream (se_sha1 env) (se_sendCell env) (se_now env) (se_circuitEnv env) (se_ready env)
                           sid hostStr port) s of
        (Some None, s) \<Rightarrow>
          (job\<lparr>jb_up := True, jb_down := True\<rparr>,
           reply_conn i (sendReply replySuccess (Some localAddr)) (set_stream_state sid StreamConnected s))
      | (_, s) \<Rightarrow> (job, reply_conn i (sendReply replyHostUnreachable None) s))"

definition connect_circuit ::
  "'conn socks_env \<Rightarrow> nat \<Rightarrow> socks_conn \<Rightarrow> string \<Rightarrow> string \<Rightarrow> 'conn Server \<Rightarrow> socks_job \<times> 'conn Server" where
  "connect_circuit env i conn targetAddr username s =
     (let key = connection_key (se_sha256 env) (srv_config s) targetAddr username (sk_remotePort conn);
          job = no_job\<lparr>jb_username := username, jb_cmd := cmdConnect, jb_isolationKey := key\<rparr> in
      case srv_circuitPool s of
        None \<Rightarrow> (job, reply_conn i (sendReply replyGeneralFailure None) s)
      | Some p \<Rightarrow>
          (case take_circuit env key p s of
             (None, s) \<Rightarrow> (job, reply_conn i (sendReply replyGeneralFailure None) s)
           | (Some r, s) \<Rightarrow> (job\<lparr>jb_circ := Some r, jb_todo := ToCreate targetAddr (sk_localAddr conn)\<rparr>, s)))"

subsection \<open>The handler\<close>

text \<open>
  \<open>known\<close> notes the username and the command of the connection in the handler's record. The
  resolutions do not look at the username: they take their circuit without a key.
\<close>

definition dispatch ::
  "'conn socks_env \<Rightarrow> nat \<Rightarrow> socks_conn \<Rightarrow> string \<Rightarrow> requestInfo \<Rightarrow> 'conn Server \<Rightarrow> socks_job \<times> 'conn Server" where
  "dispatch env i conn username request s =
     (let cmd = ri_cmd request; targetAddr = ri_targetAddr request;
          known = (\<lambda>(job, s). (job\<lparr>jb_username := username, jb_cmd := cmd\<rparr>, s)) in
      if cmd = cmdResolve then known (handleResolve env i targetAddr s)
      else if cmd = cmdResolvePTR then known (handleResolvePTR env i targetAddr s)
      else if cmd \<noteq> cmdConnect then known (no_job, reply_conn i (sendReply replyCommandNotSupported None) s)
      else if IsOnionAddress (host_of_target targetAddr)
           then known (no_job, connect_onion env i conn (host_of_target targetAddr) s)
      else connect_circuit env i conn targetAddr username s)"

definition handle_take :: "'conn socks_env \<Rightarrow> nat \<Rightarrow> 'conn Server \<Rightarrow> socks_job \<times> 'conn Server" where
  "handle_take env i s =
     (case srv_conns s i of
        None \<Rightarrow> (no_job, s)
      | Some conn \<Rightarrow>
     if \<not> sk_deadline_ok conn then (no_job, s)
     else
     (case handshake conn of
        (Inl e, conn) \<Rightarrow> (no_job, set_conn i conn s)
      | (Inr username, conn) \<Rightarrow>
     (case readRequest (srv_config s) conn of
        (Inl e, conn) \<Rightarrow> (no_job, set_conn i conn s)
      | (Inr request, conn) \<Rightarrow> dispatch env i conn username request (set_conn i conn s))))"

text \<open>What comes next for a handler with a circuit, and the whole way of a handler that runs alone.\<close>

definition handle_next :: "'conn socks_env \<Rightarrow> nat \<Rightarrow> socks_job \<times> 'conn Server \<Rightarrow> socks_job \<times> 'conn Server" where
  "handle_next env i js =
     (case js of (job, s) \<Rightarrow>
      let job' = job\<lparr>jb_todo := Idle\<rparr> in
      (case (jb_todo job, jb_circ job, jb_strm job) of
         (ToResolve hostname, Some r, _) \<Rightarrow> (job', finishResolve env i hostname r s)
       | (ToResolvePTR ip, Some r, _) \<Rightarrow> (job', finishResolvePTR env i ip r s)
       | (ToCreate targetAddr localAddr, Some r, _) \<Rightarrow> create_stream env i targetAddr localAddr r job' s
       | (ToOpen hostStr port localAddr, Some r, Some sid) \<Rightarrow> open_stream env i hostStr port localAddr r sid job' s
       | _ \<Rightarrow> (job', s)))"

definition handle_begin :: "'conn socks_env \<Rightarrow> nat \<Rightarrow> 'conn Server \<Rightarrow> socks_job \<times> 'conn Server" where
  "handle_begin env i s = handle_next env i (handle_next env i (handle_take env i s))"

text \<open>
  One round of the goroutine from the client to the circuit; Read returns the next \<open>n\<close> bytes,
  at most 498, or fails at the end of the input or on a closed connection.
\<close>

definition relay_up :: "'conn socks_env \<Rightarrow> nat \<Rightarrow> nat \<Rightarrow> socks_job \<Rightarrow> 'conn Server \<Rightarrow> socks_job \<times> 'conn Server" where
  "relay_up env n i job s =
     (case (srv_conns s i, jb_circ job, jb_strm job) of
        (Some conn, Some r, Some sid) \<Rightarrow>
          if sk_closed conn \<or> sk_in conn = [] then
            (job\<lparr>jb_up := False\<rparr>, snd (on_circuit r (EndStream (se_sha1 env) (se_sendCell env) (se_now env) sid 6) s))
          else
            let k = min n 498; data = take k (sk_in conn); s = set_conn i (conn\<lparr>sk_in := drop k (sk_in conn)\<rparr>) s in
            if data = [] then (job, s)
            else
              (case on_circuit r (WriteToStream (se_sha1 env) (se_sendCell env) (se_now env) sid data) s of
                 (Some None, s) \<Rightarrow> (job, s)
               | (_, s) \<Rightarrow> (job\<lparr>jb_up := False\<rparr>, s))
      | _ \<Rightarrow> (job, s))"

definition relay_down :: "'conn socks_env \<Rightarrow> nat \<Rightarrow> socks_job \<Rightarrow> 'conn Server \<Rightarrow> socks_job \<times> 'conn Server" where
  "relay_down env i job s =
     (case (srv_conns s i, jb_circ job, jb_strm job) of
        (Some conn, Some r, Some sid) \<Rightarrow>
          (case on_circuit r (ReadFromStream sid) s of
             (Some (ReadData data), s) \<Rightarrow>
               (let (ok, conn) = (if sk_closed conn then (False, conn) else sk_write data conn);
                    s = set_conn i conn s in
                if ok then (job, s)
                else (job\<lparr>jb_down := False\<rparr>,
                      snd (on_circuit r (EndStream (se_sha1 env) (se_sendCell env) (se_now env) sid 6) s)))
           | (_, s) \<Rightarrow> (job\<lparr>jb_down := False\<rparr>, close_conn i s))
      | _ \<Rightarrow> (job, s))"

text \<open>The deferred calls, last deferred first: RemoveStream, the pool's Put, Close and untracking.\<close>

definition handle_end :: "nat \<Rightarrow> socks_job \<Rightarrow> 'conn Server \<Rightarrow> 'conn Server" where
  "handle_end i job s =
     (let s = (case jb_strm job of None \<Rightarrow> s | Some sid \<Rightarrow> s\<lparr>srv_streamMgr := snd (RemoveStream sid (srv_streamMgr s))\<rparr>);
          s = (case (jb_circ job, srv_circuitPool s) of
                 (Some r, Some p) \<Rightarrow> s\<lparr>srv_circuitPool := Some (CircuitPool_Put (Some r) (srv_circuits s) p)\<rparr>
               | _ \<Rightarrow> s)
      in (close_conn i s)\<lparr>srv_activeConns := srv_activeConns s - {i}\<rparr>)"

datatype relay_side = Up nat | Down

definition relay_round :: "'conn socks_env \<Rightarrow> nat \<Rightarrow> relay_side \<Rightarrow> socks_job \<times> 'conn Server \<Rightarrow> socks_job \<times> 'conn Server" where
  "relay_round env i side js =
     (case (js, side) of
        ((job, s), Up n) \<Rightarrow> if jb_up job then relay_up env n i job s else (job, s)
      | ((job, s), Down) \<Rightarrow> if jb_down job then relay_down env i job s else (job, s))"

text \<open>A handler that runs alone, with the given rounds of its relay goroutines.\<close>

definition handleConnection :: "'conn socks_env \<Rightarrow> nat \<Rightarrow> relay_side list \<Rightarrow> 'conn Server \<Rightarrow> 'conn Server" where
  "handleConnection env i rounds s =
     (let (job, s) = fold (relay_round env i) rounds (handle_begin env i s) in handle_end i job s)"

subsection \<open>What a connection gets\<close>

text \<open>
  The start of a connection: a greeting that offers a method the server takes, with the
  username and password when it offers that method, which the server prefers; what the server
  answers, and the username it goes on with.
\<close>

definition hello :: "bytes \<Rightarrow> bytes \<Rightarrow> bytes \<Rightarrow> bytes" where
  "hello methods user pass = greeting methods @ (if authPassword \<in> set methods then auth_message user pass else [])"

definition hello_reply :: "bytes \<Rightarrow> bytes" where
  "hello_reply methods = (if authPassword \<in> set methods then [5, 2, 1, 0] else [5, 0])"

definition hello_user :: "bytes \<Rightarrow> bytes \<Rightarrow> string" where
  "hello_user methods user = (if authPassword \<in> set methods then string_of_bytes user else [])"

definition hello_ok :: "bytes \<Rightarrow> bytes \<Rightarrow> bytes \<Rightarrow> bool" where
  "hello_ok methods user pass \<longleftrightarrow> length methods < 256 \<and> length user < 256 \<and> length pass < 256
     \<and> (authPassword \<in> set methods \<or> authNone \<in> set methods)"

lemma handshake_hello:
  assumes "wr_room (sk_out c) = None" "hello_ok methods user pass" "sk_in c = hello methods user pass @ rest"
  shows "handshake c = (Inr (hello_user methods user), exchanged rest (hello_reply methods) c)"
  unfolding handshake_iff [OF assms(1)] using assms(2,3)
  by (intro exI [of _ methods] exI [of _ rest])
     (auto simp: hello_def hello_reply_def hello_user_def hello_ok_def split: if_splits)

text \<open>The start of a connection whose greeting and request are well formed.\<close>

lemma handle_take_request:
  assumes "srv_conns s i = Some conn" "sk_deadline_ok conn" "wr_room (sk_out conn) = None"
    and ok: "hello_ok methods user pass"
    and input: "sk_in conn = hello methods user pass @ socks_request cmd rsv a port @ rest" "wf_socks_addr a"
    and cmd: "cmd = cmdConnect \<or> (cmd = cmdResolve \<or> cmd = cmdResolvePTR) \<and> so_EnableDNSResolution (srv_config s)"
  shows "handle_take env i s =
    dispatch env i (exchanged rest (hello_reply methods) conn) (hello_user methods user)
      \<lparr>ri_cmd = cmd, ri_targetAddr = (if cmd = cmdConnect then socks_addr_text a @ '':'' @ dec_of_nat (unat port)
                                       else socks_addr_text a)\<rparr>
      (set_conn i (exchanged rest (hello_reply methods) conn) s)"
proof -
  let ?c1 = "exchanged (socks_request cmd rsv a port @ rest) (hello_reply methods) conn"
  have "handshake conn = (Inr (hello_user methods user), ?c1)"
    using handshake_hello [OF assms(3) ok input(1)] .
  moreover have "readRequest (srv_config s) ?c1 = (Inr \<lparr>ri_cmd = cmd,
      ri_targetAddr = (if cmd = cmdConnect then socks_addr_text a @ '':'' @ dec_of_nat (unat port) else socks_addr_text a)\<rparr>,
      exchanged rest (hello_reply methods) conn)"
    unfolding read_request_iff using input(2) cmd
    by (intro exI [of _ cmd] exI [of _ rsv] exI [of _ a] exI [of _ port] exI [of _ rest]) simp
  ultimately show ?thesis using assms(1,2) by (simp add: handle_take_def)
qed

lemma no_onion_suffix: "CHR ''.'' \<notin> set h \<Longrightarrow> \<not> IsOnionAddress h"
proof
  assume h: "CHR ''.'' \<notin> set h" and "IsOnionAddress h"
  then obtain n where "drop n h = ''.onion''" by (auto simp: IsOnionAddress_def has_suffix_def V3Suffix_def)
  then have "CHR ''.'' \<in> set (drop n h)" by simp
  with h show False by (auto dest: in_set_dropD)
qed

lemma host_of_target_port: "host_of_target (h @ '':'' @ dec_of_nat n) = h"
  using last_colon [OF no_colon_dec, of h n] by (simp add: host_of_target_def)

lemma take_circuit_frame:
  "take_circuit env key p s = (r, s') \<Longrightarrow> srv_conns s' = srv_conns s \<and> srv_config s' = srv_config s
     \<and> srv_activeConns s' = srv_activeConns s \<and> srv_streamMgr s' = srv_streamMgr s"
  by (auto simp: take_circuit_def split: prod.splits)

lemma reply_conn_at: "srv_conns s i = Some c \<Longrightarrow> wr_room (sk_out c) = None \<Longrightarrow>
    srv_conns (reply_conn i (sk_write bs) s) i = Some (exchanged (sk_in c) bs c)"
  by (simp add: reply_conn_def set_conn_def)

text \<open>
  C22: CONNECT to an IPv6 address that is not an IPv4 address in IPv6 form never works: whatever
  the pool, the circuits and the environment, and whether the client greets with a username and
  password or without, the handler answers the well-formed request with a general failure and
  opens no stream. The client reads what it is sent.
\<close>

theorem ipv6_connect_refused:
  assumes conn: "srv_conns s i = Some conn" "sk_deadline_ok conn" "wr_room (sk_out conn) = None"
    and ok: "hello_ok methods user pass"
    and input: "sk_in conn = hello methods user pass @ socks_request cmdConnect rsv (AddrV6 ip) port @ rest"
    and ip: "length ip = 16" "To4 ip = None"
  shows "case handle_begin env i s of (job, s') \<Rightarrow>
      srv_conns s' i = Some (exchanged rest (hello_reply methods @ [5, 1, 0, 1, 0, 0, 0, 0, 0, 0]) conn)
      \<and> jb_strm job = None \<and> \<not> jb_up job \<and> \<not> jb_down job \<and> srv_streamMgr s' = srv_streamMgr s"
proof -
  let ?h = "net_IP_String ip" and ?c = "exchanged rest (hello_reply methods) conn"
  let ?t = "?h @ '':'' @ dec_of_nat (unat port)" and ?s = "set_conn i (exchanged rest (hello_reply methods) conn) s"
  have "?h = v6_string (v6_groups ip)" using ip by (simp add: net_IP_String_def)
  then have "\<not> IsOnionAddress ?h" using v6_string_chars no_onion_suffix by metis
  then have "handle_take env i s = connect_circuit env i ?c ?t (hello_user methods user) ?s"
    using handle_take_request [OF conn ok input, of env] ip
    by (simp add: wf_socks_addr_def socks_addr_text_def dispatch_def cmdConnect_def cmdResolve_def cmdResolvePTR_def
        host_of_target_port [unfolded append_Cons append_Nil])
  moreover have "SplitHostPort ?t = None" using split_v6 [OF ip] .
  moreover have "srv_conns (reply_conn i (sendReply replyGeneralFailure None) s1) i
      = Some (exchanged rest (hello_reply methods @ [5, 1, 0, 1, 0, 0, 0, 0, 0, 0]) conn)"
    if "srv_conns s1 = srv_conns ?s" for s1 :: "'a Server"
  proof -
    have "srv_conns s1 i = Some ?c" using that by (simp add: set_conn_def)
    from reply_conn_at [OF this, of "reply_bytes replyGeneralFailure None"] conn(3) show ?thesis
      by (simp add: sendReply_def [abs_def] reply_bytes_def socks_consts numeral_eq_Suc)
  qed
  moreover have "srv_streamMgr (reply_conn i f s1) = srv_streamMgr s1" for f and s1 :: "'a Server"
    by (simp add: reply_conn_def set_conn_def split: option.splits)
  ultimately show ?thesis
    by (auto simp: handle_begin_def handle_next_def create_stream_def connect_circuit_def Let_def no_job_def set_conn_def dest!: take_circuit_frame
        split: option.splits prod.splits)
qed

definition example_conn :: "bytes \<Rightarrow> socks_conn" where
  "example_conn input = \<lparr>sk_in = input, sk_out = new_buffer, sk_closed = False, sk_deadline_ok = True,
     sk_remotePort = Some 4000, sk_localAddr = ''127.0.0.1:9050''\<rparr>"

text \<open>A hash of 32 bytes for the examples; it tells short names apart.\<close>

definition padded_hash :: "bytes \<Rightarrow> bytes" where
  "padded_hash x = take 32 (x @ zeros 32)"

lemma padded_hash_length: "length (padded_hash x) = 32"
  by (simp add: padded_hash_def)

definition example_socks_env :: "unit socks_env" where
  "example_socks_env = \<lparr>se_sha1 = (\<lambda>x. zeros 20), se_sha256 = padded_hash, se_sendCell = (\<lambda>c. None), se_now = 0,
     se_build = test_build, se_circuitEnv = (\<lambda>c. c), se_ready = True, se_onionEnv = example_env\<rparr>"

definition example_server :: "bytes \<Rightarrow> unit Server" where
  "example_server input = set_conn 1 (example_conn input) (SetCircuitPool (Some (NewCircuitPool None)) (NewServer ''x'' Map.empty))"

theorem ipv6_connect_refused_witness:
  "let input = hello [0, 2] [97, 110, 110] [7] @ socks_request cmdConnect 0 (AddrV6 (zeros 15 @ [1])) 80 @ [9] in
   case handle_begin example_socks_env 1 (example_server input) of (job, s') \<Rightarrow>
     srv_conns s' 1 = Some (exchanged [9] ([5, 2, 1, 0] @ [5, 1, 0, 1, 0, 0, 0, 0, 0, 0]) (example_conn input))
     \<and> jb_strm job = None \<and> \<not> jb_up job \<and> \<not> jb_down job \<and> srv_streamMgr s' = srv_streamMgr (example_server input)"
proof -
  have ip: "To4 (zeros 15 @ [1]) = None" and reply: "[5, 2, 1, 0] = hello_reply [0, 2]"
    and ok: "hello_ok [0, 2] [97, 110, 110] [7]" by code_simp+
  then show ?thesis
    unfolding Let_def reply
    by (intro ipv6_connect_refused [OF _ _ _ ok, where rsv = 0 and ip = "zeros 15 @ [1]" and port = 80])
       (simp_all add: example_server_def set_conn_def example_conn_def new_buffer_def)
qed



lemma credential_key:
  assumes "\<And>x. length (sha256 x) = 32" "so_IsolationLevel cfg = IsolationCredential" "so_IsolateSOCKSAuth cfg"
  shows "connection_key sha256 cfg t u p = (if u = [] then None else
    Some ((NewIsolationKey IsolationCredential)\<lparr>ik_Credentials := hex_encode (sha256 (bytes_of_string u))\<rparr>))"
proof -
  have "sha256 x \<noteq> []" for x using assms(1) [of x] by auto
  with assms(2,3) hex_encode_nonempty show ?thesis
    by (simp add: connection_key_def Let_def WithCredentials_def IsolationKey_Validate_def NewIsolationKey_def)
qed

lemma credential_pools:
  assumes "\<And>x. length (sha256 x) = 32" "so_IsolationLevel cfg = IsolationCredential" "so_IsolateSOCKSAuth cfg" "u \<noteq> []"
  shows "isolating (connection_key sha256 cfg t u p)"
    "IsolationKey_Key (connection_key sha256 cfg t u p) = IsolationKey_Key (connection_key sha256 cfg t' v p')
      \<longleftrightarrow> v \<noteq> [] \<and> sha256 (bytes_of_string u) = sha256 (bytes_of_string v)"
proof -
  have "hex_encode (sha256 x) \<noteq> []" for x using assms(1) [of x] hex_encode_nonempty by force
  then show "isolating (connection_key sha256 cfg t u p)"
    "IsolationKey_Key (connection_key sha256 cfg t u p) = IsolationKey_Key (connection_key sha256 cfg t' v p')
      \<longleftrightarrow> v \<noteq> [] \<and> sha256 (bytes_of_string u) = sha256 (bytes_of_string v)"
    using assms(4) unfolding credential_key [of sha256, OF assms(1-3)]
    by (simp_all add: isolating_def IsolationKey_Key_def NewIsolationKey_def hex_encode_inj)
qed

text \<open>
  The isolation key of a connection under credential isolation: a username that is not
  empty is hashed into the key, so names with different digests have different keys; connections
  without a username, and every connection when the level is set to sessions, fall back to no
  isolation and share the circuits of the pool.
\<close>

lemma connection_key_separates:
  assumes sha: "\<And>x. length (sha256 x) = 32"
    and cfg: "so_IsolationLevel cfg = IsolationCredential" "so_IsolateSOCKSAuth cfg"
  shows "(connection_key sha256 cfg t u p = None \<longleftrightarrow> u = [])
    \<and> (u \<noteq> [] \<longrightarrow> isolating (connection_key sha256 cfg t u p)
        \<and> (IsolationKey_Key (connection_key sha256 cfg t u p) = IsolationKey_Key (connection_key sha256 cfg t' v p')
            \<longleftrightarrow> v \<noteq> [] \<and> sha256 (bytes_of_string u) = sha256 (bytes_of_string v)))
    \<and> connection_key sha256 (cfg\<lparr>so_IsolationLevel := IsolationSession\<rparr>) t u p = None"
proof -
  have "connection_key sha256 (cfg\<lparr>so_IsolationLevel := IsolationSession\<rparr>) t u p = None"
    by (simp add: connection_key_def Let_def IsolationKey_Validate_def NewIsolationKey_def)
  then show ?thesis
    using credential_pools [of sha256, OF sha cfg] credential_key [of sha256, OF sha cfg] by simp
qed

text \<open>
  RESOLVE takes its circuit without a key: under credential isolation Ann's and Bob's
  resolutions are served by the same circuit, one after the other.
\<close>

definition resolving_server :: "unit Server" where
  "resolving_server =
     (let cfg = Socks_DefaultConfig\<lparr>so_IsolationLevel := IsolationCredential, so_IsolateSOCKSAuth := True\<rparr>;
          req = socks_request cmdResolve 0 (AddrDomain [104]) 0
      in set_conn 1 (example_conn (hello [2] [97, 110, 110] [] @ req))
           (set_conn 2 (example_conn (hello [2] [98, 111, 98] [] @ req))
             (SetCircuitPool (Some (NewCircuitPool None)) (NewServerWithConfig ''x'' (Some cfg) Map.empty))))"

lemma resolutions_share_a_circuit:
  "case handle_begin example_socks_env 1 resolving_server of (ann, s1) \<Rightarrow>
     (case handle_begin example_socks_env 2 (handle_end 1 ann s1) of (bob, s2) \<Rightarrow>
        jb_username ann = ''ann'' \<and> jb_username bob = ''bob'' \<and> jb_cmd ann = cmdResolve \<and> jb_cmd bob = cmdResolve
        \<and> jb_circ ann = Some 0 \<and> jb_circ bob = Some 0)"
  by code_simp

end
