(* ===== verification/SocksRun.thy ===== *)
theory SocksRun
  imports SocksServer
begin

section \<open>pkg/socks/socks.go: the server over interleaved connections\<close>

text \<open>
  All handlers, the accept loop, the prebuilding loop of the pool and the circuits' own activity
  as one transition system. Over every run the connection limit holds, no circuit is in the
  hands of two connections at once, and with credential isolation the circuit of one user's
  CONNECT is never given to another user or to a resolution. A handler's way to its relay loops
  is cut into steps at the pool's Get, the creation of the stream and its opening, so other
  handlers run in between.
\<close>

subsection \<open>A circuit has one holder\<close>

text \<open>
  The pool lists every circuit once and none that a client holds. Together with the pool's own
  invariant a circuit is on one list only, the one of its isolation key.
\<close>

definition pool_excl :: "CircuitPool \<Rightarrow> nat set \<Rightarrow> bool" where
  "pool_excl p held \<longleftrightarrow>
     distinct (cp_circuits p) \<and> set (cp_circuits p) \<inter> held = {}
     \<and> (\<forall>k rs. cp_isolated p k = Some rs \<longrightarrow> distinct rs \<and> set rs \<inter> held = {})"

lemma pool_refs_simps:
  "r \<in> pool_refs p \<longleftrightarrow> r \<in> set (cp_circuits p) \<or> (\<exists>k rs. cp_isolated p k = Some rs \<and> r \<in> set rs)"
  by (auto simp: pool_refs_def ran_def)

lemma pool_refs_dom: "pool_ok heap p \<Longrightarrow> r \<in> pool_refs p \<Longrightarrow> heap r \<noteq> None"
  by (fastforce simp: pool_refs_simps pool_ok_def has_key_def)

lemma take_open_split: "take_open heap rs = (Some r, rest) \<Longrightarrow> \<exists>skipped. rs = skipped @ r # rest"
proof (induction rs)
  case (Cons a rs)
  show ?case
  proof (cases "is_open heap a")
    case True
    with Cons.prems show ?thesis by (intro exI [of _ "[]"]) simp
  next
    case False
    with Cons obtain skipped where "rs = skipped @ r # rest" by auto
    then show ?thesis by (intro exI [of _ "a # skipped"]) simp
  qed
qed simp

lemma pool_list_key:
  assumes "pool_ok heap p" "r \<in> set (cp_circuits p)"
  shows "has_key heap r None"
  using assms by (simp add: pool_ok_def)

lemma pool_isolated_key:
  assumes "pool_ok heap p" "cp_isolated p k = Some rs" "r \<in> set rs" "heap r = Some c"
  shows "isolating (ci_IsolationKey c) \<and> IsolationKey_Key (ci_IsolationKey c) = k"
  using assms by (fastforce simp: pool_ok_def has_key_def)
lemma excl_take_main:
  assumes "pool_ok heap p" "pool_excl p held" "cp_circuits p = skipped @ r # rest"
  shows "pool_excl (p\<lparr>cp_circuits := rest\<rparr>) (insert r held)"
proof -
  have "has_key heap r None" using assms by (intro pool_list_key) auto
  then obtain c where c: "heap r = Some c" "\<not> isolating (ci_IsolationKey c)" by (auto simp: has_key_def isolating_def)
  have "r \<notin> set rs" if "cp_isolated p k = Some rs" for k rs
    using pool_isolated_key [OF assms(1) that _ c(1)] c(2) by blast
  moreover have "r \<notin> set rest" "distinct rest" "set rest \<inter> held = {}" using assms(2,3) by (auto simp: pool_excl_def)
  ultimately show ?thesis using assms(2) unfolding pool_excl_def by simp
qed

lemma excl_take_isolated:
  assumes "pool_ok heap p" "pool_excl p held" "cp_isolated p k = Some (skipped @ r # rest)"
  shows "pool_excl (p\<lparr>cp_isolated := (cp_isolated p)(k \<mapsto> rest)\<rparr>) (insert r held)"
proof -
  obtain c where c: "heap r = Some c" using assms(1,3) by (fastforce simp: pool_ok_def)
  note key = pool_isolated_key [OF assms(1) _ _ c]
  have k: "isolating (ci_IsolationKey c)" "IsolationKey_Key (ci_IsolationKey c) = k" using key [OF assms(3)] by auto
  have "r \<notin> set rs" if "cp_isolated p k' = Some rs" "k' \<noteq> k" for k' rs
    using key [OF that(1)] that(2) k by blast
  moreover have "r \<notin> set (cp_circuits p)"
    using pool_list_key [OF assms(1)] k c by (fastforce simp: has_key_def isolating_def)
  moreover have "r \<notin> set rest" "distinct rest" "set rest \<inter> held = {}"
    using assms(2,3) unfolding pool_excl_def by fastforce+
  ultimately show ?thesis using assms(2) unfolding pool_excl_def by simp
qed

lemma excl_drop_main: "pool_excl p held \<Longrightarrow> pool_excl (p\<lparr>cp_circuits := []\<rparr>) held"
  by (simp add: pool_excl_def)

lemma excl_drop_isolated: "pool_excl p held \<Longrightarrow> pool_excl (p\<lparr>cp_isolated := (cp_isolated p)(k \<mapsto> [])\<rparr>) held"
  by (simp add: pool_excl_def)

lemma excl_hold: "pool_excl p held \<Longrightarrow> r \<notin> pool_refs p \<Longrightarrow> pool_excl p (insert r held)"
  unfolding pool_excl_def pool_refs_simps by simp

lemma excl_mono: "pool_excl p held \<Longrightarrow> held' \<subseteq> held \<Longrightarrow> pool_excl p held'"
  unfolding pool_excl_def by blast

lemma excl_unheld: "pool_excl p held \<Longrightarrow> r \<in> pool_refs p \<Longrightarrow> r \<notin> held"
  unfolding pool_excl_def pool_refs_simps by blast

text \<open>Get hands out a circuit that nobody holds.\<close>

lemma Get_excl:
  assumes ok: "pool_ok heap p" and build: "builder_ok build" and ex: "pool_excl p held" "held \<subseteq> dom heap"
    and get: "GetWithIsolation build key heap p = (fr, heap1, p1)"
  shows "case fr of None \<Rightarrow> pool_excl p1 held | Some r \<Rightarrow> r \<notin> held \<and> pool_excl p1 (insert r held)"
proof -
  define rs where "rs = (if isolating key
      then (case cp_isolated p (IsolationKey_Key key) of None \<Rightarrow> [] | Some rs \<Rightarrow> rs) else cp_circuits p)"
  obtain found rest where t: "take_open heap rs = (found, rest)" by (cases "take_open heap rs")
  define p' where "p' = (if rs = [] then p
      else if isolating key then p\<lparr>cp_isolated := (cp_isolated p)(IsolationKey_Key key \<mapsto> rest)\<rparr>
      else p\<lparr>cp_circuits := rest\<rparr>)"
  show ?thesis
  proof (cases found)
    case (Some r)
    with get t have g: "fr = Some r \<and> p1 = p'" by (simp add: GetWithIsolation_def rs_def [symmetric] p'_def Let_def)
    obtain sk where s: "rs = sk @ r # rest" using take_open_split t Some by blast
    have iso: "cp_isolated p (IsolationKey_Key key) = Some rs" if "isolating key"
      using that s by (cases "cp_isolated p (IsolationKey_Key key)") (simp_all add: rs_def)
    have "r \<in> set rs" using s by simp
    moreover have "\<not> isolating key \<Longrightarrow> rs = cp_circuits p" by (simp add: rs_def)
    ultimately have "r \<in> pool_refs p" unfolding pool_refs_simps using iso by metis
    then have "r \<notin> held" by (rule excl_unheld [OF ex(1)])
    moreover have "pool_excl p' (insert r held)"
    proof (cases "isolating key")
      case True
      with s excl_take_isolated [OF ok ex(1) iso [OF True, unfolded s]] show ?thesis by (simp add: p'_def)
    next
      case False
      with s have "cp_circuits p = sk @ r # rest" by (simp add: rs_def)
      from excl_take_main [OF ok ex(1) this] s False show ?thesis by (simp add: p'_def)
    qed
    ultimately show ?thesis using g by simp
  next
    case None
    then have ex': "pool_excl p' held"
      using take_open_none [of heap rs rest] t ex(1) excl_drop_main excl_drop_isolated by (simp add: p'_def)
    have sub: "pool_refs p' \<subseteq> pool_refs p"
      using take_open_none [of heap rs rest] t None by (auto simp: p'_def pool_refs_simps split: if_splits)
    obtain b h where b: "build heap = (b, h)" by (cases "build heap")
    note fresh = builder_fresh [OF build b]
    have g: "fr = b \<and> p1 = p'"
      using None get t b by (cases b) (simp_all add: GetWithIsolation_def rs_def [symmetric] p'_def Let_def)
    show ?thesis
    proof (cases b)
      case (Some r)
      with fresh have "heap r = None" by blast
      then have "r \<notin> held" "r \<notin> pool_refs p'" using ex(2) sub pool_refs_dom [OF ok, of r] by auto
      with ex' Some g show ?thesis by (simp add: excl_hold)
    qed (use g ex' in simp)
  qed
qed

lemma Put_excl:
  assumes ex: "pool_excl p (insert r held)" "r \<notin> held"
  shows "pool_excl (CircuitPool_Put (Some r) heap p) held"
proof (cases "heap r")
  case None
  then show ?thesis using excl_mono [OF ex(1), of held] by (auto simp: CircuitPool_Put_def)
next
  case (Some c)
  have ex': "pool_excl p held" using excl_mono [OF ex(1)] by blast
  then have "pool_excl (p\<lparr>cp_circuits := cp_circuits p @ [r]\<rparr>) held"
    using ex by (simp add: pool_excl_def)
  moreover have "pool_excl (p\<lparr>cp_isolated := (cp_isolated p)(k \<mapsto> (case cp_isolated p k of None \<Rightarrow> [] | Some rs \<Rightarrow> rs) @ [r])\<rparr>) held" for k
    using ex' ex by (cases "cp_isolated p k") (simp_all add: pool_excl_def)
  ultimately show ?thesis using Some ex' by (simp add: CircuitPool_Put_def Let_def)
qed

lemma prebuild_excl:
  assumes "pool_ok heap p" "builder_ok build" "pool_excl p held" "held \<subseteq> dom heap" "prebuild n build heap p = (heap1, p1)"
  shows "pool_excl p1 held"
  using assms
proof (induction n arbitrary: heap p)
  case (Suc n)
  obtain b h where b: "build heap = (b, h)" by (cases "build heap")
  note fresh = builder_fresh [OF Suc.prems(2) b]
  have held: "held \<subseteq> dom h" using Suc.prems(4) fresh unfolding keys_kept_def by fastforce
  have ok: "pool_ok h p" using pool_ok_kept [OF Suc.prems(1)] fresh by blast
  show ?case
  proof (cases b)
    case None
    with Suc b ok held show ?thesis by simp
  next
    case (Some r)
    with fresh have "heap r = None" by blast
    then have r: "r \<notin> held" "r \<notin> pool_refs p" using Suc.prems(4) pool_refs_dom [OF Suc.prems(1), of r] by auto
    then have "pool_excl (CircuitPool_Put (Some r) h p) held"
      using Put_excl [OF excl_hold] Suc.prems(3) by blast
    with Suc.IH [OF Put_ok [OF ok] Suc.prems(2) this held] Suc.prems(5) Some b show ?thesis by simp
  qed
qed simp

lemma ensure_excl:
  "pool_ok heap p \<Longrightarrow> builder_ok build \<Longrightarrow> pool_excl p held \<Longrightarrow> held \<subseteq> dom heap
    \<Longrightarrow> ensureMinCircuits build heap p = (heap1, p1) \<Longrightarrow> pool_excl p1 held"
  using prebuild_excl [of heap p build held _ heap1 p1] by (auto simp: ensureMinCircuits_def Let_def split: if_splits)

subsection \<open>What the handler changes\<close>

text \<open>Circuit operations leave the isolation key of their circuit alone.\<close>

definition keeps_key :: "('conn Circuit \<Rightarrow> 'a \<times> 'conn Circuit) \<Rightarrow> bool" where
  "keeps_key f \<longleftrightarrow> (\<forall>c. ci_IsolationKey (snd (f c)) = ci_IsolationKey c)"

lemma send_keeps_key: "Circuit.SendRelayCell sha1 sendCell now rc c = (e, c') \<Longrightarrow> ci_IsolationKey c' = ci_IsolationKey c"
  by (auto simp: Circuit.SendRelayCell_def decrementPackageWindow_def encryptForward_def RecordActivity_def Let_def
      split: if_splits option.splits sum.splits prod.splits bool.splits)

lemma receive_keeps_key: "Circuit.ReceiveRelayCell ready c = (e, c') \<Longrightarrow> ci_IsolationKey c' = ci_IsolationKey c"
  by (auto simp: Circuit.ReceiveRelayCell_def split: list.splits if_splits)

definition env_ok_key :: "(bytes \<Rightarrow> bytes) \<Rightarrow> 'conn socks_env \<Rightarrow> bool" where
  "env_ok_key sha256 env \<longleftrightarrow> se_sha256 env = sha256 \<and> builder_ok (se_build env)
     \<and> (\<forall>c. ci_IsolationKey (se_circuitEnv env c) = ci_IsolationKey c)"

lemma resolve_keeps_key:
  assumes env: "\<And>c. ci_IsolationKey (env c) = ci_IsolationKey c"
  shows "ci_IsolationKey (snd (resolve_exchange sha1 sendCell now env ready payload c)) = ci_IsolationKey c"
proof (cases "Circuit.SendRelayCell sha1 sendCell now (NewRelayCell 0 RelayResolve payload) c")
  case 1: (Pair e c1)
  show ?thesis
  proof (cases "Circuit.ReceiveRelayCell ready (env c1)")
    case (Pair x c2)
    with receive_keeps_key [OF Pair] send_keeps_key [OF 1] 1 env show ?thesis
      by (simp add: resolve_exchange_def Let_def split: option.splits sum.splits)
  qed
qed

lemma open_keeps_key:
  assumes env: "\<And>c. ci_IsolationKey (env c) = ci_IsolationKey c"
  shows "keeps_key (OpenStream sha1 sendCell now env ready sid target port)"
  unfolding keeps_key_def
proof
  fix c
  let ?rc = "NewRelayCell sid RelayBegin (bytes_of_string (target @ '':'' @ dec_of_nat (unat port)) @ [0])"
  show "ci_IsolationKey (snd (OpenStream sha1 sendCell now env ready sid target port c)) = ci_IsolationKey c"
  proof (cases "Circuit.SendRelayCell sha1 sendCell now ?rc c")
    case 1: (Pair e c1)
    show ?thesis
    proof (cases "Circuit.ReceiveRelayCell ready (env c1)")
      case (Pair x c2)
      with receive_keeps_key [OF Pair] send_keeps_key [OF 1] 1 env show ?thesis
        by (simp add: OpenStream_def Let_def split: option.splits sum.splits)
    qed
  qed
qed

lemma circuit_ops_keep_key:
  "keeps_key (WriteToStream sha1 sendCell now sid data)" "keeps_key (EndStream sha1 sendCell now sid reason)"
  "keeps_key (ReadFromStream sid)"
proof -
  have snd_key: "ci_IsolationKey (snd (Circuit.SendRelayCell sha1 sendCell now rc c)) = ci_IsolationKey c" for rc c
    by (cases "Circuit.SendRelayCell sha1 sendCell now rc c") (simp add: send_keeps_key)
  show "keeps_key (WriteToStream sha1 sendCell now sid data)" "keeps_key (EndStream sha1 sendCell now sid reason)"
    by (simp_all add: keeps_key_def WriteToStream_def EndStream_def snd_key)
  show "keeps_key (ReadFromStream sid)"
    by (auto simp: keeps_key_def ReadFromStream_def receive_keeps_key split: prod.splits sum.splits list.splits)
qed

lemma resolvers_keep_key:
  assumes env: "\<And>c. ci_IsolationKey (env c) = ci_IsolationKey c"
  shows "keeps_key (ResolveHostname sha1 sendCell now env ready hostname)" "keeps_key (ResolveIP sha1 sendCell now env ready ip)"
  using resolve_keeps_key [of env, OF env]
  by (simp_all add: keeps_key_def ResolveHostname_def ResolveIP_def split: option.splits)

text \<open>Nothing but connections, streams, the onion client and the inside of circuits changes.\<close>

definition srv_frame :: "'conn Server \<Rightarrow> 'conn Server \<Rightarrow> bool" where
  "srv_frame s s' \<longleftrightarrow> srv_config s' = srv_config s \<and> srv_activeConns s' = srv_activeConns s
     \<and> srv_circuitPool s' = srv_circuitPool s \<and> keys_kept (srv_circuits s) (srv_circuits s')"

lemma srv_frame_refl [simp]: "srv_frame s s"
  by (simp add: srv_frame_def)

lemma srv_frame_trans: "srv_frame s1 s2 \<Longrightarrow> srv_frame s2 s3 \<Longrightarrow> srv_frame s1 s3"
  unfolding srv_frame_def using keys_kept_trans by metis

lemma srv_frame_simple [simp]:
  "srv_frame s (set_conn i c s)" "srv_frame s (close_conn i s)" "srv_frame s (reply_conn i f s)"
  "srv_frame s (set_stream_state sid st s)" "srv_frame s (s\<lparr>srv_streamMgr := m\<rparr>)"
  "srv_frame s (s\<lparr>srv_onionClient := oc, srv_onionLog := log\<rparr>)"
  by (simp_all add: srv_frame_def set_conn_def close_conn_def reply_conn_def set_stream_state_def split: option.splits)

lemma srv_frame_circuit: "keeps_key f \<Longrightarrow> on_circuit r f s = (x, s') \<Longrightarrow> srv_frame s s'"
  by (auto simp: on_circuit_def srv_frame_def keeps_key_def keys_kept_def split: option.splits prod.splits) (metis snd_conv)

lemma srv_frame_reply: "srv_frame s s' \<Longrightarrow> srv_frame s (reply_conn i f s')"
  using srv_frame_trans srv_frame_simple(3) by blast

lemma finish_frame:
  assumes env: "env_ok_key sha256 env"
  shows "srv_frame s (finishResolve env i h r s)" "srv_frame s (finishResolvePTR env i ip r s)"
proof -
  have k: "\<And>c. ci_IsolationKey (se_circuitEnv env c) = ci_IsolationKey c" using env by (simp add: env_ok_key_def)
  note kk = resolvers_keep_key [of "se_circuitEnv env", OF k]
  show "srv_frame s (finishResolve env i h r s)"
    unfolding finishResolve_def
    by (auto split: option.splits prod.splits sum.splits intro: srv_frame_reply dest!: srv_frame_circuit [OF kk(1)])
  show "srv_frame s (finishResolvePTR env i ip r s)"
    unfolding finishResolvePTR_def
    by (auto split: option.splits prod.splits sum.splits intro: srv_frame_reply dest!: srv_frame_circuit [OF kk(2)])
qed

lemma create_stream_frame:
  assumes go: "create_stream env i t l r job s = (job', s')"
  shows "srv_frame s s' \<and> jb_circ job' = jb_circ job
     \<and> jb_isolationKey job' = jb_isolationKey job \<and> jb_username job' = jb_username job \<and> jb_cmd job' = jb_cmd job"
proof -
  have "srv_frame s (set_stream_state sid st (s\<lparr>srv_streamMgr := m\<rparr>))" "srv_frame s (reply_conn i f (s\<lparr>srv_streamMgr := m\<rparr>))"
    for sid st m f
    by (rule srv_frame_trans [OF srv_frame_simple(5) [where m = m]], simp)+
  then show ?thesis
    using go unfolding create_stream_def by (auto split: option.splits prod.splits)
qed

lemma open_stream_frame:
  assumes env: "env_ok_key sha256 env" and o: "open_stream env i h p l r sid job s = (job', s')"
  shows "srv_frame s s' \<and> jb_circ job' = jb_circ job \<and> jb_isolationKey job' = jb_isolationKey job
    \<and> jb_username job' = jb_username job \<and> jb_cmd job' = jb_cmd job"
proof -
  have "keeps_key (OpenStream (se_sha1 env) (se_sendCell env) (se_now env) (se_circuitEnv env) (se_ready env) sid h p)"
    using env by (intro open_keeps_key) (simp add: env_ok_key_def)
  note fr = srv_frame_circuit [OF this]
  have more: "srv_frame s (reply_conn i f (set_stream_state sid st s2))" "srv_frame s (reply_conn i f s2)" if "srv_frame s s2" for f st s2
    using that srv_frame_trans srv_frame_simple(3,4) by blast+
  show ?thesis
    using o unfolding open_stream_def
    by (auto split: option.splits prod.splits dest!: fr intro: more)
qed

text \<open>What a handler does after Get leaves its circuit, key, username and command alone.\<close>

lemma handle_next_frame:
  assumes env: "env_ok_key sha256 env" and go: "handle_next env i (job, s) = (job', s')"
  shows "srv_frame s s' \<and> jb_circ job' = jb_circ job \<and> jb_isolationKey job' = jb_isolationKey job
    \<and> jb_username job' = jb_username job \<and> jb_cmd job' = jb_cmd job"
  using go finish_frame [OF env]
  by (auto simp: handle_next_def Let_def split: socks_todo.splits option.splits
      dest!: create_stream_frame open_stream_frame [OF env])

text \<open>How a handler gets its circuit, and under which key.\<close>

definition job_ok :: "(bytes \<Rightarrow> bytes) \<Rightarrow> SocksConfig \<Rightarrow> socks_job \<Rightarrow> bool" where
  "job_ok sha256 cfg job \<longleftrightarrow>
     jb_isolationKey job = None \<and> (jb_cmd job \<noteq> cmdConnect \<or> jb_circ job = None)
     \<or> jb_cmd job = cmdConnect \<and> (\<exists>t p. jb_isolationKey job = connection_key sha256 cfg t (jb_username job) p)"

definition got_circuit :: "'conn socks_env \<Rightarrow> 'conn Server \<Rightarrow> socks_job \<Rightarrow> 'conn Server \<Rightarrow> bool" where
  "got_circuit env s job s' \<longleftrightarrow>
     jb_circ job = None \<and> srv_frame s s'
     \<or> (\<exists>s1 p s2. srv_frame s s1 \<and> srv_circuitPool s1 = Some p
          \<and> take_circuit env (jb_isolationKey job) p s1 = (jb_circ job, s2) \<and> srv_frame s2 s')"

lemma got_circuit_none: "srv_frame s s' \<Longrightarrow> got_circuit env s no_job s'"
  by (simp add: got_circuit_def no_job_def)

lemma got_circuit_take:
  "srv_circuitPool s = Some p \<Longrightarrow> take_circuit env (jb_isolationKey job) p s = (jb_circ job, s2) \<Longrightarrow> srv_frame s2 s'
    \<Longrightarrow> got_circuit env s job s'"
  unfolding got_circuit_def using srv_frame_refl by blast

lemma got_circuit_after: "srv_frame s0 s \<Longrightarrow> got_circuit env s job s' \<Longrightarrow> got_circuit env s0 job s'"
  unfolding got_circuit_def using srv_frame_trans by blast

lemma cmds_differ [simp]: "cmdResolve \<noteq> cmdConnect" "cmdResolvePTR \<noteq> cmdConnect" "(0 :: byte) \<noteq> cmdConnect"
  by (simp_all add: cmdResolve_def cmdResolvePTR_def cmdConnect_def)

lemma job_ok_none [simp]: "job_ok sha256 cfg no_job"
  by (simp add: job_ok_def no_job_def)

lemma resolve_got:
  shows "handleResolve env i h s = (job, s') \<Longrightarrow> got_circuit env s job s' \<and> jb_isolationKey job = None"
    and "handleResolvePTR env i h s = (job, s') \<Longrightarrow> got_circuit env s job s' \<and> jb_isolationKey job = None"
proof -
  have got: "got_circuit env s job s'" if "srv_circuitPool s = Some p" "take_circuit env None p s = (jb_circ job, s2)" "srv_frame s2 s'"
      "jb_isolationKey job = None" for p s2 job s'
    using that by (intro got_circuit_take [of s p env _ s2]) simp_all
  have circ: "got_circuit env s job s' \<and> jb_isolationKey job = None" if "resolve_circuit env i todo s = (job, s')" for todo job s'
  proof (cases "srv_circuitPool s")
    case None
    with that got_circuit_none [of s s' env] show ?thesis by (auto simp: resolve_circuit_def no_job_def)
  next
    case (Some p)
    obtain fr s2 where t: "take_circuit env None p s = (fr, s2)" by fastforce
    with that Some have "jb_circ job = fr" "jb_isolationKey job = None" "srv_frame s2 s'"
      by (auto simp: resolve_circuit_def no_job_def split: option.splits)
    with got [OF Some] t show ?thesis by simp
  qed
  then show "handleResolve env i h s = (job, s') \<Longrightarrow> got_circuit env s job s' \<and> jb_isolationKey job = None"
    by (simp add: handleResolve_def)
  show "handleResolvePTR env i h s = (job, s') \<Longrightarrow> got_circuit env s job s' \<and> jb_isolationKey job = None"
    using circ got_circuit_none [of s s' env]
    by (auto simp: handleResolvePTR_def no_job_def split: option.splits)
qed

lemma connect_onion_frame: "srv_frame s (connect_onion env i conn host s)"
  unfolding connect_onion_def
  by (auto split: sum.splits prod.splits intro: srv_frame_reply)

lemma connect_job:
  assumes env: "env_ok_key sha256 env" and go: "connect_circuit env i conn t u s = (job, s')"
    and p: "srv_circuitPool s = Some p" and key: "key = connection_key sha256 (srv_config s) t u (sk_remotePort conn)"
    and t: "take_circuit env key p s = (fr, s1)"
  shows "jb_circ job = fr \<and> jb_isolationKey job = key \<and> jb_username job = u \<and> jb_cmd job = cmdConnect \<and> srv_frame s1 s'"
proof (cases fr)
  case None
  with go p t key env show ?thesis by (auto simp: connect_circuit_def env_ok_key_def Let_def no_job_def)
next
  case r: (Some r)
  with go p t key env show ?thesis by (auto simp: connect_circuit_def env_ok_key_def Let_def no_job_def)
qed

lemma connect_got:
  assumes env: "env_ok_key sha256 env" and go: "connect_circuit env i conn t u s = (job, s')"
  shows "got_circuit env s job s' \<and> job_ok sha256 (srv_config s) job"
proof -
  let ?key = "connection_key sha256 (srv_config s) t u (sk_remotePort conn)"
  have ok: "jb_isolationKey job = ?key \<Longrightarrow> jb_username job = u \<Longrightarrow> jb_cmd job = cmdConnect \<Longrightarrow> job_ok sha256 (srv_config s) job"
    unfolding job_ok_def by blast
  show ?thesis
  proof (cases "srv_circuitPool s")
    case None
    with go env have "job = no_job\<lparr>jb_username := u, jb_cmd := cmdConnect, jb_isolationKey := ?key\<rparr>"
        "s' = reply_conn i (sendReply replyGeneralFailure None) s"
      by (simp_all add: connect_circuit_def env_ok_key_def Let_def)
    with ok show ?thesis by (simp add: got_circuit_def no_job_def)
  next
    case (Some p)
    obtain fr s1 where t: "take_circuit env ?key p s = (fr, s1)" by fastforce
    note job = connect_job [OF env go Some refl t]
    then have "take_circuit env (jb_isolationKey job) p s = (jb_circ job, s1)" "srv_frame s1 s'" using t by auto
    from got_circuit_take [OF Some this] ok job show ?thesis by simp
  qed
qed

text \<open>What the handler notes about the connection does not change what it got.\<close>

lemma got_circuit_known:
  "got_circuit env s (job\<lparr>jb_username := u, jb_cmd := k\<rparr>) s' = got_circuit env s job s'"
  by (simp add: got_circuit_def)

lemma dispatch_cases:
  assumes go: "dispatch env i conn u rq s = (job, s')"
  obtains (resolve) job0 where "job = job0\<lparr>jb_username := u, jb_cmd := ri_cmd rq\<rparr>" "ri_cmd rq \<noteq> cmdConnect"
      "handleResolve env i (ri_targetAddr rq) s = (job0, s') \<or> handleResolvePTR env i (ri_targetAddr rq) s = (job0, s')"
    | (quiet) "job = no_job\<lparr>jb_username := u, jb_cmd := ri_cmd rq\<rparr>" "srv_frame s s'"
    | (connect) "connect_circuit env i conn (ri_targetAddr rq) u s = (job, s')"
  using go unfolding dispatch_def Let_def
  by (auto simp: connect_onion_frame split: if_splits prod.splits)

lemma dispatch_got:
  assumes env: "env_ok_key sha256 env" and go: "dispatch env i conn u rq s = (job, s')"
  shows "got_circuit env s job s' \<and> job_ok sha256 (srv_config s) job"
  using go
proof (cases rule: dispatch_cases)
  case (resolve job0)
  with resolve_got [of env] have "got_circuit env s job0 s'" "jb_isolationKey job0 = None" by blast+
  with resolve show ?thesis by (simp add: got_circuit_known job_ok_def)
next
  case quiet
  with got_circuit_none [of s s' env] show ?thesis
    by (simp add: got_circuit_known) (simp add: job_ok_def no_job_def)
next
  case connect
  with connect_got [OF env] show ?thesis by blast
qed

lemma take_got:
  assumes env: "env_ok_key sha256 env" and go: "handle_take env i s = (job, s')"
  shows "got_circuit env s job s' \<and> job_ok sha256 (srv_config s) job"
proof -
  have "job = no_job \<and> srv_frame s s' \<or> (\<exists>conn u rq c. dispatch env i conn u rq (set_conn i c s) = (job, s'))"
    using go unfolding handle_take_def by (auto split: option.splits if_splits prod.splits sum.splits)
  then consider (quiet) "job = no_job" "srv_frame s s'"
    | (go) conn u rq c where "dispatch env i conn u rq (set_conn i c s) = (job, s')"
    by blast
  then show ?thesis
  proof cases
    case quiet
    then show ?thesis by (simp add: got_circuit_none)
  next
    case go
    from dispatch_got [OF env go] have "got_circuit env (set_conn i c s) job s'" "job_ok sha256 (srv_config s) job"
      by (simp_all add: set_conn_def)
    then show ?thesis using got_circuit_after [OF srv_frame_simple(1)] by blast
  qed
qed

lemma relay_up_frame:
  assumes "relay_up env n i job s = (job', s')"
  shows "srv_frame s s' \<and> jb_circ job' = jb_circ job \<and> jb_isolationKey job' = jb_isolationKey job \<and> jb_username job' = jb_username job \<and> jb_cmd job' = jb_cmd job"
proof -
  have w: "srv_frame s1 s2" if "on_circuit r (WriteToStream (se_sha1 env) (se_sendCell env) (se_now env) sid bs) s1 = (x, s2)" for r sid bs x s1 s2
    using srv_frame_circuit [OF circuit_ops_keep_key(1) that] .
  have e: "srv_frame s1 (snd (on_circuit r (EndStream (se_sha1 env) (se_sendCell env) (se_now env) sid 6) s1))" for r sid s1
    using srv_frame_circuit [OF circuit_ops_keep_key(2) surjective_pairing] .
  have "srv_frame s s2" if "srv_frame (set_conn i c s) s2" for c s2
    using srv_frame_trans [OF srv_frame_simple(1) that] .
  then show ?thesis
    using assms unfolding relay_up_def Let_def
    by (auto split: option.splits if_splits prod.splits intro: e dest!: w)
qed

lemma relay_down_frame:
  assumes go: "relay_down env i job s = (job', s')"
  shows "srv_frame s s' \<and> jb_circ job' = jb_circ job \<and> jb_isolationKey job' = jb_isolationKey job \<and> jb_username job' = jb_username job \<and> jb_cmd job' = jb_cmd job"
proof (cases "srv_conns s i = None \<or> jb_circ job = None \<or> jb_strm job = None")
  case True
  with go show ?thesis by (auto simp: relay_down_def split: option.splits)
next
  case False
  then obtain conn r sid where c: "srv_conns s i = Some conn" "jb_circ job = Some r" "jb_strm job = Some sid" by auto
  obtain x s1 where o: "on_circuit r (ReadFromStream sid) s = (x, s1)" by fastforce
  have s1: "srv_frame s s1" using srv_frame_circuit [OF circuit_ops_keep_key(3) o] .
  let ?fin = "\<lambda>s. snd (on_circuit r (EndStream (se_sha1 env) (se_sendCell env) (se_now env) sid 6) s)"
  have e: "srv_frame s2 (?fin s2)" for s2
    using srv_frame_circuit [OF circuit_ops_keep_key(2) surjective_pairing] .
  have t: "srv_frame s (set_conn i c s1)" "srv_frame s (close_conn i s1)" "srv_frame s (?fin (set_conn i c s1))" for c
    using srv_frame_trans [OF s1 srv_frame_simple(1)] srv_frame_trans [OF s1 srv_frame_simple(2)]
      srv_frame_trans [OF srv_frame_trans [OF s1 srv_frame_simple(1)] e] by simp_all
  show ?thesis
  proof (cases "\<exists>data. x = Some (ReadData data)")
    case True
    then obtain data where x: "x = Some (ReadData data)" ..
    obtain ok c1 where w: "(if sk_closed conn then (False, conn) else sk_write data conn) = (ok, c1)" by fastforce
    from go show ?thesis unfolding relay_down_def c o x prod.case option.case stream_read.case w Let_def
      using t c by (cases ok) auto
  next
    case False
    then have "job' = job\<lparr>jb_down := False\<rparr> \<and> s' = close_conn i s1"
      using go unfolding relay_down_def c o prod.case option.case by (auto split: option.splits stream_read.splits)
    with t show ?thesis by simp
  qed
qed

lemma relay_round_frame:
  "relay_round env i side (job, s) = (job', s') \<Longrightarrow>
     srv_frame s s' \<and> jb_circ job' = jb_circ job \<and> jb_isolationKey job' = jb_isolationKey job \<and> jb_username job' = jb_username job \<and> jb_cmd job' = jb_cmd job"
  by (auto simp: relay_round_def split: relay_side.splits if_splits dest!: relay_up_frame relay_down_frame)

subsection \<open>Runs of the server\<close>

text \<open>
  The handlers in progress with their jobs, and the jobs of the handlers that have ended. A step
  is the start of listening, one accepted connection, a handler's way to the pool's Get, the next
  part of its way to the relay loops, a round of a relay goroutine, the end of a handler, the pool's prebuilding, Shutdown, or anything that happens inside the
  circuits (cells, heartbeats, closing). A connection that Accept returned just before Shutdown
  is still tracked, so accepting does not ask whether the server listens.
\<close>

record 'conn serving =
  sv_server :: "'conn Server"
  sv_jobs :: "nat \<rightharpoonup> socks_job"
  sv_past :: "socks_job list"

inductive serve_step :: "(bytes \<Rightarrow> bytes) \<Rightarrow> 'conn serving \<Rightarrow> 'conn serving \<Rightarrow> bool" for sha256 where
  listen: "Socks_ListenAndServe listens (sv_server v) = (ok, s) \<Longrightarrow> serve_step sha256 v (v\<lparr>sv_server := s\<rparr>)"
| accept: "i \<notin> srv_activeConns (sv_server v) \<Longrightarrow> accept_conn i conn (sv_server v) = (started, s)
    \<Longrightarrow> serve_step sha256 v (v\<lparr>sv_server := s\<rparr>)"
| begin_handler: "i \<in> srv_activeConns (sv_server v) \<Longrightarrow> sv_jobs v i = None \<Longrightarrow> env_ok_key sha256 env
    \<Longrightarrow> handle_take env i (sv_server v) = (job, s)
    \<Longrightarrow> serve_step sha256 v (v\<lparr>sv_server := s, sv_jobs := (sv_jobs v)(i \<mapsto> job)\<rparr>)"
| proceed: "sv_jobs v i = Some job \<Longrightarrow> env_ok_key sha256 env \<Longrightarrow> handle_next env i (job, sv_server v) = (job', s)
    \<Longrightarrow> serve_step sha256 v (v\<lparr>sv_server := s, sv_jobs := (sv_jobs v)(i \<mapsto> job')\<rparr>)"
| relay: "sv_jobs v i = Some job \<Longrightarrow> relay_round env i side (job, sv_server v) = (job', s)
    \<Longrightarrow> serve_step sha256 v (v\<lparr>sv_server := s, sv_jobs := (sv_jobs v)(i \<mapsto> job')\<rparr>)"
| end_handler: "sv_jobs v i = Some job \<Longrightarrow> jb_todo job = Idle \<Longrightarrow> \<not> jb_up job \<Longrightarrow> \<not> jb_down job
    \<Longrightarrow> serve_step sha256 v (v\<lparr>sv_server := handle_end i job (sv_server v), sv_jobs := (sv_jobs v)(i := None),
          sv_past := job # sv_past v\<rparr>)"
| prebuilding: "srv_circuitPool (sv_server v) = Some p \<Longrightarrow> builder_ok build
    \<Longrightarrow> ensureMinCircuits build (srv_circuits (sv_server v)) p = (circuits, p')
    \<Longrightarrow> serve_step sha256 v (v\<lparr>sv_server := (sv_server v)\<lparr>srv_circuits := circuits, srv_circuitPool := Some p'\<rparr>\<rparr>)"
| circuits: "keys_kept (srv_circuits (sv_server v)) circuits
    \<Longrightarrow> serve_step sha256 v (v\<lparr>sv_server := (sv_server v)\<lparr>srv_circuits := circuits\<rparr>\<rparr>)"
| shutdown: "serve_step sha256 v (v\<lparr>sv_server := Socks_Shutdown (sv_server v)\<rparr>)"

inductive serves :: "(bytes \<Rightarrow> bytes) \<Rightarrow> 'conn serving \<Rightarrow> 'conn serving \<Rightarrow> bool" for sha256 v where
  start: "serves sha256 v v"
| step: "serves sha256 v v1 \<Longrightarrow> serve_step sha256 v1 v2 \<Longrightarrow> serves sha256 v v2"

text \<open>A server as the client sets it up, before its first connection.\<close>

definition serving_new :: "string \<Rightarrow> SocksConfig \<Rightarrow> CircuitPoolConfig option \<Rightarrow> 'conn serving" where
  "serving_new address cfg poolCfg =
     \<lparr>sv_server = SetCircuitPool (Some (NewCircuitPool poolCfg)) (NewServerWithConfig address (Some cfg) Map.empty),
      sv_jobs = Map.empty, sv_past = []\<rparr>"

subsection \<open>The invariant\<close>

definition limit_inv :: "SocksConfig \<Rightarrow> 'conn serving \<Rightarrow> bool" where
  "limit_inv cfg v \<longleftrightarrow>
     srv_config (sv_server v) = cfg \<and> finite (srv_activeConns (sv_server v))
     \<and> (so_MaxConnections cfg > 0 \<longrightarrow> int (card (srv_activeConns (sv_server v))) \<le> so_MaxConnections cfg)
     \<and> dom (sv_jobs v) \<subseteq> srv_activeConns (sv_server v)"

definition held_by :: "(nat \<rightharpoonup> socks_job) \<Rightarrow> nat \<Rightarrow> nat option" where
  "held_by jobs i = (case jobs i of None \<Rightarrow> None | Some job \<Rightarrow> jb_circ job)"

definition heldset :: "(nat \<rightharpoonup> socks_job) \<Rightarrow> nat set" where
  "heldset jobs = {r. \<exists>i. held_by jobs i = Some r}"

definition circs_inv :: "'conn Server \<Rightarrow> nat set \<Rightarrow> bool" where
  "circs_inv s H \<longleftrightarrow> H \<subseteq> dom (srv_circuits s)
     \<and> (\<exists>p. srv_circuitPool s = Some p \<and> pool_ok (srv_circuits s) p \<and> pool_excl p H)"

definition one_holder :: "(nat \<rightharpoonup> socks_job) \<Rightarrow> bool" where
  "one_holder jobs \<longleftrightarrow> (\<forall>i j r. held_by jobs i = Some r \<longrightarrow> held_by jobs j = Some r \<longrightarrow> i = j)"

definition keyed :: "'conn circuits \<Rightarrow> socks_job \<Rightarrow> bool" where
  "keyed heap job \<longleftrightarrow> (\<forall>r. jb_circ job = Some r \<longrightarrow> has_key heap r (jb_isolationKey job))"

definition all_jobs :: "'conn serving \<Rightarrow> socks_job set" where
  "all_jobs v = ran (sv_jobs v) \<union> set (sv_past v)"

definition serve_inv :: "(bytes \<Rightarrow> bytes) \<Rightarrow> SocksConfig \<Rightarrow> 'conn serving \<Rightarrow> bool" where
  "serve_inv sha256 cfg v \<longleftrightarrow> limit_inv cfg v
     \<and> circs_inv (sv_server v) (heldset (sv_jobs v)) \<and> one_holder (sv_jobs v)
     \<and> (\<forall>job\<in>all_jobs v. job_ok sha256 cfg job \<and> keyed (srv_circuits (sv_server v)) job)"

lemma held_by_upd [simp]:
  "held_by (jobs(i \<mapsto> job)) = (held_by jobs)(i := jb_circ job)" "held_by (jobs(i := None)) = (held_by jobs)(i := None)"
  "held_by Map.empty = Map.empty"
  by (auto simp: held_by_def)

lemma heldset_same: "held_by jobs i = jb_circ job \<Longrightarrow> heldset (jobs(i \<mapsto> job)) = heldset jobs"
  by (auto simp: heldset_def) metis

lemma one_holder_same: "one_holder jobs \<Longrightarrow> held_by jobs i = jb_circ job \<Longrightarrow> one_holder (jobs(i \<mapsto> job))"
  by (simp add: one_holder_def) metis

lemma heldset_new: "held_by jobs i = None \<Longrightarrow>
    heldset (jobs(i \<mapsto> job)) = (case jb_circ job of None \<Rightarrow> heldset jobs | Some r \<Rightarrow> insert r (heldset jobs))"
  by (auto simp: heldset_def split: option.splits) (metis option.distinct(1))+

lemma one_holder_new:
  "one_holder jobs \<Longrightarrow> (\<And>r. jb_circ job = Some r \<Longrightarrow> r \<notin> heldset jobs) \<Longrightarrow> one_holder (jobs(i \<mapsto> job))"
  by (simp add: one_holder_def heldset_def) metis

lemma held_end:
  assumes "one_holder jobs" "held_by jobs i = Some r"
  shows "heldset jobs = insert r (heldset (jobs(i := None)))" "r \<notin> heldset (jobs(i := None))"
  using assms by (auto simp: heldset_def one_holder_def) (metis option.inject)

lemma one_holder_end: "one_holder jobs \<Longrightarrow> one_holder (jobs(i := None))"
  by (simp add: one_holder_def)

lemma keyed_kept: "keyed heap job \<Longrightarrow> keys_kept heap heap1 \<Longrightarrow> keyed heap1 job"
  unfolding keyed_def using has_key_kept by blast

lemma keys_kept_dom: "keys_kept heap heap1 \<Longrightarrow> H \<subseteq> dom heap \<Longrightarrow> H \<subseteq> dom heap1"
  unfolding keys_kept_def by fastforce

lemma circs_frame: "circs_inv s H \<Longrightarrow> srv_frame s s' \<Longrightarrow> circs_inv s' H"
  unfolding circs_inv_def srv_frame_def using pool_ok_kept keys_kept_dom by metis

text \<open>A handler that starts gets nothing, or a circuit that nobody holds, under its key.\<close>

lemma take_circs:
  assumes env: "env_ok_key sha256 env" and inv: "circs_inv s H" and p: "srv_circuitPool s = Some p"
    and t: "take_circuit env key p s = (fr, s')"
  shows "keys_kept (srv_circuits s) (srv_circuits s')
    \<and> (case fr of None \<Rightarrow> circs_inv s' H
       | Some r \<Rightarrow> r \<notin> H \<and> circs_inv s' (insert r H) \<and> has_key (srv_circuits s') r key)"
proof -
  have b: "builder_ok (se_build env)" using env by (simp add: env_ok_key_def)
  have ok: "pool_ok (srv_circuits s) p" "pool_excl p H" "H \<subseteq> dom (srv_circuits s)"
    using inv p by (simp_all add: circs_inv_def)
  obtain heap1 p1 where g: "GetWithIsolation (se_build env) key (srv_circuits s) p = (fr, heap1, p1)"
      "s' = s\<lparr>srv_circuits := heap1, srv_circuitPool := Some p1\<rparr>"
    using t by (auto simp: take_circuit_def split: prod.splits)
  note r1 = GetWithIsolation_ok [OF ok(1) b g(1)]
  note r2 = Get_excl [OF ok(1) b ok(2,3) g(1)]
  have d: "H \<subseteq> dom heap1" using r1 keys_kept_dom ok(3) by blast
  show ?thesis
  proof (cases fr)
    case None
    with r1 r2 d g(2) show ?thesis by (simp add: circs_inv_def)
  next
    case (Some r)
    with r1 have "r \<in> dom heap1" by (auto simp: has_key_def)
    with Some r1 r2 d g(2) show ?thesis by (simp add: circs_inv_def)
  qed
qed

lemma take_same: "take_circuit env key p s = (fr, s') \<Longrightarrow> srv_config s' = srv_config s \<and> srv_activeConns s' = srv_activeConns s"
  using take_circuit_frame by metis

lemma got_circs:
  assumes env: "env_ok_key sha256 env" and inv: "circs_inv s H" and got: "got_circuit env s job s'"
  shows "keys_kept (srv_circuits s) (srv_circuits s') \<and> srv_config s' = srv_config s \<and> srv_activeConns s' = srv_activeConns s
    \<and> keyed (srv_circuits s') job
    \<and> (case jb_circ job of None \<Rightarrow> circs_inv s' H | Some r \<Rightarrow> r \<notin> H \<and> circs_inv s' (insert r H))"
  using got unfolding got_circuit_def
proof (elim disjE exE conjE)
  assume "jb_circ job = None" "srv_frame s s'"
  with circs_frame [OF inv this(2)] show ?thesis by (simp add: srv_frame_def keyed_def)
next
  fix s1 p s2
  assume f1: "srv_frame s s1" and p: "srv_circuitPool s1 = Some p"
    and t: "take_circuit env (jb_isolationKey job) p s1 = (jb_circ job, s2)" and f2: "srv_frame s2 s'"
  note r = take_circs [OF env circs_frame [OF inv f1] p t]
  have k2: "keys_kept (srv_circuits s2) (srv_circuits s')" using f2 by (simp add: srv_frame_def)
  have "keys_kept (srv_circuits s) (srv_circuits s')"
    using f1 r k2 keys_kept_trans unfolding srv_frame_def by blast
  moreover have "srv_config s' = srv_config s \<and> srv_activeConns s' = srv_activeConns s"
    using f1 f2 take_same [OF t] by (simp add: srv_frame_def)
  moreover have "keyed (srv_circuits s') job"
    unfolding keyed_def using r has_key_kept [OF _ k2] by auto
  ultimately show ?thesis using r circs_frame [OF _ f2] by (auto split: option.splits)
qed

text \<open>Every step keeps the limit and the tracking of the handlers.\<close>

lemma accept_limit:
  assumes "limit_inv cfg v" "accept_conn i conn (sv_server v) = (started, s)"
  shows "limit_inv cfg (v\<lparr>sv_server := s\<rparr>)"
  using assms by (auto simp: limit_inv_def accept_conn_def Let_def set_conn_def card_insert_if split: if_splits)

lemma frame_limit:
  "limit_inv cfg v \<Longrightarrow> srv_config s = srv_config (sv_server v) \<Longrightarrow> srv_activeConns s = srv_activeConns (sv_server v)
    \<Longrightarrow> dom jobs \<subseteq> srv_activeConns (sv_server v) \<Longrightarrow> limit_inv cfg (v\<lparr>sv_server := s, sv_jobs := jobs\<rparr>)"
  by (simp add: limit_inv_def)

lemma handle_end_frame:
  "srv_config (handle_end i job s) = srv_config s" "srv_activeConns (handle_end i job s) = srv_activeConns s - {i}"
  "srv_circuits (handle_end i job s) = srv_circuits s"
  "srv_circuitPool (handle_end i job s) = (case (jb_circ job, srv_circuitPool s) of
     (Some r, Some p) \<Rightarrow> Some (CircuitPool_Put (Some r) (srv_circuits s) p) | _ \<Rightarrow> srv_circuitPool s)"
  by (simp_all add: handle_end_def close_conn_def Let_def split: option.splits)

lemma end_limit:
  assumes "limit_inv cfg v"
  shows "limit_inv cfg (v\<lparr>sv_server := handle_end i job (sv_server v), sv_jobs := (sv_jobs v)(i := None), sv_past := ps\<rparr>)"
proof -
  let ?A = "srv_activeConns (sv_server v)"
  have "card (?A - {i}) \<le> card ?A" using assms by (intro card_mono) (auto simp: limit_inv_def)
  with assms show ?thesis by (auto simp: limit_inv_def handle_end_frame)
qed

lemma end_circs:
  assumes inv: "circs_inv s (heldset jobs)" and one: "one_holder jobs" and i: "jobs i = Some job"
  shows "circs_inv (handle_end i job s) (heldset (jobs(i := None)))"
proof -
  have held: "held_by jobs i = jb_circ job" using i by (simp add: held_by_def)
  obtain p where p: "srv_circuitPool s = Some p" "pool_ok (srv_circuits s) p" "pool_excl p (heldset jobs)" "heldset jobs \<subseteq> dom (srv_circuits s)"
    using inv by (auto simp: circs_inv_def)
  show ?thesis
  proof (cases "jb_circ job")
    case None
    with held have "heldset (jobs(i := None)) = heldset jobs" by (simp add: heldset_def fun_upd_idem)
    with None p show ?thesis by (simp add: circs_inv_def handle_end_frame)
  next
    case (Some r)
    with held have h: "held_by jobs i = Some r" by simp
    note e = held_end [OF one h]
    have "pool_excl (CircuitPool_Put (Some r) (srv_circuits s) p) (heldset (jobs(i := None)))"
      using Put_excl e p(3) by metis
    with Some p e Put_ok [OF p(2)] show ?thesis by (simp add: circs_inv_def handle_end_frame)
  qed
qed

lemma all_jobs_simps:
  "sv_jobs v i = None \<Longrightarrow> all_jobs (v\<lparr>sv_server := s, sv_jobs := (sv_jobs v)(i \<mapsto> job)\<rparr>) = insert job (all_jobs v)"
  "all_jobs (v\<lparr>sv_server := s\<rparr>) = all_jobs v"
  by (auto simp: all_jobs_def)

lemma all_jobs_upd: "all_jobs (v\<lparr>sv_server := s, sv_jobs := (sv_jobs v)(i \<mapsto> job)\<rparr>) \<subseteq> insert job (all_jobs v)"
  by (auto simp: all_jobs_def ran_def)

lemma all_jobs_end: "sv_jobs v i = Some job \<Longrightarrow>
    all_jobs (v\<lparr>sv_server := s, sv_jobs := (sv_jobs v)(i := None), sv_past := job # sv_past v\<rparr>) \<subseteq> all_jobs v"
  by (auto simp: all_jobs_def ran_def)

text \<open>A change of the server that only moves within circuits, with jobs that keep their circuits.\<close>

lemma serve_inv_same:
  assumes inv: "serve_inv sha256 cfg v" and f: "srv_frame (sv_server v) s"
  shows "serve_inv sha256 cfg (v\<lparr>sv_server := s\<rparr>)"
proof -
  have k: "keys_kept (srv_circuits (sv_server v)) (srv_circuits s)" using f by (simp add: srv_frame_def)
  have l: "limit_inv cfg (v\<lparr>sv_server := s, sv_jobs := sv_jobs v\<rparr>)"
    using inv f by (intro frame_limit) (simp_all add: serve_inv_def srv_frame_def limit_inv_def)
  have c: "circs_inv s (heldset (sv_jobs v))" using inv circs_frame [OF _ f] by (simp add: serve_inv_def)
  show ?thesis
    using inv l c keyed_kept [OF _ k] by (simp add: serve_inv_def all_jobs_simps(2))
qed

lemma serve_inv_begin:
  assumes inv: "serve_inv sha256 cfg v" and act: "i \<in> srv_activeConns (sv_server v)" and none: "sv_jobs v i = None"
    and env: "env_ok_key sha256 env" and go: "handle_take env i (sv_server v) = (job, s)"
  shows "serve_inv sha256 cfg (v\<lparr>sv_server := s, sv_jobs := (sv_jobs v)(i \<mapsto> job)\<rparr>)"
proof -
  have cfg: "srv_config (sv_server v) = cfg" and c: "circs_inv (sv_server v) (heldset (sv_jobs v))"
    using inv by (simp_all add: serve_inv_def limit_inv_def)
  note b = take_got [OF env go]
  note g = got_circs [OF env c conjunct1 [OF b]]
  have i: "held_by (sv_jobs v) i = None" using none by (simp add: held_by_def)
  have fresh: "r \<notin> heldset (sv_jobs v)" if "jb_circ job = Some r" for r using g that by simp
  have l: "limit_inv cfg (v\<lparr>sv_server := s, sv_jobs := (sv_jobs v)(i \<mapsto> job)\<rparr>)"
    using inv g act by (intro frame_limit) (auto simp: serve_inv_def limit_inv_def)
  have c1: "circs_inv s (heldset ((sv_jobs v)(i \<mapsto> job)))"
    using g heldset_new [OF i, of job] by (simp split: option.splits)
  have o: "one_holder ((sv_jobs v)(i \<mapsto> job))" using one_holder_new [OF _ fresh] inv by (simp add: serve_inv_def)
  have "\<forall>j\<in>insert job (all_jobs v). job_ok sha256 cfg j \<and> keyed (srv_circuits s) j"
    using inv b g cfg keyed_kept by (auto simp: serve_inv_def)
  with l c1 o none show ?thesis by (simp add: serve_inv_def all_jobs_simps(1))
qed

lemma serve_inv_move:
  assumes inv: "serve_inv sha256 cfg v" and i: "sv_jobs v i = Some job"
    and f: "srv_frame (sv_server v) s \<and> jb_circ job' = jb_circ job \<and> jb_isolationKey job' = jb_isolationKey job
      \<and> jb_username job' = jb_username job \<and> jb_cmd job' = jb_cmd job"
  shows "serve_inv sha256 cfg (v\<lparr>sv_server := s, sv_jobs := (sv_jobs v)(i \<mapsto> job')\<rparr>)"
proof -
  have h: "held_by (sv_jobs v) i = jb_circ job'" using i f by (simp add: held_by_def)
  have inv': "serve_inv sha256 cfg (v\<lparr>sv_server := s\<rparr>)" using serve_inv_same [OF inv] f by blast
  have "job \<in> all_jobs v" using i by (auto simp: all_jobs_def ran_def)
  then have "job_ok sha256 cfg job \<and> keyed (srv_circuits s) job" using inv' by (auto simp: serve_inv_def all_jobs_simps(2))
  then have j: "job_ok sha256 cfg job' \<and> keyed (srv_circuits s) job'" using f by (simp add: job_ok_def keyed_def)
  have l: "limit_inv cfg (v\<lparr>sv_server := s, sv_jobs := (sv_jobs v)(i \<mapsto> job')\<rparr>)"
    using inv f i by (intro frame_limit) (auto simp: serve_inv_def limit_inv_def srv_frame_def)
  show ?thesis
    using inv' l j heldset_same [OF h] one_holder_same [OF _ h] all_jobs_upd [where v = v and s = s and i = i and job = job']
    unfolding serve_inv_def by (auto simp: all_jobs_simps(2))
qed

lemma serve_inv_end:
  assumes inv: "serve_inv sha256 cfg v" and i: "sv_jobs v i = Some job"
  shows "serve_inv sha256 cfg (v\<lparr>sv_server := handle_end i job (sv_server v), sv_jobs := (sv_jobs v)(i := None),
    sv_past := job # sv_past v\<rparr>)"
proof -
  have c: "circs_inv (sv_server v) (heldset (sv_jobs v))" "one_holder (sv_jobs v)" using inv by (simp_all add: serve_inv_def)
  show ?thesis
    using inv end_limit [where cfg = cfg and v = v and i = i and job = job] end_circs [OF c i] one_holder_end [OF c(2), of i]
      all_jobs_end [OF i, where s = "handle_end i job (sv_server v)"]
    unfolding serve_inv_def by (auto simp: handle_end_frame(3))
qed

lemma serve_inv_prebuild:
  assumes inv: "serve_inv sha256 cfg v" and p: "srv_circuitPool (sv_server v) = Some p" and b: "builder_ok build"
    and e: "ensureMinCircuits build (srv_circuits (sv_server v)) p = (circuits, p')"
  shows "serve_inv sha256 cfg (v\<lparr>sv_server := (sv_server v)\<lparr>srv_circuits := circuits, srv_circuitPool := Some p'\<rparr>\<rparr>)"
proof -
  let ?s = "(sv_server v)\<lparr>srv_circuits := circuits, srv_circuitPool := Some p'\<rparr>"
  have ok: "pool_ok (srv_circuits (sv_server v)) p" "pool_excl p (heldset (sv_jobs v))"
      "heldset (sv_jobs v) \<subseteq> dom (srv_circuits (sv_server v))"
    using inv p by (simp_all add: serve_inv_def circs_inv_def)
  note r = ensureMin_ok [OF ok(1) b e]
  have c: "circs_inv ?s (heldset (sv_jobs v))"
    using r ensure_excl [OF ok(1) b ok(2,3) e] keys_kept_dom [OF _ ok(3)] by (simp add: circs_inv_def)
  have "\<forall>job\<in>all_jobs v. job_ok sha256 cfg job \<and> keyed circuits job"
    using inv r keyed_kept by (auto simp: serve_inv_def)
  with inv c show ?thesis by (simp add: serve_inv_def limit_inv_def all_jobs_simps(2))
qed

lemma serve_inv_shift:
  assumes "serve_inv sha256 cfg v" "srv_config s = srv_config (sv_server v)" "srv_activeConns s = srv_activeConns (sv_server v)"
    "srv_circuits s = srv_circuits (sv_server v)" "srv_circuitPool s = srv_circuitPool (sv_server v)"
  shows "serve_inv sha256 cfg (v\<lparr>sv_server := s\<rparr>)"
  using assms by (intro serve_inv_same) (simp_all add: srv_frame_def)

lemma serve_inv_accept:
  assumes inv: "serve_inv sha256 cfg v" and a: "accept_conn i conn (sv_server v) = (started, s)"
  shows "serve_inv sha256 cfg (v\<lparr>sv_server := s\<rparr>)"
proof -
  have "srv_circuits s = srv_circuits (sv_server v) \<and> srv_circuitPool s = srv_circuitPool (sv_server v)"
    using a by (auto simp: accept_conn_def Let_def set_conn_def split: if_splits)
  with inv accept_limit [OF _ a, of cfg] show ?thesis
    by (simp add: serve_inv_def circs_inv_def all_jobs_simps(2))
qed

lemma serve_step_inv: "serve_step sha256 v v' \<Longrightarrow> serve_inv sha256 cfg v \<Longrightarrow> serve_inv sha256 cfg v'"
proof (induction rule: serve_step.induct)
  case (listen listens v ok s)
  then show ?case by (intro serve_inv_shift) (auto simp: Socks_ListenAndServe_def split: if_splits)
next
  case (accept i v conn started s)
  then show ?case using serve_inv_accept by blast
next
  case (begin_handler i v env job s)
  then show ?case using serve_inv_begin by blast
next
  case (proceed v i job env job' s)
  then show ?case using serve_inv_move handle_next_frame by metis
next
  case (relay v i job env side job' s)
  then show ?case using serve_inv_move relay_round_frame by metis
next
  case (end_handler v i job)
  then show ?case using serve_inv_end by blast
next
  case (prebuilding v p build circuits p')
  then show ?case using serve_inv_prebuild by blast
next
  case (circuits v circuits)
  then show ?case by (intro serve_inv_same) (simp_all add: srv_frame_def)
next
  case (shutdown v)
  then show ?case by (intro serve_inv_shift) (simp_all add: Socks_Shutdown_def)
qed

lemma pool_excl_new: "pool_excl (NewCircuitPool cfg) H"
  by (simp add: pool_excl_def NewCircuitPool_def Let_def)

lemma serves_inv:
  assumes "serves sha256 (serving_new address cfg poolCfg) v" "so_MaxConnections cfg \<ge> 0"
  shows "serve_inv sha256 cfg v"
  using assms
proof (induction rule: serves.induct)
  case start
  then show ?case
    by (simp add: serve_inv_def limit_inv_def circs_inv_def one_holder_def all_jobs_def heldset_def held_by_def serving_new_def
        SetCircuitPool_def NewServerWithConfig_def pool_ok_new pool_excl_new)
next
  case (step v1 v2)
  then show ?case using serve_step_inv by blast
qed

subsection \<open>A run with two users\<close>

text \<open>Two users with a name each, one after the other, at a server with room for two.\<close>

definition two_users :: SocksConfig where
  "two_users = Socks_DefaultConfig\<lparr>so_MaxConnections := 2, so_IsolationLevel := IsolationCredential, so_IsolateSOCKSAuth := True\<rparr>"

definition user_conn :: "string \<Rightarrow> socks_conn" where
  "user_conn user = example_conn (greeting [2] @ auth_message (bytes_of_string user) []
     @ socks_request cmdConnect 0 (AddrDomain [104]) 80)"

definition two_env :: "unit socks_env" where
  "two_env = example_socks_env"

definition serve_user :: "nat \<Rightarrow> string \<Rightarrow> unit serving \<Rightarrow> unit serving" where
  "serve_user i user v =
     (let s = snd (accept_conn i (user_conn user) (sv_server v)); (job, s1) = handle_begin two_env i s
      in v\<lparr>sv_server := s1, sv_jobs := (sv_jobs v)(i \<mapsto> job)\<rparr>)"

definition two_start :: "unit serving" where
  "two_start = serving_new ''x'' two_users None"

lemma two_env_ok: "env_ok_key padded_hash two_env"
  by (simp add: env_ok_key_def two_env_def example_socks_env_def test_build_ok)

lemma handshake_user:
  assumes "wr_room (sk_out c) = None" "length user < 256" "length pass < 256" "sk_in c = greeting [2] @ auth_message user pass @ rest"
  shows "handshake c = (Inr (string_of_bytes user), exchanged rest [5, 2, 1, 0] c)"
  using assms unfolding handshake_iff [OF assms(1)]
  by (intro exI [of _ "[2]"] exI [of _ rest]) (auto simp: authPassword_def)

lemma user_begin:
  assumes "srv_conns s i = Some (user_conn u)" "length u < 256"
  shows "handle_take env i s = connect_circuit env i (exchanged [] [5, 2, 1, 0] (user_conn u)) ''h:80'' u
    (set_conn i (exchanged [] [5, 2, 1, 0] (user_conn u)) s)"
proof -
  let ?c = "user_conn u" and ?r = "socks_request cmdConnect 0 (AddrDomain [104]) 80"
  have "length (bytes_of_string u) < 256" using assms(2) by (simp add: bytes_of_string_def)
  moreover have "wr_room (sk_out ?c) = None" "sk_in ?c = greeting [2] @ auth_message (bytes_of_string u) [] @ ?r"
    by (simp_all add: user_conn_def example_conn_def new_buffer_def)
  ultimately have "handshake ?c = (Inr u, exchanged ?r [5, 2, 1, 0] ?c)"
    using handshake_user [of ?c "bytes_of_string u" "[]" ?r] string_of_bytes_of_string by simp
  moreover have "''h:80'' = socks_addr_text (AddrDomain [104]) @ '':'' @ dec_of_nat (unat (80 :: u16))" by code_simp
  then have "readRequest (srv_config s) (exchanged ?r [5, 2, 1, 0] ?c)
      = (Inr \<lparr>ri_cmd = cmdConnect, ri_targetAddr = ''h:80''\<rparr>, exchanged [] [5, 2, 1, 0] ?c)"
    unfolding read_request_iff
    by (intro exI [of _ cmdConnect] exI [of _ 0] exI [of _ "AddrDomain [104]"] exI [of _ 80] exI [of _ "[]"])
       (simp add: wf_socks_addr_def exchanged_def)
  moreover have "\<not> IsOnionAddress ''h''" "host_of_target ''h:80'' = ''h''" by code_simp+
  ultimately show ?thesis
    using assms(1) by (simp add: handle_take_def dispatch_def cmdConnect_def cmdResolve_def cmdResolvePTR_def user_conn_def example_conn_def)
qed

lemma serve_user_run:
  assumes run: "serves padded_hash two_start v" and u: "length u < 256"
    and i: "i \<notin> srv_activeConns (sv_server v)" "card (srv_activeConns (sv_server v)) < 2"
    and p: "srv_circuitPool (sv_server v) = Some p"
  shows "serves padded_hash two_start (serve_user i u v) \<and> srv_activeConns (sv_server (serve_user i u v)) = insert i (srv_activeConns (sv_server v))
    \<and> (\<exists>job. sv_jobs (serve_user i u v) = (sv_jobs v)(i \<mapsto> job) \<and> jb_username job = u \<and> jb_cmd job = cmdConnect
         \<and> jb_circ job = fst (GetWithIsolation test_build (connection_key padded_hash two_users ''h:80'' u (Some 4000))
                              (srv_circuits (sv_server v)) p))"
proof -
  let ?sha = padded_hash and ?key = "connection_key padded_hash two_users ''h:80'' u (Some 4000)"
  have inv: "serve_inv ?sha two_users v" using serves_inv [OF run [unfolded two_start_def]] by (simp add: two_users_def Socks_DefaultConfig_def)
  then have cfg: "srv_config (sv_server v) = two_users" and none: "sv_jobs v i = None"
    using i by (auto simp: serve_inv_def limit_inv_def)
  define s where "s = snd (accept_conn i (user_conn u) (sv_server v))"
  have acc: "accept_conn i (user_conn u) (sv_server v) = (True, s)" and s: "srv_conns s i = Some (user_conn u)"
      "srv_activeConns s = insert i (srv_activeConns (sv_server v))" "srv_circuitPool s = Some p"
      "srv_circuits s = srv_circuits (sv_server v)" "srv_config s = two_users"
    using i cfg p by (simp_all add: s_def accept_conn_def Let_def set_conn_def two_users_def)
  obtain job1 s1 where b: "handle_take two_env i s = (job1, s1)" by fastforce
  obtain job2 s2 where n2: "handle_next two_env i (job1, s1) = (job2, s2)" by fastforce
  obtain job s3 where n3: "handle_next two_env i (job2, s2) = (job, s3)" by fastforce
  have v': "serve_user i u v = v\<lparr>sv_server := s3, sv_jobs := (sv_jobs v)(i \<mapsto> job)\<rparr>"
    using b n2 n3 by (simp add: serve_user_def handle_begin_def s_def Let_def)
  let ?v1 = "v\<lparr>sv_server := s1, sv_jobs := (sv_jobs v)(i \<mapsto> job1)\<rparr>" and ?v2 = "v\<lparr>sv_server := s2, sv_jobs := (sv_jobs v)(i \<mapsto> job2)\<rparr>"
  have "serves ?sha two_start (v\<lparr>sv_server := s\<rparr>)" using serves.step [OF run serve_step.accept [OF i(1) acc]] .
  moreover have "serve_step ?sha (v\<lparr>sv_server := s\<rparr>) ?v1"
    using serve_step.begin_handler [of i "v\<lparr>sv_server := s\<rparr>", OF _ _ two_env_ok] b s none by simp
  moreover have "serve_step ?sha ?v1 ?v2"
    using serve_step.proceed [of ?v1 i, OF _ two_env_ok] n2 by simp
  moreover have "serve_step ?sha ?v2 (serve_user i u v)"
    using serve_step.proceed [of ?v2 i, OF _ two_env_ok] n3 by (simp add: v')
  ultimately have r: "serves ?sha two_start (serve_user i u v)" by (blast intro: serves.step)
  let ?c = "exchanged [] [5, 2, 1, 0] (user_conn u)"
  have go: "connect_circuit two_env i ?c ''h:80'' u (set_conn i ?c s) = (job1, s1)" using b user_begin [OF s(1) u] by simp
  obtain fr t1 where t: "take_circuit two_env ?key p (set_conn i ?c s) = (fr, t1)" by fastforce
  have fr: "fr = fst (GetWithIsolation test_build ?key (srv_circuits (sv_server v)) p)"
    using t s(4) by (auto simp: take_circuit_def set_conn_def two_env_def example_socks_env_def split: prod.splits)
  have "sk_remotePort ?c = Some 4000" by (simp add: user_conn_def example_conn_def)
  then have "jb_circ job1 = fr \<and> jb_username job1 = u \<and> jb_cmd job1 = cmdConnect \<and> srv_frame t1 s1"
    using connect_job [OF two_env_ok go _ _ t] s(3,5) by (simp add: set_conn_def)
  with handle_next_frame [OF two_env_ok n2] handle_next_frame [OF two_env_ok n3]
  have j: "jb_circ job = fr \<and> jb_username job = u \<and> jb_cmd job = cmdConnect" "srv_frame t1 s3"
    using srv_frame_trans by metis+
  with take_same [OF t] s(2) have "srv_activeConns s3 = insert i (srv_activeConns (sv_server v))"
    by (simp add: srv_frame_def set_conn_def)
  with r j fr show ?thesis unfolding v' by (intro conjI exI [of _ job]) simp_all
qed

text \<open>Ann is served by the first circuit, Bob after her.\<close>

lemma two_served:
  "\<exists>v ann bob. serves padded_hash two_start v \<and> srv_activeConns (sv_server v) = {1, 2} \<and> sv_jobs v 1 = Some ann \<and> sv_jobs v 2 = Some bob
     \<and> jb_circ ann = Some 0 \<and> jb_username ann = ''ann'' \<and> jb_username bob = ''bob'' \<and> jb_cmd ann = cmdConnect"
proof -
  let ?sha = padded_hash and ?v1 = "serve_user 1 ''ann'' two_start"
  have st: "srv_activeConns (sv_server two_start) = {}" "srv_circuitPool (sv_server two_start) = Some (NewCircuitPool None)"
      "srv_circuits (sv_server two_start) = Map.empty"
    by (simp_all add: two_start_def serving_new_def SetCircuitPool_def NewServerWithConfig_def)
  have get: "fst (GetWithIsolation test_build key Map.empty (NewCircuitPool None)) = Some 0" for key
    by (simp add: GetWithIsolation_def NewCircuitPool_def Let_def test_build_def)
  from serve_user_run [OF serves.start, of "''ann''" 1] st get obtain ann where
    v1: "serves ?sha two_start ?v1" "srv_activeConns (sv_server ?v1) = {1}" "sv_jobs ?v1 1 = Some ann" "jb_circ ann = Some 0" "jb_username ann = ''ann''" "jb_cmd ann = cmdConnect"
    by auto
  have "serve_inv ?sha two_users ?v1"
    using serves_inv [OF v1(1) [unfolded two_start_def]] by (simp add: two_start_def two_users_def Socks_DefaultConfig_def)
  then obtain p where p: "srv_circuitPool (sv_server ?v1) = Some p" by (auto simp: serve_inv_def circs_inv_def)
  from serve_user_run [OF v1(1) _ _ _ p, of "''bob''" 2] v1 obtain bob where
    "serves ?sha two_start (serve_user 2 ''bob'' ?v1)" "srv_activeConns (sv_server (serve_user 2 ''bob'' ?v1)) = {1, 2}"
    "sv_jobs (serve_user 2 ''bob'' ?v1) = (sv_jobs ?v1)(2 \<mapsto> bob)" "jb_username bob = ''bob''"
    by auto
  with v1 show ?thesis by (intro exI [of _ "serve_user 2 ''bob'' ?v1"] exI [of _ ann] exI [of _ bob]) simp
qed

subsection \<open>What every run keeps\<close>

text \<open>
  C18: The connection limit holds over every run: with a limit set, the tracked connections
  never exceed it, every running handler belongs to a tracked connection, and a connection
  beyond the limit is closed without a handler.
\<close>

theorem served_connection_limit:
  assumes run: "serves sha256 (serving_new address cfg poolCfg) v" and limit: "so_MaxConnections cfg > 0"
  shows "int (card (srv_activeConns (sv_server v))) \<le> so_MaxConnections cfg
    \<and> dom (sv_jobs v) \<subseteq> srv_activeConns (sv_server v)
    \<and> (int (card (srv_activeConns (sv_server v))) = so_MaxConnections cfg
       \<longrightarrow> accept_conn i conn (sv_server v) = (False, set_conn i (conn\<lparr>sk_closed := True\<rparr>) (sv_server v)))"
  using serves_inv [OF run] limit by (simp_all add: serve_inv_def limit_inv_def accept_conn_def Let_def)

theorem served_connection_limit_witness:
  "\<exists>v :: unit serving. srv_activeConns (sv_server v) = {1, 2} \<and> 1 \<in> dom (sv_jobs v)
     \<and> accept_conn 3 (user_conn ''eve'') (sv_server v)
         = (False, set_conn 3 ((user_conn ''eve'')\<lparr>sk_closed := True\<rparr>) (sv_server v))"
proof -
  obtain v ann bob where v: "serves padded_hash two_start v" "srv_activeConns (sv_server v) = {1, 2}" "sv_jobs v 1 = Some ann"
      "sv_jobs v 2 = Some bob"
    using two_served by blast
  have max: "so_MaxConnections two_users = 2" by (simp add: two_users_def)
  from served_connection_limit [OF v(1) [unfolded two_start_def], of 3 "user_conn ''eve''"] v max show ?thesis
    by (intro exI [of _ v]) auto
qed

text \<open>
  C4: No circuit is in the hands of two connections at once, over every interleaving of the
  handlers, the prebuilding and the circuits' own activity; a circuit in use is not in the pool.
\<close>

theorem circuit_one_connection:
  assumes run: "serves sha256 (serving_new address cfg poolCfg) v" and limit: "so_MaxConnections cfg \<ge> 0"
    and i: "sv_jobs v i = Some job" "jb_circ job = Some r"
  shows "(sv_jobs v j = Some job' \<and> jb_circ job' = Some r \<longrightarrow> j = i)
    \<and> (\<exists>p. srv_circuitPool (sv_server v) = Some p \<and> r \<notin> pool_refs p)"
proof -
  note inv = serves_inv [OF run limit, unfolded serve_inv_def]
  have h: "held_by (sv_jobs v) i = Some r" using i by (simp add: held_by_def)
  then have "r \<in> heldset (sv_jobs v)" by (auto simp: heldset_def)
  moreover obtain p where "srv_circuitPool (sv_server v) = Some p" "pool_excl p (heldset (sv_jobs v))"
    using inv by (auto simp: circs_inv_def)
  moreover have "j = i" if "sv_jobs v j = Some job'" "jb_circ job' = Some r"
    using inv h that by (auto simp: one_holder_def held_by_def)
  ultimately show ?thesis using excl_unheld by blast
qed

theorem circuit_one_connection_witness:
  "\<exists>v :: unit serving. \<exists>ann bob p. sv_jobs v 1 = Some ann \<and> jb_circ ann = Some 0 \<and> sv_jobs v 2 = Some bob \<and> jb_circ bob \<noteq> Some 0
     \<and> srv_circuitPool (sv_server v) = Some p \<and> 0 \<notin> pool_refs p"
proof -
  obtain v ann bob where v: "serves padded_hash two_start v" "sv_jobs v 1 = Some ann" "sv_jobs v 2 = Some bob" "jb_circ ann = Some 0"
    using two_served by blast
  have "so_MaxConnections two_users \<ge> 0" by (simp add: two_users_def)
  from circuit_one_connection [OF v(1) [unfolded two_start_def] this v(2,4), of 2 bob] v show ?thesis by auto
qed

text \<open>
  C3: With credential isolation, the circuit that served a CONNECT of a user with a name
  serves nobody else: neither a CONNECT of a connection without a name, nor one with a name
  whose SHA-256 digest differs, nor any RESOLVE or RESOLVE_PTR. This holds for every two handlers
  of a run, in progress or ended, whatever the clients, the pool and the circuits do in between.
  Two names can only share a circuit when their digests collide. Resolutions are not isolated
  from each other: whatever the user, they take their circuits without a key
  (resolutions_share_a_circuit).
\<close>

theorem users_never_share_circuits:
  assumes run: "serves sha256 (serving_new address cfg poolCfg) v" and limit: "so_MaxConnections cfg \<ge> 0"
    and sha: "\<And>x. length (sha256 x) = 32"
    and cfg: "so_IsolationLevel cfg = IsolationCredential" "so_IsolateSOCKSAuth cfg"
    and jobs: "job \<in> all_jobs v" "jb_cmd job = cmdConnect" "jb_username job \<noteq> []" "jb_circ job = Some r"
    and other: "job' \<in> all_jobs v" "jb_cmd job' \<noteq> cmdConnect \<or> jb_username job' = []
      \<or> sha256 (bytes_of_string (jb_username job')) \<noteq> sha256 (bytes_of_string (jb_username job))"
  shows "jb_circ job' \<noteq> Some r"
proof
  assume circ': "jb_circ job' = Some r"
  note inv = serves_inv [OF run limit, unfolded serve_inv_def]
  from inv jobs obtain t p where k: "jb_isolationKey job = connection_key sha256 cfg t (jb_username job) p"
    by (auto simp: job_ok_def)
  note pools = credential_pools [of sha256, OF sha cfg jobs(3)]
  have k': "jb_isolationKey job' = None \<or> jb_cmd job' = cmdConnect
      \<and> (\<exists>t p. jb_isolationKey job' = connection_key sha256 cfg t (jb_username job') p)"
    using inv other(1) by (auto simp: job_ok_def)
  have "has_key (srv_circuits (sv_server v)) r (jb_isolationKey job)" "has_key (srv_circuits (sv_server v)) r (jb_isolationKey job')"
    using inv jobs(1,4) other(1) circ' by (simp_all add: keyed_def)
  with k pools(1) have iso: "isolating (jb_isolationKey job')"
      "IsolationKey_Key (jb_isolationKey job') = IsolationKey_Key (jb_isolationKey job)" by (auto simp: has_key_def)
  then have "jb_isolationKey job' \<noteq> None" by (auto simp: isolating_def split: option.splits)
  with k' obtain t' p' where c: "jb_cmd job' = cmdConnect" "jb_isolationKey job' = connection_key sha256 cfg t' (jb_username job') p'" by blast
  with iso(2) k pools(2) have "jb_username job' \<noteq> []
      \<and> sha256 (bytes_of_string (jb_username job)) = sha256 (bytes_of_string (jb_username job'))"
    by metis
  with other(2) c(1) show False by simp
qed

theorem users_never_share_circuits_witness:
  "\<exists>v :: unit serving. \<exists>ann\<in>all_jobs v. \<exists>bob\<in>all_jobs v. serves padded_hash two_start v
     \<and> jb_username ann = ''ann'' \<and> jb_username bob = ''bob'' \<and> jb_circ ann = Some 0 \<and> jb_circ bob \<noteq> Some 0"
proof -
  obtain v ann bob where v: "serves padded_hash two_start v" "sv_jobs v 1 = Some ann" "sv_jobs v 2 = Some bob" "jb_circ ann = Some 0"
      "jb_username ann = ''ann''" "jb_username bob = ''bob''" "jb_cmd ann = cmdConnect"
    using two_served by blast
  then have j: "ann \<in> all_jobs v" "bob \<in> all_jobs v" by (auto simp: all_jobs_def ran_def)
  have h: "padded_hash (bytes_of_string ''bob'') \<noteq> padded_hash (bytes_of_string ''ann'')" by code_simp
  have "jb_circ bob \<noteq> Some 0"
    by (rule users_never_share_circuits [OF v(1) [unfolded two_start_def] _ padded_hash_length _ _ j(1) v(7) _ v(4) j(2)])
       (simp_all add: two_users_def v h)
  with v j show ?thesis by blast
qed

end
