(* ===== verification/Config.thy ===== *)
theory Config
  imports OnionParser
begin

section \<open>pkg/config/config.go and schema.go: the configuration\<close>

text \<open>
  The options, their defaults over the ports the operating system has free (autoconfig.go),
  Validate, and ValidateDetailed of schema.go with its messages. The two validators agree: the
  field Validate complains about is the first one ValidateDetailed lists. The JSON schema itself
  is data for editors and is left out.
\<close>

subsection \<open>Options\<close>

record OnionServiceConfig =
  os_ServiceDir :: string
  os_VirtualPort :: int
  os_TargetAddr :: string
  os_MaxStreams :: int
  os_ClientAuth :: "string \<rightharpoonup> string"

record Config =
  cfg_SocksPort :: int
  cfg_ControlPort :: int
  cfg_DataDirectory :: string
  cfg_CircuitBuildTimeout :: duration
  cfg_MaxCircuitDirtiness :: duration
  cfg_NewCircuitPeriod :: duration
  cfg_NumEntryGuards :: int
  cfg_UseEntryGuards :: bool
  cfg_UseBridges :: bool
  cfg_BridgeAddresses :: "string list"
  cfg_ExcludeNodes :: "string list"
  cfg_ExcludeExitNodes :: "string list"
  cfg_ConnLimit :: int
  cfg_DormantTimeout :: duration
  cfg_OnionServices :: "OnionServiceConfig list"
  cfg_LogLevel :: string
  cfg_MetricsPort :: int
  cfg_EnableMetrics :: bool
  cfg_EnableConnectionPooling :: bool
  cfg_ConnectionPoolMaxIdle :: int
  cfg_ConnectionPoolMaxLife :: duration
  cfg_EnableCircuitPrebuilding :: bool
  cfg_CircuitPoolMinSize :: int
  cfg_CircuitPoolMaxSize :: int
  cfg_EnableBufferPooling :: bool
  cfg_IsolationLevel :: string
  cfg_IsolateDestinations :: bool
  cfg_IsolateSOCKSAuth :: bool
  cfg_IsolateClientPort :: bool
  cfg_IsolateClientProtocol :: bool

subsection \<open>Defaults\<close>

text \<open>
  FindAvailablePort tries the preferred port and the 99 above it; \<open>available\<close> is the answer of
  binding a port. It is asked anew in every call, so each call has its own.
\<close>

fun first_available :: "(int \<Rightarrow> bool) \<Rightarrow> int \<Rightarrow> nat \<Rightarrow> int option" where
  "first_available available port 0 = None"
| "first_available available port (Suc n) =
     (if available port then Some port else first_available available (port + 1) n)"

definition FindAvailablePort :: "(int \<Rightarrow> bool) \<Rightarrow> int \<Rightarrow> int" where
  "FindAvailablePort available preferredPort =
     (if available preferredPort then preferredPort
      else case first_available available (preferredPort + 1) 99 of
             Some port \<Rightarrow> port
           | None \<Rightarrow> preferredPort)"

text \<open>\<open>dataDir\<close> is the answer of GetDefaultDataDir.\<close>

definition Config_Default :: "(int \<Rightarrow> bool) \<Rightarrow> (int \<Rightarrow> bool) \<Rightarrow> (int \<Rightarrow> bool) \<Rightarrow> string option \<Rightarrow> Config" where
  "Config_Default available1 available2 available3 dataDir =
     (let socksPort = FindAvailablePort available1 9050;
          controlPort0 = FindAvailablePort available2 9051;
          controlPort = (if controlPort0 = socksPort then FindAvailablePort available3 (controlPort0 + 1) else controlPort0)
      in \<lparr>cfg_SocksPort = socksPort, cfg_ControlPort = controlPort,
          cfg_DataDirectory = (case dataDir of None \<Rightarrow> ''./go-tor-data'' | Some d \<Rightarrow> d),
          cfg_CircuitBuildTimeout = 60 * Second, cfg_MaxCircuitDirtiness = 10 * Minute, cfg_NewCircuitPeriod = 30 * Second,
          cfg_NumEntryGuards = 3, cfg_UseEntryGuards = True, cfg_UseBridges = False, cfg_BridgeAddresses = [],
          cfg_ExcludeNodes = [], cfg_ExcludeExitNodes = [], cfg_ConnLimit = 1000, cfg_DormantTimeout = 24 * Hour,
          cfg_OnionServices = [], cfg_LogLevel = ''info'', cfg_MetricsPort = 0, cfg_EnableMetrics = False,
          cfg_EnableConnectionPooling = True, cfg_ConnectionPoolMaxIdle = 5, cfg_ConnectionPoolMaxLife = 10 * Minute,
          cfg_EnableCircuitPrebuilding = True, cfg_CircuitPoolMinSize = 2, cfg_CircuitPoolMaxSize = 10,
          cfg_EnableBufferPooling = True, cfg_IsolationLevel = ''none'', cfg_IsolateDestinations = False,
          cfg_IsolateSOCKSAuth = False, cfg_IsolateClientPort = False, cfg_IsolateClientProtocol = False\<rparr>)"

subsection \<open>Validate\<close>

datatype config_error =
    InvalidSocksPort int
  | InvalidControlPort int
  | InvalidMetricsPort int
  | ControlPortConflict int string
  | MetricsPortConflict int string
  | CircuitBuildTimeoutNotPositive
  | MaxCircuitDirtinessNotPositive
  | NumEntryGuardsTooSmall
  | ConnLimitTooSmall
  | InvalidLogLevel string
  | OnionVirtualPortInvalid nat int
  | OnionTargetAddrMissing nat
  | OnionServiceDirMissing nat
  | ConnectionPoolMaxIdleNegative
  | ConnectionPoolMaxLifeNegative
  | CircuitPoolMinSizeNegative
  | CircuitPoolMaxBelowMin
  | InvalidIsolationLevel string

definition bad_port :: "int \<Rightarrow> bool" where
  "bad_port p \<longleftrightarrow> p < 0 \<or> p > 65535"

definition validLogLevels :: "string list" where
  "validLogLevels = [''debug'', ''info'', ''warn'', ''error'']"

definition validIsolationLevels :: "string list" where
  "validIsolationLevels = [''none'', ''destination'', ''credential'', ''port'', ''session'']"

text \<open>The ports in use before the control port, and before the metrics port.\<close>

definition used_by_socks :: "Config \<Rightarrow> int \<rightharpoonup> string" where
  "used_by_socks c = (if cfg_SocksPort c > 0 then [cfg_SocksPort c \<mapsto> ''SocksPort''] else Map.empty)"

definition used_by_control :: "Config \<Rightarrow> int \<rightharpoonup> string" where
  "used_by_control c =
     (if cfg_ControlPort c > 0 then (used_by_socks c)(cfg_ControlPort c \<mapsto> ''ControlPort'') else used_by_socks c)"

fun check_onion_services :: "nat \<Rightarrow> OnionServiceConfig list \<Rightarrow> config_error option" where
  "check_onion_services i [] = None"
| "check_onion_services i (s # ss) =
     (if os_VirtualPort s < 1 \<or> os_VirtualPort s > 65535 then Some (OnionVirtualPortInvalid i (os_VirtualPort s))
      else if os_TargetAddr s = [] then Some (OnionTargetAddrMissing i)
      else if os_ServiceDir s = [] then Some (OnionServiceDirMissing i)
      else check_onion_services (i + 1) ss)"

definition Config_Validate :: "Config \<Rightarrow> config_error option" where
  "Config_Validate c =
     (if bad_port (cfg_SocksPort c) then Some (InvalidSocksPort (cfg_SocksPort c))
      else if bad_port (cfg_ControlPort c) then Some (InvalidControlPort (cfg_ControlPort c))
      else if bad_port (cfg_MetricsPort c) then Some (InvalidMetricsPort (cfg_MetricsPort c))
      else if cfg_ControlPort c > 0 \<and> used_by_socks c (cfg_ControlPort c) \<noteq> None then
        Some (ControlPortConflict (cfg_ControlPort c) (the (used_by_socks c (cfg_ControlPort c))))
      else if cfg_MetricsPort c > 0 \<and> used_by_control c (cfg_MetricsPort c) \<noteq> None then
        Some (MetricsPortConflict (cfg_MetricsPort c) (the (used_by_control c (cfg_MetricsPort c))))
      else if cfg_CircuitBuildTimeout c \<le> 0 then Some CircuitBuildTimeoutNotPositive
      else if cfg_MaxCircuitDirtiness c \<le> 0 then Some MaxCircuitDirtinessNotPositive
      else if cfg_NumEntryGuards c < 1 then Some NumEntryGuardsTooSmall
      else if cfg_ConnLimit c < 1 then Some ConnLimitTooSmall
      else if cfg_LogLevel c \<notin> set validLogLevels then Some (InvalidLogLevel (cfg_LogLevel c))
      else if check_onion_services 0 (cfg_OnionServices c) \<noteq> None then check_onion_services 0 (cfg_OnionServices c)
      else if cfg_ConnectionPoolMaxIdle c < 0 then Some ConnectionPoolMaxIdleNegative
      else if cfg_ConnectionPoolMaxLife c < 0 then Some ConnectionPoolMaxLifeNegative
      else if cfg_CircuitPoolMinSize c < 0 then Some CircuitPoolMinSizeNegative
      else if cfg_CircuitPoolMaxSize c < cfg_CircuitPoolMinSize c then Some CircuitPoolMaxBelowMin
      else if cfg_IsolationLevel c \<notin> set validIsolationLevels then Some (InvalidIsolationLevel (cfg_IsolationLevel c))
      else None)"

text \<open>Clone copies the slices; as values the copies are the originals.\<close>

definition Config_Clone :: "Config \<Rightarrow> Config" where
  "Config_Clone c = c\<lparr>cfg_BridgeAddresses := [] @ cfg_BridgeAddresses c, cfg_ExcludeNodes := [] @ cfg_ExcludeNodes c,
     cfg_ExcludeExitNodes := [] @ cfg_ExcludeExitNodes c, cfg_OnionServices := cfg_OnionServices c\<rparr>"

subsection \<open>ValidateDetailed\<close>

datatype config_value = IntValue int | DurationValue duration | StringValue string

record ValidationError =
  ve_Field :: string
  ve_Value :: config_value
  ve_Message :: string
  ve_Suggestion :: string
  ve_Severity :: string

record ValidationResult =
  vr_Valid :: bool
  vr_Errors :: "ValidationError list"
  vr_Warnings :: "ValidationError list"

definition ValidationError_Error :: "ValidationError \<Rightarrow> string" where
  "ValidationError_Error v =
     (if ve_Suggestion v \<noteq> [] then ve_Field v @ '': '' @ ve_Message v @ '' (suggestion: '' @ ve_Suggestion v @ '')''
      else ve_Field v @ '': '' @ ve_Message v)"

definition failure :: "string \<Rightarrow> config_value \<Rightarrow> string \<Rightarrow> string \<Rightarrow> ValidationError" where
  "failure field val message suggestion =
     \<lparr>ve_Field = field, ve_Value = val, ve_Message = message, ve_Suggestion = suggestion, ve_Severity = ''error''\<rparr>"

definition remark :: "string \<Rightarrow> config_value \<Rightarrow> string \<Rightarrow> string \<Rightarrow> ValidationError" where
  "remark field val message suggestion =
     \<lparr>ve_Field = field, ve_Value = val, ve_Message = message, ve_Suggestion = suggestion, ve_Severity = ''warning''\<rparr>"

text \<open>What one check of ValidateDetailed appends: errors, which make the result invalid, and warnings.\<close>

type_synonym check = "ValidationError list \<times> ValidationError list"

definition add_check :: "check \<Rightarrow> ValidationResult \<Rightarrow> ValidationResult" where
  "add_check chk r =
     \<lparr>vr_Valid = (vr_Valid r \<and> fst chk = []), vr_Errors = vr_Errors r @ fst chk, vr_Warnings = vr_Warnings r @ snd chk\<rparr>"

definition check_socks_port :: "Config \<Rightarrow> check" where
  "check_socks_port c =
     (let p = cfg_SocksPort c in
      if bad_port p then
        ([failure ''SocksPort'' (IntValue p) (''invalid port number: '' @ dec_of_int p)
            ''use a port between 0 and 65535 (0 to disable, 1024-65535 recommended for non-root)''], [])
      else if p > 0 \<and> p < 1024 then
        ([], [remark ''SocksPort'' (IntValue p) ''using privileged port (< 1024)''
                ''consider using port >= 1024 to avoid requiring root privileges''])
      else ([], []))"

definition check_control_port :: "Config \<Rightarrow> check" where
  "check_control_port c =
     (let p = cfg_ControlPort c in
      if bad_port p then
        ([failure ''ControlPort'' (IntValue p) (''invalid port number: '' @ dec_of_int p)
            ''use a port between 0 and 65535 (0 to disable)''], [])
      else ([], []))"

definition check_metrics_port :: "Config \<Rightarrow> check" where
  "check_metrics_port c =
     (let p = cfg_MetricsPort c in
      if bad_port p then
        ([failure ''MetricsPort'' (IntValue p) (''invalid port number: '' @ dec_of_int p)
            ''use a port between 0 and 65535 (0 to disable metrics)''], [])
      else ([], []))"

definition conflict :: "string \<Rightarrow> int \<Rightarrow> string \<Rightarrow> ValidationError" where
  "conflict field p existing =
     failure field (IntValue p) (''port conflict with '' @ existing)
       (''choose a different port (currently conflicts with '' @ existing @ '' on port '' @ dec_of_int p @ '')'')"

definition check_control_conflict :: "Config \<Rightarrow> check" where
  "check_control_conflict c =
     (let p = cfg_ControlPort c in
      if p > 0 then (case used_by_socks c p of None \<Rightarrow> ([], []) | Some existing \<Rightarrow> ([conflict ''ControlPort'' p existing], []))
      else ([], []))"

definition check_metrics_conflict :: "Config \<Rightarrow> check" where
  "check_metrics_conflict c =
     (let p = cfg_MetricsPort c in
      if p > 0 \<or> cfg_EnableMetrics c then
        (if p > 0 then
           (case used_by_control c p of None \<Rightarrow> ([], []) | Some existing \<Rightarrow> ([conflict ''MetricsPort'' p existing], []))
         else ([], []))
      else ([], []))"

definition check_build_timeout :: "Config \<Rightarrow> check" where
  "check_build_timeout c =
     (let d = cfg_CircuitBuildTimeout c in
      if d \<le> 0 then
        ([failure ''CircuitBuildTimeout'' (DurationValue d) ''must be positive''
            ''recommended: 60s to 120s for normal networks, 180s for slow networks''], [])
      else if d < 30 * Second then
        ([], [remark ''CircuitBuildTimeout'' (DurationValue d) ''unusually short timeout may cause circuit build failures''
                ''recommended minimum: 30s''])
      else ([], []))"

definition check_dirtiness :: "Config \<Rightarrow> check" where
  "check_dirtiness c =
     (if cfg_MaxCircuitDirtiness c \<le> 0 then
        ([failure ''MaxCircuitDirtiness'' (DurationValue (cfg_MaxCircuitDirtiness c)) ''must be positive''
            ''recommended: 10m to 30m for privacy/performance balance''], [])
      else ([], []))"

definition check_guards :: "Config \<Rightarrow> check" where
  "check_guards c =
     (let n = cfg_NumEntryGuards c in
      if n < 1 then
        ([failure ''NumEntryGuards'' (IntValue n) ''must be at least 1''
            ''recommended: 3 guards for security/availability balance''], [])
      else if n > 5 then
        ([], [remark ''NumEntryGuards'' (IntValue n) ''large number of guards may reduce anonymity'' ''recommended: 3-5 guards''])
      else ([], []))"

definition check_conn_limit :: "Config \<Rightarrow> check" where
  "check_conn_limit c =
     (if cfg_ConnLimit c < 1 then
        ([failure ''ConnLimit'' (IntValue (cfg_ConnLimit c)) ''must be at least 1''
            ''recommended: 1000 for normal usage, adjust based on available file descriptors''], [])
      else ([], []))"

definition check_log_level :: "Config \<Rightarrow> check" where
  "check_log_level c =
     (if cfg_LogLevel c \<notin> set validLogLevels then
        ([failure ''LogLevel'' (StringValue (cfg_LogLevel c)) ''invalid log level''
            ''must be one of: debug, info, warn, error''], [])
      else ([], []))"

definition onion_field :: "nat \<Rightarrow> string \<Rightarrow> string" where
  "onion_field i field = ''OnionServices['' @ dec_of_nat i @ ''].'' @ field"

definition check_onion_service :: "nat \<Rightarrow> OnionServiceConfig \<Rightarrow> ValidationError list" where
  "check_onion_service i s =
     (if os_VirtualPort s < 1 \<or> os_VirtualPort s > 65535 then
        [failure (onion_field i ''VirtualPort'') (IntValue (os_VirtualPort s)) (''invalid port: '' @ dec_of_int (os_VirtualPort s))
           ''use a port between 1 and 65535''] else [])
     @ (if os_TargetAddr s = [] then
          [failure (onion_field i ''TargetAddr'') (StringValue (os_TargetAddr s)) ''target address is required''
             ''specify target as 'host:port' (e.g., 'localhost:8080')''] else [])
     @ (if os_ServiceDir s = [] then
          [failure (onion_field i ''ServiceDir'') (StringValue (os_ServiceDir s)) ''service directory is required''
             ''specify a directory to store service keys and state''] else [])"

fun onion_errors :: "nat \<Rightarrow> OnionServiceConfig list \<Rightarrow> ValidationError list" where
  "onion_errors i [] = []"
| "onion_errors i (s # ss) = check_onion_service i s @ onion_errors (i + 1) ss"

definition check_onions :: "Config \<Rightarrow> check" where
  "check_onions c = (onion_errors 0 (cfg_OnionServices c), [])"

definition check_pool_idle :: "Config \<Rightarrow> check" where
  "check_pool_idle c =
     (if cfg_ConnectionPoolMaxIdle c < 0 then
        ([failure ''ConnectionPoolMaxIdle'' (IntValue (cfg_ConnectionPoolMaxIdle c)) ''must be non-negative''
            ''recommended: 5-20 depending on traffic patterns''], [])
      else ([], []))"

definition check_pool_life :: "Config \<Rightarrow> check" where
  "check_pool_life c =
     (if cfg_ConnectionPoolMaxLife c < 0 then
        ([failure ''ConnectionPoolMaxLife'' (DurationValue (cfg_ConnectionPoolMaxLife c)) ''must be non-negative''
            ''recommended: 10m to 1h''], [])
      else ([], []))"

definition check_pool_min :: "Config \<Rightarrow> check" where
  "check_pool_min c =
     (if cfg_CircuitPoolMinSize c < 0 then
        ([failure ''CircuitPoolMinSize'' (IntValue (cfg_CircuitPoolMinSize c)) ''must be non-negative''
            ''recommended: 2-5 for instant circuit availability''], [])
      else ([], []))"

definition check_pool_max :: "Config \<Rightarrow> check" where
  "check_pool_max c =
     (if cfg_CircuitPoolMaxSize c < cfg_CircuitPoolMinSize c then
        ([failure ''CircuitPoolMaxSize'' (IntValue (cfg_CircuitPoolMaxSize c)) ''must be >= CircuitPoolMinSize''
            (''set to at least '' @ dec_of_int (cfg_CircuitPoolMinSize c) @ '' (current CircuitPoolMinSize)'')], [])
      else ([], []))"

definition check_isolation :: "Config \<Rightarrow> check" where
  "check_isolation c =
     (if cfg_IsolationLevel c \<notin> set validIsolationLevels then
        ([failure ''IsolationLevel'' (StringValue (cfg_IsolationLevel c)) ''invalid isolation level''
            ''must be one of: none, destination, credential, port, session''], [])
      else ([], []))"

definition detailed_checks :: "Config \<Rightarrow> check list" where
  "detailed_checks c =
     [check_socks_port c, check_control_port c, check_metrics_port c, check_control_conflict c, check_metrics_conflict c,
      check_build_timeout c, check_dirtiness c, check_guards c, check_conn_limit c, check_log_level c, check_onions c,
      check_pool_idle c, check_pool_life c, check_pool_min c, check_pool_max c, check_isolation c]"

definition ValidateDetailed :: "Config \<Rightarrow> ValidationResult" where
  "ValidateDetailed c = fold add_check (detailed_checks c) \<lparr>vr_Valid = True, vr_Errors = [], vr_Warnings = []\<rparr>"

subsection \<open>The two validators agree\<close>

definition error_field :: "config_error \<Rightarrow> string" where
  "error_field e = (case e of
     InvalidSocksPort p \<Rightarrow> ''SocksPort'' | InvalidControlPort p \<Rightarrow> ''ControlPort'' | InvalidMetricsPort p \<Rightarrow> ''MetricsPort''
   | ControlPortConflict p s \<Rightarrow> ''ControlPort'' | MetricsPortConflict p s \<Rightarrow> ''MetricsPort''
   | CircuitBuildTimeoutNotPositive \<Rightarrow> ''CircuitBuildTimeout'' | MaxCircuitDirtinessNotPositive \<Rightarrow> ''MaxCircuitDirtiness''
   | NumEntryGuardsTooSmall \<Rightarrow> ''NumEntryGuards'' | ConnLimitTooSmall \<Rightarrow> ''ConnLimit'' | InvalidLogLevel s \<Rightarrow> ''LogLevel''
   | OnionVirtualPortInvalid i p \<Rightarrow> onion_field i ''VirtualPort'' | OnionTargetAddrMissing i \<Rightarrow> onion_field i ''TargetAddr''
   | OnionServiceDirMissing i \<Rightarrow> onion_field i ''ServiceDir'' | ConnectionPoolMaxIdleNegative \<Rightarrow> ''ConnectionPoolMaxIdle''
   | ConnectionPoolMaxLifeNegative \<Rightarrow> ''ConnectionPoolMaxLife'' | CircuitPoolMinSizeNegative \<Rightarrow> ''CircuitPoolMinSize''
   | CircuitPoolMaxBelowMin \<Rightarrow> ''CircuitPoolMaxSize'' | InvalidIsolationLevel s \<Rightarrow> ''IsolationLevel'')"

definition first_field :: "ValidationError list \<Rightarrow> string option" where
  "first_field es = (case es of [] \<Rightarrow> None | e # _ \<Rightarrow> Some (ve_Field e))"

lemma first_field_simps [simp]:
  "first_field [] = None" "first_field (e # es) = Some (ve_Field e)"
  "first_field ((if b then e # es else []) @ ys) = (if b then Some (ve_Field e) else first_field ys)"
  "first_field (if b then e # es else []) = (if b then Some (ve_Field e) else None)"
  by (simp_all add: first_field_def)

lemma first_field_append: "first_field (xs @ ys) = (case first_field xs of None \<Rightarrow> first_field ys | Some f \<Rightarrow> Some f)"
  by (cases xs) (simp_all add: first_field_def)

lemma ve_Field_failure [simp]: "ve_Field (failure f v m s) = f" "ve_Field (conflict f p e) = f"
  by (simp_all add: failure_def conflict_def)

lemma onion_errors_first: "first_field (onion_errors i ss) = map_option error_field (check_onion_services i ss)"
  by (induction i ss rule: onion_errors.induct) (simp_all add: check_onion_service_def error_field_def)

lemma add_checks:
  "fold add_check chks r = \<lparr>vr_Valid = (vr_Valid r \<and> concat (map fst chks) = []),
     vr_Errors = vr_Errors r @ concat (map fst chks), vr_Warnings = vr_Warnings r @ concat (map snd chks)\<rparr>"
  by (induction chks arbitrary: r) (auto simp: add_check_def)

lemma detailed_errors:
  "vr_Errors (ValidateDetailed c) = concat (map fst (detailed_checks c))"
  "vr_Valid (ValidateDetailed c) \<longleftrightarrow> vr_Errors (ValidateDetailed c) = []"
  by (simp_all add: ValidateDetailed_def add_checks)

lemma check_errors:
  "first_field (fst (check_socks_port c)) = (if bad_port (cfg_SocksPort c) then Some ''SocksPort'' else None)"
  "first_field (fst (check_control_port c)) = (if bad_port (cfg_ControlPort c) then Some ''ControlPort'' else None)"
  "first_field (fst (check_metrics_port c)) = (if bad_port (cfg_MetricsPort c) then Some ''MetricsPort'' else None)"
  "first_field (fst (check_control_conflict c))
     = (if cfg_ControlPort c > 0 \<and> used_by_socks c (cfg_ControlPort c) \<noteq> None then Some ''ControlPort'' else None)"
  "first_field (fst (check_metrics_conflict c))
     = (if cfg_MetricsPort c > 0 \<and> used_by_control c (cfg_MetricsPort c) \<noteq> None then Some ''MetricsPort'' else None)"
  "first_field (fst (check_build_timeout c)) = (if cfg_CircuitBuildTimeout c \<le> 0 then Some ''CircuitBuildTimeout'' else None)"
  "first_field (fst (check_dirtiness c)) = (if cfg_MaxCircuitDirtiness c \<le> 0 then Some ''MaxCircuitDirtiness'' else None)"
  "first_field (fst (check_guards c)) = (if cfg_NumEntryGuards c < 1 then Some ''NumEntryGuards'' else None)"
  "first_field (fst (check_conn_limit c)) = (if cfg_ConnLimit c < 1 then Some ''ConnLimit'' else None)"
  "first_field (fst (check_log_level c)) = (if cfg_LogLevel c \<notin> set validLogLevels then Some ''LogLevel'' else None)"
  "first_field (fst (check_onions c)) = map_option error_field (check_onion_services 0 (cfg_OnionServices c))"
  "first_field (fst (check_pool_idle c)) = (if cfg_ConnectionPoolMaxIdle c < 0 then Some ''ConnectionPoolMaxIdle'' else None)"
  "first_field (fst (check_pool_life c)) = (if cfg_ConnectionPoolMaxLife c < 0 then Some ''ConnectionPoolMaxLife'' else None)"
  "first_field (fst (check_pool_min c)) = (if cfg_CircuitPoolMinSize c < 0 then Some ''CircuitPoolMinSize'' else None)"
  "first_field (fst (check_pool_max c))
     = (if cfg_CircuitPoolMaxSize c < cfg_CircuitPoolMinSize c then Some ''CircuitPoolMaxSize'' else None)"
  "first_field (fst (check_isolation c)) = (if cfg_IsolationLevel c \<notin> set validIsolationLevels then Some ''IsolationLevel'' else None)"
  by (simp_all add: check_socks_port_def check_control_port_def check_metrics_port_def check_control_conflict_def
      check_metrics_conflict_def check_build_timeout_def check_dirtiness_def check_guards_def check_conn_limit_def
      check_log_level_def check_onions_def check_pool_idle_def check_pool_life_def check_pool_min_def check_pool_max_def
      check_isolation_def Let_def onion_errors_first split: option.splits)

lemma orelse_if:
  "(case if b then Some x else None of None \<Rightarrow> y | Some z \<Rightarrow> Some z) = (if b then Some x else y)"
  "map_option f (if b then Some e else r) = (if b then Some (f e) else map_option f r)"
  "(case map_option f z of None \<Rightarrow> y | Some w \<Rightarrow> Some w) = (if z \<noteq> None then map_option f z else y)"
  "map_option f (if z \<noteq> None then z else r) = (if z \<noteq> None then map_option f z else map_option f r)"
  by (simp_all split: option.splits)

lemma first_detailed: "first_field (vr_Errors (ValidateDetailed c)) = map_option error_field (Config_Validate c)"
  unfolding Config_Validate_def detailed_errors detailed_checks_def list.map concat.simps first_field_append check_errors orelse_if
  by (simp add: error_field_def cong: if_cong)

text \<open>
  C32: Validate and ValidateDetailed agree: the result is valid exactly when Validate returns no
  error, and otherwise the field Validate complains about is the first one ValidateDetailed
  lists, the index of the onion service included.
\<close>

theorem validators_agree:
  "(vr_Valid (ValidateDetailed c) \<longleftrightarrow> Config_Validate c = None)
   \<and> map_option ve_Field (if vr_Errors (ValidateDetailed c) = [] then None else Some (hd (vr_Errors (ValidateDetailed c))))
       = map_option error_field (Config_Validate c)"
proof -
  have first: "first_field es = map_option ve_Field (if es = [] then None else Some (hd es))" for es
    by (cases es) simp_all
  from first [of "vr_Errors (ValidateDetailed c)"] first_detailed [of c]
  have f: "map_option ve_Field (if vr_Errors (ValidateDetailed c) = [] then None else Some (hd (vr_Errors (ValidateDetailed c))))
       = map_option error_field (Config_Validate c)" by simp
  then have "vr_Errors (ValidateDetailed c) = [] \<longleftrightarrow> Config_Validate c = None"
    by (cases "Config_Validate c") (auto split: if_splits)
  with f detailed_errors(2) show ?thesis by simp
qed

subsection \<open>The defaults\<close>

lemma first_available_range: "first_available av p n = Some q \<Longrightarrow> p \<le> q \<and> q < p + int n \<and> av q"
  by (induction av p n rule: first_available.induct) (auto split: if_splits)

lemma find_port_range: "FindAvailablePort av p \<in> {p..p + 99}"
proof (cases "first_available av (p + 1) 99")
  case (Some q)
  with first_available_range [OF Some] show ?thesis by (simp add: FindAvailablePort_def)
qed (simp add: FindAvailablePort_def)

text \<open>Whatever ports are free, and whenever they become so, the defaults pass Validate.\<close>

lemma default_config_valid: "Config_Validate (Config_Default av1 av2 av3 dataDir) = None"
proof -
  define s where "s = FindAvailablePort av1 9050"
  define k0 where "k0 = FindAvailablePort av2 9051"
  define k where "k = (if k0 = s then FindAvailablePort av3 (k0 + 1) else k0)"
  have "s \<in> {9050..9149}" "k0 \<in> {9051..9150}" using find_port_range [of av1 9050] find_port_range [of av2 9051] by (simp_all add: s_def k0_def)
  moreover have "k \<noteq> s \<and> k \<in> {9051..9250}"
    using find_port_range [of av3 "k0 + 1"] calculation by (auto simp: k_def)
  ultimately show ?thesis
    unfolding Config_Default_def Let_def s_def [symmetric] k0_def [symmetric] k_def [symmetric]
    by (simp add: Config_Validate_def bad_port_def used_by_socks_def used_by_control_def validLogLevels_def
        validIsolationLevels_def Second_def Minute_def Hour_def)
qed

end
