(* ===== verification/Torrc.thy ===== *)
theory Torrc
  imports Config NetAddr
begin

section \<open>pkg/config/loader.go: torrc files\<close>

text \<open>
  Reading and writing torrc files. What the loader calls of the standard library is written out
  on bytes: strconv.ParseInt, time.ParseDuration, the line scanner with its limit on long lines,
  and filepath.Clean on Unix. A fraction of a unit in a duration is computed in float64; it is
  the parameter \<open>fraction\<close> (the digits after the point, and the unit). strings.Fields,
  strings.TrimSpace and strings.ToLower are those of ASCII text: the code also splits and trims at
  the white space of Unicode (U+0085, U+00A0, U+2000 and so on) and lowers its letters, so the
  loader is exact for ASCII lines only, and what is shown of saved files is stated for them.
\<close>

subsection \<open>The standard library\<close>

definition parse_int64 :: "string \<Rightarrow> int option" where
  "parse_int64 s =
     (let (neg, body) = (case s of c # cs \<Rightarrow> if c = CHR ''-'' then (True, cs) else if c = CHR ''+'' then (False, cs) else (False, s)
                         | [] \<Rightarrow> (False, []));
          v = (if neg then - int (dec_value body) else int (dec_value body))
      in if body = [] \<or> \<not> list_all is_digit body then None
         else if - (2 ^ 63) \<le> v \<and> v < 2 ^ 63 then Some v else None)"

text \<open>time.ParseDuration: the two Greek spellings of microseconds are two bytes and an s.\<close>

definition duration_unit :: "string \<Rightarrow> nat option" where
  "duration_unit u =
     (if u = ''ns'' then Some 1
      else if u = ''us'' \<or> u = [CHR 0xC2, CHR 0xB5, CHR ''s''] \<or> u = [CHR 0xCE, CHR 0xBC, CHR ''s''] then Some 1000
      else if u = ''ms'' then Some 1000000
      else if u = ''s'' then Some 1000000000
      else if u = ''m'' then Some 60000000000
      else if u = ''h'' then Some 3600000000000
      else None)"

definition num_char :: "char \<Rightarrow> bool" where
  "num_char c \<longleftrightarrow> c = CHR ''.'' \<or> is_digit c"

function duration_terms :: "(string \<Rightarrow> nat \<Rightarrow> nat) \<Rightarrow> nat \<Rightarrow> string \<Rightarrow> nat option" where
  "duration_terms fraction d s =
     (if s = [] then Some d
      else if \<not> num_char (hd s) then None
      else
        let whole = takeWhile is_digit s; s1 = dropWhile is_digit s;
            point = (s1 \<noteq> [] \<and> hd s1 = CHR ''.'');
            frac = (if point then takeWhile is_digit (tl s1) else []);
            s2 = (if point then dropWhile is_digit (tl s1) else s1);
            unit = takeWhile (\<lambda>c. \<not> num_char c) s2; rest = dropWhile (\<lambda>c. \<not> num_char c) s2 in
        if dec_value whole > 2 ^ 63 then None
        else if whole = [] \<and> frac = [] then None
        else if unit = [] then None
        else case duration_unit unit of
               None \<Rightarrow> None
             | Some u \<Rightarrow>
                 if dec_value whole > 2 ^ 63 div u then None
                 else
                   let v = dec_value whole * u + (if dec_value frac > 0 then fraction frac u else 0) in
                   if dec_value frac > 0 \<and> v > 2 ^ 63 then None
                   else if (d + v) mod 2 ^ 64 > 2 ^ 63 then None
                   else duration_terms fraction ((d + v) mod 2 ^ 64) rest)"
  by pat_completeness auto

termination
proof (relation "measure (\<lambda>(fraction, d, s). length s)", goal_cases)
  case 1
  then show ?case by simp
next
  case (2 fraction d s whole s1 point frac s2 unit rest)
  have a: "length s1 \<le> length s" using 2 by (simp add: length_dropWhile_le)
  have "length s2 \<le> length s1"
    using 2(3-8) length_dropWhile_le [of is_digit "tl s1"] by (cases s1) auto
  moreover have "length s2 = length unit + length rest"
    using 2(8,9) takeWhile_dropWhile_id [of "\<lambda>c. \<not> num_char c" s2] by (metis length_append)
  moreover have "unit \<noteq> []" using 2 by blast
  ultimately show ?case using a by (simp add: length_greater_0_conv [symmetric] del: length_greater_0_conv)
qed

declare duration_terms.simps [simp del]

definition time_ParseDuration :: "(string \<Rightarrow> nat \<Rightarrow> nat) \<Rightarrow> string \<Rightarrow> duration option" where
  "time_ParseDuration fraction s0 =
     (let (neg, s) = (case s0 of c # cs \<Rightarrow> if c = CHR ''-'' then (True, cs) else if c = CHR ''+'' then (False, cs) else (False, s0)
                      | [] \<Rightarrow> (False, []))
      in if s = ''0'' then Some 0
         else if s = [] then None
         else case duration_terms fraction 0 s of
                None \<Rightarrow> None
              | Some d \<Rightarrow> if neg then Some (- int d) else if d > 2 ^ 63 - 1 then None else Some (int d))"

text \<open>bufio.Scanner: the lines without their ends, and whether a line was too long to go on.\<close>

definition drop_cr :: "string \<Rightarrow> string" where
  "drop_cr l = (if l \<noteq> [] \<and> last l = CHR 0x0D then butlast l else l)"

definition scan_lines :: "string \<Rightarrow> string list \<times> bool" where
  "scan_lines text =
     (let ls = split_lines text; ls = (if last ls = [] then butlast ls else ls);
          short = takeWhile (\<lambda>l. length l < 65536) ls
      in (map drop_cr short, length short < length ls))"

text \<open>filepath.Clean: empty and dot components go, a component before a double dot goes with it.\<close>

definition path_step :: "bool \<Rightarrow> string \<Rightarrow> string list \<Rightarrow> string list" where
  "path_step rooted c out =
     (if c = [] \<or> c = ''.'' then out
      else if c = ''..'' then
        (if out \<noteq> [] \<and> last out \<noteq> ''..'' then butlast out else if rooted then out else out @ [''..''])
      else out @ [c])"

definition path_IsAbs :: "string \<Rightarrow> bool" where
  "path_IsAbs p \<longleftrightarrow> p \<noteq> [] \<and> hd p = CHR ''/''"

definition path_Clean :: "string \<Rightarrow> string" where
  "path_Clean p =
     (if p = [] then ''.''
      else let s = join ''/'' (fold (path_step (path_IsAbs p)) (split_on (CHR ''/'') p) [])
           in if path_IsAbs p then CHR ''/'' # s else if s = [] then ''.'' else s)"

fun str_contains :: "string \<Rightarrow> string \<Rightarrow> bool" where
  "str_contains sub [] = has_prefix sub []"
| "str_contains sub (c # cs) = (has_prefix sub (c # cs) \<or> str_contains sub cs)"

subsection \<open>Values\<close>

datatype duration_error = EmptyDuration | InvalidDurationFormat string | InvalidDurationValue string

text \<open>The products are int64 and wrap around.\<close>

definition parseDuration :: "(string \<Rightarrow> nat \<Rightarrow> nat) \<Rightarrow> string \<Rightarrow> duration_error + duration" where
  "parseDuration fraction s0 =
     (let s = trim_space s0 in
      if s = [] then Inl EmptyDuration
      else case time_ParseDuration fraction s of
        Some d \<Rightarrow> Inr d
      | None \<Rightarrow>
          if length s < 2 then Inl (InvalidDurationFormat s)
          else
            let suffix = last s; valueStr = butlast s in
            (case parse_int64 valueStr of
               None \<Rightarrow> Inl (InvalidDurationValue s)
             | Some v \<Rightarrow>
                 if suffix = CHR ''s'' \<or> suffix = CHR ''S'' then Inr (wrap_int64 (v * Second))
                 else if suffix = CHR ''m'' \<or> suffix = CHR ''M'' then Inr (wrap_int64 (v * Minute))
                 else if suffix = CHR ''h'' \<or> suffix = CHR ''H'' then Inr (wrap_int64 (v * Hour))
                 else if suffix = CHR ''d'' \<or> suffix = CHR ''D'' then Inr (wrap_int64 (wrap_int64 (v * 24) * Hour))
                 else case parse_int64 s of
                        None \<Rightarrow> Inl (InvalidDurationFormat s)
                      | Some val \<Rightarrow> Inr (wrap_int64 (val * Second))))"

definition parseBool :: "string \<Rightarrow> bool" where
  "parseBool s = (to_lower (trim_space s) \<in> {''1'', ''true'', ''yes'', ''on''})"

definition go_quot :: "int \<Rightarrow> int \<Rightarrow> int" where
  "go_quot a b = (if a < 0 then - (- a div b) else a div b)"

definition formatDuration :: "duration \<Rightarrow> string" where
  "formatDuration d =
     (if d mod (24 * Hour) = 0 \<and> d \<ge> 24 * Hour then dec_of_int (d div (24 * Hour)) @ ''d''
      else if d mod Hour = 0 \<and> d \<ge> Hour then dec_of_int (d div Hour) @ ''h''
      else if d mod Minute = 0 \<and> d \<ge> Minute then dec_of_int (d div Minute) @ ''m''
      else dec_of_int (go_quot d Second) @ ''s'')"

definition formatBool :: "bool \<Rightarrow> string" where
  "formatBool b = (if b then ''1'' else ''0'')"

subsection \<open>One option\<close>

datatype option_error = InvalidNumber string string | InvalidDuration string duration_error

definition set_number :: "string \<Rightarrow> string \<Rightarrow> (int \<Rightarrow> Config) \<Rightarrow> Config \<Rightarrow> option_error option \<times> Config" where
  "set_number key val put cfg =
     (case parse_int64 val of None \<Rightarrow> (Some (InvalidNumber key val), cfg) | Some n \<Rightarrow> (None, put n))"

definition set_duration ::
  "(string \<Rightarrow> nat \<Rightarrow> nat) \<Rightarrow> string \<Rightarrow> string \<Rightarrow> (duration \<Rightarrow> Config) \<Rightarrow> Config \<Rightarrow> option_error option \<times> Config" where
  "set_duration fraction key val put cfg =
     (case parseDuration fraction val of Inl e \<Rightarrow> (Some (InvalidDuration key e), cfg) | Inr d \<Rightarrow> (None, put d))"

definition processConfigOption ::
  "(string \<Rightarrow> nat \<Rightarrow> nat) \<Rightarrow> string \<Rightarrow> string \<Rightarrow> Config \<Rightarrow> option_error option \<times> Config" where
  "processConfigOption fraction key val cfg =
     (if key = ''SocksPort'' then set_number key val (\<lambda>n. cfg\<lparr>cfg_SocksPort := n\<rparr>) cfg
      else if key = ''ControlPort'' then set_number key val (\<lambda>n. cfg\<lparr>cfg_ControlPort := n\<rparr>) cfg
      else if key = ''DataDirectory'' then (None, cfg\<lparr>cfg_DataDirectory := val\<rparr>)
      else if key = ''CircuitBuildTimeout'' then set_duration fraction key val (\<lambda>d. cfg\<lparr>cfg_CircuitBuildTimeout := d\<rparr>) cfg
      else if key = ''MaxCircuitDirtiness'' then set_duration fraction key val (\<lambda>d. cfg\<lparr>cfg_MaxCircuitDirtiness := d\<rparr>) cfg
      else if key = ''NewCircuitPeriod'' then set_duration fraction key val (\<lambda>d. cfg\<lparr>cfg_NewCircuitPeriod := d\<rparr>) cfg
      else if key = ''NumEntryGuards'' then set_number key val (\<lambda>n. cfg\<lparr>cfg_NumEntryGuards := n\<rparr>) cfg
      else if key = ''UseEntryGuards'' then (None, cfg\<lparr>cfg_UseEntryGuards := parseBool val\<rparr>)
      else if key = ''UseBridges'' then (None, cfg\<lparr>cfg_UseBridges := parseBool val\<rparr>)
      else if key = ''Bridge'' then (None, cfg\<lparr>cfg_BridgeAddresses := cfg_BridgeAddresses cfg @ [val]\<rparr>)
      else if key = ''ExcludeNodes'' then (None, cfg\<lparr>cfg_ExcludeNodes := cfg_ExcludeNodes cfg @ [val]\<rparr>)
      else if key = ''ExcludeExitNodes'' then (None, cfg\<lparr>cfg_ExcludeExitNodes := cfg_ExcludeExitNodes cfg @ [val]\<rparr>)
      else if key = ''ConnLimit'' then set_number key val (\<lambda>n. cfg\<lparr>cfg_ConnLimit := n\<rparr>) cfg
      else if key = ''DormantTimeout'' then set_duration fraction key val (\<lambda>d. cfg\<lparr>cfg_DormantTimeout := d\<rparr>) cfg
      else if key = ''LogLevel'' then (None, cfg\<lparr>cfg_LogLevel := to_lower val\<rparr>)
      else (None, cfg))"

subsection \<open>Loading\<close>

datatype path_error = DirectoryTraversal | EscapesWorkingDirectory

definition validatePath :: "string \<Rightarrow> path_error option" where
  "validatePath path =
     (let cleanPath = path_Clean path in
      if str_contains ''..'' cleanPath then Some DirectoryTraversal
      else if \<not> path_IsAbs path \<and> path_IsAbs cleanPath then Some EscapesWorkingDirectory
      else None)"

datatype load_error =
    NilConfig
  | BadPath path_error
  | CannotOpen
  | BadLine nat option_error
  | ReadError
  | InvalidConfiguration config_error

definition load_line :: "(string \<Rightarrow> nat \<Rightarrow> nat) \<Rightarrow> string \<Rightarrow> Config \<Rightarrow> option_error option \<times> Config" where
  "load_line fraction text cfg =
     (let line = trim_space text in
      if line = [] \<or> has_prefix ''#'' line then (None, cfg)
      else case str_fields line of
             [] \<Rightarrow> (None, cfg)
           | key # parts \<Rightarrow> processConfigOption fraction key (if parts = [] then [] else join '' '' parts) cfg)"

fun load_lines :: "(string \<Rightarrow> nat \<Rightarrow> nat) \<Rightarrow> nat \<Rightarrow> string list \<Rightarrow> Config \<Rightarrow> load_error option \<times> Config" where
  "load_lines fraction lineNum [] cfg = (None, cfg)"
| "load_lines fraction lineNum (l # ls) cfg =
     (case load_line fraction l cfg of
        (Some e, cfg) \<Rightarrow> (Some (BadLine (lineNum + 1) e), cfg)
      | (None, cfg) \<Rightarrow> load_lines fraction (lineNum + 1) ls cfg)"

text \<open>\<open>file\<close> is the content of the file, None when it cannot be opened; the caller's Config is updated in place.\<close>

definition LoadFromFile ::
  "(string \<Rightarrow> nat \<Rightarrow> nat) \<Rightarrow> string \<Rightarrow> string option \<Rightarrow> Config option \<Rightarrow> load_error option \<times> Config option" where
  "LoadFromFile fraction path file cfgo =
     (case cfgo of
        None \<Rightarrow> (Some NilConfig, None)
      | Some cfg \<Rightarrow>
     (case validatePath path of
        Some e \<Rightarrow> (Some (BadPath e), Some cfg)
      | None \<Rightarrow>
     (case file of
        None \<Rightarrow> (Some CannotOpen, Some cfg)
      | Some text \<Rightarrow>
     (case scan_lines text of
        (lines, tooLong) \<Rightarrow>
     (case load_lines fraction 0 lines cfg of
        (Some e, cfg) \<Rightarrow> (Some e, Some cfg)
      | (None, cfg) \<Rightarrow>
          if tooLong then (Some ReadError, Some cfg)
          else (map_option InvalidConfiguration (Config_Validate cfg), Some cfg))))))"

subsection \<open>Saving\<close>

definition torrc_lines :: "Config \<Rightarrow> string list" where
  "torrc_lines cfg =
     [''# go-tor configuration file'', ''# Generated automatically - edit with care'', [],
      ''# Network Settings'',
      ''SocksPort '' @ dec_of_int (cfg_SocksPort cfg),
      ''ControlPort '' @ dec_of_int (cfg_ControlPort cfg),
      ''DataDirectory '' @ cfg_DataDirectory cfg, [],
      ''# Circuit Settings'',
      ''CircuitBuildTimeout '' @ formatDuration (cfg_CircuitBuildTimeout cfg),
      ''MaxCircuitDirtiness '' @ formatDuration (cfg_MaxCircuitDirtiness cfg),
      ''NewCircuitPeriod '' @ formatDuration (cfg_NewCircuitPeriod cfg),
      ''NumEntryGuards '' @ dec_of_int (cfg_NumEntryGuards cfg), [],
      ''# Path Selection'',
      ''UseEntryGuards '' @ formatBool (cfg_UseEntryGuards cfg),
      ''UseBridges '' @ formatBool (cfg_UseBridges cfg)]
     @ map (\<lambda>b. ''Bridge '' @ b) (cfg_BridgeAddresses cfg)
     @ map (\<lambda>n. ''ExcludeNodes '' @ n) (cfg_ExcludeNodes cfg)
     @ map (\<lambda>n. ''ExcludeExitNodes '' @ n) (cfg_ExcludeExitNodes cfg)
     @ [[], ''# Network Behavior'',
        ''ConnLimit '' @ dec_of_int (cfg_ConnLimit cfg),
        ''DormantTimeout '' @ formatDuration (cfg_DormantTimeout cfg), [],
        ''# Logging'',
        ''LogLevel '' @ cfg_LogLevel cfg]"

datatype save_error = SaveNilConfig | SaveBadPath path_error | CannotCreate | FlushFailed

text \<open>The file's content when everything is written; \<open>created\<close> and \<open>flushed\<close> are the answers of the system.\<close>

definition SaveToFile :: "bool \<Rightarrow> bool \<Rightarrow> string \<Rightarrow> Config option \<Rightarrow> save_error + string" where
  "SaveToFile created flushed path cfgo =
     (case cfgo of
        None \<Rightarrow> Inl SaveNilConfig
      | Some cfg \<Rightarrow>
     (case validatePath path of
        Some e \<Rightarrow> Inl (SaveBadPath e)
      | None \<Rightarrow>
          if \<not> created then Inl CannotCreate
          else if \<not> flushed then Inl FlushFailed
          else Inr (unlines (torrc_lines cfg))))"

subsection \<open>What is written is read back\<close>

text \<open>Numbers.\<close>

lemma dec_all_digits: "list_all is_digit (dec_of_nat n)"
  using digit_chars by (simp add: list_all_iff)

lemma dec_hd: "\<exists>c cs. dec_of_nat n = c # cs \<and> is_digit c \<and> c \<noteq> CHR ''-'' \<and> c \<noteq> CHR ''+''"
proof (cases "dec_of_nat n")
  case (Cons c cs)
  then have "is_digit c" using digit_chars [of c n] by simp
  with Cons show ?thesis by (auto simp: is_digit_def)
qed simp

lemma parse_dec_of_int: "- (2 ^ 63) \<le> i \<Longrightarrow> i < 2 ^ 63 \<Longrightarrow> parse_int64 (dec_of_int i) = Some i"
proof -
  assume r: "- (2 ^ 63) \<le> i" "i < 2 ^ 63"
  obtain c cs where n: "dec_of_nat (nat i) = c # cs" "c \<noteq> CHR ''-''" "c \<noteq> CHR ''+''" using dec_hd by blast
  show ?thesis
  proof (cases "i < 0")
    case True
    with r show ?thesis by (simp add: parse_int64_def dec_of_int_def dec_all_digits dec_value_dec_of_nat)
  next
    case False
    have "list_all is_digit (c # cs)" "dec_value (c # cs) = nat i"
      using dec_all_digits [of "nat i"] dec_value_dec_of_nat [of "nat i"] n(1) by simp_all
    with False n r show ?thesis by (simp add: parse_int64_def dec_of_int_def)
  qed
qed

text \<open>Durations.\<close>

lemma num_char_digit: "is_digit c \<Longrightarrow> num_char c"
  by (simp add: num_char_def)

lemma digits_then: "takeWhile is_digit (dec_of_nat n @ u) = dec_of_nat n @ takeWhile is_digit u"
    "dropWhile is_digit (dec_of_nat n @ u) = dropWhile is_digit u"
  using digit_chars by (auto simp: takeWhile_append2 dropWhile_append2)

lemma duration_unit_pos: "duration_unit u = Some k \<Longrightarrow> k > 0"
  by (auto simp: duration_unit_def split: if_splits)

lemma one_term:
  assumes u: "u \<noteq> []" "list_all (\<lambda>c. \<not> num_char c) u"
  shows "duration_terms fraction 0 (dec_of_nat n @ u) =
    (case duration_unit u of None \<Rightarrow> None | Some k \<Rightarrow> if n > 2 ^ 63 div k then None else Some (n * k))"
proof -
  obtain c cs where n: "dec_of_nat n = c # cs" "is_digit c" using dec_hd by blast
  have hd: "num_char (hd (dec_of_nat n @ u))" using n by (simp add: num_char_digit)
  have du: "takeWhile is_digit u = []" "dropWhile is_digit u = u"
    using u by (cases u; auto dest: num_char_digit)+
  have nu: "takeWhile (\<lambda>c. \<not> num_char c) u = u" "dropWhile (\<lambda>c. \<not> num_char c) u = []"
    using u(2) by (auto simp: list_all_iff takeWhile_eq_all_conv dropWhile_eq_Nil_conv)
  have point: "hd u \<noteq> CHR ''.''" using u by (cases u) (auto simp: num_char_def)
  have big: "\<not> n > 2 ^ 63 div k \<Longrightarrow> \<not> n > 2 ^ 63" for k
    using div_le_dividend [of "2 ^ 63" k] by linarith
  have small: "n * k \<le> 2 ^ 63 \<and> (n * k) mod 2 ^ 64 = n * k" if "k > 0" "\<not> n > 2 ^ 63 div k" for k
  proof -
    have "n * k \<le> 2 ^ 63" using that by (metis linorder_not_less less_eq_div_iff_mult_less_eq)
    then show ?thesis by simp
  qed
  have dv: "dec_value (dec_of_nat n) = n" "dec_value [] = 0"
    by (rule dec_value_dec_of_nat) (simp add: dec_value_def)
  show ?thesis
  proof (cases "duration_unit u")
    case None
    then show ?thesis
      unfolding duration_terms.simps [of _ _ "dec_of_nat n @ u"]
      using hd point u by (simp add: digits_then du nu Let_def)
  next
    case (Some k)
    note k = duration_unit_pos [OF Some]
    show ?thesis
      unfolding duration_terms.simps [of _ _ "dec_of_nat n @ u"]
      using hd point u Some big [of k] small [OF k]
      by (cases "n > 2 ^ 63 div k") (simp_all add: digits_then du nu dv Let_def duration_terms.simps [of _ _ "[]"])
  qed
qed

lemma word_dec_int: "word_text (dec_of_int i)"
  using word_dec by (simp add: dec_of_int_def word_text_def is_space_def)

lemma word_append: "word_text s \<Longrightarrow> list_all (\<lambda>c. \<not> is_space c) t \<Longrightarrow> word_text (s @ t)"
  by (simp add: word_text_def)

lemma trim_word: "word_text s \<Longrightarrow> trim_space s = s"
  using word_text_ends trim_space_id by blast

lemma time_parse_printed:
  assumes u: "u \<noteq> []" "list_all (\<lambda>c. \<not> num_char c) u" "duration_unit u = Some k"
    and r: "- (2 ^ 63) \<le> i * int k" "i * int k < 2 ^ 63"
  shows "time_ParseDuration fraction (dec_of_int i @ u) = Some (i * int k)"
proof -
  have k: "k > 0" using duration_unit_pos [OF u(3)] .
  have fit: "\<not> n > 2 ^ 63 div k" if "int n * int k \<le> 2 ^ 63" for n
    using that k by (metis less_eq_div_iff_mult_less_eq linorder_not_less of_nat_le_iff of_nat_mult of_nat_numeral of_nat_power)
  obtain c cs where n: "dec_of_nat (nat i) = c # cs" "is_digit c" "c \<noteq> CHR ''-''" "c \<noteq> CHR ''+''" using dec_hd by blast
  have not0: "dec_of_nat n @ u \<noteq> ''0''" for n
  proof
    assume e: "dec_of_nat n @ u = ''0''"
    obtain c cs where "dec_of_nat n = c # cs" using dec_hd by blast
    with e u(1) show False by simp
  qed
  show ?thesis
  proof (cases "i < 0")
    case True
    then have "duration_terms fraction 0 (dec_of_nat (nat (- i)) @ u) = Some (nat (- i) * k)"
      unfolding one_term [OF u(1,2)] using u(3) r(1) fit [of "nat (- i)"] by simp
    with True not0 u(1) show ?thesis by (simp add: time_ParseDuration_def dec_of_int_def)
  next
    case False
    then have "duration_terms fraction 0 (dec_of_nat (nat i) @ u) = Some (nat i * k)"
      unfolding one_term [OF u(1,2)] using u(3) r(2) fit [of "nat i"] by simp
    moreover have "int (nat i * k) = i * int k" using False by simp
    then have "int (nat i * k) < int (2 ^ 63)" using r(2) by simp
    then have "nat i * k \<le> 2 ^ 63 - 1" unfolding of_nat_less_iff by simp
    moreover have "int (nat i * k) = i * int k" using False by simp
    ultimately show ?thesis
      using False not0 [of "nat i"] n u(1) by (simp add: time_ParseDuration_def dec_of_int_def)
  qed
qed

lemma time_parse_unknown:
  assumes u: "u \<noteq> []" "list_all (\<lambda>c. \<not> num_char c) u" "duration_unit u = None" and i: "i \<ge> 0"
  shows "time_ParseDuration fraction (dec_of_int i @ u) = None"
proof -
  obtain c cs where n: "dec_of_nat (nat i) = c # cs" "is_digit c" "c \<noteq> CHR ''-''" "c \<noteq> CHR ''+''" using dec_hd by blast
  have "duration_terms fraction 0 (dec_of_nat (nat i) @ u) = None"
    unfolding one_term [OF u(1,2)] using u(3) by simp
  then show ?thesis using i n u(1) by (simp add: time_ParseDuration_def dec_of_int_def)
qed

lemma unit_chars: "\<not> num_char CHR ''d''" "\<not> num_char CHR ''h''" "\<not> num_char CHR ''m''" "\<not> num_char CHR ''s''"
    "\<not> is_space CHR ''d''" "\<not> is_space CHR ''h''" "\<not> is_space CHR ''m''" "\<not> is_space CHR ''s''"
  by (simp_all add: num_char_def is_digit_def is_space_def)

lemma parse_printed:
  assumes "duration_unit [c] = Some k" "\<not> num_char c" "\<not> is_space c"
    and "- (2 ^ 63) \<le> i * int k" "i * int k < 2 ^ 63"
  shows "parseDuration fraction (dec_of_int i @ [c]) = Inr (i * int k)"
proof -
  have "time_ParseDuration fraction (dec_of_int i @ [c]) = Some (i * int k)"
    using assms by (intro time_parse_printed) simp_all
  moreover have "trim_space (dec_of_int i @ [c]) = dec_of_int i @ [c]"
    using assms(3) by (intro trim_word word_append word_dec_int) simp
  ultimately show ?thesis by (simp add: parseDuration_def)
qed

lemma parse_days:
  assumes "0 \<le> i" "i * (24 * Hour) < 2 ^ 63"
  shows "parseDuration fraction (dec_of_int i @ ''d'') = Inr (i * (24 * Hour))"
proof -
  have i: "- (2 ^ 63) \<le> i" "i < 2 ^ 63" "wrap_int64 (i * 24) = i * 24" "wrap_int64 (i * 24 * Hour) = i * (24 * Hour)"
    using assms by (auto simp: Hour_def Minute_def Second_def wrap_int64_id)
  have "time_ParseDuration fraction (dec_of_int i @ ''d'') = None"
    using assms(1) by (intro time_parse_unknown) (simp_all add: unit_chars duration_unit_def)
  moreover have "trim_space (dec_of_int i @ ''d'') = dec_of_int i @ ''d''"
    by (intro trim_word word_append word_dec_int) (simp add: unit_chars)
  moreover have "\<not> length (dec_of_int i @ ''d'') < 2"
    using assms(1) by (cases "dec_of_nat (nat i)") (simp_all add: dec_of_int_def)
  ultimately show ?thesis
    using parse_dec_of_int [OF i(1,2)] i(3,4) by (simp add: parseDuration_def)
qed

text \<open>A printed duration is read as the same one, to the second.\<close>

lemma parse_format_duration:
  assumes r: "- (2 ^ 63) \<le> d" "d < 2 ^ 63"
  shows "parseDuration fraction (formatDuration d) = Inr (go_quot d Second * Second)"
proof -
  have sec: "go_quot d Second * Second = d" if "d \<ge> 0" "d mod Minute = 0"
  proof -
    have "Second dvd Minute" by (simp add: Minute_def)
    moreover have "Minute dvd d" using that(2) by (rule mod_0_imp_dvd)
    ultimately have "Second dvd d" by (rule dvd_trans)
    with that(1) show ?thesis by (simp add: go_quot_def)
  qed
  have min_hour: "d mod Minute = 0" if "d mod Hour = 0" 
    using that by (metis Hour_def dvd_eq_mod_eq_0 dvd_mult_right)
  have hour_day: "d mod Hour = 0" if "d mod (24 * Hour) = 0"
    using that by (metis dvd_eq_mod_eq_0 dvd_mult_right)
  have units: "duration_unit ''h'' = Some 3600000000000" "duration_unit ''m'' = Some 60000000000" "duration_unit ''s'' = Some 1000000000"
    by (simp_all add: duration_unit_def)
  consider (day) "d mod (24 * Hour) = 0" "d \<ge> 24 * Hour"
    | (hour) "\<not> (d mod (24 * Hour) = 0 \<and> d \<ge> 24 * Hour)" "d mod Hour = 0" "d \<ge> Hour"
    | (minute) "\<not> (d mod (24 * Hour) = 0 \<and> d \<ge> 24 * Hour)" "\<not> (d mod Hour = 0 \<and> d \<ge> Hour)" "d mod Minute = 0" "d \<ge> Minute"
    | (second) "\<not> (d mod (24 * Hour) = 0 \<and> d \<ge> 24 * Hour)" "\<not> (d mod Hour = 0 \<and> d \<ge> Hour)" "\<not> (d mod Minute = 0 \<and> d \<ge> Minute)"
    by blast
  then show ?thesis
  proof cases
    case day
    then have d: "d div (24 * Hour) * (24 * Hour) = d" "0 \<le> d" by (auto simp: Hour_def Minute_def Second_def)
    then have "parseDuration fraction (dec_of_int (d div (24 * Hour)) @ ''d'') = Inr d"
      using r parse_days [of "d div (24 * Hour)"] by (simp add: Hour_def Minute_def Second_def)
    with day d sec min_hour hour_day show ?thesis by (simp add: formatDuration_def)
  next
    case hour
    then have d: "d div Hour * int 3600000000000 = d" "0 \<le> d" by (auto simp: Hour_def Minute_def Second_def)
    then have "parseDuration fraction (dec_of_int (d div Hour) @ ''h'') = Inr d"
      using r parse_printed [OF units(1) unit_chars(2,6), of "d div Hour" fraction] by simp
    moreover have "formatDuration d = dec_of_int (d div Hour) @ ''h''" using hour unfolding formatDuration_def by auto
    moreover have "go_quot d Second * Second = d" by (rule sec [OF d(2) min_hour [OF hour(2)]])
    ultimately show ?thesis by simp
  next
    case minute
    then have d: "d div Minute * int 60000000000 = d" "0 \<le> d" by (auto simp: Minute_def Second_def)
    then have "parseDuration fraction (dec_of_int (d div Minute) @ ''m'') = Inr d"
      using r parse_printed [OF units(2) unit_chars(3,7), of "d div Minute" fraction] by simp
    moreover have "formatDuration d = dec_of_int (d div Minute) @ ''m''" using minute unfolding formatDuration_def by auto
    moreover have "go_quot d Second * Second = d" by (rule sec [OF d(2) minute(3)])
    ultimately show ?thesis by simp
  next
    case second
    have b: "- (2 ^ 63) \<le> go_quot d Second * int 1000000000" "go_quot d Second * int 1000000000 < 2 ^ 63"
      using r by (auto simp: go_quot_def Second_def)
    have "formatDuration d = dec_of_int (go_quot d Second) @ ''s''" using second by (auto simp: formatDuration_def)
    with parse_printed [OF units(3) unit_chars(4,8) b, of fraction] show ?thesis by (simp add: Second_def)
  qed
qed

text \<open>Fields do not see the blanks around a line, and a value of single-spaced words is kept.\<close>

definition clean_text :: "string \<Rightarrow> bool" where
  "clean_text v \<longleftrightarrow> join '' '' (str_fields v) = v"

lemma fields_leading: "str_fields_from [] (dropWhile is_space s) = str_fields_from [] s"
  by (induction s) simp_all

lemma fields_blank: "list_all is_space t \<Longrightarrow> str_fields_from w t = (if w = [] then [] else [w])"
  by (induction t arbitrary: w) (auto split: if_splits)

lemma fields_trailing: "list_all is_space t \<Longrightarrow> str_fields_from w (s @ t) = str_fields_from w s"
  by (induction s arbitrary: w) (auto simp: fields_blank)

lemma fields_trim: "str_fields (trim_space s) = str_fields s"
proof -
  let ?s = "dropWhile is_space s"
  have "rev (dropWhile is_space (rev ?s)) @ rev (takeWhile is_space (rev ?s)) = ?s"
    by (metis rev_append rev_rev_ident takeWhile_dropWhile_id)
  moreover have "list_all is_space (rev (takeWhile is_space (rev ?s)))"
    by (auto simp: list_all_iff dest: set_takeWhileD)
  ultimately have "str_fields_from [] (rev (dropWhile is_space (rev ?s))) = str_fields_from [] ?s"
    using fields_trailing by metis
  then show ?thesis by (simp add: trim_space_def str_fields_def fields_leading)
qed

lemma fields_word: "list_all (\<lambda>c. \<not> is_space c) k \<Longrightarrow> str_fields_from w (k @ s) = str_fields_from (w @ k) s"
  by (induction k arbitrary: w) simp_all

lemma fields_key: "word_text k \<Longrightarrow> str_fields (k @ '' '' @ v) = k # str_fields v"
  using fields_word [of k "[]" "'' '' @ v"] by (simp add: word_text_def str_fields_def is_space_def)

lemma fields_from_words: "list_all (\<lambda>c. \<not> is_space c) w \<Longrightarrow> f \<in> set (str_fields_from w s) \<Longrightarrow> word_text f"
  by (induction w s rule: str_fields_from.induct) (auto simp: word_text_def split: if_splits)

lemma fields_words: "f \<in> set (str_fields s) \<Longrightarrow> word_text f"
  unfolding str_fields_def by (rule fields_from_words [of "[]"]) simp_all

lemma clean_no_newline: "clean_text v \<Longrightarrow> newline \<notin> set v \<and> CHR 0x0D \<notin> set v"
proof -
  assume "clean_text v"
  moreover have "c \<in> set (join '' '' fs) \<Longrightarrow> \<forall>f\<in>set fs. word_text f \<Longrightarrow> c = CHR '' '' \<or> \<not> is_space c" for c and fs :: "string list"
    by (induction fs rule: induct_list012) (auto simp: word_text_def list_all_iff)
  ultimately have "c \<in> set v \<Longrightarrow> c = CHR '' '' \<or> \<not> is_space c" for c
    using fields_words unfolding clean_text_def by metis
  then show ?thesis by (force simp: is_space_def)
qed

lemma load_keyed:
  assumes k: "word_text k" "hd k \<noteq> CHR ''#''" and v: "clean_text v"
  shows "load_line fraction (k @ '' '' @ v) cfg = processConfigOption fraction k v cfg"
proof -
  obtain c t where c: "k = c # t" "\<not> is_space c" "c \<noteq> CHR ''#''" using k by (cases k) (auto simp: word_text_def)
  obtain t' where "trim_space (k @ '' '' @ v) = c # t'" using trim_space_Cons [OF c(2)] c(1) by fastforce
  then have "trim_space (k @ '' '' @ v) \<noteq> []" "\<not> has_prefix ''#'' (trim_space (k @ '' '' @ v))"
    using c(3) by (simp_all add: has_prefix_def)
  moreover have "str_fields (trim_space (k @ '' '' @ v)) = k # str_fields v" using fields_key [OF k(1)] by (simp add: fields_trim)
  moreover have "(if str_fields v = [] then [] else join '' '' (str_fields v)) = v" using v by (auto simp: clean_text_def)
  ultimately show ?thesis by (simp add: load_line_def Let_def)
qed

lemma load_comment: "load_line fraction (CHR ''#'' # t) cfg = (None, cfg)" "load_line fraction [] cfg = (None, cfg)"
proof -
  obtain t' where "trim_space (CHR ''#'' # t) = CHR ''#'' # t'" using trim_space_Cons [of "CHR ''#''" t] by (auto simp: is_space_def)
  then show "load_line fraction (CHR ''#'' # t) cfg = (None, cfg)" by (simp add: load_line_def has_prefix_def)
  show "load_line fraction [] cfg = (None, cfg)" by (simp add: load_line_def trim_space_def)
qed

lemma clean_word: "word_text v \<Longrightarrow> clean_text v"
  using fields_word [of v "[]" "[]"] by (simp add: clean_text_def str_fields_def word_text_def)

lemma word_printed: "word_text (formatDuration d)" "word_text (formatBool b)" "word_text (dec_of_int i)"
  unfolding formatDuration_def formatBool_def
  by (auto intro!: word_append word_dec_int simp: unit_chars) (simp_all add: word_text_def is_space_def)

subsection \<open>A whole file\<close>

definition loads :: "(string \<Rightarrow> nat \<Rightarrow> nat) \<Rightarrow> string list \<Rightarrow> Config \<Rightarrow> Config \<Rightarrow> bool" where
  "loads fraction ls c c' \<longleftrightarrow> (\<forall>n. load_lines fraction n ls c = (None, c'))"

lemma loads_nil: "loads fraction [] c c"
  by (simp add: loads_def)

lemma loads_cons: "load_line fraction l c = (None, c1) \<Longrightarrow> loads fraction ls c1 c2 \<Longrightarrow> loads fraction (l # ls) c c2"
  by (simp add: loads_def)

lemma load_lines_append:
  "load_lines fraction n xs c = (None, c1) \<Longrightarrow> load_lines fraction n (xs @ ys) c = load_lines fraction (n + length xs) ys c1"
  by (induction xs arbitrary: n c) (auto split: prod.splits option.splits)

lemma loads_append: "loads fraction xs c c1 \<Longrightarrow> loads fraction ys c1 c2 \<Longrightarrow> loads fraction (xs @ ys) c c2"
  by (simp add: loads_def load_lines_append)

definition int64 :: "int \<Rightarrow> bool" where
  "int64 i \<longleftrightarrow> - (2 ^ 63) \<le> i \<and> i < 2 ^ 63"

text \<open>What a saved configuration loads to over \<open>b\<close>: lists grow, durations lose fractions of seconds.\<close>

definition to_second :: "duration \<Rightarrow> duration" where
  "to_second d = go_quot d Second * Second"

definition reloaded :: "Config \<Rightarrow> Config \<Rightarrow> Config" where
  "reloaded b c = b\<lparr>cfg_SocksPort := cfg_SocksPort c, cfg_ControlPort := cfg_ControlPort c, cfg_DataDirectory := cfg_DataDirectory c,
     cfg_CircuitBuildTimeout := to_second (cfg_CircuitBuildTimeout c), cfg_MaxCircuitDirtiness := to_second (cfg_MaxCircuitDirtiness c),
     cfg_NewCircuitPeriod := to_second (cfg_NewCircuitPeriod c), cfg_NumEntryGuards := cfg_NumEntryGuards c,
     cfg_UseEntryGuards := cfg_UseEntryGuards c, cfg_UseBridges := cfg_UseBridges c,
     cfg_BridgeAddresses := cfg_BridgeAddresses b @ cfg_BridgeAddresses c,
     cfg_ExcludeNodes := cfg_ExcludeNodes b @ cfg_ExcludeNodes c,
     cfg_ExcludeExitNodes := cfg_ExcludeExitNodes b @ cfg_ExcludeExitNodes c,
     cfg_ConnLimit := cfg_ConnLimit c, cfg_DormantTimeout := to_second (cfg_DormantTimeout c),
     cfg_LogLevel := to_lower (cfg_LogLevel c)\<rparr>"

text \<open>Fixed-width numbers, and ASCII strings the format can carry on lines the scanner takes.\<close>

definition ascii_text :: "string \<Rightarrow> bool" where
  "ascii_text v \<longleftrightarrow> list_all (\<lambda>c. (of_char c :: nat) < 128) v"

definition saveable :: "Config \<Rightarrow> bool" where
  "saveable c \<longleftrightarrow>
     int64 (cfg_SocksPort c) \<and> int64 (cfg_ControlPort c) \<and> int64 (cfg_NumEntryGuards c) \<and> int64 (cfg_ConnLimit c)
     \<and> int64 (cfg_CircuitBuildTimeout c) \<and> int64 (cfg_MaxCircuitDirtiness c) \<and> int64 (cfg_NewCircuitPeriod c)
     \<and> int64 (cfg_DormantTimeout c)
     \<and> (\<forall>s\<in>{cfg_DataDirectory c, cfg_LogLevel c} \<union> set (cfg_BridgeAddresses c) \<union> set (cfg_ExcludeNodes c) \<union> set (cfg_ExcludeExitNodes c).
          ascii_text s \<and> clean_text s \<and> length s < 65000)"

lemma load_number:
  "int64 i \<Longrightarrow> set_number key (dec_of_int i) put cfg = (None, put i)"
  by (simp add: set_number_def int64_def parse_dec_of_int)

lemma load_duration:
  "int64 d \<Longrightarrow> set_duration fraction key (formatDuration d) put cfg = (None, put (to_second d))"
  by (simp add: set_duration_def int64_def parse_format_duration to_second_def)

lemma load_bool: "parseBool (formatBool b) = b"
proof -
  have "parseBool ''1''" "\<not> parseBool ''0''" by code_simp+
  then show ?thesis by (simp add: formatBool_def)
qed

lemma load_string:
  "load_line fraction (''DataDirectory '' @ v) c = (None, c\<lparr>cfg_DataDirectory := v\<rparr>)"
  "load_line fraction (''Bridge '' @ v) c = (None, c\<lparr>cfg_BridgeAddresses := cfg_BridgeAddresses c @ [v]\<rparr>)"
  "load_line fraction (''ExcludeNodes '' @ v) c = (None, c\<lparr>cfg_ExcludeNodes := cfg_ExcludeNodes c @ [v]\<rparr>)"
  "load_line fraction (''ExcludeExitNodes '' @ v) c = (None, c\<lparr>cfg_ExcludeExitNodes := cfg_ExcludeExitNodes c @ [v]\<rparr>)"
  "load_line fraction (''LogLevel '' @ v) c = (None, c\<lparr>cfg_LogLevel := to_lower v\<rparr>)"
  if v: "clean_text v"
  using load_keyed [of "''DataDirectory''" v fraction c] load_keyed [of "''Bridge''" v fraction c]
    load_keyed [of "''ExcludeNodes''" v fraction c] load_keyed [of "''ExcludeExitNodes''" v fraction c]
    load_keyed [of "''LogLevel''" v fraction c] v
  by (simp_all add: processConfigOption_def word_text_def is_space_def)

lemma clean_printed: "clean_text (formatDuration d)" "clean_text (formatBool b)" "clean_text (dec_of_int i)"
  by (simp_all add: clean_word word_printed)

lemma load_value:
  "int64 i \<Longrightarrow> load_line fraction (''SocksPort '' @ dec_of_int i) c = (None, c\<lparr>cfg_SocksPort := i\<rparr>)"
  "int64 i \<Longrightarrow> load_line fraction (''ControlPort '' @ dec_of_int i) c = (None, c\<lparr>cfg_ControlPort := i\<rparr>)"
  "int64 i \<Longrightarrow> load_line fraction (''NumEntryGuards '' @ dec_of_int i) c = (None, c\<lparr>cfg_NumEntryGuards := i\<rparr>)"
  "int64 i \<Longrightarrow> load_line fraction (''ConnLimit '' @ dec_of_int i) c = (None, c\<lparr>cfg_ConnLimit := i\<rparr>)"
  "int64 d \<Longrightarrow> load_line fraction (''CircuitBuildTimeout '' @ formatDuration d) c = (None, c\<lparr>cfg_CircuitBuildTimeout := to_second d\<rparr>)"
  "int64 d \<Longrightarrow> load_line fraction (''MaxCircuitDirtiness '' @ formatDuration d) c = (None, c\<lparr>cfg_MaxCircuitDirtiness := to_second d\<rparr>)"
  "int64 d \<Longrightarrow> load_line fraction (''NewCircuitPeriod '' @ formatDuration d) c = (None, c\<lparr>cfg_NewCircuitPeriod := to_second d\<rparr>)"
  "int64 d \<Longrightarrow> load_line fraction (''DormantTimeout '' @ formatDuration d) c = (None, c\<lparr>cfg_DormantTimeout := to_second d\<rparr>)"
  "load_line fraction (''UseEntryGuards '' @ formatBool b) c = (None, c\<lparr>cfg_UseEntryGuards := b\<rparr>)"
  "load_line fraction (''UseBridges '' @ formatBool b) c = (None, c\<lparr>cfg_UseBridges := b\<rparr>)"
  using load_keyed [of "''SocksPort''" "dec_of_int i" fraction c] load_keyed [of "''ControlPort''" "dec_of_int i" fraction c]
    load_keyed [of "''NumEntryGuards''" "dec_of_int i" fraction c] load_keyed [of "''ConnLimit''" "dec_of_int i" fraction c]
    load_keyed [of "''CircuitBuildTimeout''" "formatDuration d" fraction c] load_keyed [of "''MaxCircuitDirtiness''" "formatDuration d" fraction c]
    load_keyed [of "''NewCircuitPeriod''" "formatDuration d" fraction c] load_keyed [of "''DormantTimeout''" "formatDuration d" fraction c]
    load_keyed [of "''UseEntryGuards''" "formatBool b" fraction c] load_keyed [of "''UseBridges''" "formatBool b" fraction c]
  by (simp_all add: processConfigOption_def load_number load_duration load_bool clean_printed word_text_def is_space_def)

lemma loads_map:
  assumes "\<And>v c. v \<in> set vs \<Longrightarrow> load_line fraction (key @ v) c = (None, put v c)"
  shows "loads fraction (map (\<lambda>v. key @ v) vs) c (fold put vs c)"
  using assms
proof (induction vs arbitrary: c)
  case (Cons v vs)
  then have "loads fraction (map (\<lambda>v. key @ v) vs) (put v c) (fold put vs (put v c))" by simp
  with Cons.prems [of v c] show ?case using loads_cons by fastforce
qed (simp add: loads_nil)

lemma fold_puts:
  "fold (\<lambda>v c. c\<lparr>cfg_BridgeAddresses := cfg_BridgeAddresses c @ [v]\<rparr>) vs c = c\<lparr>cfg_BridgeAddresses := cfg_BridgeAddresses c @ vs\<rparr>"
  "fold (\<lambda>v c. c\<lparr>cfg_ExcludeNodes := cfg_ExcludeNodes c @ [v]\<rparr>) vs c = c\<lparr>cfg_ExcludeNodes := cfg_ExcludeNodes c @ vs\<rparr>"
  "fold (\<lambda>v c. c\<lparr>cfg_ExcludeExitNodes := cfg_ExcludeExitNodes c @ [v]\<rparr>) vs c = c\<lparr>cfg_ExcludeExitNodes := cfg_ExcludeExitNodes c @ vs\<rparr>"
  by (induction vs arbitrary: c) simp_all

lemma loads_lines: "load_line fraction l c = (None, c1) \<Longrightarrow> loads fraction [l] c c1"
  using loads_cons [OF _ loads_nil] .

lemma saveable_text:
  assumes "saveable c"
  shows "clean_text (cfg_DataDirectory c)" "clean_text (cfg_LogLevel c)"
    "v \<in> set (cfg_BridgeAddresses c) \<Longrightarrow> clean_text v" "v \<in> set (cfg_ExcludeNodes c) \<Longrightarrow> clean_text v"
    "v \<in> set (cfg_ExcludeExitNodes c) \<Longrightarrow> clean_text v"
  using assms by (simp_all add: saveable_def)

lemma saved_lines_load:
  assumes s: "saveable c"
  shows "loads fraction (torrc_lines c) b (reloaded b c)"
proof -
  note ints = s [unfolded saveable_def]
  note v = load_value load_string(1,5) [OF saveable_text(1) [OF s]] load_string(1,5) [OF saveable_text(2) [OF s]] load_comment
  define b1 where "b1 = b\<lparr>cfg_SocksPort := cfg_SocksPort c, cfg_ControlPort := cfg_ControlPort c, cfg_DataDirectory := cfg_DataDirectory c,
     cfg_CircuitBuildTimeout := to_second (cfg_CircuitBuildTimeout c), cfg_MaxCircuitDirtiness := to_second (cfg_MaxCircuitDirtiness c),
     cfg_NewCircuitPeriod := to_second (cfg_NewCircuitPeriod c), cfg_NumEntryGuards := cfg_NumEntryGuards c,
     cfg_UseEntryGuards := cfg_UseEntryGuards c, cfg_UseBridges := cfg_UseBridges c\<rparr>"
  define b2 where "b2 = b1\<lparr>cfg_BridgeAddresses := cfg_BridgeAddresses b1 @ cfg_BridgeAddresses c\<rparr>"
  define b3 where "b3 = b2\<lparr>cfg_ExcludeNodes := cfg_ExcludeNodes b2 @ cfg_ExcludeNodes c\<rparr>"
  define b4 where "b4 = b3\<lparr>cfg_ExcludeExitNodes := cfg_ExcludeExitNodes b3 @ cfg_ExcludeExitNodes c\<rparr>"
  have 1: "loads fraction
      [''# go-tor configuration file'', ''# Generated automatically - edit with care'', [], ''# Network Settings'',
       ''SocksPort '' @ dec_of_int (cfg_SocksPort c), ''ControlPort '' @ dec_of_int (cfg_ControlPort c),
       ''DataDirectory '' @ cfg_DataDirectory c, [], ''# Circuit Settings'',
       ''CircuitBuildTimeout '' @ formatDuration (cfg_CircuitBuildTimeout c),
       ''MaxCircuitDirtiness '' @ formatDuration (cfg_MaxCircuitDirtiness c),
       ''NewCircuitPeriod '' @ formatDuration (cfg_NewCircuitPeriod c),
       ''NumEntryGuards '' @ dec_of_int (cfg_NumEntryGuards c), [], ''# Path Selection'',
       ''UseEntryGuards '' @ formatBool (cfg_UseEntryGuards c), ''UseBridges '' @ formatBool (cfg_UseBridges c)] b b1"
    unfolding b1_def by (intro loads_cons loads_nil; (rule v)?) (use ints in \<open>simp_all add: loads_nil\<close>)
  have 2: "loads fraction (map (\<lambda>v. ''Bridge '' @ v) (cfg_BridgeAddresses c)) b1 b2"
    using loads_map [OF load_string(2) [OF saveable_text(3) [OF s]]] unfolding b2_def fold_puts .
  have 3: "loads fraction (map (\<lambda>v. ''ExcludeNodes '' @ v) (cfg_ExcludeNodes c)) b2 b3"
    using loads_map [OF load_string(3) [OF saveable_text(4) [OF s]]] unfolding b3_def fold_puts .
  have 4: "loads fraction (map (\<lambda>v. ''ExcludeExitNodes '' @ v) (cfg_ExcludeExitNodes c)) b3 b4"
    using loads_map [OF load_string(4) [OF saveable_text(5) [OF s]]] unfolding b4_def fold_puts .
  have 5: "loads fraction [[], ''# Network Behavior'', ''ConnLimit '' @ dec_of_int (cfg_ConnLimit c),
      ''DormantTimeout '' @ formatDuration (cfg_DormantTimeout c), [], ''# Logging'', ''LogLevel '' @ cfg_LogLevel c] b4 (reloaded b c)"
    unfolding b4_def b3_def b2_def b1_def reloaded_def by (intro loads_cons loads_nil; (rule v)?) (use ints in \<open>simp_all add: loads_nil\<close>)
  show ?thesis
    unfolding torrc_lines_def by (intro loads_append [OF 1] loads_append [OF 2] loads_append [OF 3] loads_append [OF 4] 5)
qed

text \<open>The scanner gives the written lines back.\<close>

lemma scan_unlines:
  assumes "\<forall>l\<in>set ls. newline \<notin> set l \<and> CHR 0x0D \<notin> set l \<and> length l < 65536"
  shows "scan_lines (unlines ls) = (ls, False)"
proof -
  have "split_lines (unlines ls) = ls @ [[]]" using assms by (intro split_unlines) (simp add: list_all_iff)
  moreover have short: "takeWhile (\<lambda>l. length l < 65536) ls = ls" using assms by (simp add: takeWhile_eq_all_conv)
  moreover have "drop_cr l = l" if "l \<in> set ls" for l
  proof (cases "l = []")
    case False
    then have "last l \<in> set l" by simp
    with assms that have "last l \<noteq> CHR 0x0D" by metis
    then show ?thesis by (simp add: drop_cr_def)
  qed (simp add: drop_cr_def)
  then have "map drop_cr ls = ls" by (intro map_idI)
  ultimately show ?thesis by (simp add: scan_lines_def Let_def short del: takeWhile_eq_all_conv)
qed

lemma printed_chars: "word_text w \<Longrightarrow> newline \<notin> set w \<and> CHR 0x0D \<notin> set w"
  by (force simp: word_text_def list_all_iff is_space_def)

lemma dec_length_bound: "n < 10 ^ k \<Longrightarrow> length (dec_of_nat n) \<le> max 1 k"
proof (induction k arbitrary: n)
  case (Suc k)
  then show ?case
  proof (cases "n < 10")
    case False
    with Suc.prems have "n div 10 < 10 ^ k" by (simp add: less_mult_imp_div_less mult.commute)
    moreover have "0 < k" using False Suc.prems by (cases k) simp_all
    ultimately show ?thesis using Suc.IH [of "n div 10"] False by (simp add: dec_of_nat.simps [of n])
  qed (simp add: dec_of_nat.simps [of n])
qed (simp add: dec_of_nat.simps)

lemma dec_int_length: "int64 i \<Longrightarrow> length (dec_of_int i) \<le> 21"
proof -
  assume i: "int64 i"
  then have "nat (- i) < 10 ^ 20" "nat i < 10 ^ 20" by (auto simp: int64_def)
  from dec_length_bound [OF this(1)] dec_length_bound [OF this(2)] show ?thesis by (simp add: dec_of_int_def)
qed

lemma duration_length: "int64 d \<Longrightarrow> length (formatDuration d) \<le> 22"
proof -
  assume d: "int64 d"
  have "int64 (d div k)" if "d \<ge> k" "k > 0" for k :: int
  proof -
    have "0 \<le> d div k" "d div k \<le> d" using that zdiv_mono2 [of d 1 k] by (simp_all add: pos_imp_zdiv_nonneg_iff)
    with d show ?thesis by (simp add: int64_def)
  qed
  note q = this
  have s: "int64 (go_quot d Second)" using d by (auto simp: go_quot_def int64_def Second_def)
  from q [of "24 * Hour"] q [of Hour] q [of Minute] s show ?thesis
    unfolding formatDuration_def by (auto simp: Hour_def Minute_def Second_def dest!: dec_int_length)
qed

lemma torrc_lines_ok:
  assumes s: "saveable c"
  shows "\<forall>l\<in>set (torrc_lines c). newline \<notin> set l \<and> CHR 0x0D \<notin> set l \<and> length l < 65536"
proof -
  have int: "newline \<notin> set (dec_of_int i)" "CHR 0x0D \<notin> set (dec_of_int i)" "int64 i \<Longrightarrow> 65000 < n \<Longrightarrow> length (dec_of_int i) < n" for i n
    using printed_chars [OF word_printed(3)] dec_int_length [of i] by auto
  have dur: "newline \<notin> set (formatDuration d)" "CHR 0x0D \<notin> set (formatDuration d)" 
      "int64 d \<Longrightarrow> 65000 < n \<Longrightarrow> length (formatDuration d) < n" for d n
    using printed_chars [OF word_printed(1)] duration_length [of d] by auto
  have bool: "newline \<notin> set (formatBool b)" "CHR 0x0D \<notin> set (formatBool b)" "65000 < n \<Longrightarrow> length (formatBool b) < n" for b n
    by (simp_all add: formatBool_def)
  have str: "newline \<notin> set v" "CHR 0x0D \<notin> set v" "65000 < n \<Longrightarrow> length v < n"
    if "v \<in> {cfg_DataDirectory c, cfg_LogLevel c} \<union> set (cfg_BridgeAddresses c) \<union> set (cfg_ExcludeNodes c) \<union> set (cfg_ExcludeExitNodes c)" for v n
  proof -
    have "clean_text v" "length v < 65000" using s that unfolding saveable_def by blast+
    then show "newline \<notin> set v" "CHR 0x0D \<notin> set v" "65000 < n \<Longrightarrow> length v < n" using clean_no_newline by simp_all
  qed
  show ?thesis
    unfolding torrc_lines_def
    using s [unfolded saveable_def] by (auto simp: int dur bool str)
qed

text \<open>
  C27: A saved configuration loads back. Take a configuration whose numbers are 64-bit and whose
  strings are ASCII words separated by single spaces, each shorter than 65000 bytes. LoadFromFile
  of the text that SaveToFile wrote for it, into any configuration, ends with exactly the
  saved fields, the lists appended, the log level in lower case and durations cut to seconds; its
  verdict is that of Validate on the result. When the saved configuration and the one loaded into
  are both valid, the latter's metrics port is 0 and the saved circuit timeout and dirtiness are
  at least one second, the file is accepted.
\<close>

theorem saved_config_loads:
  assumes path: "validatePath path = None" and s: "saveable c"
    and saved: "SaveToFile True True path (Some c) = Inr text"
  shows "LoadFromFile fraction path (Some text) (Some b)
      = (map_option InvalidConfiguration (Config_Validate (reloaded b c)), Some (reloaded b c))
    \<and> (Config_Validate c = None \<and> Config_Validate b = None \<and> cfg_MetricsPort b = 0
        \<and> to_second (cfg_CircuitBuildTimeout c) > 0 \<and> to_second (cfg_MaxCircuitDirtiness c) > 0
       \<longrightarrow> Config_Validate (reloaded b c) = None)"
proof -
  have written: "text = unlines (torrc_lines c)" using saved path by (simp add: SaveToFile_def)
  have l: "load_lines fraction 0 (torrc_lines c) b = (None, reloaded b c)"
    using saved_lines_load [OF s, of fraction b] by (simp add: loads_def)
  have "LoadFromFile fraction path (Some text) (Some b)
      = (map_option InvalidConfiguration (Config_Validate (reloaded b c)), Some (reloaded b c))"
    using path scan_unlines [OF torrc_lines_ok [OF s]] l by (simp add: LoadFromFile_def written)
  moreover have "Config_Validate (reloaded b c) = None"
    if "Config_Validate c = None" "Config_Validate b = None" "cfg_MetricsPort b = 0"
      "to_second (cfg_CircuitBuildTimeout c) > 0" "to_second (cfg_MaxCircuitDirtiness c) > 0"
  proof -
    have "to_lower l = l" if "l \<in> set validLogLevels" for l
      using that by (auto simp: validLogLevels_def to_lower_def to_lower_char_def)
    with that show ?thesis
      by (simp add: Config_Validate_def reloaded_def bad_port_def used_by_socks_def used_by_control_def split: if_splits)
  qed
  ultimately show ?thesis by blast
qed

definition example_config :: Config where
  "example_config = (Config_Default (\<lambda>p. True) (\<lambda>p. True) (\<lambda>p. True) (Some ''data''))
     \<lparr>cfg_ExcludeNodes := [''a b''], cfg_NewCircuitPeriod := 90 * Second\<rparr>"

theorem saved_config_loads_witness:
  "\<exists>text. SaveToFile True True ''torrc'' (Some example_config) = Inr text
     \<and> fst (LoadFromFile (\<lambda>f u. 0) ''torrc'' (Some text) (Some (Config_Default (\<lambda>p. p \<noteq> 9050) (\<lambda>p. True) (\<lambda>p. True) None))) = None"
proof -
  let ?b = "Config_Default (\<lambda>p. p \<noteq> 9050) (\<lambda>p. True) (\<lambda>p. True) None"
  have path: "validatePath ''torrc'' = None" by code_simp
  have "clean_text ''data''" "clean_text ''info''" "clean_text ''a b''"
    "ascii_text ''data''" "ascii_text ''info''" "ascii_text ''a b''" by code_simp+
  then have s: "saveable example_config"
    by (simp add: saveable_def example_config_def Config_Default_def Let_def FindAvailablePort_def int64_def Hour_def Minute_def Second_def)
  have valid: "Config_Validate example_config = None"
    by (simp add: example_config_def Config_Default_def Let_def FindAvailablePort_def Config_Validate_def bad_port_def
        used_by_socks_def used_by_control_def validLogLevels_def validIsolationLevels_def Minute_def Second_def)
  have seconds: "to_second (cfg_CircuitBuildTimeout example_config) > 0" "to_second (cfg_MaxCircuitDirtiness example_config) > 0"
    by (simp_all add: example_config_def Config_Default_def Let_def to_second_def go_quot_def Minute_def Second_def)
  have base: "Config_Validate ?b = None" "cfg_MetricsPort ?b = 0"
    by (rule default_config_valid) (simp add: Config_Default_def Let_def)
  have saved: "SaveToFile True True ''torrc'' (Some example_config) = Inr (unlines (torrc_lines example_config))"
    using path by (simp add: SaveToFile_def)
  from saved_config_loads [OF path s saved, of "\<lambda>f u. 0" ?b] valid base seconds saved show ?thesis by simp
qed

text \<open>A single digit is refused where two are taken as seconds, and large numbers of days wrap around.\<close>

lemma parse_duration_oddities:
  "parseDuration fraction ''5'' = Inl (InvalidDurationFormat ''5'')"
  "parseDuration fraction ''05'' = Inr (5 * Second)"
  "parseDuration fraction ''200000d'' = Inr (- 1166744073709551616)"
proof -
  have "duration_terms fraction 0 ''5'' = None" "duration_terms fraction 0 ''05'' = None" "duration_terms fraction 0 ''200000d'' = None"
    by (subst duration_terms.simps, simp add: num_char_def is_digit_def dec_value_def duration_unit_def Let_def)+
  then have p: "time_ParseDuration fraction ''5'' = None" "time_ParseDuration fraction ''05'' = None"
      "time_ParseDuration fraction ''200000d'' = None"
    by (simp_all add: time_ParseDuration_def)
  have "trim_space ''5'' = ''5''" "trim_space ''05'' = ''05''" "trim_space ''200000d'' = ''200000d''" by code_simp+
  moreover have "parse_int64 ''0'' = Some 0" "parse_int64 ''05'' = Some 5" "parse_int64 ''200000'' = Some 200000"
    by (simp_all add: parse_int64_def is_digit_def dec_value_def)
  ultimately show "parseDuration fraction ''5'' = Inl (InvalidDurationFormat ''5'')"
    "parseDuration fraction ''05'' = Inr (5 * Second)" "parseDuration fraction ''200000d'' = Inr (- 1166744073709551616)"
    using p by (simp_all add: parseDuration_def wrap_int64_def Second_def Minute_def Hour_def)
qed

subsection \<open>Accepted paths stay below\<close>

text \<open>Following the components of a path from a directory, symbolic links aside.\<close>

definition walk_step :: "string \<Rightarrow> string list \<Rightarrow> string list" where
  "walk_step c dir = (if c = [] \<or> c = ''.'' then dir else if c = ''..'' then butlast dir else dir @ [c])"

definition walk :: "string list \<Rightarrow> string list \<Rightarrow> string list" where
  "walk cs dir = fold walk_step cs dir"

lemma walk_simps [simp]: "walk [] dir = dir" "walk (c # cs) dir = walk cs (walk_step c dir)" "walk (cs @ ds) dir = walk ds (walk cs dir)"
  by (simp_all add: walk_def)

lemma clean_step:
  assumes "\<forall>x\<in>set out. x \<noteq> [] \<and> x \<noteq> ''.''"
  shows "(\<forall>x\<in>set (path_step False c out). x \<noteq> [] \<and> x \<noteq> ''.'') \<and> walk (path_step False c out) dir = walk_step c (walk out dir)"
proof (cases "c = ''..'' \<and> out \<noteq> [] \<and> last out \<noteq> ''..''")
  case True
  then obtain o1 x where o: "out = o1 @ [x]" "x \<noteq> ''..''" by (metis append_butlast_last_id)
  then have "x \<noteq> [] \<and> x \<noteq> ''.''" using assms by simp
  with o True assms show ?thesis by (simp add: path_step_def walk_step_def)
next
  case False
  with assms show ?thesis by (auto simp: path_step_def walk_step_def)
qed

lemma clean_walk:
  "\<forall>x\<in>set out. x \<noteq> [] \<and> x \<noteq> ''.'' \<Longrightarrow>
     (\<forall>x\<in>set (fold (path_step False) cs out). x \<noteq> [] \<and> x \<noteq> ''.'')
     \<and> walk (fold (path_step False) cs out) dir = walk cs (walk out dir)"
proof (induction cs arbitrary: out)
  case (Cons c cs)
  from clean_step [OF Cons.prems, of c dir] Cons.IH [of "path_step False c out"] show ?case by simp
qed simp

lemma join_mem: "x \<in> set xs \<Longrightarrow> \<exists>pre post. join sep xs = pre @ x @ post"
proof (induction xs rule: induct_list012)
  case (2 y)
  then show ?case by (intro exI [of _ "[]"]) simp
next
  case (3 a b xs)
  show ?case
  proof (cases "x = a")
    case True
    then show ?thesis by (intro exI [of _ "[]"] exI [of _ "sep @ join sep (b # xs)"]) simp
  next
    case False
    with 3 obtain pre post where "join sep (b # xs) = pre @ x @ post" by auto
    then show ?thesis by (intro exI [of _ "a @ sep @ pre"] exI [of _ post]) simp
  qed
qed simp

lemma contains_within: "str_contains sub (pre @ sub @ post)"
proof (induction pre)
  case Nil
  have "has_prefix sub (sub @ post)" by (simp add: has_prefix_def)
  then show ?case by (cases "sub @ post") simp_all
qed simp

lemma walk_names: "\<forall>x\<in>set out. x \<noteq> [] \<and> x \<noteq> ''.'' \<and> x \<noteq> ''..'' \<Longrightarrow> walk out dir = dir @ out"
  by (induction out arbitrary: dir) (simp_all add: walk_step_def)

text \<open>
  C34: A relative path that the loader accepts never leads out of the directory it is resolved
  in: following its components ends below that directory, whichever it is.
\<close>

theorem accepted_path_stays_below:
  assumes ok: "validatePath path = None" and rel: "\<not> path_IsAbs path"
  shows "\<exists>below. walk (split_on (CHR ''/'') path) dir = dir @ below"
proof -
  let ?out = "fold (path_step False) (split_on (CHR ''/'') path) []"
  have c: "\<forall>x\<in>set ?out. x \<noteq> [] \<and> x \<noteq> ''.''" "walk ?out dir = walk (split_on (CHR ''/'') path) dir"
    using clean_walk [of "[]" "split_on (CHR ''/'') path" dir] by simp_all
  have "''..'' \<notin> set ?out"
  proof
    assume up: "''..'' \<in> set ?out"
    then obtain pre post where j: "join ''/'' ?out = pre @ ''..'' @ post" using join_mem by metis
    have "path \<noteq> []" using up by (auto simp: path_step_def)
    with rel j have "path_Clean path = pre @ ''..'' @ post" by (simp add: path_Clean_def)
    then have "str_contains ''..'' (path_Clean path)"
      using contains_within by metis
    with ok show False by (simp add: validatePath_def Let_def)
  qed
  with c(1) have "walk ?out dir = dir @ ?out" by (intro walk_names) metis
  with c(2) show ?thesis by metis
qed

theorem accepted_path_stays_below_witness:
  "\<exists>below. walk (split_on (CHR ''/'') ''a/../c'') [''etc''] = [''etc''] @ below"
proof -
  have "path_Clean ''a/../c'' = ''c''" by code_simp
  moreover have "\<not> path_IsAbs ''a/../c''" "\<not> path_IsAbs ''c''" "\<not> str_contains ''..'' ''c''"
    by (simp_all add: path_IsAbs_def has_prefix_def)
  ultimately have "validatePath ''a/../c'' = None" by (simp add: validatePath_def)
  then show ?thesis by (rule accepted_path_stays_below) (simp add: path_IsAbs_def)
qed

end
