(* ===== verification/Reload.thy ===== *)
theory Reload
  imports Torrc
begin

section \<open>pkg/config/reload.go: reloading the configuration\<close>

text \<open>
  The reloadable configuration, its callbacks, and the two ways to reload. What the file system
  and DefaultConfig answer at a reload are arguments. The watcher is a sequence of
  checkAndReload steps; its ticker and channels are left out, and the operations run one at a
  time. A callback is a function of the two configurations that neither changes them nor keeps
  state. Over every sequence of operations a valid configuration stays valid and keeps the fields
  that the map ReloadableFields does not name.
\<close>

subsection \<open>State\<close>

datatype stat_result = NotExist | StatFailed | ModTime time

type_synonym ReloadCallback = "Config \<Rightarrow> Config \<Rightarrow> bool"

record ReloadableConfig =
  rc_config :: Config
  rc_configPath :: string
  rc_lastModTime :: time
  rc_reloadCallbacks :: "ReloadCallback list"

text \<open>The zero time when there is no file; no file is older.\<close>

definition NewReloadableConfig :: "stat_result \<Rightarrow> Config \<Rightarrow> string \<Rightarrow> ReloadableConfig" where
  "NewReloadableConfig stat config configPath =
     \<lparr>rc_config = config, rc_configPath = configPath,
      rc_lastModTime = (if configPath \<noteq> [] then (case stat of ModTime t \<Rightarrow> t | _ \<Rightarrow> 0) else 0),
      rc_reloadCallbacks = []\<rparr>"

definition rc_Get :: "ReloadableConfig \<Rightarrow> Config" where
  "rc_Get rc = rc_config rc"

definition OnReload :: "ReloadCallback \<Rightarrow> ReloadableConfig \<Rightarrow> ReloadableConfig" where
  "OnReload callback rc = rc\<lparr>rc_reloadCallbacks := rc_reloadCallbacks rc @ [callback]\<rparr>"

subsection \<open>Reloading\<close>

text \<open>filepath.Ext: from the last point of the last path element.\<close>

definition path_Ext :: "string \<Rightarrow> string" where
  "path_Ext p =
     (let name = takeWhile (\<lambda>c. c \<noteq> CHR ''/'') (rev p) in
      if CHR ''.'' \<in> set name then CHR ''.'' # rev (takeWhile (\<lambda>c. c \<noteq> CHR ''.'') name) else [])"

datatype reload_error =
    NoConfigFile
  | StatError
  | LoadFailed load_error
  | UnsupportedExtension string
  | InvalidConfig config_error
  | CallbackFailed

record reload_env =
  re_fraction :: "string \<Rightarrow> nat \<Rightarrow> nat"
  re_base :: Config
  re_stat :: stat_result
  re_file :: "string option"

definition loadConfigFile :: "reload_env \<Rightarrow> ReloadableConfig \<Rightarrow> reload_error + Config" where
  "loadConfigFile env rc =
     (let newConfig = re_base env; ext = path_Ext (rc_configPath rc) in
      if ext \<in> {''.conf'', ''.torrc'', []} then
        (case LoadFromFile (re_fraction env) (rc_configPath rc) (re_file env) (Some newConfig) of
           (None, Some c) \<Rightarrow> Inr c
         | (None, None) \<Rightarrow> Inr newConfig
         | (Some e, _) \<Rightarrow> Inl (LoadFailed e))
      else Inl (UnsupportedExtension ext))"

definition mergeReloadableFields :: "Config \<Rightarrow> Config \<Rightarrow> Config" where
  "mergeReloadableFields oldConfig newConfig = oldConfig
     \<lparr>cfg_LogLevel := cfg_LogLevel newConfig,
      cfg_MaxCircuitDirtiness := cfg_MaxCircuitDirtiness newConfig,
      cfg_NewCircuitPeriod := cfg_NewCircuitPeriod newConfig,
      cfg_CircuitBuildTimeout := cfg_CircuitBuildTimeout newConfig,
      cfg_CircuitPoolMinSize := cfg_CircuitPoolMinSize newConfig,
      cfg_CircuitPoolMaxSize := cfg_CircuitPoolMaxSize newConfig,
      cfg_EnableCircuitPrebuilding := cfg_EnableCircuitPrebuilding newConfig,
      cfg_ConnectionPoolMaxIdle := cfg_ConnectionPoolMaxIdle newConfig,
      cfg_ConnectionPoolMaxLife := cfg_ConnectionPoolMaxLife newConfig,
      cfg_EnableConnectionPooling := cfg_EnableConnectionPooling newConfig,
      cfg_EnableBufferPooling := cfg_EnableBufferPooling newConfig,
      cfg_IsolateDestinations := cfg_IsolateDestinations newConfig,
      cfg_IsolateSOCKSAuth := cfg_IsolateSOCKSAuth newConfig,
      cfg_IsolateClientPort := cfg_IsolateClientPort newConfig,
      cfg_IsolateClientProtocol := cfg_IsolateClientProtocol newConfig\<rparr>"

text \<open>The map ReloadableFields: the names of the fields that a reload may change.\<close>

definition ReloadableFields :: "string list" where
  "ReloadableFields =
     [''LogLevel'', ''MaxCircuitDirtiness'', ''NewCircuitPeriod'', ''CircuitBuildTimeout'',
      ''CircuitPoolMinSize'', ''CircuitPoolMaxSize'', ''EnableCircuitPrebuilding'',
      ''ConnectionPoolMaxIdle'', ''ConnectionPoolMaxLife'', ''EnableConnectionPooling'',
      ''EnableBufferPooling'', ''IsolateDestinations'', ''IsolateSOCKSAuth'', ''IsolateClientPort'',
      ''IsolateClientProtocol'']"

text \<open>
  The fields of Config by their Go names, so that ReloadableFields can be read; two
  configurations that agree on all of them are equal.
\<close>

datatype field_value =
  NumberField int | BoolField bool | TextField string | TextsField "string list" | ServicesField "OnionServiceConfig list"

definition config_fields :: "(string \<times> (Config \<Rightarrow> field_value)) list" where
  "config_fields =
     [(''SocksPort'', \<lambda>c. NumberField (cfg_SocksPort c)),
      (''ControlPort'', \<lambda>c. NumberField (cfg_ControlPort c)),
      (''DataDirectory'', \<lambda>c. TextField (cfg_DataDirectory c)),
      (''CircuitBuildTimeout'', \<lambda>c. NumberField (cfg_CircuitBuildTimeout c)),
      (''MaxCircuitDirtiness'', \<lambda>c. NumberField (cfg_MaxCircuitDirtiness c)),
      (''NewCircuitPeriod'', \<lambda>c. NumberField (cfg_NewCircuitPeriod c)),
      (''NumEntryGuards'', \<lambda>c. NumberField (cfg_NumEntryGuards c)),
      (''UseEntryGuards'', \<lambda>c. BoolField (cfg_UseEntryGuards c)),
      (''UseBridges'', \<lambda>c. BoolField (cfg_UseBridges c)),
      (''BridgeAddresses'', \<lambda>c. TextsField (cfg_BridgeAddresses c)),
      (''ExcludeNodes'', \<lambda>c. TextsField (cfg_ExcludeNodes c)),
      (''ExcludeExitNodes'', \<lambda>c. TextsField (cfg_ExcludeExitNodes c)),
      (''ConnLimit'', \<lambda>c. NumberField (cfg_ConnLimit c)),
      (''DormantTimeout'', \<lambda>c. NumberField (cfg_DormantTimeout c)),
      (''OnionServices'', \<lambda>c. ServicesField (cfg_OnionServices c)),
      (''LogLevel'', \<lambda>c. TextField (cfg_LogLevel c)),
      (''MetricsPort'', \<lambda>c. NumberField (cfg_MetricsPort c)),
      (''EnableMetrics'', \<lambda>c. BoolField (cfg_EnableMetrics c)),
      (''EnableConnectionPooling'', \<lambda>c. BoolField (cfg_EnableConnectionPooling c)),
      (''ConnectionPoolMaxIdle'', \<lambda>c. NumberField (cfg_ConnectionPoolMaxIdle c)),
      (''ConnectionPoolMaxLife'', \<lambda>c. NumberField (cfg_ConnectionPoolMaxLife c)),
      (''EnableCircuitPrebuilding'', \<lambda>c. BoolField (cfg_EnableCircuitPrebuilding c)),
      (''CircuitPoolMinSize'', \<lambda>c. NumberField (cfg_CircuitPoolMinSize c)),
      (''CircuitPoolMaxSize'', \<lambda>c. NumberField (cfg_CircuitPoolMaxSize c)),
      (''EnableBufferPooling'', \<lambda>c. BoolField (cfg_EnableBufferPooling c)),
      (''IsolationLevel'', \<lambda>c. TextField (cfg_IsolationLevel c)),
      (''IsolateDestinations'', \<lambda>c. BoolField (cfg_IsolateDestinations c)),
      (''IsolateSOCKSAuth'', \<lambda>c. BoolField (cfg_IsolateSOCKSAuth c)),
      (''IsolateClientPort'', \<lambda>c. BoolField (cfg_IsolateClientPort c)),
      (''IsolateClientProtocol'', \<lambda>c. BoolField (cfg_IsolateClientProtocol c))]"

lemma config_fields_all: "(\<forall>(name, get)\<in>set config_fields. get c = get d) \<longleftrightarrow> c = d"
  by (auto simp: config_fields_def intro!: Config.equality)

text \<open>The merge takes exactly the reloadable fields from the new configuration.\<close>

lemma merge_fields:
  "\<forall>(name, get)\<in>set config_fields.
     get (mergeReloadableFields c d) = (if name \<in> set ReloadableFields then get d else get c)"
  by (simp add: config_fields_def ReloadableFields_def mergeReloadableFields_def)

text \<open>The callbacks run in order until one fails; only then is nothing applied.\<close>

definition applyConfig :: "Config \<Rightarrow> ReloadableConfig \<Rightarrow> reload_error option \<times> ReloadableConfig" where
  "applyConfig newConfig rc =
     (let mergedConfig = mergeReloadableFields (rc_config rc) newConfig in
      if list_all (\<lambda>callback. callback (rc_config rc) mergedConfig) (rc_reloadCallbacks rc)
      then (None, rc\<lparr>rc_config := mergedConfig\<rparr>)
      else (Some CallbackFailed, rc))"

text \<open>The common part of Reload and checkAndReload.\<close>

definition load_and_apply :: "reload_env \<Rightarrow> ReloadableConfig \<Rightarrow> reload_error option \<times> ReloadableConfig" where
  "load_and_apply env rc =
     (case loadConfigFile env rc of
        Inl e \<Rightarrow> (Some e, rc)
      | Inr newConfig \<Rightarrow>
          (case Config_Validate newConfig of
             Some e \<Rightarrow> (Some (InvalidConfig e), rc)
           | None \<Rightarrow> applyConfig newConfig rc))"

definition checkAndReload :: "reload_env \<Rightarrow> ReloadableConfig \<Rightarrow> reload_error option \<times> ReloadableConfig" where
  "checkAndReload env rc =
     (case re_stat env of
        NotExist \<Rightarrow> (None, rc)
      | StatFailed \<Rightarrow> (Some StatError, rc)
      | ModTime modTime \<Rightarrow>
          if \<not> modTime > rc_lastModTime rc then (None, rc)
          else
            (case load_and_apply env rc of
               (Some e, rc) \<Rightarrow> (Some e, rc)
             | (None, rc) \<Rightarrow> (None, rc\<lparr>rc_lastModTime := modTime\<rparr>)))"

definition rc_Reload :: "reload_env \<Rightarrow> ReloadableConfig \<Rightarrow> reload_error option \<times> ReloadableConfig" where
  "rc_Reload env rc =
     (if rc_configPath rc = [] then (Some NoConfigFile, rc)
      else
        (case load_and_apply env rc of
           (Some e, rc) \<Rightarrow> (Some e, rc)
         | (None, rc) \<Rightarrow> (None, case re_stat env of ModTime t \<Rightarrow> rc\<lparr>rc_lastModTime := t\<rparr> | _ \<Rightarrow> rc)))"

subsection \<open>Runs\<close>

datatype reload_op = Register ReloadCallback | Tick reload_env | Manual reload_env

definition reload_step :: "reload_op \<Rightarrow> ReloadableConfig \<Rightarrow> ReloadableConfig" where
  "reload_step x rc =
     (case x of Register cb \<Rightarrow> OnReload cb rc | Tick env \<Rightarrow> snd (checkAndReload env rc) | Manual env \<Rightarrow> snd (rc_Reload env rc))"

lemma if_Some_None: "(if b then Some x else y) = None \<longleftrightarrow> \<not> b \<and> y = None" "(if z \<noteq> None then z else y) = None \<longleftrightarrow> z = None \<and> y = None"
  by auto

lemma Validate_None:
  "Config_Validate c = None \<longleftrightarrow>
     \<not> bad_port (cfg_SocksPort c) \<and> \<not> bad_port (cfg_ControlPort c) \<and> \<not> bad_port (cfg_MetricsPort c)
     \<and> \<not> (cfg_ControlPort c > 0 \<and> used_by_socks c (cfg_ControlPort c) \<noteq> None)
     \<and> \<not> (cfg_MetricsPort c > 0 \<and> used_by_control c (cfg_MetricsPort c) \<noteq> None)
     \<and> \<not> cfg_CircuitBuildTimeout c \<le> 0 \<and> \<not> cfg_MaxCircuitDirtiness c \<le> 0 \<and> \<not> cfg_NumEntryGuards c < 1 \<and> \<not> cfg_ConnLimit c < 1
     \<and> \<not> cfg_LogLevel c \<notin> set validLogLevels \<and> check_onion_services 0 (cfg_OnionServices c) = None
     \<and> \<not> cfg_ConnectionPoolMaxIdle c < 0 \<and> \<not> cfg_ConnectionPoolMaxLife c < 0
     \<and> \<not> cfg_CircuitPoolMinSize c < 0 \<and> \<not> cfg_CircuitPoolMaxSize c < cfg_CircuitPoolMinSize c
     \<and> \<not> cfg_IsolationLevel c \<notin> set validIsolationLevels"
  unfolding Config_Validate_def if_Some_None by (rule iffI; elim conjE; intro conjI; assumption?) simp_all

lemma merge_ports: "used_by_socks (mergeReloadableFields c c') = used_by_socks c" "used_by_control (mergeReloadableFields c c') = used_by_control c"
  by (rule ext, simp add: used_by_control_def used_by_socks_def mergeReloadableFields_def)+

lemma merge_valid:
  assumes "Config_Validate c = None" "Config_Validate c' = None"
  shows "Config_Validate (mergeReloadableFields c c') = None"
  using assms unfolding Validate_None merge_ports by (simp add: mergeReloadableFields_def)

lemma merge_merge [simp]: "mergeReloadableFields a (mergeReloadableFields (mergeReloadableFields a b) c) = mergeReloadableFields a c"
    "mergeReloadableFields (mergeReloadableFields a b) c = mergeReloadableFields a c" "mergeReloadableFields a a = a"
  by (simp_all add: mergeReloadableFields_def)

text \<open>What a reload can do to the configuration: nothing, or merge in one that Validate accepted.\<close>

lemma load_and_apply_cases:
  "load_and_apply env rc = (e, rc') \<Longrightarrow> rc' = rc \<and> e \<noteq> None
     \<or> (\<exists>c. e = None \<and> loadConfigFile env rc = Inr c \<and> Config_Validate c = None
          \<and> rc' = rc\<lparr>rc_config := mergeReloadableFields (rc_config rc) c\<rparr>)"
  by (auto simp: load_and_apply_def applyConfig_def Let_def split: sum.splits option.splits if_splits)

definition reload_inv :: "Config \<Rightarrow> ReloadableConfig \<Rightarrow> bool" where
  "reload_inv c0 rc \<longleftrightarrow> Config_Validate (rc_config rc) = None \<and> mergeReloadableFields c0 (rc_config rc) = rc_config rc"

lemma reload_inv_fields:
  assumes "reload_inv c0 rc"
  shows "\<forall>(name, get)\<in>set config_fields. name \<notin> set ReloadableFields \<longrightarrow> get (rc_config rc) = get c0"
  using assms merge_fields [of c0 "rc_config rc"] by (auto simp: reload_inv_def)

lemma load_and_apply_inv:
  assumes "load_and_apply env rc = (e, rc')" "reload_inv c0 rc"
  shows "reload_inv c0 rc'"
  using load_and_apply_cases [OF assms(1)]
proof (elim disjE exE conjE)
  fix c
  assume c: "Config_Validate c = None" "rc' = rc\<lparr>rc_config := mergeReloadableFields (rc_config rc) c\<rparr>"
  have "mergeReloadableFields c0 (mergeReloadableFields (rc_config rc) c) = mergeReloadableFields (rc_config rc) c"
    using assms(2) merge_merge(2) [of c0 "rc_config rc"] merge_merge(1) [of c0 "rc_config rc" c] by (simp add: reload_inv_def)
  with c assms(2) show ?thesis by (simp add: reload_inv_def merge_valid)
qed (use assms(2) in simp)

interpretation reloads: op_system reload_step "reload_inv c0" for c0
proof
  fix rc x
  assume inv: "reload_inv c0 rc"
  show "reload_inv c0 (reload_step x rc)"
  proof (cases x)
    case (Register cb)
    with inv show ?thesis by (simp add: reload_step_def OnReload_def reload_inv_def)
  next
    case (Tick env)
    obtain e rc' where l: "load_and_apply env rc = (e, rc')" by fastforce
    from load_and_apply_inv [OF l inv] l inv Tick show ?thesis
      by (auto simp: reload_step_def checkAndReload_def reload_inv_def split: stat_result.splits option.splits)
  next
    case (Manual env)
    obtain e rc' where l: "load_and_apply env rc = (e, rc')" by fastforce
    from load_and_apply_inv [OF l inv] l inv Manual show ?thesis
      by (auto simp: reload_step_def rc_Reload_def reload_inv_def split: stat_result.splits option.splits)
  qed
qed

text \<open>A reload that succeeds takes the reloadable fields of what it loaded, and only those.\<close>

lemma rc_Reload_fields:
  assumes "rc_Reload env rc = (None, rc')"
  shows "\<exists>c. loadConfigFile env rc = Inr c \<and> (\<forall>(name, get)\<in>set config_fields.
    get (rc_config rc') = (if name \<in> set ReloadableFields then get c else get (rc_config rc)))"
proof -
  obtain e rc1 where l: "load_and_apply env rc = (e, rc1)" by fastforce
  have "e = None" "rc_config rc' = rc_config rc1"
    using assms l by (auto simp: rc_Reload_def split: if_splits option.splits stat_result.splits)
  moreover obtain c where "loadConfigFile env rc = Inr c" "rc_config rc1 = mergeReloadableFields (rc_config rc) c"
    using load_and_apply_cases [OF l] \<open>e = None\<close> by auto
  ultimately show ?thesis using merge_fields [of "rc_config rc" c] by simp
qed

text \<open>
  C28: Reloading is safe. Over every sequence of registrations, watcher ticks and manual
  reloads, whatever the file holds and the callbacks answer, a valid configuration stays valid,
  and every field that ReloadableFields does not name keeps its value. A manual reload that
  succeeds then gives every field that ReloadableFields names the value of the configuration it
  loaded, and keeps the others.
\<close>

theorem reload_keeps_valid:
  assumes "Config_Validate (rc_config rc) = None"
  shows "Config_Validate (rc_config (fold reload_step ops rc)) = None
    \<and> (\<forall>(name, get)\<in>set config_fields. name \<notin> set ReloadableFields
        \<longrightarrow> get (rc_config (fold reload_step ops rc)) = get (rc_config rc))
    \<and> (\<forall>env rc'. rc_Reload env (fold reload_step ops rc) = (None, rc') \<longrightarrow>
        (\<exists>c. loadConfigFile env (fold reload_step ops rc) = Inr c \<and> (\<forall>(name, get)\<in>set config_fields.
           get (rc_config rc') = (if name \<in> set ReloadableFields then get c else get (rc_config (fold reload_step ops rc))))))"
proof -
  have "reload_inv (rc_config rc) (fold reload_step ops rc)"
    using assms by (intro reloads.run_inv) (simp add: reload_inv_def)
  with reload_inv_fields [OF this] rc_Reload_fields show ?thesis by (simp add: reload_inv_def)
qed

theorem reload_keeps_valid_witness:
  "let rc = NewReloadableConfig NotExist example_config ''torrc'';
       env = \<lparr>re_fraction = (\<lambda>f u. 0), re_base = example_config, re_stat = ModTime 5, re_file = Some ''LogLevel debug''\<rparr>;
       rc' = fold reload_step [Register (\<lambda>old new. True), Tick env, Manual env] rc in
     Config_Validate (rc_config rc') = None \<and> cfg_DataDirectory (rc_config rc') = cfg_DataDirectory (rc_config rc)
     \<and> cfg_OnionServices (rc_config rc') = cfg_OnionServices (rc_config rc)"
proof -
  have "Config_Validate (rc_config (NewReloadableConfig NotExist example_config ''torrc'')) = None"
    by (simp add: NewReloadableConfig_def example_config_def Config_Default_def Let_def FindAvailablePort_def Config_Validate_def
        bad_port_def used_by_socks_def used_by_control_def validLogLevels_def validIsolationLevels_def Minute_def Second_def)
  note ok = reload_keeps_valid [OF this]
  have "(''DataDirectory'', \<lambda>c. TextField (cfg_DataDirectory c)) \<in> set config_fields"
      "(''OnionServices'', \<lambda>c. ServicesField (cfg_OnionServices c)) \<in> set config_fields"
    by (simp_all add: config_fields_def)
  moreover have "''DataDirectory'' \<notin> set ReloadableFields" "''OnionServices'' \<notin> set ReloadableFields"
    by (simp_all add: ReloadableFields_def)
  ultimately show ?thesis
    using ok unfolding Let_def by fastforce
qed

text \<open>
  The loader has no keyword for the isolation flags and the pool sizes, yet a reload takes them
  from the new configuration: whatever the file says, they fall back to the defaults.
\<close>

lemma process_keeps:
  "processConfigOption fraction key val c = (e, c') \<Longrightarrow>
     cfg_IsolateSOCKSAuth c' = cfg_IsolateSOCKSAuth c \<and> cfg_IsolateDestinations c' = cfg_IsolateDestinations c
     \<and> cfg_IsolateClientPort c' = cfg_IsolateClientPort c \<and> cfg_CircuitPoolMinSize c' = cfg_CircuitPoolMinSize c"
  by (auto simp: processConfigOption_def set_number_def set_duration_def split: if_splits option.splits sum.splits)

lemma load_lines_keeps:
  "load_lines fraction n ls c = (e, c') \<Longrightarrow>
     cfg_IsolateSOCKSAuth c' = cfg_IsolateSOCKSAuth c \<and> cfg_IsolateDestinations c' = cfg_IsolateDestinations c
     \<and> cfg_IsolateClientPort c' = cfg_IsolateClientPort c \<and> cfg_CircuitPoolMinSize c' = cfg_CircuitPoolMinSize c"
proof (induction fraction n ls c rule: load_lines.induct)
  case (2 fraction n l ls c)
  obtain e1 c1 where l: "load_line fraction l c = (e1, c1)" by fastforce
  then have k: "cfg_IsolateSOCKSAuth c1 = cfg_IsolateSOCKSAuth c \<and> cfg_IsolateDestinations c1 = cfg_IsolateDestinations c
     \<and> cfg_IsolateClientPort c1 = cfg_IsolateClientPort c \<and> cfg_CircuitPoolMinSize c1 = cfg_CircuitPoolMinSize c"
    using process_keeps by (force simp: load_line_def Let_def split: if_splits list.splits)
  show ?case
  proof (cases e1)
    case None
    with 2 l k show ?thesis by simp
  qed (use 2 l k in simp)
qed simp

lemma load_file_keeps:
  "LoadFromFile fraction path file (Some b) = (None, Some c) \<Longrightarrow>
     cfg_IsolateSOCKSAuth c = cfg_IsolateSOCKSAuth b \<and> cfg_IsolateDestinations c = cfg_IsolateDestinations b
     \<and> cfg_IsolateClientPort c = cfg_IsolateClientPort b \<and> cfg_CircuitPoolMinSize c = cfg_CircuitPoolMinSize b"
  by (auto simp: LoadFromFile_def split: option.splits prod.splits if_splits dest: load_lines_keeps)

lemma load_file_some: "LoadFromFile fraction path file (Some b) = (None, x) \<Longrightarrow> \<exists>c. x = Some c"
  by (auto simp: LoadFromFile_def split: option.splits prod.splits if_splits)

text \<open>
  Every reload that succeeds turns the isolation flags off and resets the pool's minimum,
  whatever they were and whatever the file says.
\<close>

lemma reload_drops_isolation:
  assumes "rc_Reload env rc = (None, rc')" and "re_base env = Config_Default av1 av2 av3 dataDir"
  shows "\<not> cfg_IsolateSOCKSAuth (rc_config rc') \<and> \<not> cfg_IsolateDestinations (rc_config rc')
    \<and> \<not> cfg_IsolateClientPort (rc_config rc') \<and> cfg_CircuitPoolMinSize (rc_config rc') = 2"
proof -
  obtain e rc1 where l: "load_and_apply env rc = (e, rc1)" by fastforce
  have r: "e = None" "rc_config rc' = rc_config rc1"
    using assms(1) l by (auto simp: rc_Reload_def split: if_splits option.splits stat_result.splits)
  obtain c where c: "loadConfigFile env rc = Inr c" "rc_config rc1 = mergeReloadableFields (rc_config rc) c"
    using load_and_apply_cases [OF l] r(1) by auto
  then have "LoadFromFile (re_fraction env) (rc_configPath rc) (re_file env) (Some (re_base env)) = (None, Some c)"
    by (auto simp: loadConfigFile_def Let_def split: if_splits prod.splits option.splits dest: load_file_some)
  from load_file_keeps [OF this] c(2) r(2) assms(2) show ?thesis by (simp add: mergeReloadableFields_def Config_Default_def Let_def)
qed

definition isolating_config :: Config where
  "isolating_config = example_config\<lparr>cfg_IsolationLevel := ''credential'', cfg_IsolateSOCKSAuth := True\<rparr>"

lemma reload_drops_isolation_example:
  "let d = Config_Default (\<lambda>p. True) (\<lambda>p. True) (\<lambda>p. True) None;
       env = \<lparr>re_fraction = (\<lambda>f u. 0), re_base = d, re_stat = ModTime 5, re_file = Some []\<rparr>;
       rc = NewReloadableConfig NotExist isolating_config ''torrc'' in
     cfg_IsolateSOCKSAuth (rc_config rc)
     \<and> (case rc_Reload env rc of (e, rc') \<Rightarrow> e = None \<and> \<not> cfg_IsolateSOCKSAuth (rc_config rc') \<and> cfg_IsolationLevel (rc_config rc') = ''credential'')"
proof -
  let ?d = "Config_Default (\<lambda>p. True) (\<lambda>p. True) (\<lambda>p. True) None"
  let ?env = "\<lparr>re_fraction = (\<lambda>f u. 0), re_base = ?d, re_stat = ModTime 5, re_file = Some []\<rparr>"
  let ?rc = "NewReloadableConfig NotExist isolating_config ''torrc''"
  obtain e rc' where r: "rc_Reload ?env ?rc = (e, rc')" by fastforce
  have path: "validatePath ''torrc'' = None" "path_Ext ''torrc'' = []" by code_simp+
  have lines: "scan_lines [] = ([], False)" by (simp add: scan_lines_def Let_def)
  have load: "loadConfigFile ?env ?rc = Inr ?d"
    using path lines default_config_valid by (simp add: loadConfigFile_def NewReloadableConfig_def LoadFromFile_def)
  have e: "e = None" and iso: "cfg_IsolationLevel (rc_config rc') = ''credential''"
    using r load default_config_valid
    by (auto simp: rc_Reload_def load_and_apply_def applyConfig_def NewReloadableConfig_def mergeReloadableFields_def isolating_config_def)
  have "\<not> cfg_IsolateSOCKSAuth (rc_config rc')"
    using reload_drops_isolation [OF r [unfolded e], of "\<lambda>p. True" "\<lambda>p. True" "\<lambda>p. True" None] by simp
  with r e iso show ?thesis by (simp add: Let_def NewReloadableConfig_def isolating_config_def)
qed

end
