(* ===== verification/AutoConfig.thy ===== *)
theory AutoConfig
  imports Torrc
begin

section \<open>pkg/autoconfig/autoconfig.go: data directories\<close>

text \<open>
  Where the data directory is by default, and how it is made. The platform, the environment and
  the answers of the file system are arguments; paths are those of Unix. A directory is known
  by its permissions. FindAvailablePort is in Config; removing temporary files is I/O.
\<close>

text \<open>filepath.Join on Unix: the elements that are not empty, joined and cleaned.\<close>

definition path_Join :: "string list \<Rightarrow> string" where
  "path_Join elems =
     (let parts = filter (\<lambda>e. e \<noteq> []) elems in if parts = [] then [] else path_Clean (join ''/'' parts))"

definition GetDefaultDataDir :: "string \<Rightarrow> (string \<Rightarrow> string) \<Rightarrow> string option \<Rightarrow> string option" where
  "GetDefaultDataDir goos getenv homeDir =
     (if goos = ''windows'' then
        (let baseDir = getenv ''APPDATA'' in
         if baseDir = [] then
           (let baseDir = getenv ''USERPROFILE'' in
            if baseDir = [] then None
            else Some (path_Join [path_Join [baseDir, ''AppData'', ''Roaming''], ''go-tor'']))
         else Some (path_Join [baseDir, ''go-tor'']))
      else if goos = ''darwin'' then
        (case homeDir of None \<Rightarrow> None | Some h \<Rightarrow> Some (path_Join [h, ''Library'', ''Application Support'', ''go-tor'']))
      else
        (let configDir = getenv ''XDG_CONFIG_HOME'' in
         if configDir = [] then
           (case homeDir of None \<Rightarrow> None | Some h \<Rightarrow> Some (path_Join [path_Join [h, ''.config''], ''go-tor'']))
         else Some (path_Join [configDir, ''go-tor''])))"

datatype entry = File | Dir nat

datatype dir_error = NotADirectory | ChmodFailed | StatDirFailed | MkdirFailed

text \<open>
  \<open>stat\<close>: what is at the path, if the call succeeds; \<open>Inl True\<close> is an error that says the path does
  not exist. \<open>mkdir\<close> is what MkdirAll makes of the path, with the process's umask.
\<close>

definition EnsureDataDir ::
  "string \<Rightarrow> bool + entry \<Rightarrow> bool \<Rightarrow> entry option \<Rightarrow> dir_error + entry" where
  "EnsureDataDir goos stat chmod_ok mkdir =
     (case stat of
        Inr File \<Rightarrow> Inl NotADirectory
      | Inr (Dir mode) \<Rightarrow>
          if goos \<noteq> ''windows'' \<and> mode \<noteq> 448 then (if chmod_ok then Inr (Dir 448) else Inl ChmodFailed)
          else Inr (Dir mode)
      | Inl notExist \<Rightarrow>
          if \<not> notExist then Inl StatDirFailed
          else case mkdir of None \<Rightarrow> Inl MkdirFailed | Some d \<Rightarrow> Inr d)"

definition EnsureSubDir ::
  "string \<Rightarrow> bool + entry \<Rightarrow> bool \<Rightarrow> entry option \<Rightarrow> string \<Rightarrow> string \<Rightarrow> dir_error + string \<times> entry" where
  "EnsureSubDir goos stat chmod_ok mkdir dataDir subDir =
     (case EnsureDataDir goos stat chmod_ok mkdir of
        Inl e \<Rightarrow> Inl e
      | Inr d \<Rightarrow> Inr (path_Join [dataDir, subDir], d))"

text \<open>A directory that was there is the owner's alone afterwards (octal 700), except on Windows.\<close>

lemma data_dir_private:
  "EnsureDataDir goos (Inr (Dir mode)) chmod_ok mkdir = Inr d \<Longrightarrow> goos \<noteq> ''windows'' \<Longrightarrow> d = Dir 448"
  by (auto simp: EnsureDataDir_def split: if_splits)

text \<open>A subdirectory name may lead out of the data directory; nothing checks it.\<close>

lemma sub_dir_escapes:
  "EnsureSubDir ''linux'' (Inr (Dir 448)) True None ''/d'' ''../x'' = Inr (''/x'', Dir 448)"
proof -
  have "path_Join [''/d'', ''../x''] = ''/x''" by code_simp
  then show ?thesis by (simp add: EnsureSubDir_def EnsureDataDir_def)
qed

end
