(* ===== verification/Control.thy ===== *)
theory Control
  imports OnionParser
begin

section \<open>pkg/control: the control port\<close>

text \<open>
  control.go and events.go: the commands of a connection, the events with their wire format, and
  the dispatcher. The server is a state over its connections; a command, an event and the end of
  a connection are steps, and an event is written by a goroutine of its own, so it waits in a list
  until a later step delivers it. The quoting verb of fmt and the rendering of times are
  parameters. Over every run the dispatcher's table is what the connections asked for: events go
  to exactly the connections whose last SETEVENTS after an AUTHENTICATE named their type. Lines are
  ASCII: strings.Fields, TrimSpace and ToUpper also know the white space and letters beyond it.
\<close>

subsection \<open>Events\<close>

datatype control_event =
    CircuitEvent u32 string string string string "string option"
  | StreamEvent u16 string u32 string string
  | BWEvent u64 u64
  | ORConnEvent string string string int u64
  | NewDescEvent "string list"
  | GuardEvent string string string
  | NSEvent string string string string int int "string list"

text \<open>The time of a CircuitEvent is its RFC 3339 text, None for the zero time.\<close>

definition Event_Type :: "control_event \<Rightarrow> string" where
  "Event_Type e = (case e of CircuitEvent _ _ _ _ _ _ \<Rightarrow> ''CIRC'' | StreamEvent _ _ _ _ _ \<Rightarrow> ''STREAM'' | BWEvent _ _ \<Rightarrow> ''BW''
     | ORConnEvent _ _ _ _ _ \<Rightarrow> ''ORCONN'' | NewDescEvent _ \<Rightarrow> ''NEWDESC'' | GuardEvent _ _ _ \<Rightarrow> ''GUARD''
     | NSEvent _ _ _ _ _ _ _ \<Rightarrow> ''NS'')"

definition Circuit_Format :: "u32 \<Rightarrow> string \<Rightarrow> string \<Rightarrow> string \<Rightarrow> string \<Rightarrow> string option \<Rightarrow> string" where
  "Circuit_Format circuitID status path buildFlags purpose timeCreated = join '' ''
     ([''650 CIRC '' @ dec_of_nat (unat circuitID) @ '' '' @ status]
      @ (if path \<noteq> [] then [path] else [])
      @ (if buildFlags \<noteq> [] then [''BUILD_FLAGS='' @ buildFlags] else [])
      @ (if purpose \<noteq> [] then [''PURPOSE='' @ purpose] else [])
      @ (case timeCreated of None \<Rightarrow> [] | Some t \<Rightarrow> [''TIME_CREATED='' @ t]))"

definition Stream_Format :: "u16 \<Rightarrow> string \<Rightarrow> u32 \<Rightarrow> string \<Rightarrow> string \<Rightarrow> string" where
  "Stream_Format streamID status circuitID target reason = join '' ''
     ([''650 STREAM '' @ dec_of_nat (unat streamID) @ '' '' @ status @ '' '' @ dec_of_nat (unat circuitID) @ '' '' @ target]
      @ (if reason \<noteq> [] then [''REASON='' @ reason] else []))"

definition ORConn_Format :: "string \<Rightarrow> string \<Rightarrow> string \<Rightarrow> int \<Rightarrow> u64 \<Rightarrow> string" where
  "ORConn_Format target status reason numCircs connID = join '' ''
     ([''650 ORCONN '' @ target @ '' '' @ status]
      @ (if reason \<noteq> [] then [''REASON='' @ reason] else [])
      @ (if numCircs > 0 then [''NCIRCS='' @ dec_of_int numCircs] else [])
      @ (if connID > 0 then [''ID='' @ dec_of_nat (unat connID)] else []))"

definition BW_Format :: "u64 \<Rightarrow> u64 \<Rightarrow> string" where
  "BW_Format bytesRead bytesWritten = ''650 BW '' @ dec_of_nat (unat bytesRead) @ '' '' @ dec_of_nat (unat bytesWritten)"

definition Guard_Format :: "string \<Rightarrow> string \<Rightarrow> string \<Rightarrow> string" where
  "Guard_Format guardType name status = ''650 GUARD '' @ guardType @ '' '' @ name @ '' '' @ status"

definition NewDesc_Format :: "string list \<Rightarrow> string" where
  "NewDesc_Format descriptors =
     (if descriptors = [] then ''650 NEWDESC'' else ''650 NEWDESC '' @ join '' '' descriptors)"

definition NS_Format :: "string \<Rightarrow> string \<Rightarrow> string \<Rightarrow> string \<Rightarrow> int \<Rightarrow> int \<Rightarrow> string list \<Rightarrow> string" where
  "NS_Format longName fingerprint published ip orPort dirPort flags =
     ''650 NS '' @ longName @ '' '' @ fingerprint @ '' '' @ published @ '' '' @ ip @ '' '' @ dec_of_int orPort @ '' '' @ dec_of_int dirPort
     @ (if flags \<noteq> [] then '' '' @ join '' '' flags else [])"

definition Event_Format :: "control_event \<Rightarrow> string" where
  "Event_Format e = (case e of
     CircuitEvent i status path flags purpose t \<Rightarrow> Circuit_Format i status path flags purpose t
   | StreamEvent i status circ target reason \<Rightarrow> Stream_Format i status circ target reason
   | BWEvent r w \<Rightarrow> BW_Format r w
   | ORConnEvent target status reason n i \<Rightarrow> ORConn_Format target status reason n i
   | NewDescEvent ds \<Rightarrow> NewDesc_Format ds
   | GuardEvent t name status \<Rightarrow> Guard_Format t name status
   | NSEvent ln fp pub ip orp dirp flags \<Rightarrow> NS_Format ln fp pub ip orp dirp flags)"

subsection \<open>Connections\<close>

record control_conn =
  cc_out :: string
  cc_authenticated :: bool
  cc_events :: "string set"
  cc_closed :: bool

definition crlf :: string where "crlf = [CHR 0x0D, CHR 0x0A]"

text \<open>A write to a closed connection fails, and the error is dropped.\<close>

definition cc_write :: "string \<Rightarrow> control_conn \<Rightarrow> control_conn" where
  "cc_write s c = (if cc_closed c then c else c\<lparr>cc_out := cc_out c @ s\<rparr>)"

definition writeReply :: "nat \<Rightarrow> string \<Rightarrow> control_conn \<Rightarrow> control_conn" where
  "writeReply code message c = cc_write (dec_of_nat code @ '' '' @ message @ crlf) c"

definition writeDataReply :: "string list \<Rightarrow> control_conn \<Rightarrow> control_conn" where
  "writeDataReply lines c = cc_write (concat (map (\<lambda>l. l @ crlf) lines)) c"

subsection \<open>Commands\<close>

text \<open>strings.Replace with count 1, and the last line of a reply.\<close>

fun replace_first :: "string \<Rightarrow> string \<Rightarrow> string \<Rightarrow> string" where
  "replace_first old new [] = (if old = [] then new else [])"
| "replace_first old new (c # cs) =
     (if has_prefix old (c # cs) then new @ drop (length old) (c # cs) else c # replace_first old new cs)"

definition finish_lines :: "string list \<Rightarrow> string list" where
  "finish_lines replies = (if replies = [] then [] else butlast replies @ [replace_first ''250-'' ''250 '' (last replies)])"

definition getInfoValue :: "int \<Rightarrow> string \<Rightarrow> string option" where
  "getInfoValue activeCircuits key =
     (if key = ''version'' then Some ''go-tor 0.1.0''
      else if key = ''traffic/read'' \<or> key = ''traffic/written'' then Some ''0''
      else if key = ''status/circuit-established'' then Some (if activeCircuits > 0 then ''1'' else ''0'')
      else if key = ''status/enough-dir-info'' then Some ''1''
      else None)"

fun info_lines :: "int \<Rightarrow> string list \<Rightarrow> string + string list" where
  "info_lines activeCircuits [] = Inr []"
| "info_lines activeCircuits (key # keys) =
     (case getInfoValue activeCircuits key of
        None \<Rightarrow> Inl key
      | Some val \<Rightarrow>
          (case info_lines activeCircuits keys of
             Inl k \<Rightarrow> Inl k
           | Inr ls \<Rightarrow> Inr ((''250-'' @ key @ ''='' @ val) # ls)))"

definition handleAuthenticate :: "control_conn \<Rightarrow> control_conn" where
  "handleAuthenticate c = writeReply 250 ''OK'' (c\<lparr>cc_authenticated := True\<rparr>)"

definition handleProtocolInfo :: "control_conn \<Rightarrow> control_conn" where
  "handleProtocolInfo c = writeDataReply
     [''250-PROTOCOLINFO 1'', ''250-AUTH METHODS=NULL'', ''250-VERSION Tor='' @ [CHR 0x22] @ ''go-tor-0.1.0'' @ [CHR 0x22], ''250 OK''] c"

definition handleGetInfo :: "(string \<Rightarrow> string) \<Rightarrow> int \<Rightarrow> string list \<Rightarrow> control_conn \<Rightarrow> control_conn" where
  "handleGetInfo quote activeCircuits args c =
     (if \<not> cc_authenticated c then writeReply 514 ''Authentication required'' c
      else if length args = 0 then writeReply 552 ''Missing argument'' c
      else case info_lines activeCircuits args of
             Inl key \<Rightarrow> writeReply 552 (''Unrecognized key '' @ quote key) c
           | Inr replies \<Rightarrow> writeDataReply (finish_lines replies) c)"

definition handleGetConf :: "string list \<Rightarrow> control_conn \<Rightarrow> control_conn" where
  "handleGetConf args c =
     (if \<not> cc_authenticated c then writeReply 514 ''Authentication required'' c
      else if length args = 0 then writeReply 552 ''Missing argument'' c
      else writeDataReply (finish_lines (map (\<lambda>key. ''250-'' @ key @ ''='') args)) c)"

definition handleSetConf :: "control_conn \<Rightarrow> control_conn" where
  "handleSetConf c =
     (if \<not> cc_authenticated c then writeReply 514 ''Authentication required'' c else writeReply 250 ''OK'' c)"

subsection \<open>The server and its dispatcher\<close>

record control_server =
  ct_conns :: "nat \<rightharpoonup> control_conn"
  ct_subscribers :: "nat \<rightharpoonup> string set"
  ct_sending :: "(nat \<times> string) list"
  ct_done :: bool

definition NewControlServer :: control_server where
  "NewControlServer = \<lparr>ct_conns = Map.empty, ct_subscribers = Map.empty, ct_sending = [], ct_done = False\<rparr>"

text \<open>Subscribe forgets what the connection had subscribed to before.\<close>

definition Subscribe :: "nat \<Rightarrow> string list \<Rightarrow> control_server \<Rightarrow> control_server" where
  "Subscribe i events s = s\<lparr>ct_subscribers := (ct_subscribers s)(i \<mapsto> set events)\<rparr>"

definition Unsubscribe :: "nat \<Rightarrow> control_server \<Rightarrow> control_server" where
  "Unsubscribe i s = s\<lparr>ct_subscribers := (ct_subscribers s)(i := None)\<rparr>"

definition subscribes :: "control_server \<Rightarrow> string \<Rightarrow> nat \<Rightarrow> bool" where
  "subscribes s eventType i \<longleftrightarrow> (case ct_subscribers s i of None \<Rightarrow> False | Some evs \<Rightarrow> eventType \<in> evs)"

text \<open>Dispatch starts a goroutine per subscriber; \<open>order\<close> is the order the map is ranged over.\<close>

definition Dispatch :: "nat list \<Rightarrow> control_event \<Rightarrow> control_server \<Rightarrow> control_server" where
  "Dispatch order event s =
     s\<lparr>ct_sending := ct_sending s @ map (\<lambda>i. (i, Event_Format event)) (filter (subscribes s (Event_Type event)) order)\<rparr>"

definition GetSubscriberCount :: "string \<Rightarrow> control_server \<Rightarrow> nat" where
  "GetSubscriberCount eventType s = card {i\<in>dom (ct_subscribers s). subscribes s eventType i}"

definition upd_conn :: "nat \<Rightarrow> (control_conn \<Rightarrow> control_conn) \<Rightarrow> control_server \<Rightarrow> control_server" where
  "upd_conn i f s = s\<lparr>ct_conns := (ct_conns s)(i := map_option f (ct_conns s i))\<rparr>"

definition upper :: "string \<Rightarrow> string" where
  "upper s = map upper_char s"

definition handleSetEvents :: "nat \<Rightarrow> string list \<Rightarrow> control_server \<Rightarrow> control_server" where
  "handleSetEvents i args s =
     (case ct_conns s i of
        None \<Rightarrow> s
      | Some c \<Rightarrow>
          if \<not> cc_authenticated c then upd_conn i (writeReply 514 ''Authentication required'') s
          else
            let events = map upper args;
                s = upd_conn i (cc_events_update (\<lambda>_. set events)) s
            in upd_conn i (writeReply 250 ''OK'') (Subscribe i events s))"

definition handleCommand :: "(string \<Rightarrow> string) \<Rightarrow> int \<Rightarrow> nat \<Rightarrow> string \<Rightarrow> control_server \<Rightarrow> control_server" where
  "handleCommand quote activeCircuits i line s =
     (case str_fields line of
        [] \<Rightarrow> upd_conn i (writeReply 500 ''Syntax error: empty command'') s
      | p # args \<Rightarrow>
          let cmd = upper p in
          if cmd = ''AUTHENTICATE'' then upd_conn i handleAuthenticate s
          else if cmd = ''GETINFO'' then upd_conn i (handleGetInfo quote activeCircuits args) s
          else if cmd = ''GETCONF'' then upd_conn i (handleGetConf args) s
          else if cmd = ''SETCONF'' then upd_conn i handleSetConf s
          else if cmd = ''SETEVENTS'' then handleSetEvents i args s
          else if cmd = ''QUIT'' then upd_conn i (\<lambda>c. (writeReply 250 ''closing connection'' c)\<lparr>cc_closed := True\<rparr>) s
          else if cmd = ''PROTOCOLINFO'' then upd_conn i handleProtocolInfo s
          else upd_conn i (writeReply 510 (''Unrecognized command '' @ quote cmd)) s)"

text \<open>handleConnection: registration and greeting, one round of its loop, and the deferred calls.\<close>

definition open_connection :: "nat \<Rightarrow> control_server \<Rightarrow> control_server" where
  "open_connection i s =
     upd_conn i (writeReply 250 ''OK'')
       (s\<lparr>ct_conns := (ct_conns s)(i \<mapsto> \<lparr>cc_out = [], cc_authenticated = False, cc_events = {}, cc_closed = False\<rparr>)\<rparr>)"

definition close_connection :: "nat \<Rightarrow> control_server \<Rightarrow> control_server" where
  "close_connection i s = (Unsubscribe i s)\<lparr>ct_conns := (ct_conns s)(i := None)\<rparr>"

text \<open>The loop ends when the server stops or the connection is closed: its read deadline cannot be set.\<close>

definition connection_round :: "(string \<Rightarrow> string) \<Rightarrow> int \<Rightarrow> nat \<Rightarrow> string \<Rightarrow> control_server \<Rightarrow> control_server" where
  "connection_round quote activeCircuits i line0 s =
     (case ct_conns s i of
        None \<Rightarrow> s
      | Some c \<Rightarrow>
          if ct_done s \<or> cc_closed c then close_connection i s
          else
            let line = trim_space line0 in
            if line = [] then s else handleCommand quote activeCircuits i line s)"

text \<open>A goroutine of Dispatch writes its message.\<close>

definition send_event :: "nat \<Rightarrow> control_server \<Rightarrow> control_server" where
  "send_event k s =
     (if k < length (ct_sending s)
      then (case ct_sending s ! k of
              (i, msg) \<Rightarrow> (upd_conn i (cc_write (msg @ crlf)) s)\<lparr>ct_sending := take k (ct_sending s) @ drop (Suc k) (ct_sending s)\<rparr>)
      else s)"

definition Control_Stop :: "control_server \<Rightarrow> control_server" where
  "Control_Stop s = s\<lparr>ct_done := True, ct_conns := (\<lambda>i. map_option (cc_closed_update (\<lambda>_. True)) (ct_conns s i))\<rparr>"

subsection \<open>Runs\<close>

text \<open>
  Connections are numbered as they are accepted. A line comes with the number of active circuits
  the client reports at that moment; a hangup is a failed read, be it the end of the stream or
  the read deadline.
\<close>

datatype control_op = Accept | Line nat string int | Hangup nat | Emit control_event "nat list" | Deliver nat | Stop

definition accept_control :: "nat \<times> control_server \<Rightarrow> nat \<times> control_server" where
  "accept_control ns = (case ns of (n, s) \<Rightarrow> if ct_done s then (n, s) else (Suc n, open_connection n s))"

definition control_step :: "(string \<Rightarrow> string) \<Rightarrow> control_op \<Rightarrow> nat \<times> control_server \<Rightarrow> nat \<times> control_server" where
  "control_step quote op ns = (case op of
     Accept \<Rightarrow> accept_control ns
   | Line i l active \<Rightarrow> apsnd (connection_round quote active i l) ns
   | Hangup i \<Rightarrow> apsnd (close_connection i) ns
   | Emit e order \<Rightarrow> apsnd (Dispatch order e) ns
   | Deliver k \<Rightarrow> apsnd (send_event k) ns
   | Stop \<Rightarrow> apsnd Control_Stop ns)"

definition control_run :: "(string \<Rightarrow> string) \<Rightarrow> control_op list \<Rightarrow> nat \<times> control_server" where
  "control_run quote ops = foldl (\<lambda>ns op. control_step quote op ns) (0, NewControlServer) ops"

lemma control_run_Nil [simp]: "control_run quote [] = (0, NewControlServer)"
  by (simp add: control_run_def)

lemma control_run_snoc [simp]: "control_run quote (ops @ [op]) = control_step quote op (control_run quote ops)"
  by (simp add: control_run_def)

subsection \<open>A connection is an automaton of its own\<close>

text \<open>
  What concerns connection \<open>i\<close>: its authentication, its events, whether it is closed, and its
  entry in the dispatcher. The automaton below runs on the lines of this connection alone.
\<close>

type_synonym session = "(bool \<times> string set \<times> bool) option \<times> string set option"

definition session_view :: "nat \<Rightarrow> control_server \<Rightarrow> session" where
  "session_view i s = (map_option (\<lambda>c. (cc_authenticated c, cc_events c, cc_closed c)) (ct_conns s i), ct_subscribers s i)"

definition command :: "string \<Rightarrow> string" where
  "command l = (case str_fields (trim_space l) of [] \<Rightarrow> [] | p # _ \<Rightarrow> upper p)"

definition event_args :: "string \<Rightarrow> string set" where
  "event_args l = set (map upper (tl (str_fields (trim_space l))))"

definition session_line :: "bool \<Rightarrow> string \<Rightarrow> session \<Rightarrow> session" where
  "session_line stopped l v = (case v of
     (None, sub) \<Rightarrow> (None, sub)
   | (Some (auth, evs, closed), sub) \<Rightarrow>
       if stopped \<or> closed then (None, None)
       else if command l = ''AUTHENTICATE'' then (Some (True, evs, False), sub)
       else if command l = ''SETEVENTS'' \<and> auth then (Some (True, event_args l, False), Some (event_args l))
       else if command l = ''QUIT'' then (Some (auth, evs, True), sub)
       else v)"

text \<open>The state of the automaton has the number of the next connection and whether the server stopped.\<close>

definition session_step :: "nat \<Rightarrow> control_op \<Rightarrow> nat \<times> bool \<times> session \<Rightarrow> nat \<times> bool \<times> session" where
  "session_step i op st = (case st of (n, stopped, v) \<Rightarrow> case op of
     Accept \<Rightarrow> if stopped then st else (Suc n, stopped, if n = i then (Some (False, {}, False), snd v) else v)
   | Line j l _ \<Rightarrow> (n, stopped, if j = i then session_line stopped l v else v)
   | Hangup j \<Rightarrow> (n, stopped, if j = i then (None, None) else v)
   | Stop \<Rightarrow> (n, True, map_option (\<lambda>(a, e, _). (a, e, True)) (fst v), snd v)
   | _ \<Rightarrow> st)"

definition control_view :: "nat \<Rightarrow> nat \<times> control_server \<Rightarrow> nat \<times> bool \<times> session" where
  "control_view i ns = (fst ns, ct_done (snd ns), session_view i (snd ns))"

lemma cc_write_keeps [simp]:
  "cc_authenticated (cc_write t c) = cc_authenticated c"
  "cc_events (cc_write t c) = cc_events c"
  "cc_closed (cc_write t c) = cc_closed c"
  by (simp_all add: cc_write_def)

lemma writeReply_keeps [simp]:
  "cc_authenticated (writeReply n t c) = cc_authenticated c"
  "cc_events (writeReply n t c) = cc_events c"
  "cc_closed (writeReply n t c) = cc_closed c"
  by (simp_all add: writeReply_def)

lemma writeDataReply_keeps [simp]:
  "cc_authenticated (writeDataReply ls c) = cc_authenticated c"
  "cc_events (writeDataReply ls c) = cc_events c"
  "cc_closed (writeDataReply ls c) = cc_closed c"
  by (simp_all add: writeDataReply_def)

lemma handlers_keep [simp]:
  "cc_authenticated (handleGetInfo q a args c) = cc_authenticated c"
  "cc_events (handleGetInfo q a args c) = cc_events c"
  "cc_closed (handleGetInfo q a args c) = cc_closed c"
  "cc_authenticated (handleGetConf args c) = cc_authenticated c"
  "cc_events (handleGetConf args c) = cc_events c"
  "cc_closed (handleGetConf args c) = cc_closed c"
  "cc_authenticated (handleSetConf c) = cc_authenticated c"
  "cc_events (handleSetConf c) = cc_events c"
  "cc_closed (handleSetConf c) = cc_closed c"
  "cc_authenticated (handleProtocolInfo c) = cc_authenticated c"
  "cc_events (handleProtocolInfo c) = cc_events c"
  "cc_closed (handleProtocolInfo c) = cc_closed c"
  "cc_authenticated (handleAuthenticate c)"
  "cc_events (handleAuthenticate c) = cc_events c"
  "cc_closed (handleAuthenticate c) = cc_closed c"
  by (simp_all add: handleGetInfo_def handleGetConf_def handleSetConf_def handleProtocolInfo_def handleAuthenticate_def
      split: sum.split)

lemma upd_conn_sel [simp]:
  "ct_conns (upd_conn i f s) j = (if j = i then map_option f (ct_conns s i) else ct_conns s j)"
  "ct_subscribers (upd_conn i f s) = ct_subscribers s"
  "ct_sending (upd_conn i f s) = ct_sending s"
  "ct_done (upd_conn i f s) = ct_done s"
  by (simp_all add: upd_conn_def)

lemma Subscribe_sel [simp]:
  "ct_conns (Subscribe i es s) = ct_conns s"
  "ct_subscribers (Subscribe i es s) = (ct_subscribers s)(i \<mapsto> set es)"
  "ct_sending (Subscribe i es s) = ct_sending s"
  "ct_done (Subscribe i es s) = ct_done s"
  by (simp_all add: Subscribe_def)

lemma close_connection_sel [simp]:
  "ct_conns (close_connection i s) = (ct_conns s)(i := None)"
  "ct_subscribers (close_connection i s) = (ct_subscribers s)(i := None)"
  "ct_sending (close_connection i s) = ct_sending s"
  "ct_done (close_connection i s) = ct_done s"
  by (simp_all add: close_connection_def Unsubscribe_def)

lemma open_connection_sel [simp]:
  "ct_subscribers (open_connection i s) = ct_subscribers s"
  "ct_sending (open_connection i s) = ct_sending s"
  "ct_done (open_connection i s) = ct_done s"
  "j \<noteq> i \<Longrightarrow> ct_conns (open_connection i s) j = ct_conns s j"
  by (simp_all add: open_connection_def)

lemma session_view_open: "session_view i (open_connection i s) = (Some (False, {}, False), ct_subscribers s i)"
  by (simp add: session_view_def open_connection_def)

lemma handleSetEvents_view:
  "session_view i (handleSetEvents j args s) =
     (if j = i \<and> (\<exists>c. ct_conns s i = Some c \<and> cc_authenticated c)
      then (map_option (\<lambda>c. (True, set (map upper args), cc_closed c)) (ct_conns s i), Some (set (map upper args)))
      else session_view i s)"
  by (auto simp: session_view_def handleSetEvents_def Let_def split: option.split)

lemma handleSetEvents_rest [simp]:
  "ct_sending (handleSetEvents j args s) = ct_sending s" "ct_done (handleSetEvents j args s) = ct_done s"
  by (simp_all add: handleSetEvents_def Let_def split: option.split)

lemma handleCommand_rest [simp]:
  "ct_sending (handleCommand q a i l s) = ct_sending s" "ct_done (handleCommand q a i l s) = ct_done s"
  by (simp_all add: handleCommand_def Let_def split: list.split)

lemma connection_round_rest [simp]:
  "ct_sending (connection_round q a i l s) = ct_sending s" "ct_done (connection_round q a i l s) = ct_done s"
  by (simp_all add: connection_round_def Let_def split: option.split)

text \<open>An update that keeps the three fields is invisible.\<close>

lemma view_upd_same:
  "(\<And>c. (cc_authenticated (f c), cc_events (f c), cc_closed (f c)) = (cc_authenticated c, cc_events c, cc_closed c))
   \<Longrightarrow> session_view i (upd_conn j f s) = session_view i s"
  by (simp add: session_view_def option.map_comp comp_def)

lemma view_upd_other: "j \<noteq> i \<Longrightarrow> session_view i (upd_conn j f s) = session_view i s"
  by (simp add: session_view_def)

text \<open>A round of another connection, and a round of this one.\<close>

lemma view_close: "session_view i (close_connection j s) = (if j = i then (None, None) else session_view i s)"
  by (simp add: session_view_def)

lemma command_view_other: "j \<noteq> i \<Longrightarrow> session_view i (handleCommand q a j l s) = session_view i s"
  by (simp add: handleCommand_def Let_def view_upd_other handleSetEvents_view split: list.split)

lemma round_view_other: "j \<noteq> i \<Longrightarrow> session_view i (connection_round q a j l s) = session_view i s"
  by (simp add: connection_round_def view_close command_view_other Let_def split: option.split)

lemma command_view:
  assumes c: "ct_conns s i = Some c" and live: "\<not> ct_done s" "\<not> cc_closed c" and ne: "trim_space l \<noteq> []"
  shows "session_view i (handleCommand q a i (trim_space l) s) = session_line (ct_done s) l (session_view i s)"
proof (cases "str_fields (trim_space l)")
  case Nil
  then show ?thesis using c live
    by (simp add: handleCommand_def session_line_def command_def session_view_def)
next
  case (Cons p args)
  have cmd: "command l = upper p" and args: "event_args l = set (map upper args)"
    using Cons by (simp_all add: command_def event_args_def)
  have v: "session_view i s = (Some (cc_authenticated c, cc_events c, False), ct_subscribers s i)"
    using c live by (simp add: session_view_def)
  show ?thesis
    using c live unfolding v session_line_def cmd args
    by (simp add: handleCommand_def Cons Let_def handleSetEvents_view view_upd_same)
      (simp add: session_view_def c)
qed

lemma str_fields_Nil [simp]: "str_fields [] = []"
  by (simp add: str_fields_def)

lemma round_view_own: "session_view i (connection_round q a i l s) = session_line (ct_done s) l (session_view i s)"
proof (cases "ct_conns s i")
  case None
  then show ?thesis by (simp add: connection_round_def session_view_def session_line_def)
next
  case (Some c)
  consider "ct_done s \<or> cc_closed c" | "\<not> ct_done s" "\<not> cc_closed c" "trim_space l = []"
    | "\<not> ct_done s" "\<not> cc_closed c" "trim_space l \<noteq> []" by blast
  then show ?thesis
  proof cases
    case 1
    then show ?thesis using Some by (auto simp: connection_round_def session_view_def session_line_def)
  next
    case 2
    then show ?thesis using Some by (simp add: connection_round_def session_view_def session_line_def command_def)
  next
    case 3
    then show ?thesis using Some command_view [OF Some 3] by (simp add: connection_round_def)
  qed
qed

lemma send_event_view: "session_view i (send_event k s) = session_view i s"
proof (cases "k < length (ct_sending s)")
  case True
  obtain j msg where "ct_sending s ! k = (j, msg)" by (cases "ct_sending s ! k")
  then show ?thesis using True by (cases "ct_conns s i") (auto simp: send_event_def session_view_def upd_conn_def)
qed (simp add: send_event_def)

lemma send_event_done [simp]: "ct_done (send_event k s) = ct_done s"
  by (simp add: send_event_def split: prod.split)

lemma control_step_view: "control_view i (control_step q op ns) = session_step i op (control_view i ns)"
proof (cases op)
  case Accept
  then show ?thesis
    by (cases ns) (auto simp: control_step_def accept_control_def control_view_def session_step_def session_view_def open_connection_def)
next
  case (Line j l a)
  then show ?thesis
    by (cases ns) (auto simp: control_step_def control_view_def session_step_def round_view_own round_view_other)
next
  case (Hangup j)
  then show ?thesis
    by (cases ns) (auto simp: control_step_def control_view_def session_step_def session_view_def)
next
  case (Emit e ord)
  then show ?thesis
    by (cases ns) (simp add: control_step_def control_view_def session_step_def session_view_def Dispatch_def)
next
  case (Deliver k)
  then show ?thesis
    by (cases ns) (simp add: control_step_def control_view_def session_step_def send_event_view)
next
  case Stop
  then show ?thesis
    by (cases ns) (simp add: control_step_def control_view_def session_step_def session_view_def Control_Stop_def
        option.map_comp comp_def case_prod_beta)
qed

definition session_run :: "nat \<Rightarrow> control_op list \<Rightarrow> nat \<times> bool \<times> session" where
  "session_run i ops = foldl (\<lambda>st op. session_step i op st) (0, False, None, None) ops"

lemma session_run_snoc [simp]: "session_run i (ops @ [op]) = session_step i op (session_run i ops)"
  by (simp add: session_run_def)

lemma control_run_view: "control_view i (control_run q ops) = session_run i ops"
  by (induction ops rule: rev_induct)
    (simp_all add: control_step_view, simp add: session_run_def control_view_def session_view_def NewControlServer_def)

text \<open>The operations that concern a connection: its own lines and hangups, and those of the server.\<close>

definition concerns :: "nat \<Rightarrow> control_op \<Rightarrow> bool" where
  "concerns i op = (case op of Accept \<Rightarrow> True | Line j _ _ \<Rightarrow> j = i | Hangup j \<Rightarrow> j = i | Emit _ _ \<Rightarrow> False | Deliver _ \<Rightarrow> False | Stop \<Rightarrow> True)"

lemma session_step_foreign: "\<not> concerns i op \<Longrightarrow> session_step i op st = st"
  by (cases st) (simp add: concerns_def session_step_def split: control_op.splits)

lemma session_run_filter: "session_run i (filter (concerns i) ops) = session_run i ops"
  by (induction ops rule: rev_induct) (simp_all add: session_step_foreign)

subsection \<open>What a connection must have asked for\<close>

definition authenticated_in :: "nat \<Rightarrow> control_op list \<Rightarrow> bool" where
  "authenticated_in i ops \<longleftrightarrow> list_ex (\<lambda>op. case op of Line j l _ \<Rightarrow> j = i \<and> command l = ''AUTHENTICATE'' | _ \<Rightarrow> False) ops"

lemma authenticated_in_iff: "authenticated_in i ops \<longleftrightarrow> (\<exists>l a. Line i l a \<in> set ops \<and> command l = ''AUTHENTICATE'')"
proof (induction ops)
  case (Cons op ops)
  then show ?case by (cases op) (auto simp: authenticated_in_def)
qed (simp add: authenticated_in_def)

text \<open>The operations that replace or end what connection \<open>i\<close> is subscribed to.\<close>

definition resubscribes :: "nat \<Rightarrow> control_op \<Rightarrow> bool" where
  "resubscribes i op = (case op of Line j l _ \<Rightarrow> j = i \<and> command l = ''SETEVENTS'' | Hangup j \<Rightarrow> j = i | _ \<Rightarrow> False)"

definition asked_for :: "nat \<Rightarrow> control_op list \<Rightarrow> string set \<Rightarrow> bool" where
  "asked_for i ops evs \<longleftrightarrow> (\<exists>h1 l a h2. ops = h1 @ Line i l a # h2 \<and> authenticated_in i h1 \<and> command l = ''SETEVENTS''
     \<and> event_args l = evs \<and> (\<forall>op\<in>set h2. \<not> resubscribes i op))"

lemma authenticated_in_snoc: "authenticated_in i (ops @ [op]) \<longleftrightarrow>
    authenticated_in i ops \<or> (\<exists>l a. op = Line i l a \<and> command l = ''AUTHENTICATE'')"
  by (auto simp: authenticated_in_iff)

lemma asked_for_snoc: "asked_for i ops evs \<Longrightarrow> \<not> resubscribes i op \<Longrightarrow> asked_for i (ops @ [op]) evs"
  unfolding asked_for_def by (elim exE conjE) (rule exI, rule exI, rule exI, rule_tac x = "h2 @ [op]" in exI, auto)

lemma asked_for_now: "authenticated_in i ops \<Longrightarrow> command l = ''SETEVENTS'' \<Longrightarrow> asked_for i (ops @ [Line i l a]) (event_args l)"
  unfolding asked_for_def by fastforce

definition session_ok :: "nat \<Rightarrow> control_op list \<Rightarrow> nat \<times> bool \<times> session \<Rightarrow> bool" where
  "session_ok i ops st = (case st of (n, stopped, conn, sub) \<Rightarrow> (case conn of
     None \<Rightarrow> sub = None
   | Some (auth, _, _) \<Rightarrow> i < n \<and> (auth \<longrightarrow> authenticated_in i ops) \<and> (\<forall>evs. sub = Some evs \<longrightarrow> auth \<and> asked_for i ops evs)))"

lemma session_ok_None [simp]: "session_ok i ops (n, stopped, None, sub) \<longleftrightarrow> sub = None"
  by (simp add: session_ok_def)

lemma session_ok_Some [simp]: "session_ok i ops (n, stopped, Some (auth, es, closed), sub) \<longleftrightarrow>
    i < n \<and> (auth \<longrightarrow> authenticated_in i ops) \<and> (\<forall>evs. sub = Some evs \<longrightarrow> auth \<and> asked_for i ops evs)"
  by (simp add: session_ok_def)

lemma resubscribes_Line [simp]: "resubscribes i (Line j l a) \<longleftrightarrow> j = i \<and> command l = ''SETEVENTS''"
  by (simp add: resubscribes_def)

lemma session_line_ok:
  assumes ok: "session_ok i ops (n, stopped, v)"
  shows "session_ok i (ops @ [Line i l a]) (n, stopped, session_line stopped l v)"
proof (cases v)
  case (Pair conn sub)
  have snoc: "authenticated_in i ops \<Longrightarrow> authenticated_in i (ops @ [Line i l a])" by (simp add: authenticated_in_snoc)
  show ?thesis
  proof (cases conn)
    case None
    then show ?thesis using ok Pair by (simp add: session_line_def)
  next
    case (Some x)
    obtain auth es closed where x: "x = (auth, es, closed)" by (cases x)
    have ok': "i < n" "auth \<Longrightarrow> authenticated_in i ops" "\<And>evs. sub = Some evs \<Longrightarrow> auth \<and> asked_for i ops evs"
      using ok by (simp_all add: Pair Some x)
    show ?thesis
    proof (cases "command l = ''SETEVENTS''")
      case True
      then show ?thesis using ok' snoc asked_for_now [OF _ True] asked_for_snoc
        by (cases auth; cases sub) (auto simp: Pair Some x session_line_def)
    next
      case False
      have "\<And>evs. sub = Some evs \<Longrightarrow> auth \<and> asked_for i (ops @ [Line i l a]) evs"
        using ok'(3) asked_for_snoc [of i ops _ "Line i l a"] False by simp
      then show ?thesis using ok'(1,2) snoc False
        by (simp add: Pair Some x session_line_def authenticated_in_snoc)
    qed
  qed
qed

lemma session_ok_snoc:
  assumes "session_ok i ops st" "\<not> resubscribes i op"
  shows "session_ok i (ops @ [op]) st"
proof -
  obtain n stopped conn sub where st: "st = (n, stopped, conn, sub)" by (cases st)
  show ?thesis using assms asked_for_snoc [OF _ assms(2)]
    by (cases conn) (auto simp: st authenticated_in_snoc)
qed

lemma session_step_ok:
  assumes ok: "session_ok i ops st"
  shows "session_ok i (ops @ [op]) (session_step i op st)"
proof -
  obtain n stopped conn sub where st: "st = (n, stopped, conn, sub)" by (cases st)
  show ?thesis
  proof (cases op)
    case (Line j l a)
    then show ?thesis using ok session_line_ok [of i ops n stopped "(conn, sub)" l a] session_ok_snoc [OF ok, of op]
      by (cases "j = i") (simp_all add: st session_step_def)
  next
    case (Hangup j)
    then show ?thesis using session_ok_snoc [OF ok, of op] by (cases "j = i") (simp_all add: st session_step_def resubscribes_def)
  qed (use session_ok_snoc [OF ok, of op] in
      \<open>cases conn; auto simp: st session_step_def resubscribes_def\<close>)+
qed

lemma session_run_ok: "session_ok i ops (session_run i ops)"
proof (induction ops rule: rev_induct)
  case Nil
  then show ?case by (simp add: session_ok_def session_run_def)
next
  case (snoc op ops)
  then show ?case by (simp add: session_step_ok)
qed

lemma subscriber_asked:
  assumes "ct_subscribers (snd (control_run q ops)) i = Some evs"
  shows "asked_for i ops evs"
proof -
  have "session_ok i ops (control_view i (control_run q ops))"
    by (simp add: control_run_view session_run_ok)
  then show ?thesis using assms
    by (cases "ct_conns (snd (control_run q ops)) i") (simp_all add: control_view_def session_view_def)
qed

text \<open>Where a message on its way to a connection comes from.\<close>

lemma control_step_sending:
  "(i, msg) \<in> set (ct_sending (snd (control_step q op ns))) \<Longrightarrow>
   (i, msg) \<in> set (ct_sending (snd ns)) \<or>
   (\<exists>e ord. op = Emit e ord \<and> i \<in> set ord \<and> subscribes (snd ns) (Event_Type e) i \<and> msg = Event_Format e)"
  by (cases ns) (auto simp: control_step_def accept_control_def Dispatch_def send_event_def Control_Stop_def
      split: control_op.splits if_splits prod.splits dest: in_set_takeD in_set_dropD)

text \<open>An event goes to exactly the connections of the dispatcher's table, once each.\<close>

lemma dispatch_exact:
  "ct_sending (Dispatch order e s) = ct_sending s @ map (\<lambda>i. (i, Event_Format e)) (filter (subscribes s (Event_Type e)) order)"
  by (simp add: Dispatch_def)

lemma count_is_dispatched:
  assumes "distinct order" "set order = dom (ct_subscribers s)"
  shows "GetSubscriberCount (Event_Type e) s = length (ct_sending (Dispatch order e s)) - length (ct_sending s)"
proof -
  have "{i\<in>dom (ct_subscribers s). subscribes s (Event_Type e) i} = set (filter (subscribes s (Event_Type e)) order)"
    using assms by auto
  then show ?thesis
    using assms distinct_card [of "filter (subscribes s (Event_Type e)) order"]
    by (simp only: GetSubscriberCount_def dispatch_exact) simp
qed

lemma sending_asked:
  "(i, msg) \<in> set (ct_sending (snd (control_run q ops))) \<Longrightarrow>
   \<exists>h1 e order h2 evs. ops = h1 @ Emit e order # h2 \<and> msg = Event_Format e \<and> asked_for i h1 evs \<and> Event_Type e \<in> evs"
proof (induction ops rule: rev_induct)
  case Nil
  then show ?case by (simp add: NewControlServer_def)
next
  case (snoc op ops)
  then consider "(i, msg) \<in> set (ct_sending (snd (control_run q ops)))"
    | e ord where "op = Emit e ord" "subscribes (snd (control_run q ops)) (Event_Type e) i" "msg = Event_Format e"
    using control_step_sending by (metis control_run_snoc)
  then show ?case
  proof cases
    case 1
    then show ?thesis using snoc.IH by fastforce
  next
    case 2
    then obtain evs where "ct_subscribers (snd (control_run q ops)) i = Some evs" "Event_Type e \<in> evs"
      by (auto simp: subscribes_def split: option.splits)
    then show ?thesis using 2 subscriber_asked by blast
  qed
qed

text \<open> C29: No connection gets an event it did not ask for. Whatever waits to be written to a connection is the
  text of an event dispatched after that connection, having sent AUTHENTICATE, sent a SETEVENTS
  line that names the type of the event, with no later SETEVENTS and no hangup before the dispatch.\<close>

theorem events_only_when_asked:
  assumes "(i, msg) \<in> set (ct_sending (snd (control_run quote ops)))"
  shows "\<exists>h0 la a h1 ls b h2 e order h3. ops = h0 @ Line i la a # h1 @ Line i ls b # h2 @ Emit e order # h3
      \<and> command la = ''AUTHENTICATE'' \<and> command ls = ''SETEVENTS'' \<and> Event_Type e \<in> event_args ls
      \<and> (\<forall>op\<in>set h2. \<not> resubscribes i op) \<and> msg = Event_Format e"
proof -
  obtain h e order h3 evs where h: "ops = h @ Emit e order # h3" "msg = Event_Format e" "asked_for i h evs" "Event_Type e \<in> evs"
    using sending_asked [OF assms] by blast
  obtain g ls b h2 where g: "h = g @ Line i ls b # h2" "authenticated_in i g" "command ls = ''SETEVENTS''" "event_args ls = evs"
    "\<forall>op\<in>set h2. \<not> resubscribes i op"
    using h(3) unfolding asked_for_def by blast
  obtain h0 la a h1 where la: "g = h0 @ Line i la a # h1" "command la = ''AUTHENTICATE''"
    using g(2) unfolding authenticated_in_iff by (meson split_list)
  have "ops = h0 @ Line i la a # h1 @ Line i ls b # h2 @ Emit e order # h3" using h(1) g(1) la(1) by simp
  then show ?thesis using la(2) g(3,4,5) h(2,4) by blast
qed

text \<open>The witness: two connections, of which one authenticates and asks for bandwidth events.\<close>

definition bw_run :: "control_op list" where
  "bw_run = [Accept, Accept, Line 1 ''SETEVENTS BW'' 0, Line 0 ''authenticate'' 0, Line 0 ''setevents bw CIRC'' 0, Emit (BWEvent 10 20) [0, 1]]"

lemma bw_run_sending: "ct_sending (snd (control_run (\<lambda>s. s) bw_run)) = [(0, ''650 BW 10 20'')]"
  by code_simp

theorem events_only_when_asked_witness:
  "\<exists>h0 la a h1 ls b h2 e order h3. bw_run = h0 @ Line 0 la a # h1 @ Line 0 ls b # h2 @ Emit e order # h3
      \<and> command la = ''AUTHENTICATE'' \<and> command ls = ''SETEVENTS'' \<and> Event_Type e \<in> event_args ls
      \<and> (\<forall>op\<in>set h2. \<not> resubscribes 0 op) \<and> ''650 BW 10 20'' = Event_Format e"
  by (rule events_only_when_asked [of _ _ "\<lambda>s. s"]) (simp add: bw_run_sending)

text \<open> C31: Connections are independent. What a connection is allowed, subscribed to and whether it is closed is, over
  every interleaving, what its own lines and hangups give in a run in which no other connection
  sends anything.\<close>

theorem connections_independent:
  fixes quote ops i
  defines "all_of \<equiv> snd (control_run quote ops)"
    and "own \<equiv> snd (control_run quote (filter (concerns i) ops))"
  shows "map_option (\<lambda>c. (cc_authenticated c, cc_events c, cc_closed c)) (ct_conns all_of i) =
         map_option (\<lambda>c. (cc_authenticated c, cc_events c, cc_closed c)) (ct_conns own i)
       \<and> ct_subscribers all_of i = ct_subscribers own i"
proof -
  have "control_view i (control_run quote ops) = control_view i (control_run quote (filter (concerns i) ops))"
    by (simp only: control_run_view session_run_filter)
  then show ?thesis by (simp add: control_view_def session_view_def all_of_def own_def)
qed

subsection \<open>Replies\<close>

lemma command_words: "command l = w \<Longrightarrow> w \<noteq> [] \<Longrightarrow> \<exists>p args. str_fields (trim_space l) = p # args \<and> upper p = w"
  by (auto simp: command_def split: list.splits)

lemma not_authenticated:
  assumes "\<not> authenticated_in i ops" "ct_conns (snd (control_run q ops)) i = Some c"
  shows "\<not> cc_authenticated c"
proof -
  have "session_ok i ops (control_view i (control_run q ops))" by (simp add: control_run_view session_run_ok)
  then show ?thesis using assms by (simp add: control_view_def session_view_def)
qed

lemma reply_codes: "dec_of_nat 514 = ''514''" "dec_of_nat 552 = ''552''"
  by code_simp+

lemma handlers_refuse:
  assumes "\<not> cc_authenticated c" "ct_conns s i = Some c"
  shows "upd_conn i (handleGetInfo q a args) s = upd_conn i (writeReply 514 ''Authentication required'') s"
    "upd_conn i (handleGetConf args) s = upd_conn i (writeReply 514 ''Authentication required'') s"
    "upd_conn i handleSetConf s = upd_conn i (writeReply 514 ''Authentication required'') s"
    "handleSetEvents i args s = upd_conn i (writeReply 514 ''Authentication required'') s"
  using assms by (simp_all add: upd_conn_def handleGetInfo_def handleGetConf_def handleSetConf_def handleSetEvents_def)

text \<open> C30: Without AUTHENTICATE nothing is told and nothing changes. To a connection that never sent it GETINFO, GETCONF,
  SETCONF and SETEVENTS answer one line, 514, and the rest of the server stays as it is; if the
  server stopped or the connection was closed, the connection only goes away.\<close>

theorem unauthenticated_refused:
  fixes quote ops i l
  defines "s \<equiv> snd (control_run quote ops)"
  assumes "\<not> authenticated_in i ops" "command l \<in> {''GETINFO'', ''GETCONF'', ''SETCONF'', ''SETEVENTS''}"
  shows "snd (control_run quote (ops @ [Line i l active])) =
    (case ct_conns s i of
       None \<Rightarrow> s
     | Some c \<Rightarrow> if ct_done s \<or> cc_closed c then close_connection i s
                else upd_conn i (cc_write (''514 Authentication required'' @ crlf)) s)"
proof -
  obtain p args where p: "str_fields (trim_space l) = p # args" "upper p = command l"
    using assms(3) command_words [OF refl, of l] by auto
  have "trim_space l \<noteq> []" using p(1) by auto
  moreover have "writeReply 514 ''Authentication required'' = cc_write (''514 Authentication required'' @ crlf)"
    by (rule ext) (simp add: writeReply_def reply_codes)
  moreover have "\<And>c. ct_conns s i = Some c \<Longrightarrow> handleCommand quote active i (trim_space l) s = upd_conn i (writeReply 514 ''Authentication required'') s"
    using assms(2,3) not_authenticated [of i ops quote] unfolding s_def
    by (auto simp: handleCommand_def p Let_def handlers_refuse)
  ultimately show ?thesis
    by (simp add: control_step_def connection_round_def snd_apsnd s_def split: option.split)
qed

theorem unauthenticated_refused_witness:
  "snd (control_run (\<lambda>s. s) ([Accept, Line 0 ''PROTOCOLINFO'' 0] @ [Line 0 ''getinfo version'' 3]))
     = upd_conn 0 (cc_write (''514 Authentication required'' @ crlf)) (snd (control_run (\<lambda>s. s) [Accept, Line 0 ''PROTOCOLINFO'' 0]))"
proof -
  have na: "\<not> authenticated_in 0 [Accept, Line 0 ''PROTOCOLINFO'' 0]" by code_simp
  have cmd: "command ''getinfo version'' = ''GETINFO''" by code_simp
  have c: "map_option cc_closed (ct_conns (snd (control_run (\<lambda>s. s) [Accept, Line 0 ''PROTOCOLINFO'' 0])) 0) = Some False"
    "\<not> ct_done (snd (control_run (\<lambda>s. s) [Accept, Line 0 ''PROTOCOLINFO'' 0]))"
    by code_simp+
  show ?thesis
    by (subst unauthenticated_refused [OF na]) (use c in \<open>auto simp: cmd\<close>)
qed

text \<open>The last reply of a list loses its dash.\<close>

lemma finish_lines_snoc: "finish_lines (ls @ [''250-'' @ x]) = ls @ [''250 '' @ x]"
  by (simp add: finish_lines_def has_prefix_def)

lemma info_lines_known:
  "(\<forall>k\<in>set keys. getInfoValue a k \<noteq> None) \<Longrightarrow> info_lines a keys = Inr (map (\<lambda>k. ''250-'' @ k @ ''='' @ the (getInfoValue a k)) keys)"
  by (induction keys) auto

lemma info_lines_unknown:
  "(\<exists>k\<in>set keys. getInfoValue a k = None) \<Longrightarrow> info_lines a keys = Inl (hd (dropWhile (\<lambda>k. getInfoValue a k \<noteq> None) keys))"
proof (induction keys)
  case (Cons k ks)
  show ?case
  proof (cases "getInfoValue a k")
    case (Some v)
    then have "\<exists>k\<in>set ks. getInfoValue a k = None" using Cons.prems by auto
    then show ?thesis using Cons.IH Some by simp
  qed simp
qed simp

text \<open> GETINFO answers exactly what it was asked: with an unknown key among the keys a single 552 line that
  names the first unknown one; otherwise one line per key, in order, all but the last with a
  dash after the code.\<close>

lemma getinfo_reply_exact:
  assumes "cc_authenticated c" "\<not> cc_closed c"
  shows "cc_out (handleGetInfo quote active (keys @ [key]) c) = cc_out c @
    (if \<exists>k\<in>set (keys @ [key]). getInfoValue active k = None
     then ''552 Unrecognized key '' @ quote (hd (dropWhile (\<lambda>k. getInfoValue active k \<noteq> None) (keys @ [key]))) @ crlf
     else concat (map (\<lambda>k. ''250-'' @ k @ ''='' @ the (getInfoValue active k) @ crlf) keys)
          @ ''250 '' @ key @ ''='' @ the (getInfoValue active key) @ crlf)"
proof (cases "\<exists>k\<in>set (keys @ [key]). getInfoValue active k = None")
  case True
  then show ?thesis
    using assms by (simp only: handleGetInfo_def info_lines_unknown [OF True])
      (simp add: writeReply_def cc_write_def reply_codes)
next
  case False
  have "finish_lines (map (\<lambda>k. ''250-'' @ k @ ''='' @ the (getInfoValue active k)) (keys @ [key]))
      = map (\<lambda>k. ''250-'' @ k @ ''='' @ the (getInfoValue active k)) keys @ [''250 '' @ key @ ''='' @ the (getInfoValue active key)]"
    using finish_lines_snoc by simp
  moreover have "info_lines active (keys @ [key]) = Inr (map (\<lambda>k. ''250-'' @ k @ ''='' @ the (getInfoValue active k)) (keys @ [key]))"
    using False by (intro info_lines_known) metis
  ultimately show ?thesis
    unfolding if_not_P [OF False] using assms
    by (simp add: handleGetInfo_def writeDataReply_def cc_write_def comp_def)
qed

definition authed_conn :: control_conn where
  "authed_conn = \<lparr>cc_out = [], cc_authenticated = True, cc_events = {}, cc_closed = False\<rparr>"

lemma getinfo_reply_exact_example:
  "cc_out (handleGetInfo (\<lambda>s. s) 2 ([''version''] @ [''status/circuit-established'']) authed_conn)
     = ''250-version=go-tor 0.1.0'' @ crlf @ ''250 status/circuit-established=1'' @ crlf"
proof -
  have "cc_authenticated authed_conn" "\<not> cc_closed authed_conn" "cc_out authed_conn = []" by (simp_all add: authed_conn_def)
  then show ?thesis
    using getinfo_reply_exact [of authed_conn "\<lambda>s. s" 2 "[''version'']" "''status/circuit-established''"]
    by (simp add: getInfoValue_def)
qed

text \<open>
  An event that was dispatched before a connection cancelled its events is written to it after the
  cancellation was acknowledged.
\<close>

lemma event_after_cancellation:
  "map_option cc_out (ct_conns (snd (control_run (\<lambda>s. s)
     [Accept, Line 0 ''AUTHENTICATE'' 0, Line 0 ''SETEVENTS BW'' 0, Emit (BWEvent 1 2) [0], Line 0 ''SETEVENTS'' 0, Deliver 0])) 0)
   = Some (concat (replicate 4 (''250 OK'' @ crlf)) @ ''650 BW 1 2'' @ crlf)"
  by code_simp

end
