(* ===== verification/Metrics.thy ===== *)
theory Metrics
  imports ExchangeSort Torrc
begin

section \<open>pkg/metrics: counters, gauges and histograms\<close>

text \<open>
  Counters and gauges are int64 values that wrap, so they are 64-bit words, read as signed. A histogram keeps
  the last 1000 durations. Its mean adds in int64; its percentile sorts a copy with the two loops
  of the code, the rank int(float64(n) * p) being a parameter. The whole seconds of a duration,
  which the code takes through float64, are a parameter too.
\<close>

type_synonym i64 = "64 word"

definition Counter_Inc :: "i64 \<Rightarrow> i64" where "Counter_Inc c = c + 1"

definition Counter_Add :: "i64 \<Rightarrow> i64 \<Rightarrow> i64" where "Counter_Add n c = c + n"

definition Gauge_Set :: "i64 \<Rightarrow> i64 \<Rightarrow> i64" where "Gauge_Set v g = v"

definition Gauge_Inc :: "i64 \<Rightarrow> i64" where "Gauge_Inc g = g + 1"

definition Gauge_Dec :: "i64 \<Rightarrow> i64" where "Gauge_Dec g = g - 1"

definition Gauge_Add :: "i64 \<Rightarrow> i64 \<Rightarrow> i64" where "Gauge_Add n g = g + n"

subsection \<open>Histograms\<close>

record Histogram =
  hi_observations :: "duration list"

definition NewHistogram :: Histogram where
  "NewHistogram = \<lparr>hi_observations = []\<rparr>"

definition Observe :: "duration \<Rightarrow> Histogram \<Rightarrow> Histogram" where
  "Observe d h =
     (let obs = hi_observations h;
          obs = (if length obs \<ge> 1000 then tl obs else obs)
      in h\<lparr>hi_observations := obs @ [d]\<rparr>)"

definition Mean :: "Histogram \<Rightarrow> duration" where
  "Mean h =
     (let obs = hi_observations h in
      if length obs = 0 then 0
      else go_quot (foldl (\<lambda>sum d. wrap_int64 (sum + d)) 0 obs) (int (length obs)))"

definition swap_larger :: "nat \<Rightarrow> duration list \<Rightarrow> nat \<Rightarrow> duration list" where
  "swap_larger i ds j = (if ds ! i > ds ! j then ds[i := ds ! j, j := ds ! i] else ds)"

definition bubble_sort :: "duration list \<Rightarrow> duration list" where
  "bubble_sort ds = foldl (\<lambda>ds i. foldl (swap_larger i) ds [i + 1..<length ds]) ds [0..<length ds]"

text \<open>None is the panic of an index out of range.\<close>

definition Percentile :: "(nat \<Rightarrow> nat) \<Rightarrow> Histogram \<Rightarrow> duration option" where
  "Percentile rank h =
     (let obs = hi_observations h in
      if length obs = 0 then Some 0
      else
        let sorted = bubble_sort obs; index = rank (length sorted - 1)
        in if index < length sorted then Some (sorted ! index) else None)"

definition Histogram_Count :: "Histogram \<Rightarrow> nat" where
  "Histogram_Count h = length (hi_observations h)"

text \<open>A histogram is the window of the last 1000 observations.\<close>

definition observe_all :: "duration list \<Rightarrow> Histogram" where
  "observe_all ds = foldl (\<lambda>h d. Observe d h) NewHistogram ds"

lemma observe_all_snoc [simp]: "observe_all (ds @ [d]) = Observe d (observe_all ds)"
  by (simp add: observe_all_def)

lemma observe_window: "hi_observations (observe_all ds) = drop (length ds - 1000) ds"
proof (induction ds rule: rev_induct)
  case Nil
  then show ?case by (simp add: observe_all_def NewHistogram_def)
next
  case (snoc d ds)
  show ?case
  proof (cases "length ds \<ge> 1000")
    case True
    then have "Suc (length ds - 1000) = length ds + 1 - 1000" by simp
    then have "tl (drop (length ds - 1000) ds) = drop (length ds + 1 - 1000) ds"
      by (metis drop_Suc tl_drop)
    then show ?thesis using True by (simp add: Observe_def Let_def snoc.IH)
  next
    case False
    then show ?thesis by (simp add: Observe_def Let_def snoc.IH)
  qed
qed

lemma count_bounded: "Histogram_Count (observe_all ds) = min 1000 (length ds)"
  by (simp add: Histogram_Count_def observe_window)

text \<open>The loops sort: a percentile is the element of that rank among the last 1000 observations.\<close>

interpretation duration_sort: exchange_sort "\<lambda>d::duration. d" swap_larger
  by unfold_locales (simp_all add: swap_larger_def)

lemma bubble_sort_eq: "bubble_sort ds = sort ds"
proof -
  have "mset (bubble_sort ds) = mset ds" "sorted (bubble_sort ds)"
    using duration_sort.loops_sort [of ds "length ds"] by (simp_all add: bubble_sort_def)
  then show ?thesis by (metis properties_for_sort)
qed

text \<open> The histogram reports order statistics of a sliding window. After any sequence of observations its percentile
  is the element of the given rank of the sorted last 1000 observations, 0 when there are none,
  and it panics for no rank that stays within the window.\<close>

lemma percentile_exact:
  assumes "\<And>n. rank n \<le> n"
  shows "Percentile rank (observe_all ds) =
    Some (if ds = [] then 0 else sort (drop (length ds - 1000) ds) ! rank (min 1000 (length ds) - 1))"
proof (cases "ds = []")
  case True
  then show ?thesis by (simp add: Percentile_def observe_all_def NewHistogram_def)
next
  case False
  then have len: "length ds - (length ds - 1000) = min 1000 (length ds)" "min 1000 (length ds) \<noteq> 0" by auto
  with assms [of "min 1000 (length ds) - 1"] have "rank (min 1000 (length ds) - 1) < min 1000 (length ds)" by linarith
  then show ?thesis using False len
    by (auto simp: Percentile_def observe_window bubble_sort_eq Let_def)
qed

lemma percentile_exact_example: "Percentile (\<lambda>n. n * 95 div 100) (observe_all [5, 1, 4]) = Some 4"
  by (subst percentile_exact) (simp_all add: insort_key.simps)

text \<open>The mean is the truncated average as long as no partial sum leaves int64.\<close>

lemma sum_no_overflow:
  "(\<And>n. n \<le> length ds \<Longrightarrow> \<bar>s + sum_list (take n ds)\<bar> < 2 ^ 63) \<Longrightarrow>
   foldl (\<lambda>sum d. wrap_int64 (sum + d)) s ds = s + sum_list ds"
proof (induction ds arbitrary: s)
  case (Cons d ds)
  have "wrap_int64 (s + d) = s + d" using Cons.prems [of 1] by (intro wrap_int64_id) auto
  moreover have "\<bar>(s + d) + sum_list (take n ds)\<bar> < 2 ^ 63" if "n \<le> length ds" for n
    using Cons.prems [of "Suc n"] that by (simp add: add.assoc)
  ultimately show ?case using Cons.IH [of "s + d"] by (simp add: add.assoc)
qed simp

lemma mean_exact:
  "hi_observations h \<noteq> [] \<Longrightarrow> (\<And>n. \<bar>sum_list (take n (hi_observations h))\<bar> < 2 ^ 63) \<Longrightarrow>
   Mean h = go_quot (sum_list (hi_observations h)) (int (length (hi_observations h)))"
  using sum_no_overflow [of "hi_observations h" 0] by (simp add: Mean_def Let_def)

text \<open>Durations of 292 years are enough for two observations to wrap.\<close>

lemma mean_wraps: "Mean (observe_all [2 ^ 62, 2 ^ 62]) = - (2 ^ 62)"
  by (simp add: Mean_def observe_all_def Observe_def NewHistogram_def wrap_int64_def go_quot_def)

subsection \<open>The metrics of a client\<close>

record Metrics =
  mt_CircuitBuilds :: i64
  mt_CircuitBuildSuccess :: i64
  mt_CircuitBuildFailure :: i64
  mt_CircuitBuildTime :: Histogram
  mt_ActiveCircuits :: i64
  mt_ConnectionAttempts :: i64
  mt_ConnectionSuccess :: i64
  mt_ConnectionFailures :: i64
  mt_ConnectionRetries :: i64
  mt_TLSHandshakeTime :: Histogram
  mt_ActiveConnections :: i64
  mt_StreamsCreated :: i64
  mt_StreamsClosed :: i64
  mt_StreamFailures :: i64
  mt_ActiveStreams :: i64
  mt_StreamData :: i64
  mt_GuardsActive :: i64
  mt_GuardsConfirmed :: i64
  mt_SocksConnections :: i64
  mt_SocksRequests :: i64
  mt_SocksErrors :: i64
  mt_IsolatedCircuits :: i64
  mt_IsolationKeys :: i64
  mt_IsolationHits :: i64
  mt_IsolationMisses :: i64
  mt_ReplayAttemptsDetected :: i64
  mt_ReplayForwardAttempts :: i64
  mt_ReplayBackwardAttempts :: i64
  mt_OutOfOrderCells :: i64
  mt_Uptime :: i64
  mt_startTime :: time

definition NewMetrics :: "time \<Rightarrow> Metrics" where
  "NewMetrics now = \<lparr>mt_CircuitBuilds = 0, mt_CircuitBuildSuccess = 0, mt_CircuitBuildFailure = 0, mt_CircuitBuildTime = NewHistogram, mt_ActiveCircuits = 0, mt_ConnectionAttempts = 0, mt_ConnectionSuccess = 0, mt_ConnectionFailures = 0, mt_ConnectionRetries = 0, mt_TLSHandshakeTime = NewHistogram, mt_ActiveConnections = 0, mt_StreamsCreated = 0, mt_StreamsClosed = 0, mt_StreamFailures = 0, mt_ActiveStreams = 0, mt_StreamData = 0, mt_GuardsActive = 0, mt_GuardsConfirmed = 0, mt_SocksConnections = 0, mt_SocksRequests = 0, mt_SocksErrors = 0, mt_IsolatedCircuits = 0, mt_IsolationKeys = 0, mt_IsolationHits = 0, mt_IsolationMisses = 0, mt_ReplayAttemptsDetected = 0, mt_ReplayForwardAttempts = 0, mt_ReplayBackwardAttempts = 0, mt_OutOfOrderCells = 0, mt_Uptime = 0, mt_startTime = now\<rparr>"

definition RecordCircuitBuild :: "bool \<Rightarrow> duration \<Rightarrow> Metrics \<Rightarrow> Metrics" where
  "RecordCircuitBuild success d m =
     (let m = m\<lparr>mt_CircuitBuilds := Counter_Inc (mt_CircuitBuilds m)\<rparr>;
          m = (if success then m\<lparr>mt_CircuitBuildSuccess := Counter_Inc (mt_CircuitBuildSuccess m)\<rparr>
               else m\<lparr>mt_CircuitBuildFailure := Counter_Inc (mt_CircuitBuildFailure m)\<rparr>)
      in m\<lparr>mt_CircuitBuildTime := Observe d (mt_CircuitBuildTime m)\<rparr>)"

definition RecordConnection :: "bool \<Rightarrow> i64 \<Rightarrow> Metrics \<Rightarrow> Metrics" where
  "RecordConnection success retries m =
     (let m = m\<lparr>mt_ConnectionAttempts := Counter_Inc (mt_ConnectionAttempts m)\<rparr>;
          m = (if success then m\<lparr>mt_ConnectionSuccess := Counter_Inc (mt_ConnectionSuccess m)\<rparr>
               else m\<lparr>mt_ConnectionFailures := Counter_Inc (mt_ConnectionFailures m)\<rparr>)
      in m\<lparr>mt_ConnectionRetries := Counter_Add retries (mt_ConnectionRetries m)\<rparr>)"

definition RecordTLSHandshake :: "duration \<Rightarrow> Metrics \<Rightarrow> Metrics" where
  "RecordTLSHandshake d m = m\<lparr>mt_TLSHandshakeTime := Observe d (mt_TLSHandshakeTime m)\<rparr>"

definition RecordReplayAttempt :: "bool \<Rightarrow> Metrics \<Rightarrow> Metrics" where
  "RecordReplayAttempt isForward m =
     (let m = m\<lparr>mt_ReplayAttemptsDetected := Counter_Inc (mt_ReplayAttemptsDetected m)\<rparr>
      in if isForward then m\<lparr>mt_ReplayForwardAttempts := Counter_Inc (mt_ReplayForwardAttempts m)\<rparr>
         else m\<lparr>mt_ReplayBackwardAttempts := Counter_Inc (mt_ReplayBackwardAttempts m)\<rparr>)"

definition RecordOutOfOrderCell :: "Metrics \<Rightarrow> Metrics" where
  "RecordOutOfOrderCell m = m\<lparr>mt_OutOfOrderCells := Counter_Inc (mt_OutOfOrderCells m)\<rparr>"

definition UpdateUptime :: "(duration \<Rightarrow> i64) \<Rightarrow> time \<Rightarrow> Metrics \<Rightarrow> Metrics" where
  "UpdateUptime seconds now m = m\<lparr>mt_Uptime := Gauge_Set (seconds (now - mt_startTime m)) (mt_Uptime m)\<rparr>"

record Snapshot =
  sn_CircuitBuilds :: i64
  sn_CircuitBuildSuccess :: i64
  sn_CircuitBuildFailure :: i64
  sn_CircuitBuildTimeAvg :: duration
  sn_CircuitBuildTimeP95 :: duration
  sn_ActiveCircuits :: i64
  sn_ConnectionAttempts :: i64
  sn_ConnectionSuccess :: i64
  sn_ConnectionFailures :: i64
  sn_ConnectionRetries :: i64
  sn_TLSHandshakeAvg :: duration
  sn_TLSHandshakeP95 :: duration
  sn_ActiveConnections :: i64
  sn_StreamsCreated :: i64
  sn_StreamsClosed :: i64
  sn_StreamFailures :: i64
  sn_ActiveStreams :: i64
  sn_StreamData :: i64
  sn_GuardsActive :: i64
  sn_GuardsConfirmed :: i64
  sn_SocksConnections :: i64
  sn_SocksRequests :: i64
  sn_SocksErrors :: i64
  sn_IsolatedCircuits :: i64
  sn_IsolationKeys :: i64
  sn_IsolationHits :: i64
  sn_IsolationMisses :: i64
  sn_ReplayAttemptsDetected :: i64
  sn_ReplayForwardAttempts :: i64
  sn_ReplayBackwardAttempts :: i64
  sn_OutOfOrderCells :: i64
  sn_UptimeSeconds :: i64

definition metrics_Snapshot :: "(nat \<Rightarrow> nat) \<Rightarrow> (duration \<Rightarrow> i64) \<Rightarrow> time \<Rightarrow> Metrics \<Rightarrow> Snapshot option \<times> Metrics" where
  "metrics_Snapshot rank seconds now m0 =
     (let m = UpdateUptime seconds now m0 in
      case (Percentile rank (mt_CircuitBuildTime m), Percentile rank (mt_TLSHandshakeTime m)) of
        (Some buildP95, Some tlsP95) \<Rightarrow>
          (Some \<lparr>sn_CircuitBuilds = mt_CircuitBuilds m, sn_CircuitBuildSuccess = mt_CircuitBuildSuccess m, 
             sn_CircuitBuildFailure = mt_CircuitBuildFailure m, 
             sn_CircuitBuildTimeAvg = Mean (mt_CircuitBuildTime m), sn_CircuitBuildTimeP95 = buildP95, 
             sn_ActiveCircuits = mt_ActiveCircuits m, sn_ConnectionAttempts = mt_ConnectionAttempts m, 
             sn_ConnectionSuccess = mt_ConnectionSuccess m, sn_ConnectionFailures = mt_ConnectionFailures m, 
             sn_ConnectionRetries = mt_ConnectionRetries m, sn_TLSHandshakeAvg = Mean (mt_TLSHandshakeTime m), 
             sn_TLSHandshakeP95 = tlsP95, sn_ActiveConnections = mt_ActiveConnections m, 
             sn_StreamsCreated = mt_StreamsCreated m, sn_StreamsClosed = mt_StreamsClosed m, 
             sn_StreamFailures = mt_StreamFailures m, sn_ActiveStreams = mt_ActiveStreams m, 
             sn_StreamData = mt_StreamData m, sn_GuardsActive = mt_GuardsActive m, 
             sn_GuardsConfirmed = mt_GuardsConfirmed m, sn_SocksConnections = mt_SocksConnections m, 
             sn_SocksRequests = mt_SocksRequests m, sn_SocksErrors = mt_SocksErrors m, 
             sn_IsolatedCircuits = mt_IsolatedCircuits m, sn_IsolationKeys = mt_IsolationKeys m, 
             sn_IsolationHits = mt_IsolationHits m, sn_IsolationMisses = mt_IsolationMisses m, 
             sn_ReplayAttemptsDetected = mt_ReplayAttemptsDetected m, 
             sn_ReplayForwardAttempts = mt_ReplayForwardAttempts m, 
             sn_ReplayBackwardAttempts = mt_ReplayBackwardAttempts m, sn_OutOfOrderCells = mt_OutOfOrderCells m, 
             sn_UptimeSeconds = mt_Uptime m\<rparr>, m)
      | _ \<Rightarrow> (None, m))"

text \<open>Over any sequence of records the totals are the sums of the outcomes.\<close>

datatype metrics_op = MBuild bool duration | MConnection bool i64 | MHandshake duration | MReplay bool | MOutOfOrder | MUptime time

definition metrics_step :: "(duration \<Rightarrow> i64) \<Rightarrow> metrics_op \<Rightarrow> Metrics \<Rightarrow> Metrics" where
  "metrics_step seconds op m = (case op of
     MBuild ok d \<Rightarrow> RecordCircuitBuild ok d m
   | MConnection ok n \<Rightarrow> RecordConnection ok n m
   | MHandshake d \<Rightarrow> RecordTLSHandshake d m
   | MReplay fwd \<Rightarrow> RecordReplayAttempt fwd m
   | MOutOfOrder \<Rightarrow> RecordOutOfOrderCell m
   | MUptime t \<Rightarrow> UpdateUptime seconds t m)"

definition balanced :: "Metrics \<Rightarrow> bool" where
  "balanced m \<longleftrightarrow> mt_CircuitBuilds m = mt_CircuitBuildSuccess m + mt_CircuitBuildFailure m
     \<and> mt_ConnectionAttempts m = mt_ConnectionSuccess m + mt_ConnectionFailures m
     \<and> mt_ReplayAttemptsDetected m = mt_ReplayForwardAttempts m + mt_ReplayBackwardAttempts m
     \<and> length (hi_observations (mt_CircuitBuildTime m)) \<le> 1000 \<and> length (hi_observations (mt_TLSHandshakeTime m)) \<le> 1000"

lemma Observe_bounded: "length (hi_observations h) \<le> 1000 \<Longrightarrow> length (hi_observations (Observe d h)) \<le> 1000"
  by (auto simp: Observe_def Let_def)

lemma balanced_step: "balanced m \<Longrightarrow> balanced (metrics_step seconds op m)"
  by (cases op)
    (simp_all add: balanced_def metrics_step_def RecordCircuitBuild_def RecordConnection_def RecordTLSHandshake_def
      RecordReplayAttempt_def RecordOutOfOrderCell_def UpdateUptime_def Counter_Inc_def Counter_Add_def Let_def Observe_bounded)

interpretation metrics_sys: op_system "metrics_step seconds" balanced for seconds
  by unfold_locales (rule balanced_step)

lemma totals_balance: "balanced (fold (metrics_step seconds) ops (NewMetrics now))"
  by (rule metrics_sys.run_inv) (simp add: balanced_def NewMetrics_def NewHistogram_def)

end
