(* ===== verification/Health.thy ===== *)
theory Health
  imports GoPrelude
begin

section \<open>pkg/health: the health monitor\<close>

text \<open>
  The three checkers and the monitor that aggregates them. The monitor runs its checkers
  concurrently: the order in which their results arrive, and the orders in which maps are ranged over,
  are arguments, and the overall status is shown not to depend on them. A checker is any value
  with a name and a check. Rendering durations and times as text is a parameter.
\<close>

datatype Status = StatusHealthy | StatusDegraded | StatusUnhealthy | StatusOther string

datatype detail = DetailInt int | DetailText string

record ComponentHealth =
  ch_Name :: string
  ch_Status :: Status
  ch_Message :: string
  ch_LastChecked :: time
  ch_Details :: "(string \<times> detail) list"
  ch_ResponseTimeMs :: int

record OverallHealth =
  oh_Status :: Status
  oh_Components :: "string \<rightharpoonup> ComponentHealth"
  oh_Timestamp :: time
  oh_Uptime :: duration

record 'c Monitor =
  mo_checkers :: "string \<rightharpoonup> 'c"
  mo_lastChecks :: "string \<rightharpoonup> ComponentHealth"
  mo_startTime :: time

definition NewMonitor :: "time \<Rightarrow> 'c Monitor" where
  "NewMonitor now = \<lparr>mo_checkers = Map.empty, mo_lastChecks = Map.empty, mo_startTime = now\<rparr>"

definition RegisterChecker :: "('c \<Rightarrow> string) \<Rightarrow> 'c \<Rightarrow> 'c Monitor \<Rightarrow> 'c Monitor" where
  "RegisterChecker name checker m = m\<lparr>mo_checkers := (mo_checkers m)(name checker \<mapsto> checker)\<rparr>"

definition UnregisterChecker :: "string \<Rightarrow> 'c Monitor \<Rightarrow> 'c Monitor" where
  "UnregisterChecker nm m = m\<lparr>mo_checkers := (mo_checkers m)(nm := None)\<rparr>"

text \<open>The loop over the components, with its break.\<close>

fun status_loop :: "Status \<Rightarrow> ComponentHealth list \<Rightarrow> Status" where
  "status_loop overall [] = overall"
| "status_loop overall (h # hs) =
     (if ch_Status h = StatusUnhealthy then StatusUnhealthy
      else if ch_Status h = StatusDegraded \<and> overall = StatusHealthy then status_loop StatusDegraded hs
      else status_loop overall hs)"

definition collect :: "ComponentHealth list \<Rightarrow> string \<rightharpoonup> ComponentHealth" where
  "collect results = foldl (\<lambda>m h. m(ch_Name h \<mapsto> h)) Map.empty results"

text \<open>
  \<open>arrival\<close> lists the registered names in the order their results arrive, \<open>seq\<close> the names of the
  components in the order of the last loop; \<open>elapsed\<close> is the time a check took.
\<close>

definition Monitor_Check ::
  "('c \<Rightarrow> ComponentHealth) \<Rightarrow> (string \<Rightarrow> duration) \<Rightarrow> string list \<Rightarrow> string list \<Rightarrow> time \<Rightarrow> 'c Monitor
     \<Rightarrow> OverallHealth \<times> 'c Monitor" where
  "Monitor_Check check elapsed arrival seq now m =
     (let results = map (\<lambda>nm. (check (the (mo_checkers m nm)))\<lparr>ch_ResponseTimeMs := elapsed nm div Millisecond\<rparr>) arrival;
          components = collect results;
          overall = status_loop StatusHealthy (map (\<lambda>nm. the (components nm)) seq)
      in (\<lparr>oh_Status = overall, oh_Components = components, oh_Timestamp = now, oh_Uptime = now - mo_startTime m\<rparr>,
          m\<lparr>mo_lastChecks := components\<rparr>))"

definition GetLastCheck :: "string list \<Rightarrow> time \<Rightarrow> 'c Monitor \<Rightarrow> OverallHealth" where
  "GetLastCheck seq now m =
     \<lparr>oh_Status = status_loop StatusHealthy (map (\<lambda>nm. the (mo_lastChecks m nm)) seq),
      oh_Components = mo_lastChecks m, oh_Timestamp = now, oh_Uptime = now - mo_startTime m\<rparr>"

subsection \<open>The checkers\<close>

record CircuitStats =
  cs_ActiveCircuits :: int
  cs_MinRequired :: int
  cs_FailedBuilds :: int
  cs_AverageAge :: duration
  cs_MaxAge :: duration

definition CircuitCheck :: "(duration \<Rightarrow> string) \<Rightarrow> time \<Rightarrow> CircuitStats \<Rightarrow> ComponentHealth" where
  "CircuitCheck show_d now stats =
     (let health = \<lparr>ch_Name = ''circuits'', ch_Status = StatusOther [], ch_Message = [], ch_LastChecked = now,
            ch_Details = [(''active_circuits'', DetailInt (cs_ActiveCircuits stats)), (''min_required'', DetailInt (cs_MinRequired stats)),
              (''failed_builds'', DetailInt (cs_FailedBuilds stats)), (''average_age'', DetailText (show_d (cs_AverageAge stats))),
              (''max_age'', DetailText (show_d (cs_MaxAge stats)))],
            ch_ResponseTimeMs = 0\<rparr>
      in if cs_ActiveCircuits stats = 0
         then health\<lparr>ch_Status := StatusUnhealthy, ch_Message := ''No active circuits available''\<rparr>
         else if cs_ActiveCircuits stats < cs_MinRequired stats
         then health\<lparr>ch_Status := StatusDegraded, ch_Message := ''Circuit count below minimum threshold''\<rparr>
         else health\<lparr>ch_Status := StatusHealthy, ch_Message := ''Circuits functioning normally''\<rparr>)"

record ConnectionStats =
  cn_TotalConnections :: int
  cn_OpenConnections :: int
  cn_FailedConnections :: int
  cn_AverageLatency :: duration
  cn_ConnectionAttempts :: int

definition ConnectionCheck :: "(duration \<Rightarrow> string) \<Rightarrow> time \<Rightarrow> ConnectionStats \<Rightarrow> ComponentHealth" where
  "ConnectionCheck show_d now stats =
     (let health = \<lparr>ch_Name = ''connections'', ch_Status = StatusOther [], ch_Message = [], ch_LastChecked = now,
            ch_Details = [(''total_connections'', DetailInt (cn_TotalConnections stats)), (''open_connections'', DetailInt (cn_OpenConnections stats)),
              (''failed_connections'', DetailInt (cn_FailedConnections stats)), (''average_latency'', DetailText (show_d (cn_AverageLatency stats))),
              (''connection_attempts'', DetailInt (cn_ConnectionAttempts stats))],
            ch_ResponseTimeMs = 0\<rparr>
      in if cn_OpenConnections stats = 0 \<and> cn_ConnectionAttempts stats > 0
         then health\<lparr>ch_Status := StatusUnhealthy, ch_Message := ''No open connections available''\<rparr>
         else if cn_FailedConnections stats > cn_OpenConnections stats
         then health\<lparr>ch_Status := StatusDegraded, ch_Message := ''High connection failure rate''\<rparr>
         else health\<lparr>ch_Status := StatusHealthy, ch_Message := ''Connections functioning normally''\<rparr>)"

record DirectoryStats =
  ds_LastConsensusUpdate :: time
  ds_ConsensusAge :: duration
  ds_RelayCount :: int
  ds_GuardCount :: int
  ds_ExitCount :: int

definition DirectoryCheck :: "(duration \<Rightarrow> string) \<Rightarrow> (time \<Rightarrow> string) \<Rightarrow> time \<Rightarrow> DirectoryStats \<Rightarrow> ComponentHealth" where
  "DirectoryCheck show_d show_t now stats =
     (let health = \<lparr>ch_Name = ''directory'', ch_Status = StatusOther [], ch_Message = [], ch_LastChecked = now,
            ch_Details = [(''last_update'', DetailText (show_t (ds_LastConsensusUpdate stats))), (''consensus_age'', DetailText (show_d (ds_ConsensusAge stats))),
              (''relay_count'', DetailInt (ds_RelayCount stats)), (''guard_count'', DetailInt (ds_GuardCount stats)),
              (''exit_count'', DetailInt (ds_ExitCount stats))],
            ch_ResponseTimeMs = 0\<rparr>
      in if ds_ConsensusAge stats > 3 * 3600 * Second
         then health\<lparr>ch_Status := StatusUnhealthy, ch_Message := ''Directory consensus is stale''\<rparr>
         else if ds_RelayCount stats < 100
         then health\<lparr>ch_Status := StatusDegraded, ch_Message := ''Low relay count in consensus''\<rparr>
         else health\<lparr>ch_Status := StatusHealthy, ch_Message := ''Directory consensus is current''\<rparr>)"

subsection \<open>The overall status is the worst\<close>

definition worst :: "Status set \<Rightarrow> Status" where
  "worst S = (if StatusUnhealthy \<in> S then StatusUnhealthy else if StatusDegraded \<in> S then StatusDegraded else StatusHealthy)"

lemma status_loop_degraded:
  "status_loop StatusDegraded hs = (if StatusUnhealthy \<in> ch_Status ` set hs then StatusUnhealthy else StatusDegraded)"
  by (induction hs) auto

lemma status_loop_worst: "status_loop StatusHealthy hs = worst (ch_Status ` set hs)"
  by (induction hs) (auto simp: status_loop_degraded worst_def)

lemma collect_append: "collect (hs @ [h]) = (collect hs)(ch_Name h \<mapsto> h)"
  by (simp add: collect_def)

lemma collect_dom: "dom (collect hs) = ch_Name ` set hs"
proof (induction hs rule: rev_induct)
  case (snoc h hs)
  then show ?case unfolding collect_append dom_fun_upd by simp
qed (simp add: collect_def)

text \<open>When no two results have a name in common, every one is kept.\<close>

lemma collect_ran: "distinct (map ch_Name hs) \<Longrightarrow> ran (collect hs) = set hs"
proof (induction hs rule: rev_induct)
  case (snoc h hs)
  then have "ch_Name h \<notin> dom (collect hs)" by (simp add: collect_dom)
  then have "collect hs (ch_Name h) = None" by (simp add: domIff)
  from ran_map_upd [where m = "collect hs" and a = "ch_Name h", OF this] show ?case
    using snoc by (simp add: collect_append del: fun_upd_apply)
qed (simp add: collect_def)

lemma map_the_set: "set seq = dom m \<Longrightarrow> (\<lambda>nm. the (m nm)) ` set seq = ran m"
  by (force simp: ran_def dom_def)

lemma Monitor_Check_results:
  assumes "Monitor_Check check elapsed arrival seq now m = (overall, m')"
  shows "oh_Components overall = collect (map (\<lambda>nm. (check (the (mo_checkers m nm)))\<lparr>ch_ResponseTimeMs := elapsed nm div Millisecond\<rparr>) arrival)"
    and "mo_lastChecks m' = oh_Components overall"
  using assms by (auto simp: Monitor_Check_def Let_def)

text \<open> C33: Check and GetLastCheck agree. Whatever the orders in which results arrive and maps are ranged over, Check keeps one
  result for every registered checker and its status is the worst of theirs; a later GetLastCheck
  returns the same components and the same status. It assumes that checkers report the name they
  are registered under.\<close>

theorem check_is_worst:
  assumes "set arrival = dom (mo_checkers m)" "distinct arrival"
    and "\<And>nm c. mo_checkers m nm = Some c \<Longrightarrow> ch_Name (check c) = nm"
    and "Monitor_Check check elapsed arrival seq now m = (overall, m')"
    and "set seq = dom (oh_Components overall)" "set seq' = dom (mo_lastChecks m')"
  shows "dom (oh_Components overall) = dom (mo_checkers m)
    \<and> oh_Status overall = worst {ch_Status (check c) |c. c \<in> ran (mo_checkers m)}
    \<and> oh_Status (GetLastCheck seq' now' m') = oh_Status overall
    \<and> oh_Components (GetLastCheck seq' now' m') = oh_Components overall"
proof -
  define results where "results = map (\<lambda>nm. (check (the (mo_checkers m nm)))\<lparr>ch_ResponseTimeMs := elapsed nm div Millisecond\<rparr>) arrival"
  have c12: "oh_Components overall = collect results" "mo_lastChecks m' = collect results"
    and st: "oh_Status overall = status_loop StatusHealthy (map (\<lambda>nm. the (collect results nm)) seq)"
    using assms(4) unfolding Monitor_Check_def Let_def results_def [symmetric] by auto
  have "oh_Status overall = worst (ch_Status ` ran (collect results))"
    using map_the_set [of seq "collect results"] assms(5) unfolding st status_loop_worst c12(1) by simp
  note c = c12 this
  have names: "map ch_Name results = arrival"
    using assms(1,3) by (auto simp: results_def intro!: map_idI)
  have ran: "ch_Status ` ran (collect results) = {ch_Status (check c) |c. c \<in> ran (mo_checkers m)}"
  proof -
    have "ch_Status ` ran (collect results) = ch_Status ` set results" using collect_ran [of results] names assms(2) by simp
    also have "\<dots> = (\<lambda>nm. ch_Status (check (the (mo_checkers m nm)))) ` dom (mo_checkers m)"
      by (simp add: results_def image_image assms(1))
    also have "\<dots> = {ch_Status (check c) |c. c \<in> ran (mo_checkers m)}" by (force simp: ran_def dom_def)
    finally show ?thesis .
  qed
  have "oh_Status (GetLastCheck seq' now' m') = worst (ch_Status ` ran (collect results))"
    using map_the_set [of seq' "collect results"] assms(6) unfolding c(2)
    by (simp add: GetLastCheck_def status_loop_worst c(2))
  moreover have "dom (collect results) = dom (mo_checkers m)"
    using assms(1) names by (metis collect_dom set_map)
  ultimately show ?thesis using c ran by (simp add: GetLastCheck_def)
qed

text \<open>The witness: circuits are low and the consensus is stale; the results arrive in either order.\<close>

definition no_text :: "int \<Rightarrow> string" where "no_text d = []"

definition low_circuits :: ComponentHealth where
  "low_circuits = CircuitCheck no_text 7 \<lparr>cs_ActiveCircuits = 1, cs_MinRequired = 2, cs_FailedBuilds = 0, cs_AverageAge = 0, cs_MaxAge = 0\<rparr>"

definition stale_directory :: ComponentHealth where
  "stale_directory = DirectoryCheck no_text no_text 7
     \<lparr>ds_LastConsensusUpdate = 0, ds_ConsensusAge = 4 * 3600 * Second, ds_RelayCount = 500, ds_GuardCount = 9, ds_ExitCount = 9\<rparr>"

definition two_checkers :: "ComponentHealth Monitor" where
  "two_checkers = RegisterChecker ch_Name low_circuits (RegisterChecker ch_Name stale_directory (NewMonitor 0))"

lemma sample_checks:
  "ch_Name low_circuits = ''circuits''" "ch_Name stale_directory = ''directory''"
  "ch_Status low_circuits = StatusDegraded" "ch_Status stale_directory = StatusUnhealthy"
  by (simp_all add: low_circuits_def stale_directory_def CircuitCheck_def DirectoryCheck_def Second_def)

lemma two_checkers_map: "mo_checkers two_checkers = [''circuits'' \<mapsto> low_circuits, ''directory'' \<mapsto> stale_directory]"
  by (auto simp: two_checkers_def RegisterChecker_def NewMonitor_def sample_checks)

theorem check_is_worst_witness:
  "oh_Status (fst (Monitor_Check (\<lambda>c. c) (\<lambda>_. 0) [''directory'', ''circuits''] [''circuits'', ''directory''] 8 two_checkers)) = StatusUnhealthy"
proof -
  obtain overall m' where r:
    "Monitor_Check (\<lambda>c. c) (\<lambda>_. 0) [''directory'', ''circuits''] [''circuits'', ''directory''] 8 two_checkers = (overall, m')"
    by (cases "Monitor_Check (\<lambda>c. c) (\<lambda>_. 0) [''directory'', ''circuits''] [''circuits'', ''directory''] 8 two_checkers")
  have m: "set [''directory'', ''circuits''] = dom (mo_checkers two_checkers)" "distinct [''directory'', ''circuits'']"
    "\<And>nm c. mo_checkers two_checkers nm = Some c \<Longrightarrow> ch_Name c = nm"
    by (auto simp: two_checkers_map sample_checks split: if_splits)
  have d: "dom (oh_Components overall) = {''circuits'', ''directory''}" "mo_lastChecks m' = oh_Components overall"
    using Monitor_Check_results [OF r] by (simp_all add: collect_dom two_checkers_map sample_checks insert_commute)
  have seq: "set [''circuits'', ''directory''] = dom (oh_Components overall)" by (simp only: d(1) list.set insert_absorb2)
  then have m': "set [''circuits'', ''directory''] = dom (mo_lastChecks m')" by (simp only: d(2))
  have "oh_Status overall = worst {ch_Status c |c. c \<in> ran (mo_checkers two_checkers)}"
    using check_is_worst [OF m r _ m'] seq by blast
  moreover have "stale_directory \<in> ran (mo_checkers two_checkers)"
    by (rule ranI [of _ "''directory''"]) (simp add: two_checkers_map)
  then have "StatusUnhealthy \<in> {ch_Status c |c. c \<in> ran (mo_checkers two_checkers)}"
    using sample_checks(4) by (metis (mono_tags, lifting) mem_Collect_eq)
  ultimately show ?thesis by (simp add: r worst_def)
qed

text \<open>A monitor without checkers, and one that never checked, are healthy.\<close>

lemma unmonitored_is_healthy:
  "oh_Status (fst (Monitor_Check check elapsed [] [] now (NewMonitor t))) = StatusHealthy"
  "oh_Status (GetLastCheck [] now (NewMonitor t)) = StatusHealthy"
  by (simp_all add: Monitor_Check_def GetLastCheck_def Let_def)

end
