(* ===== verification/Client.thy ===== *)
theory Client
  imports Builder CircuitPool SocksServer Control Metrics Health
begin

section \<open>pkg/client/client.go: the client\<close>

text \<open>
  The client owns the path selector, the circuit manager, the metrics, the circuit pool and its own list of
  circuits, and publishes control events. Circuits are shared by reference: \<open>cl_heap\<close> holds the
  circuit objects, \<open>cl_registered\<close> the reference that the manager's map has for an ID. (The
  manager's own copy of a circuit is read for its ID only.) The network, the random source, the
  contexts and the clock during a build are the argument \<open>env\<close>. Operations are steps; building is
  the BuildCircuit of the circuit package, so it may not return by its type and is proved to.
\<close>

record 'conn Client =
  cl_config :: Config
  cl_pathSelector :: Selector
  cl_metrics :: Metrics
  cl_circuitMgr :: "'conn Manager"
  cl_registered :: "u32 \<rightharpoonup> nat"
  cl_heap :: "'conn circuits"
  cl_next :: nat
  cl_circuitPool :: "CircuitPool option"
  cl_circuits :: "nat list"
  cl_published :: "control_event list"
  cl_bytesRead :: u64
  cl_bytesWritten :: u64

record client_env =
  ce_rnd :: "nat \<Rightarrow> nat \<Rightarrow> nat option"
  ce_network :: network
  ce_ctx_done :: bool
  ce_close_ok :: bool
  ce_startTime :: time
  ce_endTime :: time
  ce_rfc3339 :: "time \<Rightarrow> string option"

datatype client_error =
    PathNotSelected PathSelection.path_error
  | CircuitNotBuilt build_error
  | InitialCircuitsFailed
  | NoCircuitsAvailable
  | NoHealthyCircuits

definition parseIsolationLevel :: "string \<Rightarrow> IsolationLevel" where
  "parseIsolationLevel level = (case ParseIsolationLevel level of (parsed, None) \<Rightarrow> parsed | (_, Some _) \<Rightarrow> IsolationNone)"

text \<open>What New hands to the SOCKS server, fields the literal does not name being zero.\<close>

definition socks_config :: "Config \<Rightarrow> SocksConfig" where
  "socks_config cfg =
     \<lparr>so_MaxConnections = 1000, so_EnableDNSResolution = False, so_DNSTimeout = 0,
      so_IsolationLevel = parseIsolationLevel (cfg_IsolationLevel cfg), so_IsolateDestinations = cfg_IsolateDestinations cfg,
      so_IsolateSOCKSAuth = cfg_IsolateSOCKSAuth cfg, so_IsolateClientPort = cfg_IsolateClientPort cfg\<rparr>"

text \<open>New after the data directory and the guards are in place; \<open>guards\<close> is what the guard manager loaded.\<close>

definition NewClient :: "Config \<Rightarrow> GuardManager \<Rightarrow> time \<Rightarrow> 'conn Client" where
  "NewClient cfg guards now =
     \<lparr>cl_config = cfg, cl_pathSelector = NewSelector (Some guards), cl_metrics = NewMetrics now,
      cl_circuitMgr = NewManager, cl_registered = Map.empty, cl_heap = Map.empty, cl_next = 0,
      cl_circuitPool = None, cl_circuits = [], cl_published = [], cl_bytesRead = 0, cl_bytesWritten = 0\<rparr>"

subsection \<open>Events\<close>

text \<open>The calls of Dispatch, in order.\<close>

definition PublishEvent :: "control_event \<Rightarrow> 'conn Client \<Rightarrow> 'conn Client" where
  "PublishEvent event c = c\<lparr>cl_published := cl_published c @ [event]\<rparr>"

fun consensus_events :: "(Relay \<Rightarrow> string) \<Rightarrow> nat \<Rightarrow> Relay list \<Rightarrow> 'conn Client \<Rightarrow> 'conn Client" where
  "consensus_events published n [] c = c"
| "consensus_events published n (r # rs) c =
     (if n \<ge> 50 then c
      else if \<not> (IsGuard r \<or> IsExit r) then consensus_events published n rs c
      else consensus_events published (n + 1) rs
        (PublishEvent (NSEvent (''$'' @ rl_Fingerprint r @ ''~'' @ rl_Nickname r) (''$'' @ rl_Fingerprint r) (published r)
           (rl_Address r) (rl_ORPort r) (rl_DirPort r) (rl_Flags r)) c))"

definition publishConsensusEvents :: "(Relay \<Rightarrow> string) \<Rightarrow> Relay list \<Rightarrow> 'conn Client \<Rightarrow> 'conn Client" where
  "publishConsensusEvents published relays c = consensus_events published 0 relays c"

definition publishNewDescEvents :: "Relay list \<Rightarrow> 'conn Client \<Rightarrow> 'conn Client" where
  "publishNewDescEvents relays c =
     (let descriptors = map (\<lambda>r. ''$'' @ rl_Fingerprint r @ ''~'' @ rl_Nickname r) (take 100 relays)
      in if length descriptors > 0 then PublishEvent (NewDescEvent descriptors) c else c)"

definition publishBandwidthEvent :: "'conn Client \<Rightarrow> 'conn Client" where
  "publishBandwidthEvent c = PublishEvent (BWEvent (cl_bytesRead c) (cl_bytesWritten c)) c"

definition RecordBytesRead :: "u64 \<Rightarrow> 'conn Client \<Rightarrow> 'conn Client" where
  "RecordBytesRead n c = c\<lparr>cl_bytesRead := cl_bytesRead c + n\<rparr>"

definition RecordBytesWritten :: "u64 \<Rightarrow> 'conn Client \<Rightarrow> 'conn Client" where
  "RecordBytesWritten n c = c\<lparr>cl_bytesWritten := cl_bytesWritten c + n\<rparr>"

subsection \<open>Building circuits\<close>

definition path_text :: "Path \<Rightarrow> string" where
  "path_text p =
     rl_Fingerprint (pa_Guard p) @ ''~'' @ rl_Nickname (pa_Guard p) @ '','' @
     rl_Fingerprint (pa_Middle p) @ ''~'' @ rl_Nickname (pa_Middle p) @ '','' @
     rl_Fingerprint (pa_Exit p) @ ''~'' @ rl_Nickname (pa_Exit p)"

definition set_active :: "'conn Client \<Rightarrow> 'conn Client" where
  "set_active c = c\<lparr>cl_metrics := (cl_metrics c)\<lparr>mt_ActiveCircuits :=
     Gauge_Set (word_of_nat (length (cl_circuits c))) (mt_ActiveCircuits (cl_metrics c))\<rparr>\<rparr>"

text \<open>A new object for a circuit that the manager knows.\<close>

definition new_circuit :: "'conn Circuit \<Rightarrow> 'conn Client \<Rightarrow> nat \<times> 'conn Client" where
  "new_circuit circ c =
     (let r = cl_next c
      in (r, c\<lparr>cl_heap := (cl_heap c)(r \<mapsto> circ), cl_registered := (cl_registered c)(ci_ID circ \<mapsto> r), cl_next := Suc r\<rparr>))"

definition buildCircuitForPool :: "client_env \<Rightarrow> 'conn Client \<Rightarrow> ((client_error + nat) \<times> 'conn Client) option" where
  "buildCircuitForPool env c =
     (case SelectPath (ce_rnd env) (ce_startTime env) (cl_pathSelector c) of
        (Inl e, sel) \<Rightarrow> Some (Inl (PathNotSelected e), c\<lparr>cl_pathSelector := sel\<rparr>)
      | (Inr path, sel) \<Rightarrow>
          let c = c\<lparr>cl_pathSelector := sel\<rparr> in
          (case BuildCircuit (ce_network env) (ce_ctx_done env) (ce_close_ok env) (ce_startTime env) path (cl_circuitMgr c) of
             None \<Rightarrow> None
           | Some (built, _, mgr) \<Rightarrow>
               let c = c\<lparr>cl_circuitMgr := mgr,
                     cl_metrics := RecordCircuitBuild (\<not> isl built) (ce_endTime env - ce_startTime env) (cl_metrics c)\<rparr>
               in case built of
                    Inl e \<Rightarrow> Some (Inl (CircuitNotBuilt e), c)
                  | Inr circ \<Rightarrow>
                      let (r, c) = new_circuit circ c;
                          c = PublishEvent (CircuitEvent (ci_ID circ) ''BUILT'' (path_text path) [] ''GENERAL'' (ce_rfc3339 env (ce_startTime env))) c;
                          c = c\<lparr>cl_pathSelector := Selector_ConfirmGuard (ce_endTime env) (rl_Fingerprint (pa_Guard path)) (cl_pathSelector c)\<rparr>;
                          c = PublishEvent (GuardEvent ''ENTRY'' (''$'' @ rl_Fingerprint (pa_Guard path) @ ''~'' @ rl_Nickname (pa_Guard path)) ''GOOD'') c;
                          c = c\<lparr>cl_circuits := cl_circuits c @ [r]\<rparr>
                      in Some (Inr r, set_active c)))"

definition pooled :: "'conn Client \<Rightarrow> bool" where
  "pooled c \<longleftrightarrow> cfg_EnableCircuitPrebuilding (cl_config c) \<and> cl_circuitPool c \<noteq> None"

text \<open>The loop of buildInitialCircuits from attempt i on, with n attempts left.\<close>

fun initial_builds :: "(nat \<Rightarrow> client_env) \<Rightarrow> nat \<Rightarrow> nat \<Rightarrow> 'conn Client \<Rightarrow> (client_error option \<times> 'conn Client) option" where
  "initial_builds envs i 0 c = Some (None, c)"
| "initial_builds envs i (Suc n) c =
     (case buildCircuitForPool (envs i) c of
        None \<Rightarrow> None
      | Some (Inr _, c) \<Rightarrow> initial_builds envs (i + 1) n c
      | Some (Inl _, c) \<Rightarrow> if i = 2 then Some (Some InitialCircuitsFailed, c) else initial_builds envs (i + 1) n c)"

definition buildInitialCircuits :: "(nat \<Rightarrow> client_env) \<Rightarrow> 'conn Client \<Rightarrow> (client_error option \<times> 'conn Client) option" where
  "buildInitialCircuits envs c = (if pooled c then Some (None, c) else initial_builds envs 0 3 c)"

subsection \<open>Maintenance\<close>

text \<open>CloseCircuit of the manager, on the object its map has for the ID.\<close>

definition close_registered :: "u32 \<Rightarrow> 'conn Client \<Rightarrow> 'conn Client" where
  "close_registered i c =
     (case CloseCircuit i (cl_circuitMgr c) of
        (Inl _, mgr) \<Rightarrow> c\<lparr>cl_circuitMgr := mgr\<rparr>
      | (Inr _, mgr) \<Rightarrow>
          c\<lparr>cl_circuitMgr := mgr,
            cl_heap := (case cl_registered c i of
                          None \<Rightarrow> cl_heap c
                        | Some r \<Rightarrow> (cl_heap c)(r := map_option (SetState StateClosed) (cl_heap c r))),
            cl_registered := (cl_registered c)(i := None)\<rparr>)"

definition retire :: "(time \<Rightarrow> string option) \<Rightarrow> nat \<Rightarrow> 'conn Circuit \<Rightarrow> 'conn Client \<Rightarrow> 'conn Client" where
  "retire rfc3339 r circ c =
     (let c = c\<lparr>cl_heap := (cl_heap c)(r \<mapsto> SetState StateClosed circ)\<rparr>;
          c = close_registered (ci_ID circ) c
      in PublishEvent (CircuitEvent (ci_ID circ) ''CLOSED'' [] [] ''GENERAL'' (rfc3339 (ci_CreatedAt circ))) c)"

fun sweep_circuits :: "(time \<Rightarrow> string option) \<Rightarrow> time \<Rightarrow> nat list \<Rightarrow> 'conn Client \<Rightarrow> nat list \<times> 'conn Client" where
  "sweep_circuits rfc3339 now [] c = ([], c)"
| "sweep_circuits rfc3339 now (r # rs) c =
     (case cl_heap c r of
        None \<Rightarrow> sweep_circuits rfc3339 now rs c
      | Some circ \<Rightarrow>
          if ci_State circ \<noteq> StateOpen then sweep_circuits rfc3339 now rs c
          else if Age now circ > cfg_MaxCircuitDirtiness (cl_config c) then sweep_circuits rfc3339 now rs (retire rfc3339 r circ c)
          else (case sweep_circuits rfc3339 now rs c of (active, c) \<Rightarrow> (r # active, c)))"

fun rebuild :: "(nat \<Rightarrow> client_env) \<Rightarrow> nat \<Rightarrow> nat \<Rightarrow> 'conn Client \<Rightarrow> 'conn Client option" where
  "rebuild envs i 0 c = Some c"
| "rebuild envs i (Suc n) c =
     (case buildCircuitForPool (envs i) c of
        None \<Rightarrow> None
      | Some (_, c) \<Rightarrow> rebuild envs (i + 1) n c)"

definition checkAndRebuildCircuits ::
  "(time \<Rightarrow> string option) \<Rightarrow> time \<Rightarrow> (nat \<Rightarrow> client_env) \<Rightarrow> 'conn Client \<Rightarrow> 'conn Client option" where
  "checkAndRebuildCircuits rfc3339 now envs c =
     (case sweep_circuits rfc3339 now (cl_circuits c) c of
        (active, c) \<Rightarrow>
          let c = set_active (c\<lparr>cl_circuits := active\<rparr>) in
          if \<not> pooled c \<and> length (cl_circuits c) < 2
          then rebuild envs 0 (2 - length (cl_circuits c)) c
          else Some c)"

subsection \<open>Handing out circuits\<close>

text \<open>
  The pool calls its builder at most once in a Get, when its list has no open circuit left. The
  builder is buildCircuitForPool, whose effect on the rest of the client is kept then.
\<close>

definition client_builder :: "client_env \<Rightarrow> 'conn Client \<Rightarrow> 'conn circuits \<Rightarrow> nat option \<times> 'conn circuits" where
  "client_builder env c heap =
     (case buildCircuitForPool env c of
        None \<Rightarrow> (None, heap)
      | Some (Inl _, c1) \<Rightarrow> (None, cl_heap c1)
      | Some (Inr r, c1) \<Rightarrow> (Some r, cl_heap c1))"

definition pool_get :: "client_env \<Rightarrow> IsolationKey option \<Rightarrow> CircuitPool \<Rightarrow> 'conn Client \<Rightarrow> (nat option \<times> 'conn Client) option" where
  "pool_get env key p c =
     (case GetWithIsolation (\<lambda>heap. (None, heap)) key (cl_heap c) p of
        (Some r, heap, p1) \<Rightarrow> Some (Some r, c\<lparr>cl_heap := heap, cl_circuitPool := Some p1\<rparr>)
      | (None, _, _) \<Rightarrow>
          (case buildCircuitForPool env c of
             None \<Rightarrow> None
           | Some (_, c1) \<Rightarrow>
               (case GetWithIsolation (client_builder env c) key (cl_heap c) p of
                  (res, heap, p1) \<Rightarrow> Some (res, c1\<lparr>cl_heap := heap, cl_circuitPool := Some p1\<rparr>))))"

text \<open>The youngest open circuit; the first best age is the largest duration.\<close>

fun youngest :: "'conn circuits \<Rightarrow> time \<Rightarrow> nat option \<Rightarrow> duration \<Rightarrow> nat list \<Rightarrow> nat option" where
  "youngest heap now best bestAge [] = best"
| "youngest heap now best bestAge (r # rs) =
     (case heap r of
        None \<Rightarrow> youngest heap now best bestAge rs
      | Some circ \<Rightarrow>
          if ci_State circ = StateOpen \<and> Age now circ < bestAge
          then youngest heap now (Some r) (Age now circ) rs
          else youngest heap now best bestAge rs)"

definition legacy_circuit :: "time \<Rightarrow> 'conn Client \<Rightarrow> client_error + nat" where
  "legacy_circuit now c =
     (if length (cl_circuits c) = 0 then Inl NoCircuitsAvailable
      else case youngest (cl_heap c) now None (2 ^ 63 - 1) (cl_circuits c) of
             None \<Rightarrow> Inl NoHealthyCircuits
           | Some r \<Rightarrow> Inr r)"

definition Client_GetCircuit :: "client_env \<Rightarrow> time \<Rightarrow> 'conn Client \<Rightarrow> ((client_error + nat) \<times> 'conn Client) option" where
  "Client_GetCircuit env now c =
     (case (if cfg_EnableCircuitPrebuilding (cl_config c) then cl_circuitPool c else None) of
        None \<Rightarrow> Some (legacy_circuit now c, c)
      | Some p \<Rightarrow>
          (case pool_get env None p c of
             None \<Rightarrow> None
           | Some (Some r, c) \<Rightarrow> Some (Inr r, c)
           | Some (None, c) \<Rightarrow> Some (legacy_circuit now c, c)))"

definition ReturnCircuit :: "nat \<Rightarrow> 'conn Client \<Rightarrow> 'conn Client" where
  "ReturnCircuit r c =
     (case (if cfg_EnableCircuitPrebuilding (cl_config c) then cl_circuitPool c else None) of
        None \<Rightarrow> c
      | Some p \<Rightarrow> c\<lparr>cl_circuitPool := Some (CircuitPool_Put (Some r) (cl_heap c) p)\<rparr>)"

text \<open>The pool's prebuilding: its loop with the client's builder.\<close>

fun client_prebuild :: "(nat \<Rightarrow> client_env) \<Rightarrow> nat \<Rightarrow> nat \<Rightarrow> 'conn Client \<Rightarrow> 'conn Client option" where
  "client_prebuild envs i 0 c = Some c"
| "client_prebuild envs i (Suc n) c =
     (case buildCircuitForPool (envs i) c of
        None \<Rightarrow> None
      | Some (Inl _, c) \<Rightarrow> client_prebuild envs (i + 1) n c
      | Some (Inr r, c) \<Rightarrow>
          client_prebuild envs (i + 1) n
            (c\<lparr>cl_circuitPool := map_option (CircuitPool_Put (Some r) (cl_heap c)) (cl_circuitPool c)\<rparr>))"

definition pool_tick :: "(nat \<Rightarrow> client_env) \<Rightarrow> 'conn Client \<Rightarrow> 'conn Client option" where
  "pool_tick envs c =
     (case cl_circuitPool c of
        None \<Rightarrow> Some c
      | Some p \<Rightarrow>
          let current = int (length (cp_circuits p)) in
          if current \<ge> cp_minCircuits p then Some c
          else client_prebuild envs 0 (nat (cp_minCircuits p - current)) c)"

subsection \<open>What the operations keep\<close>

definition listed_ok :: "'conn Client \<Rightarrow> nat \<Rightarrow> bool" where
  "listed_ok c r \<longleftrightarrow> (\<exists>circ. cl_heap c r = Some circ \<and> (ci_State circ = StateOpen \<longrightarrow> cl_registered c (ci_ID circ) = Some r))"

definition client_wf :: "'conn Client \<Rightarrow> bool" where
  "client_wf c \<longleftrightarrow> manager_ok (cl_circuitMgr c)
     \<and> (\<forall>i r. cl_registered c i = Some r \<longrightarrow> i \<in> dom (cm_circuits (cl_circuitMgr c)) \<and> (\<exists>circ. cl_heap c r = Some circ \<and> ci_ID circ = i))
     \<and> (\<forall>r. cl_heap c r \<noteq> None \<longrightarrow> r < cl_next c)
     \<and> distinct (cl_circuits c) \<and> (\<forall>r\<in>set (cl_circuits c). listed_ok c r)"

lemma client_wfD:
  assumes "client_wf c"
  shows "manager_ok (cl_circuitMgr c)" "cl_registered c i = Some r \<Longrightarrow> i \<in> dom (cm_circuits (cl_circuitMgr c))"
    "cl_registered c i = Some r \<Longrightarrow> \<exists>circ. cl_heap c r = Some circ \<and> ci_ID circ = i"
    "cl_heap c r \<noteq> None \<Longrightarrow> r < cl_next c" "distinct (cl_circuits c)" "r \<in> set (cl_circuits c) \<Longrightarrow> listed_ok c r"
  using assms unfolding client_wf_def by simp_all

lemma client_wfI:
  assumes "manager_ok (cl_circuitMgr c)" "\<And>i r. cl_registered c i = Some r \<Longrightarrow> i \<in> dom (cm_circuits (cl_circuitMgr c))"
    "\<And>i r. cl_registered c i = Some r \<Longrightarrow> \<exists>circ. cl_heap c r = Some circ \<and> ci_ID circ = i"
    "\<And>r. cl_heap c r \<noteq> None \<Longrightarrow> r < cl_next c" "distinct (cl_circuits c)" "\<And>r. r \<in> set (cl_circuits c) \<Longrightarrow> listed_ok c r"
  shows "client_wf c"
  using assms unfolding client_wf_def by simp

lemma client_wf_new: "client_wf (NewClient cfg guards now)"
  by (simp add: client_wf_def NewClient_def manager_ok_new)

lemma BuildCircuit_keeps_ok:
  assumes ok: "manager_ok m" and b: "BuildCircuit nw ctx_done close_ok now p m = Some (r, conn, m')"
  shows "manager_ok m' \<and> dom (cm_circuits m) \<subseteq> dom (cm_circuits m')"
proof (cases "cm_closed m")
  case True
  then have "m' = m" using b by (simp add: BuildCircuit_def CreateCircuit_def)
  then show ?thesis using ok by simp
next
  case False
  have id: "ci_ID (SetState st (NewCircuit now i) :: 'a Circuit) = i" "ci_ID ((SetState st (NewCircuit now i) :: 'a Circuit)\<lparr>ci_Hops := hs\<rparr>) = i" for st i hs
    by (simp_all add: SetState_def NewCircuit_def)
  have "m' = m \<or> (\<exists>i c0. i \<noteq> 0 \<and> ci_ID c0 = i \<and> m' = m\<lparr>cm_nextID := next_id i, cm_circuits := (cm_circuits m)(i \<mapsto> c0)\<rparr>)"
  proof (cases r)
    case (Inl e)
    then show ?thesis using BuildCircuit_cases [OF ok b] id(1) by auto
  next
    case (Inr x)
    then obtain i where "i \<noteq> 0" "m' = m\<lparr>cm_nextID := next_id i, cm_circuits := (cm_circuits m)(i \<mapsto> x)\<rparr>"
      "x = (SetState StateOpen (NewCircuit now i))\<lparr>ci_Hops := path_hops p\<rparr>"
      using BuildCircuit_cases [OF ok b] by auto
    then show ?thesis using id(2) by blast
  qed
  then show ?thesis
  proof (elim disjE exE conjE)
    fix i c0 assume i: "i \<noteq> 0" "ci_ID c0 = i" "m' = m\<lparr>cm_nextID := next_id i, cm_circuits := (cm_circuits m)(i \<mapsto> c0)\<rparr>"
    have old: "j \<noteq> 0 \<and> ci_ID d = j" if "cm_circuits m j = Some d" for j d
      using ok that unfolding manager_ok_def by blast
    have "j \<noteq> 0 \<and> ci_ID d = j" if "cm_circuits m' j = Some d" for j d
      using that old [of j d] i by (cases "j = i") auto
    moreover have "cm_nextID m' \<noteq> 0" "\<not> cm_closed m'" "dom (cm_circuits m) \<subseteq> dom (cm_circuits m')"
      using False by (auto simp: i(3) next_id_def)
    ultimately show ?thesis unfolding manager_ok_def by blast
  qed (use ok in auto)
qed

lemma client_sel [simp]:
  "cl_circuits (PublishEvent e c) = cl_circuits c" "cl_heap (PublishEvent e c) = cl_heap c"
  "cl_circuitMgr (PublishEvent e c) = cl_circuitMgr c" "cl_registered (PublishEvent e c) = cl_registered c"
  "cl_next (PublishEvent e c) = cl_next c" "cl_config (PublishEvent e c) = cl_config c"
  "cl_circuitPool (PublishEvent e c) = cl_circuitPool c"
  "cl_circuits (set_active c) = cl_circuits c" "cl_heap (set_active c) = cl_heap c"
  "cl_circuitMgr (set_active c) = cl_circuitMgr c" "cl_registered (set_active c) = cl_registered c"
  "cl_next (set_active c) = cl_next c" "cl_config (set_active c) = cl_config c"
  "cl_circuitPool (set_active c) = cl_circuitPool c"
  by (simp_all add: PublishEvent_def set_active_def)

text \<open>
  The outcomes of a build: nothing happens to the circuits, or a new object is listed and
  registered that is open and was created at the start of the build.
\<close>

definition build_outcome :: "client_env \<Rightarrow> 'conn Client \<Rightarrow> client_error + nat \<Rightarrow> 'conn Client \<Rightarrow> bool" where
  "build_outcome env c res c' \<longleftrightarrow> cl_config c' = cl_config c \<and> cl_circuitPool c' = cl_circuitPool c \<and>
     (case res of
        Inl e \<Rightarrow> cl_heap c' = cl_heap c \<and> cl_circuits c' = cl_circuits c \<and> cl_next c' = cl_next c \<and> cl_registered c' = cl_registered c
      | Inr r \<Rightarrow> r = cl_next c \<and> cl_next c' = Suc r \<and> cl_circuits c' = cl_circuits c @ [r]
          \<and> (\<exists>circ. ci_State circ = StateOpen \<and> ci_CreatedAt circ = ce_startTime env
               \<and> ci_IsolationKey circ = None
               \<and> cl_heap c' = (cl_heap c)(r \<mapsto> circ)
               \<and> cl_registered c (ci_ID circ) = None \<and> cl_registered c' = (cl_registered c)(ci_ID circ \<mapsto> r)))"

lemma build_cases:
  assumes ok: "client_wf c" and b: "buildCircuitForPool env c = Some (res, c')"
  shows "build_outcome env c res c' \<and> manager_ok (cl_circuitMgr c')
    \<and> dom (cm_circuits (cl_circuitMgr c)) \<subseteq> dom (cm_circuits (cl_circuitMgr c'))
    \<and> (\<forall>i. cl_registered c' i \<noteq> None \<longrightarrow> i \<in> dom (cm_circuits (cl_circuitMgr c')))"
proof -
  have mok: "manager_ok (cl_circuitMgr c)" and reg: "\<And>i. cl_registered c i \<noteq> None \<Longrightarrow> i \<in> dom (cm_circuits (cl_circuitMgr c))"
    using ok by (auto simp: client_wf_def)
  obtain x sel where s: "SelectPath (ce_rnd env) (ce_startTime env) (cl_pathSelector c) = (x, sel)" by fastforce
  show ?thesis
  proof (cases x)
    case (Inl e)
    then have "res = Inl (PathNotSelected e)" "c' = c\<lparr>cl_pathSelector := sel\<rparr>"
      using b s by (simp_all add: buildCircuitForPool_def)
    then show ?thesis using mok reg by (simp add: build_outcome_def)
  next
    case (Inr path)
    obtain built conn mgr where bc:
      "BuildCircuit (ce_network env) (ce_ctx_done env) (ce_close_ok env) (ce_startTime env) path (cl_circuitMgr c) = Some (built, conn, mgr)"
      using BuildCircuit_total [OF mok] by blast
    note keep = BuildCircuit_keeps_ok [OF mok bc]
    show ?thesis
    proof (cases built)
      case (Inl e)
      then have "res = Inl (CircuitNotBuilt e)" "cl_circuitMgr c' = mgr" "cl_heap c' = cl_heap c" "cl_circuits c' = cl_circuits c"
        "cl_next c' = cl_next c" "cl_registered c' = cl_registered c" "cl_config c' = cl_config c" "cl_circuitPool c' = cl_circuitPool c"
        using b s Inr bc by (auto simp: buildCircuitForPool_def Let_def)
      then show ?thesis using keep reg by (auto simp: build_outcome_def)
    next
      case built: (Inr circ)
      obtain i where i: "cm_circuits (cl_circuitMgr c) i = None" "circ = (SetState StateOpen (NewCircuit (ce_startTime env) i))\<lparr>ci_Hops := path_hops path\<rparr>"
        "mgr = (cl_circuitMgr c)\<lparr>cm_nextID := next_id i, cm_circuits := (cm_circuits (cl_circuitMgr c))(i \<mapsto> circ)\<rparr>"
        using BuildCircuit_cases [OF mok bc] built by auto
      have id: "ci_ID circ = i" "ci_State circ = StateOpen" "ci_CreatedAt circ = ce_startTime env" "ci_IsolationKey circ = None"
        by (simp_all add: i(2) SetState_def NewCircuit_def)
      have none: "cl_registered c i = None" using reg [of i] i(1) by (cases "cl_registered c i") (auto simp: domIff)
      have "res = Inr (cl_next c)" "cl_circuits c' = cl_circuits c @ [cl_next c]" "cl_next c' = Suc (cl_next c)"
        "cl_heap c' = (cl_heap c)(cl_next c \<mapsto> circ)" "cl_registered c' = (cl_registered c)(i \<mapsto> cl_next c)"
        "cl_circuitMgr c' = mgr" "cl_config c' = cl_config c" "cl_circuitPool c' = cl_circuitPool c"
        using b s Inr bc built by (auto simp: buildCircuitForPool_def new_circuit_def Let_def id)
      then show ?thesis using keep reg none id
        by (auto simp: build_outcome_def i(3))
    qed
  qed
qed

lemma build_total:
  assumes "client_wf c"
  shows "\<exists>res c'. buildCircuitForPool env c = Some (res, c')"
proof -
  obtain x sel where s: "SelectPath (ce_rnd env) (ce_startTime env) (cl_pathSelector c) = (x, sel)" by fastforce
  show ?thesis
  proof (cases x)
    case (Inl e)
    then show ?thesis by (simp add: buildCircuitForPool_def s)
  next
    case (Inr path)
    obtain built conn mgr where
      "BuildCircuit (ce_network env) (ce_ctx_done env) (ce_close_ok env) (ce_startTime env) path (cl_circuitMgr c) = Some (built, conn, mgr)"
      using BuildCircuit_total [OF client_wfD(1) [OF assms]] by blast
    then show ?thesis by (cases built) (simp_all add: buildCircuitForPool_def s Inr new_circuit_def Let_def)
  qed
qed

lemma build_keeps_ok:
  assumes ok: "client_wf c" and b: "buildCircuitForPool env c = Some (res, c')"
  shows "client_wf c'"
proof (cases res)
  case (Inl e)
  have same: "cl_heap c' = cl_heap c" "cl_circuits c' = cl_circuits c" "cl_next c' = cl_next c" "cl_registered c' = cl_registered c"
    using build_cases [OF ok b] Inl by (simp_all add: build_outcome_def)
  show ?thesis
  proof (rule client_wfI)
    show "i \<in> dom (cm_circuits (cl_circuitMgr c'))" if "cl_registered c' i = Some r" for i r
      using build_cases [OF ok b] that by blast
    show "listed_ok c' r" if "r \<in> set (cl_circuits c')" for r
      using client_wfD(6) [OF ok] that unfolding listed_ok_def same by blast
  qed (use build_cases [OF ok b] client_wfD(3,4,5) [OF ok] same in auto)
next
  case (Inr r)
  note bc = build_cases [OF ok b]
  from bc Inr obtain circ where n: "r = cl_next c" "cl_next c' = Suc r" "cl_circuits c' = cl_circuits c @ [r]"
    "ci_State circ = StateOpen" "cl_heap c' = (cl_heap c)(r \<mapsto> circ)" "cl_registered c (ci_ID circ) = None"
    "cl_registered c' = (cl_registered c)(ci_ID circ \<mapsto> r)"
    by (auto simp: build_outcome_def)
  have fresh: "cl_heap c r = None" using client_wfD(4) [OF ok, of r] n(1) by (cases "cl_heap c r") auto
  show ?thesis
  proof (rule client_wfI)
    show "manager_ok (cl_circuitMgr c')" using bc by blast
    show "i \<in> dom (cm_circuits (cl_circuitMgr c'))" if "cl_registered c' i = Some q" for i q
      using bc that by blast
    show "\<exists>d. cl_heap c' q = Some d \<and> ci_ID d = i" if "cl_registered c' i = Some q" for i q
    proof (cases "i = ci_ID circ")
      case True
      then show ?thesis using that by (simp add: n(5,7))
    next
      case False
      then have "cl_registered c i = Some q" using that by (simp add: n(7))
      with client_wfD(3) [OF ok this] show ?thesis using fresh by (auto simp: n(5))
    qed
    show "q < cl_next c'" if "cl_heap c' q \<noteq> None" for q
      using that client_wfD(4) [OF ok, of q] by (auto simp: n(1,2,5) split: if_splits)
    have new: "r \<notin> set (cl_circuits c)" using client_wfD(6) [OF ok, of r] fresh by (auto simp: listed_ok_def)
    then show "distinct (cl_circuits c')" using client_wfD(5) [OF ok] by (simp add: n(3))
    show "listed_ok c' q" if "q \<in> set (cl_circuits c')" for q
    proof (cases "q = r")
      case True
      then show ?thesis by (simp add: listed_ok_def n(4,5,7))
    next
      case False
      then have "q \<in> set (cl_circuits c)" using that by (simp add: n(3))
      from client_wfD(6) [OF ok this] obtain d where
        d: "cl_heap c q = Some d" "ci_State d = StateOpen \<longrightarrow> cl_registered c (ci_ID d) = Some q"
        unfolding listed_ok_def by blast
      have "ci_State d = StateOpen \<longrightarrow> ci_ID d \<noteq> ci_ID circ" using d(2) n(6) by auto
      then show ?thesis using d False by (auto simp: listed_ok_def n(5,7))
    qed
  qed
qed

subsection \<open>Changes of circuits\<close>

text \<open>Circuits keep their ID and are not opened again; everything else about them may change.\<close>

definition heap_ages :: "'conn circuits \<Rightarrow> 'conn circuits \<Rightarrow> bool" where
  "heap_ages h h' \<longleftrightarrow> (\<forall>r. rel_option (\<lambda>a b. ci_ID b = ci_ID a \<and> (ci_State b = StateOpen \<longrightarrow> ci_State a = StateOpen)) (h r) (h' r))"

lemma heap_ages_Some:
  "heap_ages h h' \<Longrightarrow> h r = Some a \<Longrightarrow> \<exists>b. h' r = Some b \<and> ci_ID b = ci_ID a \<and> (ci_State b = StateOpen \<longrightarrow> ci_State a = StateOpen)"
  unfolding heap_ages_def by (drule spec [of _ r]) (cases "h' r"; simp)

lemma heap_ages_None: "heap_ages h h' \<Longrightarrow> h' r \<noteq> None \<Longrightarrow> h r \<noteq> None"
  unfolding heap_ages_def by (drule spec [of _ r]) (cases "h r"; cases "h' r"; simp)

lemma heap_ages_upd:
  "h r = Some a \<Longrightarrow> ci_ID b = ci_ID a \<Longrightarrow> (ci_State b = StateOpen \<Longrightarrow> ci_State a = StateOpen) \<Longrightarrow> heap_ages h (h(r \<mapsto> b))"
  by (auto simp: heap_ages_def option.rel_refl_strong)

text \<open>
  What changes circuits, and forgets registrations of circuits that are not open, keeps the invariant.
\<close>

lemma heap_ages_ok:
  assumes ok: "client_wf c" and ages: "heap_ages (cl_heap c) (cl_heap c')" and same: "cl_circuits c' = cl_circuits c" "cl_next c' = cl_next c"
    and mgr: "manager_ok (cl_circuitMgr c')"
    and reg: "\<And>i r. cl_registered c' i = Some r \<Longrightarrow> cl_registered c i = Some r \<and> i \<in> dom (cm_circuits (cl_circuitMgr c'))"
    and keep: "\<And>r circ. cl_heap c' r = Some circ \<Longrightarrow> ci_State circ = StateOpen \<Longrightarrow> cl_registered c (ci_ID circ) = Some r \<Longrightarrow>
        cl_registered c' (ci_ID circ) = Some r"
  shows "client_wf c'"
proof (rule client_wfI)
  show "\<exists>circ. cl_heap c' r = Some circ \<and> ci_ID circ = i" if ir: "cl_registered c' i = Some r" for i r
  proof -
    obtain a where "cl_heap c r = Some a" "ci_ID a = i" using client_wfD(3) [OF ok] reg [OF ir] by blast
    then show ?thesis using heap_ages_Some [OF ages] by blast
  qed
  show "r < cl_next c'" if "cl_heap c' r \<noteq> None" for r
    using client_wfD(4) [OF ok] heap_ages_None [OF ages that] same(2) by simp
  show "listed_ok c' r" if rs: "r \<in> set (cl_circuits c')" for r
  proof -
    obtain a where a: "cl_heap c r = Some a" "ci_State a = StateOpen \<longrightarrow> cl_registered c (ci_ID a) = Some r"
      using client_wfD(6) [OF ok] rs same(1) unfolding listed_ok_def by metis
    obtain b where b: "cl_heap c' r = Some b" "ci_ID b = ci_ID a" "ci_State b = StateOpen \<longrightarrow> ci_State a = StateOpen"
      using heap_ages_Some [OF ages a(1)] by blast
    then show ?thesis using a keep [OF b(1)] unfolding listed_ok_def by auto
  qed
qed (use mgr reg same client_wfD(5) [OF ok] in auto)

lemma close_registered_cases:
  assumes ok: "client_wf c"
  shows "client_wf (close_registered i c)
    \<and> cl_circuits (close_registered i c) = cl_circuits c \<and> cl_next (close_registered i c) = cl_next c
    \<and> cl_config (close_registered i c) = cl_config c \<and> cl_circuitPool (close_registered i c) = cl_circuitPool c
    \<and> cl_published (close_registered i c) = cl_published c
    \<and> cl_registered (close_registered i c) = (cl_registered c)(i := None)
    \<and> cl_heap (close_registered i c) = (case cl_registered c i of None \<Rightarrow> cl_heap c
         | Some r \<Rightarrow> (cl_heap c)(r := map_option (SetState StateClosed) (cl_heap c r)))"
proof (cases "cm_circuits (cl_circuitMgr c) i")
  case None
  then have "cl_registered c i = None" using client_wfD(2) [OF ok, of i] by (cases "cl_registered c i") auto
  moreover have "close_registered i c = c" using None by (simp add: close_registered_def CloseCircuit_def)
  ultimately show ?thesis using ok by (simp add: fun_upd_idem)
next
  case (Some mc)
  define c' where "c' = close_registered i c"
  have c': "cl_circuitMgr c' = (cl_circuitMgr c)\<lparr>cm_circuits := (cm_circuits (cl_circuitMgr c))(i := None)\<rparr>"
    "cl_circuits c' = cl_circuits c" "cl_next c' = cl_next c" "cl_config c' = cl_config c" "cl_circuitPool c' = cl_circuitPool c"
    "cl_published c' = cl_published c" "cl_registered c' = (cl_registered c)(i := None)"
    "cl_heap c' = (case cl_registered c i of None \<Rightarrow> cl_heap c
         | Some r \<Rightarrow> (cl_heap c)(r := map_option (SetState StateClosed) (cl_heap c r)))"
    using Some by (simp_all add: c'_def close_registered_def CloseCircuit_def)
  have mgr: "manager_ok (cl_circuitMgr c')"
    using client_wfD(1) [OF ok] by (auto simp: manager_ok_def c'(1))
  have closed: "ci_ID (SetState StateClosed a) = ci_ID a" "ci_State (SetState StateClosed a) \<noteq> StateOpen" for a :: "'a Circuit"
    by (simp_all add: SetState_def)
  have ages: "heap_ages (cl_heap c) (cl_heap c')"
  proof (cases "cl_registered c i")
    case None
    then show ?thesis by (simp add: c'(8) heap_ages_def option.rel_refl)
  next
    case (Some r)
    then obtain a where "cl_heap c r = Some a" using client_wfD(3) [OF ok] by blast
    then show ?thesis using Some heap_ages_upd [of "cl_heap c" r a "SetState StateClosed a"] closed [of a] by (simp add: c'(8))
  qed
  have reg: "cl_registered c j = Some r \<and> j \<in> dom (cm_circuits (cl_circuitMgr c'))" if "cl_registered c' j = Some r" for j r
    using that client_wfD(2) [OF ok, of j r] by (auto simp: c'(1,7) split: if_splits)
  have keep: "cl_registered c' (ci_ID circ) = Some r"
    if h: "cl_heap c' r = Some circ" and op: "ci_State circ = StateOpen" and cr: "cl_registered c (ci_ID circ) = Some r" for r circ
  proof (cases "ci_ID circ = i")
    case True
    then have "cl_registered c i = Some r" using cr by simp
    then have "cl_heap c' r = map_option (SetState StateClosed) (cl_heap c r)" by (simp add: c'(8))
    then show ?thesis using h op closed(2) by (cases "cl_heap c r") auto
  next
    case False
    then show ?thesis using cr by (simp add: c'(7))
  qed
  have "client_wf c'" by (rule heap_ages_ok [OF ok ages c'(2,3) mgr reg keep])
  then show ?thesis unfolding c'_def [symmetric] using c'(2-8) by simp
qed

subsection \<open>Maintenance, exactly\<close>

definition usable :: "time \<Rightarrow> 'conn Client \<Rightarrow> nat \<Rightarrow> bool" where
  "usable now c r \<longleftrightarrow> (\<exists>circ. cl_heap c r = Some circ \<and> ci_State circ = StateOpen \<and> Age now circ \<le> cfg_MaxCircuitDirtiness (cl_config c))"

definition worn_out :: "time \<Rightarrow> 'conn Client \<Rightarrow> nat \<Rightarrow> bool" where
  "worn_out now c r \<longleftrightarrow> (\<exists>circ. cl_heap c r = Some circ \<and> ci_State circ = StateOpen \<and> Age now circ > cfg_MaxCircuitDirtiness (cl_config c))"

lemma retire_cases:
  fixes rfc3339 :: "time \<Rightarrow> string option"
  assumes ok: "client_wf c" and r: "r \<in> set (cl_circuits c)" "cl_heap c r = Some circ" "ci_State circ = StateOpen"
  defines "c' \<equiv> retire rfc3339 r circ c"
  shows "client_wf c'" "cl_circuits c' = cl_circuits c" "cl_config c' = cl_config c" "cl_circuitPool c' = cl_circuitPool c"
    "cl_heap c' = (cl_heap c)(r \<mapsto> SetState StateClosed circ)" "cl_registered c' = (cl_registered c)(ci_ID circ := None)"
    "cl_published c' = cl_published c @ [CircuitEvent (ci_ID circ) ''CLOSED'' [] [] ''GENERAL'' (rfc3339 (ci_CreatedAt circ))]"
proof -
  define d where "d = c\<lparr>cl_heap := (cl_heap c)(r \<mapsto> SetState StateClosed circ)\<rparr>"
  have ok_d: "client_wf d"
  proof (rule heap_ages_ok [OF ok])
    show "heap_ages (cl_heap c) (cl_heap d)"
      using heap_ages_upd [of "cl_heap c" r circ "SetState StateClosed circ"] r(2) by (simp add: d_def SetState_def)
  qed (use client_wfD(1,2) [OF ok] in \<open>auto simp: d_def\<close>)
  have reg: "cl_registered d (ci_ID circ) = Some r"
    using client_wfD(6) [OF ok r(1)] r(2,3) by (auto simp: listed_ok_def d_def)
  have c': "c' = PublishEvent (CircuitEvent (ci_ID circ) ''CLOSED'' [] [] ''GENERAL'' (rfc3339 (ci_CreatedAt circ))) (close_registered (ci_ID circ) d)"
    by (simp add: c'_def retire_def d_def Let_def)
  note cl = close_registered_cases [OF ok_d, of "ci_ID circ"]
  have "client_wf (PublishEvent e x)" if "client_wf x" for e and x :: "'a Client"
    using that by (simp add: client_wf_def listed_ok_def)
  then show "client_wf c'" using cl c' by simp
  show "cl_circuits c' = cl_circuits c" "cl_config c' = cl_config c" "cl_circuitPool c' = cl_circuitPool c"
    "cl_registered c' = (cl_registered c)(ci_ID circ := None)"
    using cl by (simp_all add: c' d_def)
  show "cl_published c' = cl_published c @ [CircuitEvent (ci_ID circ) ''CLOSED'' [] [] ''GENERAL'' (rfc3339 (ci_CreatedAt circ))]"
    using cl by (simp add: c' PublishEvent_def d_def)
  show "cl_heap c' = (cl_heap c)(r \<mapsto> SetState StateClosed circ)"
    using cl reg by (simp add: c' d_def SetState_def)
qed

text \<open>The events of a sweep: one for every circuit that is worn out.\<close>

definition closed_event :: "(time \<Rightarrow> string option) \<Rightarrow> 'conn Client \<Rightarrow> nat \<Rightarrow> control_event" where
  "closed_event rfc3339 c r = (let circ = the (cl_heap c r) in
     CircuitEvent (ci_ID circ) ''CLOSED'' [] [] ''GENERAL'' (rfc3339 (ci_CreatedAt circ)))"

lemma sweep_exact:
  assumes "client_wf c" "set rs \<subseteq> set (cl_circuits c)" "distinct rs" "sweep_circuits rfc3339 now rs c = (active, c')"
  shows "active = filter (usable now c) rs \<and> client_wf c' \<and> cl_circuits c' = cl_circuits c \<and> cl_config c' = cl_config c
    \<and> cl_circuitPool c' = cl_circuitPool c
    \<and> cl_published c' = cl_published c @ map (closed_event rfc3339 c) (filter (worn_out now c) rs)
    \<and> (\<forall>r. cl_heap c' r = (if r \<in> set rs \<and> worn_out now c r then map_option (SetState StateClosed) (cl_heap c r) else cl_heap c r))
    \<and> (\<forall>r\<in>set rs. worn_out now c r \<longrightarrow> (\<forall>i. cl_registered c' i \<noteq> Some r))
    \<and> (\<forall>i r. cl_registered c' i = Some r \<longrightarrow> cl_registered c i = Some r)"
  using assms
proof (induction rs arbitrary: c active)
  case Nil
  then show ?case by simp
next
  case (Cons r rs)
  obtain circ where circ: "cl_heap c r = Some circ"
    using client_wfD(6) [OF Cons.prems(1), of r] Cons.prems(2) by (auto simp: listed_ok_def)
  consider (gone) "ci_State circ \<noteq> StateOpen"
    | (old) "ci_State circ = StateOpen" "Age now circ > cfg_MaxCircuitDirtiness (cl_config c)"
    | (kept) "ci_State circ = StateOpen" "Age now circ \<le> cfg_MaxCircuitDirtiness (cl_config c)" by fastforce
  then show ?case
  proof cases
    case gone
    then have "\<not> usable now c r" "\<not> worn_out now c r" using circ by (auto simp: usable_def worn_out_def)
    then show ?thesis using Cons.IH [of c active] Cons.prems gone circ by auto
  next
    case kept
    then have "usable now c r" "\<not> worn_out now c r" using circ by (auto simp: usable_def worn_out_def)
    moreover obtain active1 where "sweep_circuits rfc3339 now rs c = (active1, c')" "active = r # active1"
      using Cons.prems(4) kept circ by (auto split: prod.splits)
    ultimately show ?thesis using Cons.IH [of c active1] Cons.prems by auto
  next
    case old
    define d where "d = retire rfc3339 r circ c"
    note ret = retire_cases [OF Cons.prems(1) _ circ old(1), of rfc3339, folded d_def]
    have r: "r \<in> set (cl_circuits c)" "r \<notin> set rs" "set rs \<subseteq> set (cl_circuits d)"
      using Cons.prems(2,3) ret(2) by auto
    have w: "worn_out now c r" "\<not> usable now c r" using old circ by (auto simp: usable_def worn_out_def)
    have same: "cl_heap d q = cl_heap c q" if "q \<noteq> r" for q using that ret(5) [OF r(1)] by simp
    then have sets: "usable now d q = usable now c q" "worn_out now d q = worn_out now c q" "closed_event rfc3339 d q = closed_event rfc3339 c q"
      if "q \<in> set rs" for q
    proof -
      have "cl_heap d q = cl_heap c q" using same that r(2) by metis
      then show "usable now d q = usable now c q" "worn_out now d q = worn_out now c q" "closed_event rfc3339 d q = closed_event rfc3339 c q"
        using ret(3) [OF r(1)] by (simp_all add: usable_def worn_out_def closed_event_def)
    qed
    have "sweep_circuits rfc3339 now rs d = (active, c')" using Cons.prems(4) old circ by (simp add: d_def)
    from Cons.IH [OF ret(1) [OF r(1)] r(3) _ this] Cons.prems(3)
    have IH: "active = filter (usable now d) rs" "client_wf c'" "cl_circuits c' = cl_circuits d" "cl_config c' = cl_config d"
      "cl_circuitPool c' = cl_circuitPool d"
      "cl_published c' = cl_published d @ map (closed_event rfc3339 d) (filter (worn_out now d) rs)"
      "\<And>q. cl_heap c' q = (if q \<in> set rs \<and> worn_out now d q then map_option (SetState StateClosed) (cl_heap d q) else cl_heap d q)"
      "\<And>q i. q \<in> set rs \<Longrightarrow> worn_out now d q \<Longrightarrow> cl_registered c' i \<noteq> Some q"
      "\<And>i q. cl_registered c' i = Some q \<Longrightarrow> cl_registered d i = Some q" by auto
    have filters: "filter (usable now d) rs = filter (usable now c) rs" "filter (worn_out now d) rs = filter (worn_out now c) rs"
      using sets by (auto intro: filter_cong)
    have heap: "cl_heap c' q = (if q \<in> set (r # rs) \<and> worn_out now c q then map_option (SetState StateClosed) (cl_heap c q) else cl_heap c q)" for q
      using IH(7) [of q] r(2) sets(2) [of q] same [of q] ret(5) [OF r(1)] w(1) circ by (cases "q = r") auto
    have unreg: "cl_registered c' i \<noteq> Some r" for i
    proof
      assume "cl_registered c' i = Some r"
      then have d: "cl_registered d i = Some r" by (rule IH(9))
      then obtain a where "cl_heap d r = Some a" "ci_ID a = i" using client_wfD(3) [OF ret(1) [OF r(1)]] by blast
      then have "i = ci_ID circ" using ret(5) [OF r(1)] by (auto simp: SetState_def)
      then show False using d ret(6) [OF r(1)] by simp
    qed
    have "map (closed_event rfc3339 d) (filter (worn_out now c) rs) = map (closed_event rfc3339 c) (filter (worn_out now c) rs)"
      using sets(3) by auto
    then have "cl_published c' = cl_published c @ map (closed_event rfc3339 c) (filter (worn_out now c) (r # rs))"
      using IH(6) ret(7) [OF r(1)] w(1) circ by (simp add: filters closed_event_def)
    moreover have "cl_registered c i = Some q" if "cl_registered c' i = Some q" for i q
      using IH(9) [OF that] ret(6) [OF r(1)] by (simp split: if_splits)
    ultimately show ?thesis using IH(1-5,8) filters heap unreg w sets ret(2-4) [OF r(1)] by auto
  qed
qed

lemma client_wf_listing:
  "client_wf c \<Longrightarrow> set rs \<subseteq> set (cl_circuits c) \<Longrightarrow> distinct rs \<Longrightarrow> client_wf (set_active (c\<lparr>cl_circuits := rs\<rparr>))"
  by (rule client_wfI) (auto simp: listed_ok_def dest: client_wfD(1,2,3,4,6))

lemma rebuild_adds:
  "client_wf c \<Longrightarrow> \<exists>c' new. rebuild envs i n c = Some c' \<and> client_wf c' \<and> cl_circuits c' = cl_circuits c @ new \<and> length new \<le> n
    \<and> cl_config c' = cl_config c \<and> cl_circuitPool c' = cl_circuitPool c
    \<and> (\<forall>r\<in>set new. cl_heap c r = None \<and> is_open (cl_heap c') r)
    \<and> (\<forall>r. cl_heap c r \<noteq> None \<longrightarrow> cl_heap c' r = cl_heap c r)
    \<and> (\<forall>i r. cl_registered c' i = Some r \<longrightarrow> cl_registered c i = Some r \<or> r \<in> set new)"
proof (induction n arbitrary: i c)
  case 0
  then show ?case by simp
next
  case (Suc n)
  obtain res d where b: "buildCircuitForPool (envs i) c = Some (res, d)" using build_total [OF Suc.prems] by blast
  note ok = build_keeps_ok [OF Suc.prems b] and out = build_cases [OF Suc.prems b]
  obtain c' new where IH: "rebuild envs (i + 1) n d = Some c'" "client_wf c'" "cl_circuits c' = cl_circuits d @ new" "length new \<le> n"
    "cl_config c' = cl_config d" "cl_circuitPool c' = cl_circuitPool d"
    "\<forall>r\<in>set new. cl_heap d r = None \<and> is_open (cl_heap c') r" "\<forall>r. cl_heap d r \<noteq> None \<longrightarrow> cl_heap c' r = cl_heap d r"
    "\<forall>i r. cl_registered c' i = Some r \<longrightarrow> cl_registered d i = Some r \<or> r \<in> set new"
    using Suc.IH [OF ok, of "i + 1"] by blast
  show ?case
  proof (cases res)
    case (Inl e)
    then show ?thesis using out IH b by (intro exI [of _ c'] exI [of _ new]) (simp add: build_outcome_def)
  next
    case (Inr r)
    then obtain circ where n: "cl_circuits d = cl_circuits c @ [r]" "r = cl_next c" "ci_State circ = StateOpen"
      "cl_heap d = (cl_heap c)(r \<mapsto> circ)" "cl_registered d = (cl_registered c)(ci_ID circ \<mapsto> r)" "cl_config d = cl_config c"
      "cl_circuitPool d = cl_circuitPool c"
      using out by (auto simp: build_outcome_def)
    have fresh: "cl_heap c r = None" using client_wfD(4) [OF Suc.prems, of r] n(2) by (cases "cl_heap c r") auto
    have "is_open (cl_heap c') r" using IH(8) n(3,4) by (simp add: is_open_def)
    moreover have "cl_heap c q = None" if "q \<in> set new" for q using IH(7) that n(4) by (auto split: if_splits)
    moreover have "cl_heap c' q = cl_heap c q" if "cl_heap c q \<noteq> None" for q
      using IH(8) that fresh by (auto simp: n(4) split: if_splits)
    moreover have "cl_registered c j = Some q \<or> q \<in> set (r # new)" if "cl_registered c' j = Some q" for j q
      using IH(9) that n(5) by (auto split: if_splits)
    ultimately show ?thesis using IH b Inr fresh n(1,6,7) by (intro exI [of _ c'] exI [of _ "r # new"]) auto
  qed
qed

definition maintained :: "(time \<Rightarrow> string option) \<Rightarrow> time \<Rightarrow> 'conn Client \<Rightarrow> 'conn Client \<Rightarrow> bool" where
  "maintained rfc3339 now c c' \<longleftrightarrow> (\<exists>new.
     cl_circuits c' = filter (usable now c) (cl_circuits c) @ new
   \<and> (\<forall>r\<in>set new. cl_heap c r = None \<and> is_open (cl_heap c') r)
   \<and> length new \<le> (if pooled c then 0 else 2 - length (filter (usable now c) (cl_circuits c)))
   \<and> (\<forall>r\<in>set (cl_circuits c). worn_out now c r \<longrightarrow>
        cl_heap c' r = map_option (SetState StateClosed) (cl_heap c r) \<and> (\<forall>i. cl_registered c' i \<noteq> Some r))
   \<and> (\<forall>r. cl_heap c r \<noteq> None \<longrightarrow> \<not> (r \<in> set (cl_circuits c) \<and> worn_out now c r) \<longrightarrow> cl_heap c' r = cl_heap c r))"

lemma checkAndRebuild_maintains:
  assumes ok: "client_wf c"
  shows "\<exists>c'. checkAndRebuildCircuits rfc3339 now envs c = Some c' \<and> client_wf c' \<and> maintained rfc3339 now c c'"
proof -
  obtain active d where s: "sweep_circuits rfc3339 now (cl_circuits c) c = (active, d)" by fastforce
  note sw = sweep_exact [OF ok subset_refl client_wfD(5) [OF ok] s]
  define e where "e = set_active (d\<lparr>cl_circuits := active\<rparr>)"
  have e: "cl_circuits e = active" "cl_heap e = cl_heap d" "cl_registered e = cl_registered d" "pooled e = pooled c"
    using sw by (simp_all add: e_def pooled_def)
  have ok_e: "client_wf e"
    unfolding e_def using sw client_wfD(5) [OF ok] by (intro client_wf_listing) auto
  define n where "n = (if \<not> pooled c \<and> length active < 2 then 2 - length active else 0)"
  obtain c' new where r: "rebuild envs 0 n e = Some c'" "client_wf c'" "cl_circuits c' = active @ new" "length new \<le> n"
    "\<forall>r\<in>set new. cl_heap e r = None \<and> is_open (cl_heap c') r" "\<forall>r. cl_heap e r \<noteq> None \<longrightarrow> cl_heap c' r = cl_heap e r"
    "\<forall>i r. cl_registered c' i = Some r \<longrightarrow> cl_registered e i = Some r \<or> r \<in> set new"
    using rebuild_adds [OF ok_e, of envs 0 n] e(1) by auto
  have run: "checkAndRebuildCircuits rfc3339 now envs c = Some c'"
    using r(1) by (auto simp: checkAndRebuildCircuits_def s e_def [symmetric] Let_def e(1,4) n_def split: if_splits)
  have heap: "cl_heap e q = (if q \<in> set (cl_circuits c) \<and> worn_out now c q then map_option (SetState StateClosed) (cl_heap c q) else cl_heap c q)" for q
    using sw by (simp add: e(2))
  have dom: "cl_heap e q = None \<longleftrightarrow> cl_heap c q = None" for q by (simp add: heap)
  have unreg: "cl_registered c' i \<noteq> Some q" if "q \<in> set (cl_circuits c)" "worn_out now c q" for q i
  proof
    assume "cl_registered c' i = Some q"
    moreover have "q \<notin> set new" using r(5) dom that(2) by (auto simp: worn_out_def)
    ultimately have "cl_registered d i = Some q" using r(7) e(3) by auto
    then show False using sw that by blast
  qed
  have "maintained rfc3339 now c c'"
    unfolding maintained_def
  proof (intro exI [of _ new] conjI ballI allI impI)
    show "cl_circuits c' = filter (usable now c) (cl_circuits c) @ new" using r(3) sw by simp
    show "length new \<le> (if pooled c then 0 else 2 - length (filter (usable now c) (cl_circuits c)))"
      using r(4) sw by (auto simp: n_def split: if_splits)
    show "cl_heap c q = None" "is_open (cl_heap c') q" if "q \<in> set new" for q using r(5) that dom by auto
    show "cl_heap c' q = map_option (SetState StateClosed) (cl_heap c q)" if "q \<in> set (cl_circuits c)" "worn_out now c q" for q
    proof -
      have "cl_heap e q \<noteq> None" using that dom by (auto simp: worn_out_def)
      then show ?thesis using r(6) heap [of q] that by simp
    qed
    show "cl_registered c' i \<noteq> Some q" if "q \<in> set (cl_circuits c)" "worn_out now c q" for q i using unreg that by blast
    show "cl_heap c' q = cl_heap c q" if "cl_heap c q \<noteq> None" "\<not> (q \<in> set (cl_circuits c) \<and> worn_out now c q)" for q
      using r(6) dom heap [of q] that by auto
  qed
  with run r(2) show ?thesis by blast
qed

subsection \<open>Runs of the client\<close>

text \<open>
  Whatever happens to the client between two looks: builds, maintenance, circuits handed out by
  the client or by its pool with an isolation key, circuits returned, ticks of the pool, traffic,
  and circuits that change by themselves without being opened again.
\<close>

datatype 'conn client_op =
    COBuild client_env
  | COMaintain time "nat \<Rightarrow> client_env"
  | COGet client_env time
  | COPoolGet client_env "IsolationKey option"
  | COReturn nat
  | COTick "nat \<Rightarrow> client_env"
  | COTraffic u64 u64
  | COCircuit nat "'conn Circuit"

definition circuit_changes :: "nat \<Rightarrow> 'conn Circuit \<Rightarrow> 'conn Client \<Rightarrow> 'conn Client" where
  "circuit_changes r b c =
     (case cl_heap c r of
        None \<Rightarrow> c
      | Some a \<Rightarrow>
          if ci_ID b = ci_ID a \<and> (ci_State b = StateOpen \<longrightarrow> ci_State a = StateOpen)
          then c\<lparr>cl_heap := (cl_heap c)(r \<mapsto> b)\<rparr> else c)"

definition client_step :: "(time \<Rightarrow> string option) \<Rightarrow> 'conn client_op \<Rightarrow> 'conn Client \<Rightarrow> 'conn Client" where
  "client_step rfc3339 op c = (case op of
     COBuild env \<Rightarrow> (case buildCircuitForPool env c of None \<Rightarrow> c | Some (_, c) \<Rightarrow> c)
   | COMaintain now envs \<Rightarrow> (case checkAndRebuildCircuits rfc3339 now envs c of None \<Rightarrow> c | Some c \<Rightarrow> c)
   | COGet env now \<Rightarrow> (case Client_GetCircuit env now c of None \<Rightarrow> c | Some (_, c) \<Rightarrow> c)
   | COPoolGet env key \<Rightarrow>
       (case cl_circuitPool c of None \<Rightarrow> c
        | Some p \<Rightarrow> (case pool_get env key p c of None \<Rightarrow> c | Some (_, c) \<Rightarrow> c))
   | COReturn r \<Rightarrow> ReturnCircuit r c
   | COTick envs \<Rightarrow> (case pool_tick envs c of None \<Rightarrow> c | Some c \<Rightarrow> c)
   | COTraffic m n \<Rightarrow> publishBandwidthEvent (RecordBytesWritten n (RecordBytesRead m c))
   | COCircuit r b \<Rightarrow> circuit_changes r b c)"

lemma client_wf_cong:
  "cl_circuitMgr c' = cl_circuitMgr c \<Longrightarrow> cl_registered c' = cl_registered c \<Longrightarrow> cl_heap c' = cl_heap c \<Longrightarrow> cl_next c' = cl_next c \<Longrightarrow>
   cl_circuits c' = cl_circuits c \<Longrightarrow> client_wf c' = client_wf c"
  by (simp add: client_wf_def listed_ok_def)

lemma client_wf_heap:
  assumes "client_wf c" "heap_ages (cl_heap c) h"
  shows "client_wf (c\<lparr>cl_heap := h, cl_circuitPool := p\<rparr>)"
  by (rule heap_ages_ok [OF assms(1)]) (use assms(2) client_wfD(1,2) [OF assms(1)] in auto)

lemma client_wf_change:
  assumes "client_wf c" "heap_ages (cl_heap c) h"
  shows "client_wf (c\<lparr>cl_heap := h\<rparr>)"
  by (rule heap_ages_ok [OF assms(1)]) (use assms(2) client_wfD(1,2) [OF assms(1)] in auto)

lemma heap_ages_refl [simp]: "heap_ages h h"
  by (simp add: heap_ages_def option.rel_refl)

lemma set_key_ages: "heap_ages h (h(r := map_option (SetIsolationKey key) (h r)))"
  by (cases "h r") (auto simp: heap_ages_def option.rel_refl_strong SetIsolationKey_def)

text \<open>Without a circuit from its builder, Get leaves the heap alone.\<close>

lemma get_no_build:
  assumes "GetWithIsolation (\<lambda>heap. (None, heap)) key heap p = (res, heap', p')"
  shows "heap' = heap"
  using assms by (auto simp: GetWithIsolation_def Let_def split: prod.splits option.splits)

lemma get_with_build:
  assumes "GetWithIsolation build key heap p = (res, heap', p')"
  shows "heap' = heap \<or> heap' = snd (build heap) \<or> (\<exists>r. heap' = (snd (build heap))(r := map_option (SetIsolationKey key) (snd (build heap) r)))"
  using assms by (auto simp: GetWithIsolation_def Let_def split: prod.splits option.splits if_splits)

lemma get_misses:
  assumes "GetWithIsolation (\<lambda>heap. (None, heap)) key heap p = (None, heap1, p1)" "GetWithIsolation build key heap p = (res, heap', p')"
  shows "heap' = snd (build heap) \<or> (\<exists>r. heap' = (snd (build heap))(r := map_option (SetIsolationKey key) (snd (build heap) r)))"
  using assms by (auto simp: GetWithIsolation_def Let_def split: prod.splits option.splits if_splits)

lemma pool_get_total:
  assumes ok: "client_wf c"
  shows "\<exists>res c'. pool_get env key p c = Some (res, c') \<and> client_wf c' \<and> cl_config c' = cl_config c"
proof -
  obtain hit heap1 p1 where g: "GetWithIsolation (\<lambda>heap. (None, heap)) key (cl_heap c) p = (hit, heap1, p1)"
    by (metis prod_cases3)
  show ?thesis
  proof (cases hit)
    case (Some r)
    then show ?thesis using g get_no_build [OF g] ok client_wf_cong [of "c\<lparr>cl_circuitPool := Some p1\<rparr>" c]
      by (simp add: pool_get_def)
  next
    case None
    obtain res c1 where b: "buildCircuitForPool env c = Some (res, c1)" using build_total [OF ok] by blast
    obtain res2 heap2 p2 where g2: "GetWithIsolation (client_builder env c) key (cl_heap c) p = (res2, heap2, p2)"
      by (metis prod_cases3)
    have "snd (client_builder env c (cl_heap c)) = cl_heap c1"
      using b by (cases res) (simp_all add: client_builder_def)
    then have "heap_ages (cl_heap c1) heap2"
      using get_misses [OF g [unfolded None] g2] set_key_ages by auto
    then have "client_wf (c1\<lparr>cl_heap := heap2, cl_circuitPool := Some p2\<rparr>)"
      by (rule client_wf_heap [OF build_keeps_ok [OF ok b]])
    moreover have "cl_config c1 = cl_config c" using build_cases [OF ok b] by (simp add: build_outcome_def)
    ultimately show ?thesis using g b g2 by (simp add: pool_get_def None)
  qed
qed

lemma client_prebuild_total:
  "client_wf c \<Longrightarrow> \<exists>c'. client_prebuild envs i n c = Some c' \<and> client_wf c' \<and> cl_config c' = cl_config c"
proof (induction n arbitrary: i c)
  case (Suc n)
  obtain res d where b: "buildCircuitForPool (envs i) c = Some (res, d)" using build_total [OF Suc.prems] by blast
  have d: "client_wf (d\<lparr>cl_circuitPool := q\<rparr>)" for q
    using build_keeps_ok [OF Suc.prems b] client_wf_cong [of "d\<lparr>cl_circuitPool := q\<rparr>" d] by simp
  have "cl_config d = cl_config c" using build_cases [OF Suc.prems b] by (simp add: build_outcome_def)
  then show ?case using b Suc.IH [OF build_keeps_ok [OF Suc.prems b]] Suc.IH [OF d] by (cases res) simp_all
qed simp

lemma client_step_ok: "client_wf c \<Longrightarrow> client_wf (client_step rfc3339 op c)"
proof (cases op)
  case (COBuild env)
  assume ok: "client_wf c"
  obtain res c' where "buildCircuitForPool env c = Some (res, c')" using build_total [OF ok] by blast
  then show ?thesis using COBuild build_keeps_ok [OF ok] by (simp add: client_step_def)
next
  case (COMaintain now envs)
  assume "client_wf c"
  then show ?thesis using COMaintain checkAndRebuild_maintains [of c rfc3339 now envs] by (auto simp: client_step_def)
next
  case (COGet env now)
  assume ok: "client_wf c"
  then show ?thesis
    using COGet pool_get_total [OF ok, of env None "the (cl_circuitPool c)"]
    by (auto simp: client_step_def Client_GetCircuit_def split: option.split)
next
  case (COPoolGet env key)
  assume ok: "client_wf c"
  then show ?thesis
    using COPoolGet pool_get_total [OF ok, of env key "the (cl_circuitPool c)"] by (auto simp: client_step_def split: option.split)
next
  case (COTick envs)
  assume ok: "client_wf c"
  have "client_wf c'" if "client_prebuild envs i n c = Some c'" for c' i n
    using client_prebuild_total [OF ok, of envs i n] that by simp
  then show ?thesis
    using COTick ok by (auto simp: client_step_def pool_tick_def Let_def split: option.split)
next
  case (COCircuit r b)
  assume ok: "client_wf c"
  have "client_wf (c\<lparr>cl_heap := (cl_heap c)(r \<mapsto> b)\<rparr>)"
    if "cl_heap c r = Some a" "ci_ID b = ci_ID a" "ci_State b = StateOpen \<longrightarrow> ci_State a = StateOpen" for a
    by (rule client_wf_change [OF ok], rule heap_ages_upd [where a = a]) (use that in blast)+
  then show ?thesis using ok COCircuit by (cases "cl_heap c r") (auto simp: client_step_def circuit_changes_def)
qed (auto simp: client_step_def ReturnCircuit_def publishBandwidthEvent_def PublishEvent_def RecordBytesRead_def
    RecordBytesWritten_def client_wf_def listed_ok_def split: option.split)

interpretation client_sys: op_system "client_step rfc3339" client_wf for rfc3339
  by unfold_locales (rule client_step_ok)

text \<open>A client after New, Start with some consensus and pool, and any operations.\<close>

definition started :: "Config \<Rightarrow> Selector \<Rightarrow> CircuitPool option \<Rightarrow> GuardManager \<Rightarrow> time \<Rightarrow> 'conn Client" where
  "started cfg sel pool guards now = (NewClient cfg guards now)\<lparr>cl_pathSelector := sel, cl_circuitPool := pool\<rparr>"

lemma started_ok: "client_wf (fold (client_step rfc3339) ops (started cfg sel pool guards t))"
proof (rule client_sys.run_inv)
  have "client_wf (started cfg sel pool guards t :: 'a Client) = client_wf (NewClient cfg guards t :: 'a Client)"
    by (rule client_wf_cong) (simp_all add: started_def)
  then show "client_wf (started cfg sel pool guards t :: 'a Client)" by (simp add: client_wf_new)
qed

text \<open> C24: Maintenance is exact. After any operations on a client checkAndRebuildCircuits returns; the circuits it lists are the ones
  that are open and not older than MaxCircuitDirtiness, in order, followed by new open ones: none
  in pool mode, at most as many as two lack otherwise. Every older one is closed and the manager's
  map no longer leads to it, and no other circuit is touched.\<close>

theorem maintenance_exact:
  fixes rfc3339 cfg sel pool guards t ops
  defines "c \<equiv> fold (client_step rfc3339) ops (started cfg sel pool guards t)"
  shows "\<exists>c' new. checkAndRebuildCircuits rfc3339 now envs c = Some c'
    \<and> cl_circuits c' = filter (usable now c) (cl_circuits c) @ new
    \<and> (\<forall>r\<in>set new. cl_heap c r = None \<and> is_open (cl_heap c') r)
    \<and> length new \<le> (if pooled c then 0 else 2 - length (filter (usable now c) (cl_circuits c)))
    \<and> (\<forall>r\<in>set (cl_circuits c). worn_out now c r \<longrightarrow>
         cl_heap c' r = map_option (SetState StateClosed) (cl_heap c r) \<and> (\<forall>i. cl_registered c' i \<noteq> Some r))
    \<and> (\<forall>r. cl_heap c r \<noteq> None \<longrightarrow> \<not> (r \<in> set (cl_circuits c) \<and> worn_out now c r) \<longrightarrow> cl_heap c' r = cl_heap c r)"
proof -
  have "client_wf c" unfolding c_def by (rule started_ok)
  from checkAndRebuild_maintains [OF this, of rfc3339 now envs] show ?thesis unfolding maintained_def by blast
qed

text \<open>A network in which every build succeeds, and a client without a pool.\<close>

definition steady_env :: client_env where
  "steady_env = \<lparr>ce_rnd = (\<lambda>_. last_index), ce_network = loopback, ce_ctx_done = False, ce_close_ok = True,
     ce_startTime = 0, ce_endTime = 1, ce_rfc3339 = (\<lambda>_. None)\<rparr>"

definition legacy_config :: Config where
  "legacy_config = (Config_Default (\<lambda>_. True) (\<lambda>_. True) (\<lambda>_. True) None)\<lparr>cfg_EnableCircuitPrebuilding := False\<rparr>"

text \<open>The witness: a circuit built at time 0 is closed after eleven minutes.\<close>

lemma loopback_builds:
  "\<exists>circ conn m'. BuildCircuit loopback False True 0 p (NewManager :: unit Manager) = Some (Inr circ, conn, m')"
proof -
  have "connectToRelay loopback False True a = (Inr (), snd (Connect loopback (DefaultConfig a) (conn_New (DefaultConfig a))))" for a
    by (simp add: connectToRelay_def Connect_def loopback_def DefaultConfig_def tls_verifier_def
        verifyTorRelayCertificate_def Let_def)
  moreover have "ci_State (NewCircuit 0 i :: unit Circuit) = StateBuilding" for i
    by (simp add: NewCircuit_def)
  ultimately show ?thesis
    using first_circuit [of 0, where 'conn = unit] by (auto simp: BuildCircuit_def add_hops_building Let_def)
qed

definition example_client :: "unit Client" where
  "example_client = started legacy_config sample_selector None (NewGuardManager None) 0"

lemma example_build: "\<exists>c1. buildCircuitForPool steady_env example_client = Some (Inr 0, c1)"
proof -
  have "case fst (SelectPath (\<lambda>_. last_index) 0 sample_selector) of Inl _ \<Rightarrow> False | Inr _ \<Rightarrow> True" by code_simp
  then obtain p s1 where p: "SelectPath (\<lambda>_. last_index) 0 sample_selector = (Inr p, s1)"
    by (cases "SelectPath (\<lambda>_. last_index) 0 sample_selector") (auto split: sum.splits)
  obtain circ conn m' where "BuildCircuit loopback False True 0 p (NewManager :: unit Manager) = Some (Inr circ, conn, m')"
    using loopback_builds by blast
  then show ?thesis
    using p by (simp add: buildCircuitForPool_def example_client_def started_def NewClient_def steady_env_def new_circuit_def Let_def)
qed

theorem maintenance_exact_witness:
  "\<exists>c'. checkAndRebuildCircuits (\<lambda>_. None) (11 * 60 * Second) (\<lambda>_. steady_env)
      (fold (client_step (\<lambda>_. None)) [COBuild steady_env] example_client) = Some c'
    \<and> \<not> is_open (cl_heap c') 0 \<and> length (cl_circuits c') \<le> 2"
proof -
  let ?c = "fold (client_step (\<lambda>_. None)) [COBuild steady_env] example_client"
  obtain c1 where b: "buildCircuitForPool steady_env example_client = Some (Inr 0, c1)" using example_build by blast
  have ok: "client_wf example_client" using started_ok [of _ "[]"] by (simp add: example_client_def)
  have c: "?c = c1" using b by (simp add: client_step_def)
  obtain circ where n: "cl_circuits c1 = [0]" "cl_heap c1 0 = Some circ" "ci_State circ = StateOpen" "ci_CreatedAt circ = 0"
    "cl_config c1 = legacy_config" "\<not> pooled c1"
    using build_cases [OF ok b]
    by (auto simp: build_outcome_def example_client_def started_def NewClient_def steady_env_def pooled_def)
  have age: "cfg_MaxCircuitDirtiness legacy_config = 10 * Minute" "10 * Minute < 11 * 60 * Second"
    by (simp_all add: legacy_config_def Config_Default_def Let_def Minute_def Second_def)
  then have w: "worn_out (11 * 60 * Second) c1 0" "\<not> usable (11 * 60 * Second) c1 0"
    using n by (auto simp: worn_out_def usable_def Age_def)
  obtain c' new where m: "checkAndRebuildCircuits (\<lambda>_. None) (11 * 60 * Second) (\<lambda>_. steady_env) c1 = Some c'"
    "cl_circuits c' = filter (usable (11 * 60 * Second) c1) (cl_circuits c1) @ new"
    "length new \<le> (if pooled c1 then 0 else 2 - length (filter (usable (11 * 60 * Second) c1) (cl_circuits c1)))"
    "\<forall>r\<in>set (cl_circuits c1). worn_out (11 * 60 * Second) c1 r \<longrightarrow>
         cl_heap c' r = map_option (SetState StateClosed) (cl_heap c1 r) \<and> (\<forall>i. cl_registered c' i \<noteq> Some r)"
    using maintenance_exact [of "\<lambda>_. None" "11 * 60 * Second" "\<lambda>_. steady_env" "[COBuild steady_env] :: unit client_op list" legacy_config sample_selector None "NewGuardManager None" 0,
        folded example_client_def] unfolding c by blast
  have "cl_heap c' 0 = Some (SetState StateClosed circ)" using m(4) w(1) n(1,2) by simp
  moreover have "length (cl_circuits c') \<le> 2" using m(2,3) w(2) n(1,6) by simp
  ultimately show ?thesis using m(1) unfolding c by (simp add: is_open_def SetState_def)
qed

text \<open> C25: The initial circuits hang on the last attempt. Without a pool buildInitialCircuits makes three builds and returns; it
  fails exactly when the third one fails, even if the first two gave circuits, and succeeds if
  only the third did.\<close>

theorem initial_circuits_third:
  fixes rfc3339 cfg sel pool guards t ops
  defines "c \<equiv> fold (client_step rfc3339) ops (started cfg sel pool guards t)"
  assumes "\<not> pooled c"
  shows "\<exists>r1 c1 r2 c2 r3 c3. buildCircuitForPool (envs 0) c = Some (r1, c1) \<and> buildCircuitForPool (envs 1) c1 = Some (r2, c2)
    \<and> buildCircuitForPool (envs 2) c2 = Some (r3, c3)
    \<and> buildInitialCircuits envs c = Some (if isl r3 then Some InitialCircuitsFailed else None, c3)"
proof -
  have ok: "client_wf c" unfolding c_def by (rule started_ok)
  obtain r1 c1 where b1: "buildCircuitForPool (envs 0) c = Some (r1, c1)" using build_total [OF ok] by blast
  obtain r2 c2 where b2: "buildCircuitForPool (envs 1) c1 = Some (r2, c2)" using build_total [OF build_keeps_ok [OF ok b1]] by blast
  obtain r3 c3 where b3: "buildCircuitForPool (envs 2) c2 = Some (r3, c3)"
    using build_total [OF build_keeps_ok [OF build_keeps_ok [OF ok b1] b2]] by blast
  have "buildInitialCircuits envs c = Some (if isl r3 then Some InitialCircuitsFailed else None, c3)"
    using assms(2) b1 b2 b3
    by (cases r1; cases r2; cases r3) (simp_all add: buildInitialCircuits_def numeral_3_eq_3 numeral_2_eq_2)
  then show ?thesis using b1 b2 b3 by blast
qed

text \<open>The witness: a new client without a consensus, whose three builds all fail.\<close>

theorem initial_circuits_third_witness:
  "\<exists>c3. buildInitialCircuits (\<lambda>_. steady_env) (started legacy_config (NewSelector None) None (NewGuardManager None) 0 :: unit Client)
     = Some (Some InitialCircuitsFailed, c3)"
proof -
  let ?c = "started legacy_config (NewSelector None) None (NewGuardManager None) 0 :: unit Client"
  have "\<not> pooled (fold (client_step (\<lambda>_. None)) [] ?c)" by (simp add: pooled_def started_def NewClient_def)
  from initial_circuits_third [OF this, of "\<lambda>_. steady_env"]
  obtain r1 c1 r2 c2 r3 c3 where b: "buildCircuitForPool steady_env ?c = Some (r1, c1)" "buildCircuitForPool steady_env c1 = Some (r2, c2)"
    "buildCircuitForPool steady_env c2 = Some (r3, c3)"
    "buildInitialCircuits (\<lambda>_. steady_env) ?c = Some (if isl r3 then Some InitialCircuitsFailed else None, c3)" by auto
  have fails: "buildCircuitForPool steady_env x = Some (Inl (PathNotSelected NoRelays), x)"
    if "cl_pathSelector x = NewSelector None" for x :: "unit Client"
    using that by (simp add: buildCircuitForPool_def SelectPath_def NewSelector_def)
  have "cl_pathSelector ?c = NewSelector None" by (simp add: started_def)
  then have "isl r3" using b(1-3) fails by fastforce
  then show ?thesis using b(4) by simp
qed

subsection \<open>Handing out circuits\<close>

text \<open>Without a pool, or when the pool has nothing, every caller gets the youngest open circuit.\<close>

lemma youngest_is_minimal:
  "youngest heap now best bestAge rs = Some r \<Longrightarrow>
   (r \<in> set rs \<and> (\<exists>circ. heap r = Some circ \<and> ci_State circ = StateOpen \<and> Age now circ < bestAge
      \<and> (\<forall>q\<in>set rs. \<forall>d. heap q = Some d \<longrightarrow> ci_State d = StateOpen \<longrightarrow> Age now circ \<le> Age now d)))
   \<or> (best = Some r \<and> (\<forall>q\<in>set rs. \<forall>d. heap q = Some d \<longrightarrow> ci_State d = StateOpen \<longrightarrow> bestAge \<le> Age now d))"
proof (induction rs arbitrary: best bestAge)
  case (Cons q rs)
  show ?case
  proof (cases "heap q")
    case None
    then show ?thesis using Cons.prems Cons.IH [of best bestAge] by auto
  next
    case (Some d)
    show ?thesis
    proof (cases "ci_State d = StateOpen \<and> Age now d < bestAge")
      case True
      then show ?thesis using Cons.prems Cons.IH [of "Some q" "Age now d"] Some by fastforce
    next
      case False
      then show ?thesis using Cons.prems Cons.IH [of best bestAge] Some by fastforce
    qed
  qed
qed simp

lemma legacy_circuit_youngest:
  assumes "legacy_circuit now c = Inr r"
  shows "r \<in> set (cl_circuits c) \<and> (\<exists>circ. cl_heap c r = Some circ \<and> ci_State circ = StateOpen
    \<and> (\<forall>q\<in>set (cl_circuits c). \<forall>d. cl_heap c q = Some d \<longrightarrow> ci_State d = StateOpen \<longrightarrow> Age now circ \<le> Age now d))"
  using assms youngest_is_minimal [of "cl_heap c" now None "2 ^ 63 - 1" "cl_circuits c" r]
  by (auto simp: legacy_circuit_def split: if_splits option.splits)

text \<open>
  The fallback ignores isolation. If the pool's only build so far was for a request with an
  isolation key, and the next build fails, GetCircuit hands the isolated circuit to its caller.
\<close>

lemma fallback_ignores_isolation:
  assumes pool: "cfg_EnableCircuitPrebuilding (cl_config c)" "cl_circuitPool c = Some p" "cp_circuits p = []" "cp_isolated p = Map.empty"
    and alone: "client_wf c" "cl_circuits c = []" and key: "isolating (Some key)"
    and first: "buildCircuitForPool env1 c = Some (Inr r, c1)"
    and given: "pool_get env1 (Some key) p c = Some (Some r, c2)"
    and second: "buildCircuitForPool env2 c2 = Some (Inl e, c3)"
    and now: "now - ce_startTime env1 < 2 ^ 63 - 1"
  shows "\<exists>c4. Client_GetCircuit env2 now c2 = Some (Inr r, c4)"
proof -
  obtain circ where n: "cl_circuits c1 = [r]" "cl_heap c1 = (cl_heap c)(r \<mapsto> circ)" "ci_State circ = StateOpen"
    "ci_CreatedAt circ = ce_startTime env1" "cl_config c1 = cl_config c"
    using build_cases [OF alone(1) first] alone(2) by (auto simp: build_outcome_def)
  have miss: "GetWithIsolation b (Some key) h p = (case b h of (None, h1) \<Rightarrow> (None, h1, p)
      | (Some q, h1) \<Rightarrow> (Some q, h1(q := map_option (SetIsolationKey (Some key)) (h1 q)), p))" for b and h :: "'a circuits"
    using pool(4) key by (simp add: GetWithIsolation_def split: prod.split option.split)
  have c2: "c2 = c1\<lparr>cl_heap := (cl_heap c1)(r := Some (SetIsolationKey (Some key) circ)), cl_circuitPool := Some p\<rparr>"
    using given first n(2) by (simp add: pool_get_def miss client_builder_def)
  have shared: "GetWithIsolation b None h p = (case b h of (None, h1) \<Rightarrow> (None, h1, p) | (Some q, h1) \<Rightarrow> (Some q, h1, p))" for b and h :: "'a circuits"
    using pool(3) by (simp add: GetWithIsolation_def isolating_def split: prod.split option.split)
  have ok2: "client_wf c2" using pool_get_total [OF alone(1), of env1 "Some key" p] given by simp
  have "cl_heap c3 = cl_heap c2" "cl_circuits c3 = cl_circuits c2"
    using build_cases [OF ok2 second] by (simp_all add: build_outcome_def)
  then have got: "pool_get env2 None p c2 = Some (None, c3\<lparr>cl_heap := cl_heap c2, cl_circuitPool := Some p\<rparr>)"
    using second by (simp add: pool_get_def shared client_builder_def)
  have "Age now (SetIsolationKey (Some key) circ) < 2 ^ 63 - 1" "ci_State (SetIsolationKey (Some key) circ) = StateOpen"
    using now n(3,4) by (simp_all add: Age_def SetIsolationKey_def)
  then have "legacy_circuit now (c3\<lparr>cl_heap := cl_heap c2, cl_circuitPool := Some p\<rparr>) = Inr r"
    using \<open>cl_circuits c3 = cl_circuits c2\<close> n(1) by (simp add: legacy_circuit_def c2)
  then show ?thesis using got pool(1) n(5) by (simp add: Client_GetCircuit_def c2)
qed

text \<open>The events of a new consensus are bounded.\<close>

lemma consensus_events_bounded:
  "n \<le> 50 \<Longrightarrow> \<exists>es. cl_published (consensus_events pub n rs c) = cl_published c @ es \<and> n + length es \<le> 50"
proof (induction rs arbitrary: n c)
  case (Cons r rs)
  show ?case
  proof (cases "n < 50 \<and> (IsGuard r \<or> IsExit r)")
    case True
    define ev where "ev = NSEvent (''$'' @ rl_Fingerprint r @ ''~'' @ rl_Nickname r) (''$'' @ rl_Fingerprint r) (pub r)
      (rl_Address r) (rl_ORPort r) (rl_DirPort r) (rl_Flags r)"
    obtain es where "cl_published (consensus_events pub (n + 1) rs (PublishEvent ev c)) = cl_published (PublishEvent ev c) @ es"
      "n + 1 + length es \<le> 50" using Cons.IH [of "n + 1" "PublishEvent ev c"] True by auto
    then show ?thesis using True by (intro exI [of _ "ev # es"]) (auto simp: PublishEvent_def ev_def)
  next
    case False
    then show ?thesis using Cons by auto
  qed
qed simp

text \<open>Maintenance does not look whether a circuit is in use, and RESOLVE is off in every client.\<close>

lemma client_never_resolves: "\<not> so_EnableDNSResolution (socks_config cfg)"
  by (simp add: socks_config_def)

end
