(* ===== verification/Spec2Isabelle.thy ===== *)
theory Spec2Isabelle
  imports
    CircuitPool Stream Breaker Builder Dns Extension ConnectionPool Protocol OnionService SocksRun Reload AutoConfig Client
begin

text \<open>
  A verification development for go-tor, a Tor client in Go.

  \<^bold>\<open>The program.\<close> A client fetches the consensus (pkg/directory), selects a path of three
  relays with persistent guards (pkg/path), connects to the first one over TLS
  (pkg/connection, pkg/protocol, pkg/pool) and builds a circuit (pkg/circuit). A circuit
  carries relay cells (pkg/cell) in onion layers (pkg/crypto), with flow-control windows,
  running digests and replay protection; streams (pkg/stream) run over it, and circuits are
  pooled by isolation key (pkg/pool). Applications connect through the SOCKS server (pkg/socks),
  which takes a circuit from the pool for every connection. pkg/onion finds and contacts onion services and hosts
  them. pkg/errors gives the error chain, the retry loops and the circuit breaker. The modelled packages call one another as the imports below do.

  \<^bold>\<open>Conventions.\<close> A struct is a record with prefixed fields, an enumeration a datatype with a
  constructor for the other integers, an error a value of a sum or an option. Fixed-width
  integers are words where the code can wrap (cell lengths, circuit and stream IDs, sequence
  numbers, TTLs, the reply lengths), and int where the code uses int. Byte slices and
  strings are lists; a slice expression that can go out of range is an option. Pointers that
  are shared (circuits and connections in the pools, relays in the consensus parser) are references
  into an explicit heap or table. time.Now(), random bytes, the network, the hash functions,
  curve25519, HKDF, AES and X.509 parsing are arguments; each random draw has its own. A mutex
  makes an operation one step; goroutines are interleavings of steps. Log lines are left out.

  \<^bold>\<open>Text.\<close> strings.Fields, strings.TrimSpace, strings.ToLower and strings.ToUpper (str_fields,
  trim_space, to_lower and the upper-case function of Control) are modelled for ASCII text. Go's
  also split and trim at the white space of Unicode beyond ASCII and map letters beyond ASCII, so
  the parsers of the configuration file, of control lines, of the consensus and of descriptors
  are exact for ASCII input; the theorem on saved configurations asks for it.

  \<^bold>\<open>The theories.\<close>
  \<^item> GoPrelude: machine types, big-endian accessors, readers and writers that may fail, the
    framing interface \<open>frame_codec\<close> and the interface \<open>op_system\<close> of a component whose
    operations keep an invariant.
  \<^item> Conversion: pkg/security (conversion.go, helpers.go).
  \<^item> Cell, RelayCell: pkg/cell/cell.go and relay.go. Encode and decode are inverse on streams
    of cells, decoding is exact, no slice goes out of range; \<open>frame_codec\<close> is interpreted on
    the two functions of cell.go.
  \<^item> Replay: pkg/cell/replay.go on 64-bit words, with the invariant of a direction, a bound on
    its memory, and the refinement of the automatic mode to a list of recent digests
    (interface \<open>replay_guard\<close>).
  \<^item> Isolation: pkg/circuit/isolation.go. The pool's key separates what Equals separates.
  \<^item> Crypto: pkg/crypto/crypto.go. A cipher object is a keystream and a position; KDF-TOR; the
    ntor client against parameters for the curve and HKDF.
  \<^item> Extension: pkg/circuit/extension.go. The handshake completes, is used once, and its
    reply parser can be made to panic.
  \<^item> Circuit, CircuitFlow, CircuitManager: pkg/circuit/circuit.go. Onion layers cancel, both
    windows are bounded over runs of interleaved operations, from the construction of the circuit
    through its hops and its connection, what SendRelayCell sends decodes
    at the other end, immediate replays are refused, and the manager's search for an ID ends.
  \<^item> Dns: pkg/circuit/dns.go, with the parser of RELAY_RESOLVED.
  \<^item> Stream: pkg/stream/stream.go. A stream is a bounded FIFO; stream IDs repeat.
  \<^item> CircuitPool: pkg/pool/circuit_pool.go over a heap of circuits. Isolated traffic is kept
    apart over every run of clients and of the prebuilding loop.
  \<^item> Errors, Breaker: pkg/errors. The exact number of calls of the retry loop, and when the
    breaker opens and how many requests it lets through when half open.
  \<^item> Directory, PathSelection: pkg/directory/directory.go, pkg/path/guards.go and path.go. What
    the parser lists for every sequence of lines, that its relays never have keys, the bound
    and distinctness of the guards, and what a selected path consists of.
  \<^item> Connection, ConnRetry, ConnectionPool, Protocol: pkg/connection/connection.go and retry.go,
    pkg/pool/connection_pool.go, pkg/protocol/protocol.go. A closed connection stays closed,
    pinning is without effect, the delays of reconnecting, exclusive use of pooled
    connections, and version negotiation.
  \<^item> Builder: pkg/circuit/builder.go, on the manager, the path and the connection.
  \<^item> BaseEncoding: base32 and base64 as the standard library has them, with their round trips.
  \<^item> OnionAddress, OnionDescriptor, OnionParser, OnionCert: pkg/onion/onion.go up to EncodeDescriptor.
    Parsing accepts exactly the encoded addresses, the descriptor cache refines the last Put,
    what a descriptor keeps when it is encoded and parsed, the exact layout of certificates,
    and what an accepted descriptor is backed by.
  \<^item> HSDir, Rendezvous: the rest of onion.go. The selected directories are the closest ones, a
    fetch follows its plan of requests, an INTRODUCE1 cell can be opened, and what a connection
    does in which order.
  \<^item> NetAddr: the functions of package net that the code calls on addresses.
  \<^item> Socks, SocksServer, SocksRun: pkg/socks/socks.go. The handshake and the request parser accept
    exactly what they should; what a CONNECT gets; over every interleaving of the handlers, which
    are cut at the pool's Get, the creation of the stream and its opening, the
    connection limit holds, a circuit has one user at a time, and the CONNECTs of users whose
    name digests differ are kept apart; resolutions share circuits, as the code has it.
  \<^item> Config, Torrc, Reload: pkg/config. The two validators agree, a saved configuration loads
    again, an accepted path stays below its directory, and reloading keeps a configuration valid
    and changes the fields of the map ReloadableFields only.
  \<^item> AutoConfig: the default directories and ports of pkg/autoconfig.
  \<^item> Control: pkg/control. A connection is an automaton over its own lines, events go only to
    connections that authenticated and asked for them, and GETINFO answers exactly.
  \<^item> ExchangeSort, Metrics, Health: pkg/metrics and pkg/health. A percentile is an order statistic of
    the last 1000 observations (interface \<open>exchange_sort\<close>, which the directory selection shares),
    and the overall health is the worst of the components.
  \<^item> Client: pkg/client/client.go, the composition of selector, builder, manager, pool, metrics
    and events. Over every run maintenance lists and closes exactly the circuits it should.
  \<^item> OnionService: pkg/onion/service.go. The invariant of a hosted service, what its descriptor
    is worth to it and to a client, and the life of its maintenance loops.

  \<^bold>\<open>Invariants and runs.\<close> Each stateful component has a step function over its operations and
  an invariant that is shown to be kept by a single step; interpreting \<open>op_system\<close> on the two
  gives the invariant over all runs. The properties are stated over runs from the
  constructor's state, so they rest on no assumption about the state.

  \<^bold>\<open>Bounds and termination.\<close> Loops are structural recursions wherever the code's loop consumes
  a list. The search of CreateCircuit and the block loop of DeriveKey may not end by their
  shape; they are partial functions into option, proved to return (the search visits each of
  the 2 ^ 32 - 1 IDs at most once, the derivation adds a non-empty block each time). Retry
  loops recurse on the number of attempts left, MaxAttempts + 1 at the start, as in the code.
  The replay properties assume only that a run is too short to wrap the 64-bit counter.

  \<^bold>\<open>What the development found.\<close> Where the code does not do what it means to do the behaviour
  is stated as it is: the link handshake never completes, a built circuit cannot send, genuine
  relay cells are not recognised, pinning has no effect, a malformed router entry repeats the
  relay before it, stream IDs are reused, oversize cells desynchronise the receiver, and a
  relay can crash the client with a length field. A published onion descriptor cannot be
  verified, an introduction point can be appended to a signed one, the rendezvous accepts any
  reply, the introduction circuit leads nowhere, and Stop leaves the maintenance loop running.
  The SOCKS server cannot connect to IPv6 addresses and opens NAME.ONION at an exit relay. A
  reload turns circuit isolation off, a timeout below a second is saved as one that is refused,
  and a subscribed control connection is closed after 30 seconds of silence. The client gives up
  when its third initial build fails, and its fallback hands out circuits of isolated users.

  \<^bold>\<open>Not modelled.\<close> float64 delays, percentages and jitter (parameters); JSON, HTTP, TLS and
  file I/O; logging, tracing, the HTTP server of the metrics and benchmarks, which observe the
  program and do not steer it; the goroutines and timers with which the client starts the
  components; the waiting helpers of pkg/circuit and pkg/stream; the command-line programs
  and examples.
\<close>

end
